(* ===== verification/Prelude.thy ===== *)
theory Prelude
  imports Main "HOL-Library.Word" "HOL-Library.Char_ord" "HOL-Library.List_Lexorder"
    "HOL-Library.Multiset"
begin

section \<open>Shared vocabulary of the development\<close>

text \<open>
  Types, combinators and generic lemmas the component theories share:
  \<^item> bytes, Go strings and the conversions between them;
  \<^item> \<open>ebind\<close>, the sequencing of fallible steps (\<open>if err != nil \<close>\<open>return err\<close>),
    on results \<open>'e + 'a\<close>, with the congruence rule that recursive definitions need;
  \<^item> the big-endian integer conversions of \<open>encoding/binary\<close>, at any width.
\<close>

unbundle bit_operations_syntax

type_synonym byte = "8 word"
type_synonym bytes = "byte list"

named_theorems result_simps \<open>equations and inversions for fallible steps\<close>
named_theorems wire_simps \<open>evaluation of wire encodings\<close>

subsection \<open>Fallible steps\<close>

definition ebind :: "'e + 'a \<Rightarrow> ('a \<Rightarrow> 'e + 'b) \<Rightarrow> 'e + 'b" where
  "ebind m f = (case m of Inl e \<Rightarrow> Inl e | Inr x \<Rightarrow> f x)"

definition guard :: "bool \<Rightarrow> 'e \<Rightarrow> 'e + unit" where
  "guard ok e = (if ok then Inr () else Inl e)"

lemma ebind_simps [simp, result_simps]:
  "ebind (Inl e) f = Inl e"
  "ebind (Inr x) f = f x"
  by (simp_all add: ebind_def)

lemma ebind_Inr_iff [result_simps]: "ebind m f = Inr y \<longleftrightarrow> (\<exists>x. m = Inr x \<and> f x = Inr y)"
  by (cases m) auto

lemma ebind_Inl_iff [result_simps]:
  "ebind m f = Inl e \<longleftrightarrow> m = Inl e \<or> (\<exists>x. m = Inr x \<and> f x = Inl e)"
  by (cases m) auto

lemma ebind_cong [fundef_cong]:
  "m = m' \<Longrightarrow> (\<And>x. m' = Inr x \<Longrightarrow> f x = f' x) \<Longrightarrow> ebind m f = ebind m' f'"
  by (cases m') auto

lemma ebind_assoc: "ebind (ebind m f) g = ebind m (\<lambda>x. ebind (f x) g)"
  by (cases m) auto

lemma ebind_Inr_right [simp]: "ebind m Inr = m"
  by (cases m) simp_all

lemma guard_simps [simp, result_simps]:
  "guard True e = Inr ()"
  "guard False e = Inl e"
  by (simp_all add: guard_def)

lemma guard_Inr_iff [simp, result_simps]: "guard ok e = Inr u \<longleftrightarrow> ok"
  by (simp add: guard_def)

lemma guard_Inl_iff [result_simps]: "guard ok e = Inl e' \<longleftrightarrow> \<not> ok \<and> e' = e"
  by (auto simp: guard_def)

text \<open>\<open>map_err\<close> wraps the error of a step (\<open>fmt.Errorf("...: %w", err)\<close>).\<close>

definition map_err :: "('e \<Rightarrow> 'f) \<Rightarrow> 'e + 'a \<Rightarrow> 'f + 'a" where
  "map_err f m = (case m of Inl e \<Rightarrow> Inl (f e) | Inr x \<Rightarrow> Inr x)"

lemma map_err_simps [simp, result_simps]:
  "map_err f (Inl e) = Inl (f e)"
  "map_err f (Inr x) = Inr x"
  "map_err f m = Inr x \<longleftrightarrow> m = Inr x"
  by (auto simp: map_err_def split: sum.splits)

text \<open>
  \<open>for_each f xs s\<close> is the loop \<open>for _, x := range xs\<close> whose body can fail: it threads the state
  through the elements and stops at the first error.
\<close>

fun for_each :: "('a \<Rightarrow> 's \<Rightarrow> 'e + 's) \<Rightarrow> 'a list \<Rightarrow> 's \<Rightarrow> 'e + 's" where
  "for_each f [] s = Inr s"
| "for_each f (x # xs) s = ebind (f x s) (for_each f xs)"

lemma for_each_Nil_fun [simp]: "for_each f [] = Inr"
  by (rule ext) simp

lemma for_each_cong [fundef_cong]:
  "xs = ys \<Longrightarrow> s = t \<Longrightarrow> (\<And>x s. x \<in> set ys \<Longrightarrow> f x s = g x s) \<Longrightarrow> for_each f xs s = for_each g ys t"
proof (induction ys arbitrary: xs s t)
  case Nil
  then show ?case by simp
next
  case (Cons y ys)
  have "for_each f ys u = for_each g ys u" for u
    using Cons.IH [of ys u u] Cons.prems(3) by simp
  with Cons.prems show ?case by (simp add: ebind_def split: sum.splits)
qed

lemma for_each_append: "for_each f (xs @ ys) s = ebind (for_each f xs s) (for_each f ys)"
  by (induction xs arbitrary: s) (simp_all add: ebind_def split: sum.splits)

lemma for_each_map: "for_each f (map g xs) s = for_each (\<lambda>x. f (g x)) xs s"
  by (induction xs arbitrary: s) (simp_all add: ebind_def split: sum.splits)

text \<open>Elements two at a time: \<open>(args[0], args[1]), (args[2], args[3]), ...\<close>\<close>

fun pairs_of :: "'a list \<Rightarrow> ('a \<times> 'a) list" where
  "pairs_of (x # y # zs) = (x, y) # pairs_of zs"
| "pairs_of _ = []"

lemma length_pairs_of [simp]: "length (pairs_of xs) = length xs div 2"
  by (induction xs rule: pairs_of.induct) auto

lemma pairs_of_mem: "(x, y) \<in> set (pairs_of xs) \<Longrightarrow> x \<in> set xs \<and> y \<in> set xs"
  by (induction xs rule: pairs_of.induct) auto

subsection \<open>Strings and bytes\<close>

text \<open>
  A Go string is a sequence of bytes. It is modelled as \<^typ>\<open>string\<close>, whose characters are
  bytes; \<open>bytes_of\<close> and \<open>string_of\<close> are the conversions \<open>[]byte(s)\<close> and \<open>string(b)\<close>.
\<close>

definition bytes_of :: "string \<Rightarrow> bytes" where
  "bytes_of s = map (\<lambda>c. word_of_nat (of_char c)) s"

definition string_of :: "bytes \<Rightarrow> string" where
  "string_of b = map (\<lambda>w. char_of (unat w)) b"

lemma length_bytes_of [simp]: "length (bytes_of s) = length s"
  by (simp add: bytes_of_def)

lemma length_string_of [simp]: "length (string_of b) = length b"
  by (simp add: string_of_def)

lemma bytes_of_Nil_iff [simp]: "bytes_of s = [] \<longleftrightarrow> s = []" "string_of b = [] \<longleftrightarrow> b = []"
  by (simp_all add: bytes_of_def string_of_def)

lemma string_of_append [simp]: "string_of (a @ b) = string_of a @ string_of b"
  by (simp add: string_of_def)

lemma byte_less: "unat (b :: byte) < 256"
  using unsigned_less [of b] by simp

lemma string_of_bytes_of [simp]: "string_of (bytes_of s) = s"
proof -
  have "char_of (unat (word_of_nat (of_char c) :: byte)) = c" for c :: char
  proof -
    have "(of_char c :: nat) < 256" by simp
    then show ?thesis by (simp add: unat_of_nat)
  qed
  then show ?thesis by (simp add: string_of_def bytes_of_def o_def)
qed

lemma bytes_of_string_of [simp]: "bytes_of (string_of b) = b"
proof -
  have "word_of_nat (of_char (char_of (unat w) :: char)) = w" for w :: byte
  proof -
    have "unat w < 256" by (rule byte_less)
    then show ?thesis by simp
  qed
  then show ?thesis by (simp add: string_of_def bytes_of_def o_def)
qed

lemma bytes_of_inject [simp]: "bytes_of s = bytes_of t \<longleftrightarrow> s = t"
  by (metis string_of_bytes_of)

lemma string_of_inject [simp]: "string_of a = string_of b \<longleftrightarrow> a = b"
  by (metis bytes_of_string_of)

subsection \<open>Big-endian integers\<close>

text \<open>
  \<open>be_bytes k n\<close> are the \<open>k\<close> low bytes of \<open>n\<close>, most significant first (the effect of
  \<open>binary.BigEndian.PutUint16/32/64\<close> for \<open>k = 2, 4, 8\<close>, which drop higher bits), and
  \<open>be_val\<close> reads a byte list of any length back (\<open>binary.BigEndian.Uint16/32/64\<close>).
\<close>

primrec be_bytes :: "nat \<Rightarrow> nat \<Rightarrow> bytes" where
  "be_bytes 0 n = []"
| "be_bytes (Suc k) n = word_of_nat (n div 256 ^ k) # be_bytes k n"

primrec be_val :: "bytes \<Rightarrow> nat" where
  "be_val [] = 0"
| "be_val (b # bs) = unat b * 256 ^ length bs + be_val bs"

lemma length_be_bytes [simp]: "length (be_bytes k n) = k"
  by (induction k) auto

lemma be_val_be_bytes: "be_val (be_bytes k n) = n mod 256 ^ k"
proof (induction k)
  case 0
  then show ?case by simp
next
  case (Suc k)
  have "n mod (256 ^ k * 256) = 256 ^ k * (n div 256 ^ k mod 256) + n mod 256 ^ k"
    by (simp only: mod_mult2_eq)
  then show ?case by (simp add: Suc.IH unat_of_nat mult.commute)
qed

lemma be_val_bound: "be_val bs < 256 ^ length bs"
proof (induction bs)
  case Nil
  then show ?case by simp
next
  case (Cons b bs)
  have "unat b \<le> 255" using byte_less [of b] by simp
  then have "unat b * 256 ^ length bs \<le> 255 * 256 ^ length bs" by (rule mult_le_mono1)
  with Cons.IH have "unat b * 256 ^ length bs + be_val bs < 255 * 256 ^ length bs + 256 ^ length bs"
    by linarith
  then show ?case by simp
qed

lemma be_bytes_be_val:
  assumes "k = length bs"
  shows "be_bytes k (be_val bs + m * 256 ^ k) = bs"
  using assms
proof (induction bs arbitrary: k m)
  case Nil
  then show ?case by simp
next
  case (Cons b bs)
  let ?k = "length bs"
  have lt: "be_val bs < 256 ^ ?k" by (rule be_val_bound)
  have eq: "be_val (b # bs) + m * 256 ^ Suc ?k = be_val bs + (unat b + m * 256) * 256 ^ ?k"
    by (simp add: algebra_simps)
  have d: "(be_val bs + (unat b + m * 256) * 256 ^ ?k) div 256 ^ ?k = unat b + m * 256"
    using lt by simp
  have w: "word_of_nat (unat b + m * 256) = b"
    proof -
    have z: "(256 :: byte) = 0" by simp
    show ?thesis by (simp add: z)
  qed
  show ?case
    unfolding Cons.prems list.size add_0_right add_Suc_right eq be_bytes.simps d w
    using Cons.IH [of ?k "unat b + m * 256"] by simp
qed

corollary be_bytes_of_val [simp]: "length bs = k \<Longrightarrow> be_bytes k (be_val bs) = bs"
  using be_bytes_be_val [of k bs 0] by simp

lemma be_bytes_inj:
  "n < 256 ^ k \<Longrightarrow> m < 256 ^ k \<Longrightarrow> be_bytes k n = be_bytes k m \<longleftrightarrow> n = m"
  by (metis be_val_be_bytes mod_less)

lemma be_bytes_rec: "0 < k \<Longrightarrow> be_bytes k n = word_of_nat (n div 256 ^ (k - 1)) # be_bytes (k - 1) n"
  by (cases k) simp_all

lemma be_bytes_numeral [wire_simps]:
  "be_bytes 2 n = [word_of_nat (n div 256), word_of_nat n]"
  "be_bytes 4 n = [word_of_nat (n div 256 ^ 3), word_of_nat (n div 256 ^ 2), word_of_nat (n div 256), word_of_nat n]"
  "be_bytes 8 n = [word_of_nat (n div 256 ^ 7), word_of_nat (n div 256 ^ 6), word_of_nat (n div 256 ^ 5),
     word_of_nat (n div 256 ^ 4), word_of_nat (n div 256 ^ 3), word_of_nat (n div 256 ^ 2),
     word_of_nat (n div 256), word_of_nat n]"
  by (simp_all add: be_bytes_rec)

subsection \<open>Lists\<close>

lemma take_append_exact [simp]: "length xs = n \<Longrightarrow> take n (xs @ ys) = xs"
  by simp

lemma drop_append_exact [simp]: "length xs = n \<Longrightarrow> drop n (xs @ ys) = ys"
  by simp

lemma sort_key_map_fst: "map fst (sort_key fst kvs) = sort (map fst kvs)"
  by (rule properties_for_sort [symmetric]) simp_all

subsection \<open>Totals over a map\<close>

text \<open>The sum of a measure over the values of a map with finite domain, under update and deletion.\<close>

definition map_total :: "('v \<Rightarrow> int) \<Rightarrow> ('k \<rightharpoonup> 'v) \<Rightarrow> int" where
  "map_total f m = (\<Sum>k \<in> dom m. f (the (m k)))"

definition old_value :: "('v \<Rightarrow> int) \<Rightarrow> 'v option \<Rightarrow> int" where
  "old_value f v = (case v of None \<Rightarrow> 0 | Some x \<Rightarrow> f x)"

lemma old_value_simps [simp]: "old_value f None = 0" "old_value f (Some x) = f x"
  by (simp_all add: old_value_def)

lemma map_total_empty [simp]: "map_total f Map.empty = 0"
  by (simp add: map_total_def)

lemma map_total_del:
  assumes "finite (dom m)"
  shows "map_total f (m(k := None)) = map_total f m - old_value f (m k)"
proof (cases "m k")
  case None
  then have "m(k := None) = m" by auto
  with None show ?thesis by simp
next
  case (Some x)
  then have "k \<in> dom m" by auto
  have "map_total f (m(k := None)) = (\<Sum>j \<in> dom m - {k}. f (the (m j)))"
    unfolding map_total_def by (rule sum.cong) auto
  also have "\<dots> = map_total f m - f x"
    using assms \<open>k \<in> dom m\<close> Some by (simp add: map_total_def sum_diff1)
  finally show ?thesis using Some by simp
qed

lemma map_total_upd:
  assumes "finite (dom m)"
  shows "map_total f (m(k \<mapsto> x)) = map_total f m - old_value f (m k) + f x"
proof -
  have "map_total f (m(k \<mapsto> x)) = f x + (\<Sum>j \<in> dom m - {k}. f (the (m j)))"
    using assms by (simp add: map_total_def sum.insert_remove)
  also have "(\<Sum>j \<in> dom m - {k}. f (the (m j))) = map_total f (m(k := None))"
    unfolding map_total_def by (rule sum.cong) auto
  finally show ?thesis unfolding map_total_del [OF assms] by linarith
qed

lemma map_total_nonneg:
  "(\<And>k v. m k = Some v \<Longrightarrow> 0 \<le> f v) \<Longrightarrow> 0 \<le> map_total f m"
  unfolding map_total_def by (rule sum_nonneg) auto

lemma map_total_ge:
  assumes "finite (dom m)" and "\<And>k v. m k = Some v \<Longrightarrow> 0 \<le> f v" and "m k = Some x"
  shows "f x \<le> map_total f m"
proof -
  have "0 \<le> map_total f (m(k := None))" by (rule map_total_nonneg) (auto split: if_splits intro: assms(2))
  with map_total_del [OF assms(1), of f k] assms(3) show ?thesis by simp
qed

lemma old_value_le:
  assumes "finite (dom m)" and "\<And>v. 0 \<le> f v"
  shows "old_value f (m k) \<le> map_total f m"
  using assms by (cases "m k") (auto intro: map_total_nonneg map_total_ge)

end
