(* ===== verification/Interfaces.thy ===== *)
theory Interfaces
  imports Prelude
begin

section \<open>Interfaces between the components\<close>

text \<open>
  Contracts that several components share, stated once as locales:
  \<^item> \<open>event_machine\<close>: a component driven by events, with an invariant every event keeps; its
    client lemma lifts the invariant to every run;
  \<^item> \<open>reader\<close>: a parser over a byte string that returns the unread suffix; its client lemmas
    are about the loop \<open>read_items\<close> that the decoders run over a declared item count;
  \<^item> \<open>format\<close>: a reader together with the printer it inverts.
\<close>

subsection \<open>Event-driven components\<close>

locale event_machine =
  fixes step :: "'ev \<Rightarrow> 's \<Rightarrow> 's"
    and inv :: "'s \<Rightarrow> bool"
  assumes step_inv: "inv s \<Longrightarrow> inv (step ev s)"
begin

lemma run_inv: "inv s \<Longrightarrow> inv (fold step evs s)"
proof (induction evs arbitrary: s)
  case Nil
  then show ?case by simp
next
  case (Cons ev evs)
  from Cons.prems have "inv (step ev s)" by (rule step_inv)
  then show ?case by (simp add: Cons.IH)
qed

lemma run_inv_prefix:
  "inv s \<Longrightarrow> evs = pre @ post \<Longrightarrow> inv (fold step pre s)"
  by (rule run_inv)

end

subsection \<open>Readers of a byte string\<close>

text \<open>
  A position \<open>offset\<close> in a byte slice \<open>data\<close> is represented by the suffix \<open>data[offset:]\<close>. The
  state \<open>'st\<close> is what the reader threads along (the remaining item budget).
\<close>

fun read_items ::
  "(bytes \<Rightarrow> 'st \<Rightarrow> 'e + ('a \<times> bytes \<times> 'st)) \<Rightarrow> nat \<Rightarrow> bytes \<Rightarrow> 'st \<Rightarrow> 'e + ('a list \<times> bytes \<times> 'st)"
where
  "read_items rd 0 data s = Inr ([], data, s)"
| "read_items rd (Suc n) data s =
     ebind (rd data s) (\<lambda>(x, rest, s').
       ebind (read_items rd n rest s') (\<lambda>(xs, rest', s''). Inr (x # xs, rest', s'')))"

lemma read_items_cong [fundef_cong]:
  "n = m \<Longrightarrow> data = data' \<Longrightarrow> s = s' \<Longrightarrow> (\<And>x t. f x t = g x t) \<Longrightarrow>
   read_items f n data s = read_items g m data' s'"
  by (metis ext)

lemma read_items_length: "read_items rd n data s = Inr (xs, rest, s') \<Longrightarrow> length xs = n"
  by (induction n arbitrary: data s xs) (fastforce simp: ebind_Inr_iff)+

locale reader =
  fixes rd :: "bytes \<Rightarrow> 'st \<Rightarrow> 'e + ('a \<times> bytes \<times> 'st)"
  assumes rd_suffix: "rd data s = Inr (x, rest, s') \<Longrightarrow> \<exists>p. data = p @ rest"
begin

lemma items_suffix: "read_items rd n data s = Inr (xs, rest, s') \<Longrightarrow> \<exists>p. data = p @ rest"
proof (induction n arbitrary: data s xs)
  case 0
  then show ?case by simp
next
  case (Suc n)
  then obtain x r s1 ys where rd: "rd data s = Inr (x, r, s1)"
    and its: "read_items rd n r s1 = Inr (ys, rest, s')"
    by (fastforce simp: ebind_Inr_iff)
  from Suc.IH [OF its] rd_suffix [OF rd] show ?case by (metis append.assoc)
qed

lemma items_no_longer: "read_items rd n data s = Inr (xs, rest, s') \<Longrightarrow> length rest \<le> length data"
  using items_suffix [of n data s xs rest s'] by auto

end

text \<open>
  A format adds the printer: what the reader accepts is exactly a printed value (\<open>rd_sound\<close>),
  and it accepts every printed value whose cost the state can pay (\<open>rd_complete\<close>). The state
  evolves by \<open>pay\<close>, which the reader and the specification share.
\<close>

locale format = reader rd
  for rd :: "bytes \<Rightarrow> 'st \<Rightarrow> 'e + ('a \<times> bytes \<times> 'st)" +
  fixes pr :: "'a \<Rightarrow> bytes"
    and pay :: "'a \<Rightarrow> 'st \<Rightarrow> 'st option"
  assumes rd_sound: "rd data s = Inr (x, rest, s') \<Longrightarrow> data = pr x @ rest \<and> pay x s = Some s'"
    and rd_complete: "pay x s = Some s' \<Longrightarrow> rd (pr x @ rest) s = Inr (x, rest, s')"
begin

lemma rd_iff: "rd data s = Inr (x, rest, s') \<longleftrightarrow> data = pr x @ rest \<and> pay x s = Some s'"
  using rd_sound rd_complete by blast

lemma unique_print: "pay x s = Some s1 \<Longrightarrow> pay y s = Some s2 \<Longrightarrow> pr x = pr y \<Longrightarrow> x = y"
  using rd_complete [of x s s1 "[]"] rd_complete [of y s s2 "[]"] by simp

fun pay_all :: "'a list \<Rightarrow> 'st \<Rightarrow> 'st option" where
  "pay_all [] s = Some s"
| "pay_all (x # xs) s = Option.bind (pay x s) (pay_all xs)"

lemma items_complete:
  "pay_all xs s = Some s' \<Longrightarrow>
   read_items rd (length xs) (concat (map pr xs) @ rest) s = Inr (xs, rest, s')"
proof (induction xs arbitrary: s)
  case Nil
  then show ?case by simp
next
  case (Cons x xs)
  then obtain s1 where "pay x s = Some s1" and "pay_all xs s1 = Some s'"
    by (auto simp: bind_eq_Some_conv)
  with Cons.IH show ?case by (simp add: rd_complete)
qed

lemma items_sound:
  "read_items rd n data s = Inr (xs, rest, s') \<Longrightarrow>
   data = concat (map pr xs) @ rest \<and> length xs = n \<and> pay_all xs s = Some s'"
proof (induction n arbitrary: data s xs)
  case 0
  then show ?case by simp
next
  case (Suc n)
  then obtain x r s1 ys where rd: "rd data s = Inr (x, r, s1)"
    and its: "read_items rd n r s1 = Inr (ys, rest, s')" and xs: "xs = x # ys"
    by (fastforce simp: ebind_Inr_iff)
  from Suc.IH [OF its] rd_sound [OF rd] xs show ?case by simp
qed

lemma items_iff:
  "read_items rd n data s = Inr (xs, rest, s') \<longleftrightarrow>
   data = concat (map pr xs) @ rest \<and> length xs = n \<and> pay_all xs s = Some s'"
  using items_sound items_complete by blast

end

end
