(* ===== verification/WireEncode.thy ===== *)
theory WireEncode
  imports Interfaces
begin

section \<open>The native value encoder\<close>

text \<open>
  The encoder of \<open>src/native_codec_wire.go\<close>, \<open>src/native_codec_reflect.go\<close> and
  \<open>src/native_codec_kv_wire.go\<close>: the dynamic values a command carries, the bounded output buffer,
  the item and depth budget, and one definition per writer function. A Go value of type \<open>any\<close> is
  a \<open>goval\<close>; a container that the encoder identifies by address carries that identity, so the
  reference-cycle check of \<open>enter\<close> is the code's.
\<close>

definition nativeMaxEncodeDepth :: nat where "nativeMaxEncodeDepth = 64"
definition nativeMaxContainerItems :: nat where "nativeMaxContainerItems = 1000000"
definition nativeMaxFrameBytes :: nat where "nativeMaxFrameBytes = 128 * 1024 * 1024"
definition maxUint32 :: nat where "maxUint32 = 2 ^ 32 - 1"

lemmas native_limits = nativeMaxEncodeDepth_def nativeMaxContainerItems_def
  nativeMaxFrameBytes_def maxUint32_def

text \<open>The errors of the value codec, one constructor per message of the source.\<close>

datatype codec_error =
    EncodeLimit nat                \<comment> \<open>body exceeds the encoding limit\<close>
  | LimitNotPositive
  | EncodeDepth nat
  | EncodeItems nat
  | ReferenceCycle
  | BinaryTooLarge
  | ArrayTooLarge
  | MapTooLarge
  | MapKeyTooLarge
  | AggregateLimit string          \<comment> \<open>container exceeds the aggregate item limit\<close>
  | MSetLengths nat nat
  | MSetOddArgs
  | KeyValueLengths string nat nat
  | MapKeyNotString
  | DuplicateTextualKey string
  | UnsupportedType
  | CodecFailure string            \<comment> \<open>an error returned by the caller's codec\<close>

type_synonym ident = "nat option"

text \<open>
  The dynamic types that \<open>writeNativeValue\<close> distinguishes. \<open>int\<close> and \<open>uint\<close> are 64 bits wide.
  \<open>VFloat\<close> holds the bits of a \<open>float64\<close>. \<open>VArray\<close> is a slice or array whose elements are written
  one by one, \<open>VMap\<close> a map with string keys given by its entries, \<open>VRMap\<close> a map that reaches
  \<open>writeNativeReflect\<close>, whose keys are reduced to text (\<open>None\<close> where they are not strings).
  \<open>VStringer\<close> is a value written through its \<open>String\<close> method. \<open>VDeferred\<close> is a value whose
  encoding was postponed (\<open>nativeDeferredCodecValue\<close>, \<open>nativeJSONCommandArg\<close>): it holds what encoding
  it returns, since the codec is the caller's.
\<close>

datatype goval =
    VNil
  | VBool bool
  | VInt "64 word" | VInt8 "8 word" | VInt16 "16 word" | VInt32 "32 word"
  | VUint "64 word" | VUint8 "8 word" | VUint16 "16 word" | VUint32 "32 word"
  | VFloat "64 word"
  | VString string
  | VBytes bytes
  | VArray ident "goval list"
  | VMap ident "(string \<times> goval) list"
  | VRMap ident "(string option \<times> goval) list"
  | VNilPtr
  | VPtr nat goval
  | VStringer ident string
  | VUnsupported
  | VDeferred "codec_error + goval"
  | VMGet ident "goval list" "string list option"
  | VMSet "goval list" "(string list \<times> goval list) option"
  | VKeyValueCommand string "string list" "goval list"
  | VKeyCommand string ident "string list"

subsection \<open>The bounded buffer\<close>

text \<open>
  \<open>nativeEncodeBuffer\<close> and the \<open>remaining\<close> counter of \<open>nativeEncodeState\<close>. The set \<open>visiting\<close> of
  the state is scoped by \<open>enter\<close>/\<open>leave\<close> and is passed down as an argument instead.
\<close>

record encoder =
  ebuf :: bytes
  eremaining :: int

definition ensure_size :: "nat \<Rightarrow> nat \<Rightarrow> encoder \<Rightarrow> codec_error + unit" where
  "ensure_size limit n b =
     guard (\<not> (int n > int limit - int (length (ebuf b)))) (EncodeLimit limit)"

definition writeBytes :: "nat \<Rightarrow> bytes \<Rightarrow> encoder \<Rightarrow> codec_error + encoder" where
  "writeBytes limit bs b =
     ebind (ensure_size limit (length bs) b) (\<lambda>_. Inr (b\<lparr>ebuf := ebuf b @ bs\<rparr>))"

definition writeByte :: "nat \<Rightarrow> byte \<Rightarrow> encoder \<Rightarrow> codec_error + encoder" where
  "writeByte limit v b = ebind (ensure_size limit 1 b) (\<lambda>_. Inr (b\<lparr>ebuf := ebuf b @ [v]\<rparr>))"

definition writeString :: "nat \<Rightarrow> string \<Rightarrow> encoder \<Rightarrow> codec_error + encoder" where
  "writeString limit s b =
     ebind (ensure_size limit (length s) b) (\<lambda>_. Inr (b\<lparr>ebuf := ebuf b @ bytes_of s\<rparr>))"

subsection \<open>Entering a value\<close>

definition enter ::
  "nat set \<Rightarrow> ident \<Rightarrow> nat \<Rightarrow> encoder \<Rightarrow> codec_error + (nat set \<times> encoder)" where
  "enter visiting idt depth b =
     (if depth > nativeMaxEncodeDepth then Inl (EncodeDepth nativeMaxEncodeDepth)
      else
        let b' = b\<lparr>eremaining := eremaining b - 1\<rparr> in
        if eremaining b' < 0 then Inl (EncodeItems nativeMaxContainerItems)
        else case idt of
          None \<Rightarrow> Inr (visiting, b')
        | Some i \<Rightarrow>
            if i \<in> visiting then Inl ReferenceCycle
            else Inr (insert i visiting, b'))"

fun nativeEncodeIdentity :: "goval \<Rightarrow> ident" where
  "nativeEncodeIdentity (VArray i _) = i"
| "nativeEncodeIdentity (VMap i _) = i"
| "nativeEncodeIdentity (VRMap i _) = i"
| "nativeEncodeIdentity (VPtr i _) = Some i"
| "nativeEncodeIdentity (VStringer i _) = i"
| "nativeEncodeIdentity _ = None"

definition ensureNativeEncodeContainerBudget :: "string \<Rightarrow> nat \<Rightarrow> encoder \<Rightarrow> codec_error + unit" where
  "ensureNativeEncodeContainerBudget kind cnt b =
     guard (\<not> (int cnt > eremaining b)) (AggregateLimit kind)"

subsection \<open>Scalars, strings and headers\<close>

definition writeNativeInt :: "nat \<Rightarrow> 64 word \<Rightarrow> encoder \<Rightarrow> codec_error + encoder" where
  "writeNativeInt limit v b =
     ebind (writeByte limit 3 b) (writeBytes limit (be_bytes 8 (unat v)))"

definition writeNativeUint :: "nat \<Rightarrow> 64 word \<Rightarrow> encoder \<Rightarrow> codec_error + encoder" where
  "writeNativeUint limit v b =
     (if unat v \<le> 2 ^ 63 - 1 then writeNativeInt limit v b
      else ebind (writeByte limit 8 b) (writeBytes limit (be_bytes 8 (unat v))))"

definition writeNativeFloat :: "nat \<Rightarrow> 64 word \<Rightarrow> encoder \<Rightarrow> codec_error + encoder" where
  "writeNativeFloat limit v b =
     ebind (writeByte limit 7 b) (writeBytes limit (be_bytes 8 (unat v)))"

definition writeNativeContainerHeader ::
  "nat \<Rightarrow> byte \<Rightarrow> nat \<Rightarrow> encoder \<Rightarrow> codec_error + encoder" where
  "writeNativeContainerHeader limit tag cnt b =
     ebind (writeByte limit tag b) (writeBytes limit (be_bytes 4 cnt))"

definition writeNativeBytes :: "nat \<Rightarrow> bytes \<Rightarrow> encoder \<Rightarrow> codec_error + encoder" where
  "writeNativeBytes limit v b =
     (if length v > maxUint32 then Inl BinaryTooLarge
      else ebind (writeNativeContainerHeader limit 4 (length v) b) (writeBytes limit v))"

definition writeNativeString :: "nat \<Rightarrow> string \<Rightarrow> encoder \<Rightarrow> codec_error + encoder" where
  "writeNativeString limit v b =
     (if length v > maxUint32 then Inl BinaryTooLarge
      else ebind (writeNativeContainerHeader limit 4 (length v) b) (writeString limit v))"

definition writeNativeMapKey :: "nat \<Rightarrow> string \<Rightarrow> encoder \<Rightarrow> codec_error + encoder" where
  "writeNativeMapKey limit key b =
     (if length key > maxUint32 then Inl MapKeyTooLarge
      else ebind (writeBytes limit (be_bytes 4 (length key)) b) (writeString limit key))"

definition writeNativeSingleFieldMap :: "nat \<Rightarrow> string \<Rightarrow> encoder \<Rightarrow> codec_error + encoder" where
  "writeNativeSingleFieldMap limit key b =
     ebind (writeNativeContainerHeader limit 6 1 b) (writeNativeMapKey limit key)"

subsection \<open>Reflected maps\<close>

text \<open>
  \<open>sortedNativeReflectMapEntries\<close>: every key must be text, entries are sorted by it, and two
  keys with the same text are refused.
\<close>

fun firstAdjacentDuplicate :: "string list \<Rightarrow> string option" where
  "firstAdjacentDuplicate (x # y # zs) =
     (if x = y then Some y else firstAdjacentDuplicate (y # zs))"
| "firstAdjacentDuplicate _ = None"

definition sortedNativeReflectMapEntries ::
  "(string option \<times> 'v) list \<Rightarrow> codec_error + (string \<times> 'v) list" where
  "sortedNativeReflectMapEntries kvs =
     (if \<exists>kv \<in> set kvs. fst kv = None then Inl MapKeyNotString
      else
        let entries = sort_key fst (map (\<lambda>(k, v). (the k, v)) kvs) in
        case firstAdjacentDuplicate (map fst entries) of
          Some k \<Rightarrow> Inl (DuplicateTextualKey k)
        | None \<Rightarrow> Inr entries)"

subsection \<open>Values\<close>

text \<open>A string key written as a value.\<close>

definition writeNativeStringKey ::
  "nat \<Rightarrow> nat set \<Rightarrow> nat \<Rightarrow> string \<Rightarrow> encoder \<Rightarrow> codec_error + encoder" where
  "writeNativeStringKey limit vis depth key b =
     ebind (enter vis None depth b) (\<lambda>(_, b). writeNativeString limit key b)"

fun deferred_of :: "goval \<Rightarrow> (codec_error + goval) option" where
  "deferred_of (VDeferred r) = Some r"
| "deferred_of _ = None"

text \<open>
  The two halves every container writer shares: check the item budget and write the header, for
  an array (tag 5) and a map (tag 6); and the head of one key/value pair of \<open>MSET\<close>.
\<close>

definition writeArrayHead :: "nat \<Rightarrow> nat \<Rightarrow> encoder \<Rightarrow> codec_error + encoder" where
  "writeArrayHead limit cnt b =
     ebind (ensureNativeEncodeContainerBudget ''array'' cnt b) (\<lambda>_.
       writeNativeContainerHeader limit 5 cnt b)"

definition writeMapHead :: "nat \<Rightarrow> nat \<Rightarrow> encoder \<Rightarrow> codec_error + encoder" where
  "writeMapHead limit cnt b =
     ebind (ensureNativeEncodeContainerBudget ''map'' cnt b) (\<lambda>_.
       writeNativeContainerHeader limit 6 cnt b)"

definition writeKeysField :: "nat \<Rightarrow> nat set \<Rightarrow> ident \<Rightarrow> nat \<Rightarrow> nat \<Rightarrow> string \<Rightarrow> encoder
    \<Rightarrow> codec_error + (nat set \<times> encoder)" where
  \<comment> \<open>\<open>ensure...Budget("map", 1)\<close>, the one-field map head, then entering the field's array\<close>
  "writeKeysField limit vis idt depth cnt name b =
     ebind (ensureNativeEncodeContainerBudget ''map'' 1 b) (\<lambda>_.
     ebind (writeNativeSingleFieldMap limit name b) (\<lambda>b.
     ebind (enter vis idt depth b) (\<lambda>(vis, b).
     ebind (writeArrayHead limit cnt b) (\<lambda>b. Inr (vis, b)))))"

definition writeCommandField :: "nat \<Rightarrow> nat set \<Rightarrow> ident \<Rightarrow> nat \<Rightarrow> string \<Rightarrow> nat \<Rightarrow> encoder
    \<Rightarrow> codec_error + (nat set \<times> encoder)" where
  \<comment> \<open>the map \<open>{"command": cmd, "args": [\<close> that both typed command payloads start with\<close>
  "writeCommandField limit vis idt depth cmd cnt b =
     ebind (writeMapHead limit 2 b) (\<lambda>b.
     ebind (writeNativeMapKey limit ''command'' b) (\<lambda>b.
     ebind (writeNativeStringKey limit vis depth cmd b) (\<lambda>b.
     ebind (writeNativeMapKey limit ''args'' b) (\<lambda>b.
     ebind (enter vis idt depth b) (\<lambda>(vis, b).
     ebind (writeArrayHead limit cnt b) (\<lambda>b. Inr (vis, b)))))))"

definition mset_count :: "goval list \<Rightarrow> (string list \<times> goval list) option \<Rightarrow> codec_error + nat" where
  "mset_count args kv =
     (case kv of
        Some (ks, vs) \<Rightarrow>
          if length ks \<noteq> length vs then Inl (MSetLengths (length ks) (length vs))
          else Inr (length ks)
      | None \<Rightarrow>
          if length args mod 2 \<noteq> 0 then Inl MSetOddArgs else Inr (length args div 2))"

lemma size_mem_list: "v \<in> set vs \<Longrightarrow> size v < Suc (size_list size vs)"
  by (induction vs) auto

lemma size_mem_zip: "(k, v) \<in> set (zip ks vs) \<Longrightarrow> size v < Suc (size_list size vs)"
  by (rule size_mem_list) (rule set_zip_rightD)

lemma size_mem_pairs:
  "(x, y) \<in> set (pairs_of vs) \<Longrightarrow> size x < Suc (size_list size vs) \<and> size y < Suc (size_list size vs)"
  by (blast dest: pairs_of_mem intro: size_mem_list)

lemma size_mem_entries:
  "(k, v) \<in> set kvs \<Longrightarrow> size v < Suc (size_list (size_prod f size) kvs)"
  by (induction kvs) auto

function (sequential) writeNativeValue ::
    "nat \<Rightarrow> nat set \<Rightarrow> nat \<Rightarrow> goval \<Rightarrow> encoder \<Rightarrow> codec_error + encoder" where
  "writeNativeValue L vis d value b =
     (case deferred_of value of
        Some (Inl e) \<Rightarrow> Inl e
      | Some (Inr v) \<Rightarrow> writeNativeValue L vis d v b
      | None \<Rightarrow>
     ebind (enter vis (nativeEncodeIdentity value) d b) (\<lambda>(vis, b).
     case value of
       VNil \<Rightarrow> writeByte L 0 b
     | VBool v \<Rightarrow> if v then writeByte L 1 b else writeByte L 2 b
     | VInt v \<Rightarrow> writeNativeInt L v b
     | VInt8 v \<Rightarrow> writeNativeInt L (scast v) b
     | VInt16 v \<Rightarrow> writeNativeInt L (scast v) b
     | VInt32 v \<Rightarrow> writeNativeInt L (scast v) b
     | VUint v \<Rightarrow> writeNativeUint L v b
     | VUint8 v \<Rightarrow> writeNativeUint L (ucast v) b
     | VUint16 v \<Rightarrow> writeNativeUint L (ucast v) b
     | VUint32 v \<Rightarrow> writeNativeUint L (ucast v) b
     | VFloat v \<Rightarrow> writeNativeFloat L v b
     | VString v \<Rightarrow> writeNativeString L v b
     | VBytes v \<Rightarrow> writeNativeBytes L v b
     | VMGet i args sk \<Rightarrow>
         (case sk of
            Some ks \<Rightarrow>
              ebind (writeKeysField L vis i (d + 1) (length ks) ''keys'' b) (\<lambda>(vis, b).
                for_each (writeNativeStringKey L vis (d + 2)) ks b)
          | None \<Rightarrow>
              ebind (writeKeysField L vis i (d + 1) (length args) ''keys'' b) (\<lambda>(vis, b).
                for_each (\<lambda>v. writeNativeValue L vis (d + 2) v) args b))
     | VMSet args kv \<Rightarrow>
         ebind (ensureNativeEncodeContainerBudget ''map'' 1 b) (\<lambda>_.
         ebind (writeNativeSingleFieldMap L ''pairs'' b) (\<lambda>b.
         ebind (mset_count args kv) (\<lambda>cnt.
         ebind (enter vis None (d + 1) b) (\<lambda>(vis, b).
         ebind (writeArrayHead L cnt b) (\<lambda>b.
         case kv of
           Some (ks, vs) \<Rightarrow>
             for_each (\<lambda>(k, v) b.
               ebind (enter vis None (d + 2) b) (\<lambda>(_, b).
               ebind (writeArrayHead L 2 b) (\<lambda>b.
               ebind (writeNativeStringKey L vis (d + 3) k b)
                 (writeNativeValue L vis (d + 3) v)))) (zip ks vs) b
         | None \<Rightarrow>
             for_each (\<lambda>(k, v) b.
               ebind (enter vis None (d + 2) b) (\<lambda>(_, b).
               ebind (writeArrayHead L 2 b) (\<lambda>b.
               ebind (writeNativeValue L vis (d + 3) k b)
                 (writeNativeValue L vis (d + 3) v)))) (pairs_of args) b)))))
     | VKeyValueCommand cmd ks vs \<Rightarrow>
         if length ks \<noteq> length vs then Inl (KeyValueLengths cmd (length ks) (length vs))
         else
         ebind (writeCommandField L vis None (d + 1) cmd (2 * length ks) b) (\<lambda>(vis, b).
           for_each (\<lambda>(k, v) b.
             ebind (writeNativeStringKey L vis (d + 2) k b)
               (writeNativeValue L vis (d + 2) v)) (zip ks vs) b)
     | VKeyCommand cmd i ks \<Rightarrow>
         ebind (writeCommandField L vis i (d + 1) cmd (length ks) b) (\<lambda>(vis, b).
           for_each (writeNativeStringKey L vis (d + 2)) ks b)
     | VArray i vs \<Rightarrow>
         if length vs > maxUint32 then Inl ArrayTooLarge
         else ebind (writeArrayHead L (length vs) b)
                (for_each (\<lambda>v. writeNativeValue L vis (d + 1) v) vs)
     | VMap i kvs \<Rightarrow>
         if length kvs > maxUint32 then Inl MapTooLarge
         else ebind (writeMapHead L (length kvs) b)
                (for_each (\<lambda>(k, v) b. ebind (writeNativeMapKey L k b)
                   (writeNativeValue L vis (d + 1) v)) (sort_key fst kvs))
     | VRMap i kvs \<Rightarrow>
         ebind (ensureNativeEncodeContainerBudget ''map'' (length kvs) b) (\<lambda>_.
         ebind (sortedNativeReflectMapEntries kvs) (\<lambda>es.
         ebind (writeNativeContainerHeader L 6 (length kvs) b)
           (for_each (\<lambda>(k, v) b. ebind (writeNativeMapKey L k b)
              (writeNativeValue L vis (d + 1) v)) es)))
     | VNilPtr \<Rightarrow> writeByte L 0 b
     | VPtr i v \<Rightarrow> writeNativeValue L vis (d + 1) v b
     | VStringer i s \<Rightarrow> writeNativeString L s b
     | VUnsupported \<Rightarrow> Inl UnsupportedType
     | VDeferred r \<Rightarrow> Inl UnsupportedType))"
  by pat_completeness auto

lemma sortedEntries_mem:
  assumes "sortedNativeReflectMapEntries kvs = Inr es" and "(k, v) \<in> set es"
  shows "(Some k, v) \<in> set kvs"
proof -
  have "es = sort_key fst (map (\<lambda>(k, v). (the k, v)) kvs)"
    and "\<forall>kv \<in> set kvs. fst kv \<noteq> None"
    using assms(1)
    by (auto simp: sortedNativeReflectMapEntries_def Let_def split: if_splits option.splits)
  with assms(2) show ?thesis by force
qed

lemma deferred_of_Some: "deferred_of v = Some r \<longleftrightarrow> v = VDeferred r"
  by (cases v) auto

termination writeNativeValue
  by (relation "measure (\<lambda>(L, vis, d, v, b). size v)")
    (auto simp: deferred_of_Some ebind_Inr_iff dest: size_mem_list size_mem_entries size_mem_pairs
      size_mem_zip sortedEntries_mem)

declare writeNativeValue.simps [simp del]

text \<open>
  The writers that \<open>writeNativeValue\<close> dispatches to, under their own names: each is the branch of the
  recursive definition for its kind of value, after the value was entered.
\<close>

definition writeNativeMGetPayload ::
  "nat \<Rightarrow> nat set \<Rightarrow> nat \<Rightarrow> ident \<Rightarrow> goval list \<Rightarrow> string list option \<Rightarrow> encoder \<Rightarrow> codec_error + encoder" where
  "writeNativeMGetPayload L vis d i args sk b =
     (case sk of
        Some ks \<Rightarrow>
          ebind (writeKeysField L vis i (d + 1) (length ks) ''keys'' b) (\<lambda>(vis, b).
            for_each (writeNativeStringKey L vis (d + 2)) ks b)
      | None \<Rightarrow>
          ebind (writeKeysField L vis i (d + 1) (length args) ''keys'' b) (\<lambda>(vis, b).
            for_each (\<lambda>v. writeNativeValue L vis (d + 2) v) args b))"

definition writeNativeMSetPayload ::
  "nat \<Rightarrow> nat set \<Rightarrow> nat \<Rightarrow> goval list \<Rightarrow> (string list \<times> goval list) option \<Rightarrow> encoder \<Rightarrow> codec_error + encoder" where
  "writeNativeMSetPayload L vis d args kv b =
     ebind (ensureNativeEncodeContainerBudget ''map'' 1 b) (\<lambda>_.
     ebind (writeNativeSingleFieldMap L ''pairs'' b) (\<lambda>b.
     ebind (mset_count args kv) (\<lambda>cnt.
     ebind (enter vis None (d + 1) b) (\<lambda>(vis, b).
     ebind (writeArrayHead L cnt b) (\<lambda>b.
     let pair = (\<lambda>writeKey v b.
           ebind (enter vis None (d + 2) b) (\<lambda>(_, b).
           ebind (writeArrayHead L 2 b) (\<lambda>b.
           ebind (writeKey b) (writeNativeValue L vis (d + 3) v)))) in
     case kv of
       Some (ks, vs) \<Rightarrow> for_each (\<lambda>(k, v). pair (writeNativeStringKey L vis (d + 3) k) v) (zip ks vs) b
     | None \<Rightarrow> for_each (\<lambda>(k, v). pair (writeNativeValue L vis (d + 3) k) v) (pairs_of args) b)))))"

definition writeNativeKeyValueCommandPayload ::
  "nat \<Rightarrow> nat set \<Rightarrow> nat \<Rightarrow> string \<Rightarrow> string list \<Rightarrow> goval list \<Rightarrow> encoder \<Rightarrow> codec_error + encoder" where
  "writeNativeKeyValueCommandPayload L vis d cmd ks vs b =
     (if length ks \<noteq> length vs then Inl (KeyValueLengths cmd (length ks) (length vs))
      else
        ebind (writeCommandField L vis None (d + 1) cmd (2 * length ks) b) (\<lambda>(vis, b).
          for_each (\<lambda>(k, v) b.
            ebind (writeNativeStringKey L vis (d + 2) k b) (writeNativeValue L vis (d + 2) v)) (zip ks vs) b))"

definition writeNativeKeyCommandPayload ::
  "nat \<Rightarrow> nat set \<Rightarrow> nat \<Rightarrow> string \<Rightarrow> ident \<Rightarrow> string list \<Rightarrow> encoder \<Rightarrow> codec_error + encoder" where
  "writeNativeKeyCommandPayload L vis d cmd i ks b =
     ebind (writeCommandField L vis i (d + 1) cmd (length ks) b) (\<lambda>(vis, b).
       for_each (writeNativeStringKey L vis (d + 2)) ks b)"

definition writeNativeArray :: "nat \<Rightarrow> nat set \<Rightarrow> nat \<Rightarrow> goval list \<Rightarrow> encoder \<Rightarrow> codec_error + encoder" where
  "writeNativeArray L vis d vs b =
     (if length vs > maxUint32 then Inl ArrayTooLarge
      else ebind (writeArrayHead L (length vs) b) (for_each (\<lambda>v. writeNativeValue L vis (d + 1) v) vs))"

definition writeNativeMap :: "nat \<Rightarrow> nat set \<Rightarrow> nat \<Rightarrow> (string \<times> goval) list \<Rightarrow> encoder \<Rightarrow> codec_error + encoder" where
  "writeNativeMap L vis d kvs b =
     (if length kvs > maxUint32 then Inl MapTooLarge
      else ebind (writeMapHead L (length kvs) b)
             (for_each (\<lambda>(k, v) b. ebind (writeNativeMapKey L k b)
                (writeNativeValue L vis (d + 1) v)) (sort_key fst kvs)))"

definition writeNativeReflect :: "nat \<Rightarrow> nat set \<Rightarrow> nat \<Rightarrow> goval \<Rightarrow> encoder \<Rightarrow> codec_error + encoder" where
  "writeNativeReflect L vis d value b =
     (case value of
        VNilPtr \<Rightarrow> writeByte L 0 b
      | VPtr i v \<Rightarrow> writeNativeValue L vis (d + 1) v b
      | VStringer i s \<Rightarrow> writeNativeString L s b
      | VArray i vs \<Rightarrow> writeNativeArray L vis d vs b
      | VRMap i kvs \<Rightarrow>
          ebind (ensureNativeEncodeContainerBudget ''map'' (length kvs) b) (\<lambda>_.
          ebind (sortedNativeReflectMapEntries kvs) (\<lambda>es.
          ebind (writeNativeContainerHeader L 6 (length kvs) b)
            (for_each (\<lambda>(k, v) b. ebind (writeNativeMapKey L k b)
               (writeNativeValue L vis (d + 1) v)) es)))
      | _ \<Rightarrow> Inl UnsupportedType)"

lemma writeNativeValue_dispatch:
  "writeNativeValue L vis d (VMGet j args sk) b =
     ebind (enter vis None d b) (\<lambda>(vis, b). writeNativeMGetPayload L vis d j args sk b)"
  "writeNativeValue L vis d (VMSet args kv) b =
     ebind (enter vis None d b) (\<lambda>(vis, b). writeNativeMSetPayload L vis d args kv b)"
  "writeNativeValue L vis d (VKeyValueCommand cmd ks vs) b =
     ebind (enter vis None d b) (\<lambda>(vis, b). writeNativeKeyValueCommandPayload L vis d cmd ks vs b)"
  "writeNativeValue L vis d (VKeyCommand cmd j ks) b =
     ebind (enter vis None d b) (\<lambda>(vis, b). writeNativeKeyCommandPayload L vis d cmd j ks b)"
  "writeNativeValue L vis d (VArray i vals) b =
     ebind (enter vis i d b) (\<lambda>(vis, b). writeNativeArray L vis d vals b)"
  "writeNativeValue L vis d (VMap i kvs) b =
     ebind (enter vis i d b) (\<lambda>(vis, b). writeNativeMap L vis d kvs b)"
  "value \<in> {VNilPtr, VPtr p v, VStringer i s, VRMap i rkvs, VUnsupported} \<Longrightarrow>
   writeNativeValue L vis d value b =
     ebind (enter vis (nativeEncodeIdentity value) d b) (\<lambda>(vis, b). writeNativeReflect L vis d value b)"
  by (subst writeNativeValue.simps,
      force simp: writeNativeMGetPayload_def writeNativeMSetPayload_def writeNativeKeyValueCommandPayload_def
        writeNativeKeyCommandPayload_def writeNativeArray_def writeNativeMap_def writeNativeReflect_def Let_def
        split: option.splits intro!: ebind_cong)+

definition encodeNativeValueWithLimit :: "goval \<Rightarrow> int \<Rightarrow> codec_error + bytes" where
  "encodeNativeValueWithLimit v limit =
     (if limit \<le> 0 then Inl LimitNotPositive
      else ebind (writeNativeValue (nat limit) {} 0 v
                   \<lparr>ebuf = [], eremaining = int nativeMaxContainerItems\<rparr>)
             (\<lambda>b. Inr (ebuf b)))"

definition encodeNativeValue :: "goval \<Rightarrow> codec_error + bytes" where
  "encodeNativeValue v = encodeNativeValueWithLimit v (int nativeMaxFrameBytes)"

end
