(* ===== verification/WireDecode.thy ===== *)
theory WireDecode
  imports WireEncode
begin

section \<open>The native value decoder\<close>

text \<open>
  \<open>src/native_codec_decode.go\<close> and the item-count check of \<open>src/native_frame.go\<close>: the recursive
  decoder with its depth and item budget. The two ownership modes (\<open>copyBinary\<close>) differ only in
  whether a binary aliases the input, so they are one definition on immutable values. Then the wire
  grammar (\<open>wire\<close>) as the specification both codec directions are measured against.
\<close>

datatype decode_error =
    ValueEmpty
  | DecoderLimitsInvalid
  | DecodeDepth nat
  | DecodeItems
  | IntegerTruncated
  | FloatTruncated
  | UnsignedTruncated
  | BinaryLengthTruncated
  | BinaryTruncated
  | ArrayLengthTruncated
  | MapLengthTruncated
  | MapKeyLengthTruncated
  | MapKeyTruncated
  | DuplicateKey string
  | ItemCountLimit string nat
  | ItemCountPayload string
  | DecodeAggregate string
  | UnknownTag byte

definition nativeMaxDecodeDepth :: nat where "nativeMaxDecodeDepth = 64"

definition nativeBoundedItemCount :: "string \<Rightarrow> nat \<Rightarrow> nat \<Rightarrow> nat \<Rightarrow> decode_error + nat" where
  "nativeBoundedItemCount kind raw remainingBytes minBytesPerItem =
     (if raw > nativeMaxContainerItems then Inl (ItemCountLimit kind raw)
      else if minBytesPerItem > 0 \<and> raw * minBytesPerItem > remainingBytes
      then Inl (ItemCountPayload kind)
      else Inr raw)"

text \<open>Reading the length-prefixed key of one map entry.\<close>

definition readMapKey :: "bytes \<Rightarrow> decode_error + (string \<times> bytes)" where
  "readMapKey rest =
     (if length rest < 4 then Inl MapKeyLengthTruncated
      else
        let keySize = be_val (take 4 rest); rest = drop 4 rest in
        if length rest < keySize then Inl MapKeyTruncated
        else Inr (string_of (take keySize rest), drop keySize rest))"

function decodeNativeValueBudget ::
  "nat \<Rightarrow> nat \<Rightarrow> bytes \<Rightarrow> int \<Rightarrow> decode_error + (goval \<times> bytes \<times> int)" where
  "decodeNativeValueBudget maxDepth depth data remaining =
     (case data of
        [] \<Rightarrow> Inl ValueEmpty
      | tag # rest \<Rightarrow>
     if depth > maxDepth then Inl (DecodeDepth maxDepth)
     else let remaining = remaining - 1 in
     if remaining < 0 then Inl DecodeItems
     else if tag = 0 then Inr (VNil, rest, remaining)
     else if tag = 1 then Inr (VBool True, rest, remaining)
     else if tag = 2 then Inr (VBool False, rest, remaining)
     else if tag = 3 then
       (if length rest < 8 then Inl IntegerTruncated
        else Inr (VInt (word_of_nat (be_val (take 8 rest))), drop 8 rest, remaining))
     else if tag = 4 then
       (if length rest < 4 then Inl BinaryLengthTruncated
        else
          let sz = be_val (take 4 rest); rest = drop 4 rest in
          if length rest < sz then Inl BinaryTruncated
          else Inr (VBytes (take sz rest), drop sz rest, remaining))
     else if tag = 5 then
       (if length rest < 4 then Inl ArrayLengthTruncated
        else
          ebind (nativeBoundedItemCount ''array'' (be_val (take 4 rest)) (length rest - 4) 1) (\<lambda>cnt.
          let rest = drop 4 rest in
          if int cnt > remaining then Inl (DecodeAggregate ''array'')
          else
            ebind (read_items (decodeNativeValueBudget maxDepth (depth + 1)) cnt rest remaining)
              (\<lambda>(items, rest, remaining). Inr (VArray None items, rest, remaining))))
     else if tag = 6 then
       (if length rest < 4 then Inl MapLengthTruncated
        else
          ebind (nativeBoundedItemCount ''map'' (be_val (take 4 rest)) (length rest - 4) 5) (\<lambda>cnt.
          let rest = drop 4 rest in
          if int cnt > remaining then Inl (DecodeAggregate ''map'')
          else
            ebind (read_items (\<lambda>rest (remaining, seen).
                ebind (readMapKey rest) (\<lambda>(key, rest).
                if key \<in> set seen then Inl (DuplicateKey key)
                else
                  ebind (decodeNativeValueBudget maxDepth (depth + 1) rest remaining)
                    (\<lambda>(value, rest, remaining). Inr ((key, value), rest, (remaining, key # seen)))))
                cnt rest (remaining, []))
              (\<lambda>(entries, rest, (remaining, _)). Inr (VMap None entries, rest, remaining))))
     else if tag = 7 then
       (if length rest < 8 then Inl FloatTruncated
        else Inr (VFloat (word_of_nat (be_val (take 8 rest))), drop 8 rest, remaining))
     else if tag = 8 then
       (if length rest < 8 then Inl UnsignedTruncated
        else Inr (VUint (word_of_nat (be_val (take 8 rest))), drop 8 rest, remaining))
     else Inl (UnknownTag tag))"
  by pat_completeness auto
termination
  by (relation "measure (\<lambda>(maxDepth, depth, data, remaining). Suc maxDepth - depth)") auto

declare decodeNativeValueBudget.simps [simp del]

definition decodeNativeValueWithOwnership ::
  "bytes \<Rightarrow> int \<Rightarrow> int \<Rightarrow> bool \<Rightarrow> decode_error + (goval \<times> bytes)" where
  "decodeNativeValueWithOwnership data maxDepth maxItems copyBinary =
     (if maxDepth < 0 \<or> maxItems \<le> 0 then Inl DecoderLimitsInvalid
      else ebind (decodeNativeValueBudget (nat maxDepth) 0 data maxItems)
             (\<lambda>(v, rest, _). Inr (v, rest)))"

definition decodeNativeValueWithLimits ::
  "bytes \<Rightarrow> int \<Rightarrow> int \<Rightarrow> decode_error + (goval \<times> bytes)" where
  "decodeNativeValueWithLimits data maxDepth maxItems =
     decodeNativeValueWithOwnership data maxDepth maxItems True"

definition decodeNativeValue :: "bytes \<Rightarrow> decode_error + (goval \<times> bytes)" where
  "decodeNativeValue data =
     decodeNativeValueWithLimits data (int nativeMaxDecodeDepth) (int nativeMaxContainerItems)"

definition decodeNativeOwnedValue :: "bytes \<Rightarrow> decode_error + (goval \<times> bytes)" where
  "decodeNativeOwnedValue data =
     decodeNativeValueWithOwnership data (int nativeMaxDecodeDepth) (int nativeMaxContainerItems) False"

subsection \<open>The wire grammar\<close>

text \<open>
  \<open>canon\<close> are the values the decoder can return, \<open>wire\<close> is the byte string of such a value with
  its map entries in the order given, \<open>items\<close> the item budget it costs and \<open>depth_ok\<close> that it
  stays within a nesting limit.
\<close>

fun canon :: "goval \<Rightarrow> bool" where
  "canon VNil = True"
| "canon (VBool _) = True"
| "canon (VInt _) = True"
| "canon (VUint _) = True"
| "canon (VFloat _) = True"
| "canon (VBytes b) = (length b \<le> maxUint32)"
| "canon (VArray i vs) =
     (i = None \<and> length vs \<le> nativeMaxContainerItems \<and> (\<forall>v \<in> set vs. canon v))"
| "canon (VMap i kvs) =
     (i = None \<and> length kvs \<le> nativeMaxContainerItems \<and> distinct (map fst kvs) \<and>
      (\<forall>(k, v) \<in> set kvs. length k \<le> maxUint32 \<and> canon v))"
| "canon _ = False"

fun wire :: "goval \<Rightarrow> bytes" where
  "wire VNil = [0]"
| "wire (VBool v) = [if v then 1 else 2]"
| "wire (VInt v) = 3 # be_bytes 8 (unat v)"
| "wire (VUint v) = 8 # be_bytes 8 (unat v)"
| "wire (VFloat v) = 7 # be_bytes 8 (unat v)"
| "wire (VBytes v) = 4 # be_bytes 4 (length v) @ v"
| "wire (VArray i vs) = 5 # be_bytes 4 (length vs) @ concat (map wire vs)"
| "wire (VMap i kvs) =
     6 # be_bytes 4 (length kvs) @
     concat (map (\<lambda>(k, v). be_bytes 4 (length k) @ bytes_of k @ wire v) kvs)"
| "wire _ = []"

fun items :: "goval \<Rightarrow> nat" where
  "items (VArray i vs) = Suc (sum_list (map items vs))"
| "items (VMap i kvs) = Suc (sum_list (map (\<lambda>(k, v). items v) kvs))"
| "items _ = 1"

fun depth_ok :: "nat \<Rightarrow> nat \<Rightarrow> goval \<Rightarrow> bool" where
  "depth_ok D d (VArray i vs) = (d \<le> D \<and> (\<forall>v \<in> set vs. depth_ok D (Suc d) v))"
| "depth_ok D d (VMap i kvs) = (d \<le> D \<and> (\<forall>(k, v) \<in> set kvs. depth_ok D (Suc d) v))"
| "depth_ok D d _ = (d \<le> D)"

end
