(* ===== verification/WireCodec.thy ===== *)
theory WireCodec
  imports WireDecode
begin

section \<open>The decoder accepts exactly the wire grammar\<close>

text \<open>
  \<open>pay D d v r\<close> is the budget specification of decoding \<open>v\<close> at nesting depth \<open>d\<close> of at most \<open>D\<close>
  with \<open>r\<close> items left. The main result is that for every depth the decoder and the grammar form a
  \<open>format\<close>: it returns a value exactly when the input starts with the bytes of a canonical value
  that the budget can pay, and it returns that value, the unread rest and the budget left.
\<close>

definition pay :: "nat \<Rightarrow> nat \<Rightarrow> goval \<Rightarrow> int \<Rightarrow> int option" where
  "pay D d v r =
     (if canon v \<and> depth_ok D d v \<and> int (items v) \<le> r then Some (r - int (items v)) else None)"

lemma pay_Some_iff:
  "pay D d v r = Some r' \<longleftrightarrow>
   canon v \<and> depth_ok D d v \<and> int (items v) \<le> r \<and> r' = r - int (items v)"
  by (auto simp: pay_def)

lemma items_Suc: "\<exists>m. items v = Suc m"
  by (cases v) auto

lemma wire_nonempty: "canon v \<Longrightarrow> \<exists>m. length (wire v) = Suc m"
  by (cases v) auto

lemma depth_ok_le: "depth_ok D d v \<Longrightarrow> d \<le> D"
  by (cases v) auto

subsection \<open>Fixed-width integers\<close>

lemma unat_be_val8:
  "length bs = 8 \<Longrightarrow> unat (word_of_nat (be_val bs) :: 64 word) = be_val bs"
  using be_val_bound [of bs] by (simp add: unat_of_nat)

lemma be_val_be_bytes8 [simp]: "be_val (be_bytes 8 (unat (w :: 64 word))) = unat w"
proof -
  have "unat w < 2 ^ 64" using unsigned_less [of w, where ?'a = nat] by simp
  then show ?thesis by (simp add: be_val_be_bytes)
qed

lemma be_val_be_bytes4: "n \<le> maxUint32 \<Longrightarrow> be_val (be_bytes 4 n) = n"
  by (simp add: be_val_be_bytes maxUint32_def)

lemma be_val_take4: "be_val (take 4 bs) \<le> maxUint32"
proof -
  have "be_val (take 4 bs) < 256 ^ length (take 4 bs)" by (rule be_val_bound)
  also have "(256 :: nat) ^ length (take 4 bs) \<le> 256 ^ 4" by (rule power_increasing) auto
  finally show ?thesis by (simp add: maxUint32_def)
qed

lemma take_be_bytes [simp]: "take k (be_bytes k n @ rest) = be_bytes k n"
  and drop_be_bytes [simp]: "drop k (be_bytes k n @ rest) = rest"
  by simp_all

lemma split_prefix4: "\<not> length rest < 4 \<Longrightarrow> rest = be_bytes 4 (be_val (take 4 rest)) @ drop 4 rest"
  by simp

lemma items_le_maxUint32: "n \<le> nativeMaxContainerItems \<Longrightarrow> n \<le> maxUint32"
  by (simp add: native_limits)

subsection \<open>Lists of values\<close>

lemma pay_all_values:
  assumes "format rd wire (pay D d)" and "0 \<le> r"
  shows "format.pay_all (pay D d) vs r = Some r' \<longleftrightarrow>
    (\<forall>v \<in> set vs. canon v \<and> depth_ok D d v) \<and> int (sum_list (map items vs)) \<le> r \<and>
    r' = r - int (sum_list (map items vs))"
  using assms(2)
proof (induction vs arbitrary: r)
  case Nil
  then show ?case using assms(1) by (auto simp: format.pay_all.simps)
next
  case (Cons v vs)
  have "format.pay_all (pay D d) (v # vs) r = Some r' \<longleftrightarrow>
    canon v \<and> depth_ok D d v \<and> int (items v) \<le> r \<and>
    format.pay_all (pay D d) vs (r - int (items v)) = Some r'"
    by (auto simp: format.pay_all.simps [OF assms(1)] bind_eq_Some_conv pay_Some_iff)
  then show ?case using Cons.IH [of "r - int (items v)"] by auto
qed

subsection \<open>Map entries\<close>

abbreviation entry_wire :: "string \<times> goval \<Rightarrow> bytes" where
  "entry_wire \<equiv> \<lambda>(k, v). be_bytes 4 (length k) @ bytes_of k @ wire v"

definition read_entry ::
  "(bytes \<Rightarrow> int \<Rightarrow> decode_error + (goval \<times> bytes \<times> int)) \<Rightarrow> bytes \<Rightarrow> int \<times> string list \<Rightarrow>
   decode_error + ((string \<times> goval) \<times> bytes \<times> (int \<times> string list))" where
  "read_entry rd = (\<lambda>rest (remaining, seen).
     ebind (readMapKey rest) (\<lambda>(key, rest).
     if key \<in> set seen then Inl (DuplicateKey key)
     else ebind (rd rest remaining)
       (\<lambda>(value, rest, remaining). Inr ((key, value), rest, (remaining, key # seen)))))"

fun pay_entry ::
  "(goval \<Rightarrow> int \<Rightarrow> int option) \<Rightarrow> string \<times> goval \<Rightarrow> int \<times> string list \<Rightarrow> (int \<times> string list) option"
where
  "pay_entry p (k, v) (r, seen) =
     (if length k \<le> maxUint32 \<and> k \<notin> set seen
      then map_option (\<lambda>r'. (r', k # seen)) (p v r) else None)"

lemma readMapKey_iff:
  "readMapKey data = Inr (k, rest) \<longleftrightarrow>
   data = be_bytes 4 (length k) @ bytes_of k @ rest \<and> length k \<le> maxUint32"
proof
  assume *: "readMapKey data = Inr (k, rest)"
  let ?n = "be_val (take 4 data)"
  from * have len: "\<not> length data < 4" "\<not> length (drop 4 data) < ?n"
    and k: "k = string_of (take ?n (drop 4 data))" and rest: "rest = drop ?n (drop 4 data)"
    by (auto simp: readMapKey_def Let_def split: if_splits)
  have lk: "length k = ?n" using len k by simp
  have "data = be_bytes 4 ?n @ drop 4 data" by (rule split_prefix4 [OF len(1)])
  moreover have "drop 4 data = bytes_of k @ rest"
    by (simp only: k rest bytes_of_string_of append_take_drop_id)
  ultimately show "data = be_bytes 4 (length k) @ bytes_of k @ rest \<and> length k \<le> maxUint32"
    using lk be_val_take4 [of data] by simp
next
  assume "data = be_bytes 4 (length k) @ bytes_of k @ rest \<and> length k \<le> maxUint32"
  then show "readMapKey data = Inr (k, rest)"
    by (simp add: readMapKey_def Let_def be_val_be_bytes4)
qed

lemma entry_format:
  assumes "format rd wire p"
  shows "format (read_entry rd) entry_wire (pay_entry p)"
proof -
  have iff: "read_entry rd data s = Inr (x, rest, s') \<longleftrightarrow>
      data = entry_wire x @ rest \<and> pay_entry p x s = Some s'" for data s x rest s'
    by (cases x; cases s)
      (auto simp: read_entry_def ebind_Inr_iff readMapKey_iff
        format.rd_iff [OF assms] split: if_splits)
  show ?thesis
    by unfold_locales (auto simp: iff)
qed

lemma pay_all_entries:
  assumes "format rd entry_wire (pay_entry (pay D d))" and "0 \<le> r"
  shows "format.pay_all (pay_entry (pay D d)) kvs (r, seen) = Some s' \<longleftrightarrow>
    (\<forall>(k, v) \<in> set kvs. length k \<le> maxUint32 \<and> canon v \<and> depth_ok D d v) \<and>
    distinct (map fst kvs) \<and> set (map fst kvs) \<inter> set seen = {} \<and>
    int (sum_list (map (\<lambda>(k, v). items v) kvs)) \<le> r \<and>
    s' = (r - int (sum_list (map (\<lambda>(k, v). items v) kvs)), rev (map fst kvs) @ seen)"
  using assms(2)
proof (induction kvs arbitrary: r seen)
  case Nil
  then show ?case using assms(1) by (auto simp: format.pay_all.simps)
next
  case (Cons kv kvs)
  obtain k v where kv: "kv = (k, v)" by (cases kv)
  have "format.pay_all (pay_entry (pay D d)) (kv # kvs) (r, seen) = Some s' \<longleftrightarrow>
    length k \<le> maxUint32 \<and> k \<notin> set seen \<and> canon v \<and> depth_ok D d v \<and> int (items v) \<le> r \<and>
    format.pay_all (pay_entry (pay D d)) kvs (r - int (items v), k # seen) = Some s'"
    by (auto simp: kv format.pay_all.simps [OF assms(1)] bind_eq_Some_conv pay_Some_iff split: if_splits)
  then show ?case using Cons.IH [of "r - int (items v)" "k # seen"] by (auto simp: kv)
qed


subsection \<open>The decoder\<close>

text \<open>One unfolding of the decoder, by tag.\<close>

lemma decode_Nil [simp]: "decodeNativeValueBudget D d [] r = Inl ValueEmpty"
  by (simp add: decodeNativeValueBudget.simps)

lemma decode_array:
  assumes "d \<le> D" and "0 \<le> r - 1"
  shows "decodeNativeValueBudget D d (5 # rest) r =
     (if length rest < 4 then Inl ArrayLengthTruncated
      else ebind (nativeBoundedItemCount ''array'' (be_val (take 4 rest)) (length rest - 4) 1) (\<lambda>cnt.
        if int cnt > r - 1 then Inl (DecodeAggregate ''array'')
        else ebind (read_items (decodeNativeValueBudget D (d + 1)) cnt (drop 4 rest) (r - 1))
          (\<lambda>(items, rest, remaining). Inr (VArray None items, rest, remaining))))"
  using assms by (simp add: decodeNativeValueBudget.simps [of D d] Let_def)

lemma decode_map:
  assumes "d \<le> D" and "0 \<le> r - 1"
  shows "decodeNativeValueBudget D d (6 # rest) r =
     (if length rest < 4 then Inl MapLengthTruncated
      else ebind (nativeBoundedItemCount ''map'' (be_val (take 4 rest)) (length rest - 4) 5) (\<lambda>cnt.
        if int cnt > r - 1 then Inl (DecodeAggregate ''map'')
        else ebind (read_items (read_entry (decodeNativeValueBudget D (d + 1))) cnt (drop 4 rest) (r - 1, []))
          (\<lambda>(entries, rest, (remaining, _)). Inr (VMap None entries, rest, remaining))))"
  using assms unfolding read_entry_def by (simp add: decodeNativeValueBudget.simps [of D d] Let_def)

definition decode_accepts :: "nat \<Rightarrow> nat \<Rightarrow> bool" where
  "decode_accepts D d \<longleftrightarrow> (\<forall>data r v rest r'.
     decodeNativeValueBudget D d data r = Inr (v, rest, r') \<longleftrightarrow>
     data = wire v @ rest \<and> pay D d v r = Some r')"

lemma decode_accepts_format: "decode_accepts D d \<Longrightarrow> format (decodeNativeValueBudget D d) wire (pay D d)"
  by unfold_locales (auto simp: decode_accepts_def)

lemma values_lengths:
  "\<forall>v \<in> set vs. canon v \<Longrightarrow>
   length vs \<le> length (concat (map wire vs)) \<and> length vs \<le> sum_list (map items vs)"
proof (induction vs)
  case Nil
  then show ?case by simp
next
  case (Cons v vs)
  then obtain m where "length (wire v) = Suc m" using wire_nonempty by auto
  with Cons items_Suc [of v] show ?case by auto
qed

lemma decode_array_iff:
  assumes acc: "decode_accepts D (d + 1)" and d: "d \<le> D" and r: "0 \<le> r - 1"
  shows "decodeNativeValueBudget D d (5 # data) r = Inr (v, rest, r') \<longleftrightarrow>
    (\<exists>vs. v = VArray None vs \<and> data = be_bytes 4 (length vs) @ concat (map wire vs) @ rest \<and>
      pay D d v r = Some r')"
proof -
  note fmt = decode_accepts_format [OF acc]
  have payv: "pay D d (VArray None vs) r = Some r' \<longleftrightarrow>
      length vs \<le> nativeMaxContainerItems \<and>
      format.pay_all (pay D (d + 1)) vs (r - 1) = Some r'" for vs
    using d r unfolding pay_all_values [OF fmt r] by (auto simp: pay_Some_iff)
  show ?thesis (is "?l \<longleftrightarrow> ?r")
  proof
    assume ?l
    then obtain vs where vs: "v = VArray None vs" and len: "\<not> length data < 4"
      and cnt: "be_val (take 4 data) \<le> nativeMaxContainerItems"
      and rd: "read_items (decodeNativeValueBudget D (d + 1)) (be_val (take 4 data)) (drop 4 data) (r - 1)
        = Inr (vs, rest, r')"
      by (auto simp: decode_array [OF d r] ebind_Inr_iff nativeBoundedItemCount_def split: if_splits)
    from format.items_sound [OF fmt rd] cnt split_prefix4 [OF len] vs show ?r
      by (auto simp: payv)
  next
    assume ?r
    then obtain vs where vs: "v = VArray None vs"
      and data: "data = be_bytes 4 (length vs) @ concat (map wire vs) @ rest"
      and n: "length vs \<le> nativeMaxContainerItems"
      and pall: "format.pay_all (pay D (d + 1)) vs (r - 1) = Some r'"
      using payv by auto
    from pall have c: "\<forall>v \<in> set vs. canon v" and s: "int (sum_list (map items vs)) \<le> r - 1"
      unfolding pay_all_values [OF fmt r] by auto
    from format.items_complete [OF fmt pall, of rest] values_lengths [OF c] s n
    show ?l
      by (auto simp: decode_array [OF d r] data vs be_val_be_bytes4 items_le_maxUint32
          nativeBoundedItemCount_def)
  qed
qed

lemma entries_lengths:
  "\<forall>(k, v) \<in> set kvs. canon v \<Longrightarrow>
   5 * length kvs \<le> length (concat (map entry_wire kvs)) \<and>
   length kvs \<le> sum_list (map (\<lambda>(k, v). items v) kvs)"
proof (induction kvs)
  case Nil
  then show ?case by simp
next
  case (Cons kv kvs)
  obtain k v where kv: "kv = (k, v)" by (cases kv)
  with Cons.prems obtain m where "length (wire v) = Suc m" using wire_nonempty by auto
  with Cons items_Suc [of v] show ?case by (auto simp: kv)
qed

lemma decode_map_iff:
  assumes acc: "decode_accepts D (d + 1)" and d: "d \<le> D" and r: "0 \<le> r - 1"
  shows "decodeNativeValueBudget D d (6 # data) r = Inr (v, rest, r') \<longleftrightarrow>
    (\<exists>kvs. v = VMap None kvs \<and> data = be_bytes 4 (length kvs) @ concat (map entry_wire kvs) @ rest \<and>
      pay D d v r = Some r')"
proof -
  note fmt = entry_format [OF decode_accepts_format [OF acc]]
  have payv: "pay D d (VMap None kvs) r = Some r' \<longleftrightarrow>
      length kvs \<le> nativeMaxContainerItems \<and>
      (\<exists>seen. format.pay_all (pay_entry (pay D (d + 1))) kvs (r - 1, []) = Some (r', seen))" for kvs
    using d r unfolding pay_all_entries [OF fmt r] by (fastforce simp: pay_Some_iff)
  show ?thesis (is "?l \<longleftrightarrow> ?r")
  proof
    assume ?l
    then obtain kvs seen where kvs: "v = VMap None kvs" and len: "\<not> length data < 4"
      and cnt: "be_val (take 4 data) \<le> nativeMaxContainerItems"
      and rd: "read_items (read_entry (decodeNativeValueBudget D (d + 1)))
        (be_val (take 4 data)) (drop 4 data) (r - 1, []) = Inr (kvs, rest, (r', seen))"
      by (auto simp: decode_map [OF d r] ebind_Inr_iff nativeBoundedItemCount_def split: if_splits)
    from format.items_sound [OF fmt rd] cnt split_prefix4 [OF len] kvs show ?r
      unfolding kvs payv by auto
  next
    assume ?r
    then obtain kvs seen where kvs: "v = VMap None kvs"
      and data: "data = be_bytes 4 (length kvs) @ concat (map entry_wire kvs) @ rest"
      and n: "length kvs \<le> nativeMaxContainerItems"
      and pall: "format.pay_all (pay_entry (pay D (d + 1))) kvs (r - 1, []) = Some (r', seen)"
      using payv by auto
    from pall have c: "\<forall>(k, v) \<in> set kvs. canon v"
      and s: "int (sum_list (map (\<lambda>(k, v). items v) kvs)) \<le> r - 1"
      unfolding pay_all_entries [OF fmt r] by auto
    from format.items_complete [OF fmt pall, of rest] entries_lengths [OF c] s n
    show ?l
      by (auto simp: decode_map [OF d r] data kvs be_val_be_bytes4 items_le_maxUint32
          nativeBoundedItemCount_def)
  qed
qed

text \<open>The scalar tags, and the case analysis over all of them.\<close>

lemma decode_scalar_iff:
  assumes d: "d \<le> D" and r: "0 \<le> r - 1" and tag: "tag \<noteq> 5" "tag \<noteq> 6"
  shows "decodeNativeValueBudget D d (tag # data) r = Inr (v, rest, r') \<longleftrightarrow>
    r' = r - 1 \<and>
    (tag = 0 \<and> v = VNil \<and> data = rest \<or>
     tag = 1 \<and> v = VBool True \<and> data = rest \<or>
     tag = 2 \<and> v = VBool False \<and> data = rest \<or>
     (\<exists>w. tag = 3 \<and> v = VInt w \<and> data = be_bytes 8 (unat w) @ rest) \<or>
     (\<exists>b. tag = 4 \<and> v = VBytes b \<and> length b \<le> maxUint32 \<and> data = be_bytes 4 (length b) @ b @ rest) \<or>
     (\<exists>w. tag = 7 \<and> v = VFloat w \<and> data = be_bytes 8 (unat w) @ rest) \<or>
     (\<exists>w. tag = 8 \<and> v = VUint w \<and> data = be_bytes 8 (unat w) @ rest))"
proof -
  have int8: "(\<not> length data < 8 \<and> w = word_of_nat (be_val (take 8 data)) \<and> rest = drop 8 data) \<longleftrightarrow>
      data = be_bytes 8 (unat w) @ rest" for w :: "64 word"
    using unat_be_val8 [of "take 8 data"] by auto
  have bin: "(\<not> length data < 4 \<and> \<not> length (drop 4 data) < be_val (take 4 data) \<and>
      b = take (be_val (take 4 data)) (drop 4 data) \<and> rest = drop (be_val (take 4 data)) (drop 4 data))
    \<longleftrightarrow> length b \<le> maxUint32 \<and> data = be_bytes 4 (length b) @ b @ rest" for b
  proof (intro iffI conjI)
    assume *: "\<not> length data < 4 \<and> \<not> length (drop 4 data) < be_val (take 4 data) \<and>
      b = take (be_val (take 4 data)) (drop 4 data) \<and> rest = drop (be_val (take 4 data)) (drop 4 data)"
    then have lb: "length b = be_val (take 4 data)" by simp
    then show "length b \<le> maxUint32" by (simp add: be_val_take4)
    from * have "drop 4 data = b @ rest" by (metis append_take_drop_id)
    with * lb show "data = be_bytes 4 (length b) @ b @ rest"
      using split_prefix4 [of data] by simp
  qed (auto simp: be_val_be_bytes4)
  show ?thesis
    using d r tag int8 bin
    by (subst decodeNativeValueBudget.simps) (auto simp: Let_def be_val_be_bytes4 split: if_splits)
qed

lemma wire_scalar_tags:
  "canon v \<Longrightarrow> pay D d v r = Some r' \<Longrightarrow> wire v = tag # bs \<Longrightarrow> tag \<noteq> 5 \<Longrightarrow> tag \<noteq> 6 \<Longrightarrow>
   r' = r - 1 \<and> d \<le> D \<and> 0 \<le> r - 1"
  by (cases v) (auto simp: pay_Some_iff)


lemma decode_budget_checks:
  "decodeNativeValueBudget D d data r = Inr (v, rest, r') \<Longrightarrow> d \<le> D \<and> 0 \<le> r - 1"
  by (subst (asm) decodeNativeValueBudget.simps) (auto split: list.splits if_splits simp: Let_def)

lemma pay_budget_checks: "pay D d v r = Some r' \<Longrightarrow> d \<le> D \<and> 0 \<le> r - 1"
  using items_Suc [of v] by (auto simp: pay_Some_iff dest: depth_ok_le)

lemma decode_step_accepts:
  assumes acc: "d \<le> D \<Longrightarrow> decode_accepts D (d + 1)"
  shows "decode_accepts D d"
  unfolding decode_accepts_def
proof (intro allI)
  fix data r v rest r'
  show "decodeNativeValueBudget D d data r = Inr (v, rest, r') \<longleftrightarrow>
    data = wire v @ rest \<and> pay D d v r = Some r'"
  proof (cases "d \<le> D \<and> 0 \<le> r - 1")
    case False
    then show ?thesis using decode_budget_checks pay_budget_checks by blast
  next
    case True
    then have d: "d \<le> D" and r: "0 \<le> r - 1" by simp_all
    note iffs = decode_array_iff [OF acc [OF d] d r] decode_map_iff [OF acc [OF d] d r]
    show ?thesis
    proof (cases data)
      case Nil
      then show ?thesis using wire_nonempty [of v] by (auto simp: pay_Some_iff)
    next
      case (Cons tag bs)
      consider "tag = 5" | "tag = 6" | "tag \<noteq> 5" "tag \<noteq> 6" by blast
      then show ?thesis
      proof cases
        case 1
        then show ?thesis unfolding Cons 1 iffs
          by (cases v) (auto simp: pay_Some_iff)
      next
        case 2
        then show ?thesis unfolding Cons 2 iffs
          by (cases v) (auto simp: pay_Some_iff)
      next
        case 3
        then show ?thesis unfolding Cons decode_scalar_iff [OF d r 3]
          using d r by (cases v) (auto simp: pay_Some_iff)
      qed
    qed
  qed
qed

theorem decode_accepts_all: "decode_accepts D d"
proof (induction "Suc D - d" arbitrary: d rule: less_induct)
  case less
  show ?case by (rule decode_step_accepts) (rule less, simp)
qed

text \<open>The decoder with the budget it is started with, for every response and compact field.\<close>

interpretation native_value: format "decodeNativeValueBudget nativeMaxDecodeDepth 0" wire "pay nativeMaxDecodeDepth 0"
  by (rule decode_accepts_format) (rule decode_accepts_all)

lemma decodeNativeValue_iff:
  "decodeNativeValue data = Inr (v, rest) \<longleftrightarrow>
   data = wire v @ rest \<and> canon v \<and> depth_ok nativeMaxDecodeDepth 0 v \<and>
   items v \<le> nativeMaxContainerItems"
  by (auto simp: decodeNativeValue_def decodeNativeValueWithLimits_def
      decodeNativeValueWithOwnership_def ebind_Inr_iff native_value.rd_iff pay_Some_iff
      nativeMaxContainerItems_def)

end
