(* ===== verification/CompactRead.thy ===== *)
theory CompactRead
  imports WireCodec
begin

section \<open>Compact responses: primitive readers and collections\<close>

text \<open>
  The primitive readers of \<open>src/native_compact.go\<close> and the collection decoders of
  \<open>src/native_compact_collections.go\<close>. A position in the payload is the unread suffix. Every
  reader threads a state (an item budget, where there is one) and is an instance of the \<open>format\<close>
  interface: with its printer it accepts exactly the printed values.
\<close>

datatype compact_error =
    CEmpty
  | CInvalid string
  | CTruncated string
  | CTrailing string
  | CMismatch string
  | CUnsupportedTag string byte
  | CAggregate string
  | CDuplicate string string
  | CNegative string
  | CAmbiguity
  | CBad string
  | CValue decode_error

definition nativeCompactNilU32 :: nat where "nativeCompactNilU32 = 2 ^ 32 - 1"

subsection \<open>Primitive readers\<close>

definition readNativeCompactBinary :: "bytes \<Rightarrow> 's \<Rightarrow> compact_error + (bytes \<times> bytes \<times> 's)" where
  "readNativeCompactBinary data s =
     (if length data < 4 then Inl (CTruncated ''binary length'')
      else
        let rawSize = be_val (take 4 data); rest = drop 4 data in
        if rawSize > length rest then Inl (CTruncated ''binary value'')
        else Inr (take rawSize rest, drop rawSize rest, s))"

definition readNativeCompactOptionalBinary ::
  "bytes \<Rightarrow> 's \<Rightarrow> compact_error + (bytes option \<times> bytes \<times> 's)" where
  "readNativeCompactOptionalBinary data s =
     (if length data < 4 then Inl (CTruncated ''optional binary length'')
      else if be_val (take 4 data) = nativeCompactNilU32 then Inr (None, drop 4 data, s)
      else ebind (readNativeCompactBinary data s) (\<lambda>(v, rest, s). Inr (Some v, rest, s)))"

definition consumeNativeCompactItems :: "string \<Rightarrow> nat \<Rightarrow> int \<Rightarrow> compact_error + int" where
  "consumeNativeCompactItems kind cnt budget =
     (if int cnt > budget then Inl (CAggregate kind) else Inr (budget - int cnt))"

text \<open>
  The head every counted compact payload starts with: the marker byte, then a 32-bit count checked
  against the bytes that are left.
\<close>

definition compactHead :: "byte \<Rightarrow> string \<Rightarrow> nat \<Rightarrow> bytes \<Rightarrow> compact_error + (nat \<times> bytes)" where
  "compactHead marker kind minBytes data =
     (if length data < 5 \<or> data ! 0 \<noteq> marker then Inl (CInvalid kind)
      else ebind (map_err CValue (nativeBoundedItemCount kind (be_val (take 4 (drop 1 data)))
                    (length data - 5) minBytes))
             (\<lambda>cnt. Inr (cnt, drop 5 data)))"

definition compactEnd :: "string \<Rightarrow> bytes \<Rightarrow> compact_error + unit" where
  "compactEnd kind rest = guard (rest = []) (CTrailing kind)"

subsection \<open>Compact values\<close>

text \<open>
  The values of type \<open>any\<close> that compact decoders build. \<open>CBin None\<close> is a nil \<open>[]byte\<close>, \<open>CAny\<close> a
  value of the generic codec, \<open>CMap\<close> a \<open>map[string]any\<close> as its entries.
\<close>

record claimed_item =
  ID :: string
  LeaseToken :: string
  FencingToken :: "64 word"
  PartitionKey :: string
  Type :: string
  State :: string
  RunState :: string
  Payload :: "goval option"
  Attributes :: "(string \<times> goval) list option"

datatype cvalue =
    CNil
  | CBin "bytes option"
  | CInt "64 word"
  | CText string
  | CBool bool
  | CAny goval
  | CList "cvalue list"
  | CMap "(string \<times> cvalue) list"
  | COKCount nat
  | CClaims "claimed_item list"
  | CPipelineValues cvalue

abbreviation bin :: "bytes \<Rightarrow> cvalue" where "bin b \<equiv> CBin (Some b)"

subsection \<open>Key-value responses\<close>

definition nativeCompactOKList :: byte where "nativeCompactOKList = 0x81"
definition nativeCompactKVGet :: byte where "nativeCompactKVGet = 0x82"
definition nativeCompactKVMGet :: byte where "nativeCompactKVMGet = 0x83"
definition nativeCompactBinaryListList :: byte where "nativeCompactBinaryListList = 0x86"
definition nativeCompactBinaryMapList :: byte where "nativeCompactBinaryMapList = 0x87"
definition nativeCompactIntegerList :: byte where "nativeCompactIntegerList = 0x88"
definition nativeCompactKVMGetFixed :: byte where "nativeCompactKVMGetFixed = 0x89"

definition decodeNativeCompactOKList :: "bytes \<Rightarrow> compact_error + cvalue" where
  "decodeNativeCompactOKList data =
     (if length data \<noteq> 5 \<or> data ! 0 \<noteq> nativeCompactOKList then Inl (CInvalid ''OK list'')
      else ebind (map_err CValue (nativeBoundedItemCount ''compact OK list''
                    (be_val (take 4 (drop 1 data))) 0 0))
             (\<lambda>cnt. Inr (COKCount cnt)))"

definition decodeNativeCompactKVGet :: "bytes \<Rightarrow> compact_error + cvalue" where
  "decodeNativeCompactKVGet data =
     (if length data < 2 \<or> data ! 0 \<noteq> nativeCompactKVGet then Inl (CInvalid ''GET'')
      else if data ! 1 = 0 then
        (if length data \<noteq> 2 then Inl (CTrailing ''nil GET'') else Inr CNil)
      else if data ! 1 = 1 then
        ebind (readNativeCompactBinary (drop 2 data) ()) (\<lambda>(v, rest, _).
          ebind (compactEnd ''GET'' rest) (\<lambda>_. Inr (bin v)))
      else Inl (CUnsupportedTag ''GET present'' (data ! 1)))"

text \<open>One \<open>MGET\<close> item: a presence byte, then the value when present.\<close>

definition readMGetItem :: "bytes \<Rightarrow> unit \<Rightarrow> compact_error + (bytes option \<times> bytes \<times> unit)" where
  "readMGetItem data s =
     (case data of
        [] \<Rightarrow> Inl (CTruncated ''MGET item'')
      | present # rest \<Rightarrow>
          if present = 0 then Inr (None, rest, s)
          else if present = 1 then
            ebind (readNativeCompactBinary rest s) (\<lambda>(v, rest, s). Inr (Some v, rest, s))
          else Inl (CUnsupportedTag ''MGET present'' present))"

definition mget_value :: "bytes option \<Rightarrow> cvalue" where
  "mget_value v = (case v of None \<Rightarrow> CNil | Some b \<Rightarrow> bin b)"

definition decodeNativeCompactKVMGet :: "bytes \<Rightarrow> compact_error + cvalue" where
  "decodeNativeCompactKVMGet data =
     ebind (compactHead nativeCompactKVMGet ''compact MGET'' 1 data) (\<lambda>(cnt, rest).
     ebind (read_items readMGetItem cnt rest ()) (\<lambda>(vs, rest, _).
     ebind (compactEnd ''MGET'' rest) (\<lambda>_. Inr (CList (map mget_value vs)))))"

primrec fixedItems :: "nat \<Rightarrow> nat \<Rightarrow> bytes \<Rightarrow> bytes list" where
  "fixedItems sz 0 rest = []"
| "fixedItems sz (Suc n) rest = take sz rest # fixedItems sz n (drop sz rest)"

definition decodeNativeCompactKVMGetFixed :: "bytes \<Rightarrow> compact_error + cvalue" where
  "decodeNativeCompactKVMGetFixed data =
     (if length data < 9 \<or> data ! 0 \<noteq> nativeCompactKVMGetFixed then Inl (CInvalid ''fixed MGET'')
      else ebind (map_err CValue (nativeBoundedItemCount ''compact fixed MGET''
                    (be_val (take 4 (drop 1 data))) (length data - 9) 0)) (\<lambda>cnt.
        let sz = be_val (take 4 (drop 5 data)) in
        if cnt * sz \<noteq> length data - 9 then Inl (CMismatch ''fixed MGET'')
        else Inr (CList (map bin (fixedItems sz cnt (drop 9 data))))))"

subsection \<open>Homogeneous collections\<close>

definition decodeNativeCompactIntegerList :: "bytes \<Rightarrow> compact_error + cvalue" where
  "decodeNativeCompactIntegerList data =
     ebind (compactHead nativeCompactIntegerList ''compact integer list'' 8 data) (\<lambda>(cnt, rest).
       if cnt * 8 \<noteq> length rest then Inl (CMismatch ''integer list'')
       else Inr (CList (map (\<lambda>b. CInt (word_of_nat (be_val b))) (fixedItems 8 cnt rest))))"

definition takeNativeCompactBinaryList :: "bytes \<Rightarrow> int \<Rightarrow> compact_error + (bytes list \<times> bytes \<times> int)" where
  "takeNativeCompactBinaryList data budget =
     (if length data < 4 then Inl (CTruncated ''binary list count'')
      else
        ebind (map_err CValue (nativeBoundedItemCount ''compact binary list''
                 (be_val (take 4 data)) (length data - 4) 4)) (\<lambda>cnt.
        ebind (consumeNativeCompactItems ''compact binary list'' cnt budget)
          (read_items readNativeCompactBinary cnt (drop 4 data))))"

text \<open>One entry of a binary map; the state also carries the entries read so far.\<close>

definition readBinaryMapEntry ::
  "bytes \<Rightarrow> int \<times> (string \<times> bytes) list \<Rightarrow>
   compact_error + ((string \<times> bytes) \<times> bytes \<times> (int \<times> (string \<times> bytes) list))" where
  "readBinaryMapEntry data s =
     ebind (readNativeCompactBinary data s) (\<lambda>(key, rest, s).
     ebind (readNativeCompactBinary rest s) (\<lambda>(value, rest, (budget, values)).
       let textKey = string_of key in
       if textKey \<in> set (map fst values) then Inl (CDuplicate ''binary map'' textKey)
       else Inr ((textKey, value), rest, (budget, values @ [(textKey, value)]))))"

definition takeNativeCompactBinaryMap ::
  "bytes \<Rightarrow> int \<Rightarrow> compact_error + ((string \<times> bytes) list \<times> bytes \<times> int)" where
  "takeNativeCompactBinaryMap data budget =
     (if length data < 4 then Inl (CTruncated ''binary map count'')
      else
        ebind (map_err CValue (nativeBoundedItemCount ''compact binary map''
                 (be_val (take 4 data)) (length data - 4) 8)) (\<lambda>cnt.
        ebind (consumeNativeCompactItems ''compact binary map'' cnt budget) (\<lambda>budget.
        ebind (read_items readBinaryMapEntry cnt (drop 4 data) (budget, []))
          (\<lambda>(_, rest, (budget, values)). Inr (values, rest, budget)))))"

definition bin_list :: "bytes list \<Rightarrow> cvalue" where "bin_list bs = CList (map bin bs)"

definition bin_map :: "(string \<times> bytes) list \<Rightarrow> cvalue" where
  "bin_map kvs = CMap (map (\<lambda>(k, v). (k, bin v)) kvs)"

definition decodeNativeCompactBinaryListList :: "bytes \<Rightarrow> compact_error + cvalue" where
  "decodeNativeCompactBinaryListList data =
     ebind (compactHead nativeCompactBinaryListList ''compact binary list list'' 4 data) (\<lambda>(cnt, rest).
     ebind (consumeNativeCompactItems ''compact binary list list'' cnt (int nativeMaxContainerItems)) (\<lambda>budget.
     ebind (read_items takeNativeCompactBinaryList cnt rest budget) (\<lambda>(vs, rest, _).
     ebind (compactEnd ''binary list list'' rest) (\<lambda>_. Inr (CList (map bin_list vs))))))"

definition decodeNativeCompactBinaryMapList :: "bytes \<Rightarrow> compact_error + cvalue" where
  "decodeNativeCompactBinaryMapList data =
     ebind (compactHead nativeCompactBinaryMapList ''compact binary map list'' 4 data) (\<lambda>(cnt, rest).
     ebind (consumeNativeCompactItems ''compact binary map list'' cnt (int nativeMaxContainerItems)) (\<lambda>budget.
     ebind (read_items takeNativeCompactBinaryMap cnt rest budget) (\<lambda>(vs, rest, _).
     ebind (compactEnd ''binary map list'' rest) (\<lambda>_. Inr (CList (map bin_map vs))))))"

end
