(* ===== verification/CompactFormats.thy ===== *)
theory CompactFormats
  imports CompactRead
begin

section \<open>Compact collections accept exactly their grammars\<close>

text \<open>
  Printers for the compact payloads and, for each reader, an interpretation of \<open>format\<close>: what the
  client lemmas of the interface give for the counted loops yields an exact characterisation of
  each collection decoder.
\<close>

subsection \<open>Printers\<close>

definition pr_bin :: "bytes \<Rightarrow> bytes" where
  "pr_bin b = be_bytes 4 (length b) @ b"

definition pr_opt :: "bytes option \<Rightarrow> bytes" where
  "pr_opt v = (case v of None \<Rightarrow> be_bytes 4 nativeCompactNilU32 | Some b \<Rightarrow> pr_bin b)"

definition pr_mget :: "bytes option \<Rightarrow> bytes" where
  "pr_mget v = (case v of None \<Rightarrow> [0] | Some b \<Rightarrow> 1 # pr_bin b)"

definition pr_counted :: "('a \<Rightarrow> bytes) \<Rightarrow> 'a list \<Rightarrow> bytes" where
  "pr_counted pr xs = be_bytes 4 (length xs) @ concat (map pr xs)"

definition pr_pair :: "string \<times> bytes \<Rightarrow> bytes" where
  "pr_pair kv = pr_bin (bytes_of (fst kv)) @ pr_bin (snd kv)"

lemma length_pr_bin [simp]: "length (pr_bin b) = 4 + length b"
  by (simp add: pr_bin_def)

lemma concat_min_length:
  "(\<And>x. x \<in> set xs \<Longrightarrow> k \<le> length (f x)) \<Longrightarrow> length xs * k \<le> length (concat (map f xs))"
  by (induction xs) (auto intro: add_mono)

subsection \<open>The shared head\<close>

lemma prefix4:
  "4 \<le> length data \<Longrightarrow> data = be_bytes 4 (be_val (take 4 data)) @ drop 4 data"
  by simp

lemma bounded_count_iff [simp]:
  "nativeBoundedItemCount kind raw remaining k = Inr cnt \<longleftrightarrow>
   raw = cnt \<and> cnt \<le> nativeMaxContainerItems \<and> cnt * k \<le> remaining"
  by (auto simp: nativeBoundedItemCount_def)

lemma compactHead_iff:
  "compactHead m kind k data = Inr (cnt, rest) \<longleftrightarrow>
   data = m # be_bytes 4 cnt @ rest \<and> cnt \<le> nativeMaxContainerItems \<and> cnt * k \<le> length rest"
    (is "?l \<longleftrightarrow> ?r")
proof
  assume ?l
  then have len: "5 \<le> length data" and hd: "data ! 0 = m"
    and cnt: "be_val (take 4 (drop 1 data)) = cnt" "cnt \<le> nativeMaxContainerItems"
    and k: "cnt * k \<le> length data - 5" and rest: "rest = drop 5 data"
    by (auto simp: compactHead_def ebind_Inr_iff split: if_splits)
  from len hd obtain d where data: "data = m # d" by (cases data) auto
  with len have "d = be_bytes 4 (be_val (take 4 d)) @ drop 4 d" by (intro prefix4) simp
  with data cnt k rest show ?r by (simp add: drop_Cons')
next
  assume ?r
  then show ?l by (auto simp: compactHead_def be_val_be_bytes4 items_le_maxUint32 ebind_Inr_iff)
qed

lemma compactEnd_iff [simp]:
  "compactEnd kind rest = Inr u \<longleftrightarrow> rest = []" "compactEnd kind [] = Inr ()"
  by (simp_all add: compactEnd_def)

text \<open>The counted loop of a format, as every collection decoder runs it.\<close>

context format
begin

lemma counted_iff:
  "(\<exists>rest. d = be_bytes 4 n @ rest \<and> read_items rd n rest s = Inr (xs, rest', s')) \<longleftrightarrow>
   n = length xs \<and> d = pr_counted pr xs @ rest' \<and> pay_all xs s = Some s'"
  by (auto simp: items_iff pr_counted_def)

lemma counted_loop_iff:
  assumes "\<And>x. k \<le> length (pr x)"
  shows "(\<exists>rest. data = m # be_bytes 4 n @ rest \<and> n \<le> M \<and> n * k \<le> length rest \<and>
      read_items rd n rest s = Inr (xs, rest', s')) \<longleftrightarrow>
    data = m # pr_counted pr xs @ rest' \<and> n = length xs \<and> n \<le> M \<and> pay_all xs s = Some s'"
proof -
  have "length xs * k \<le> length (concat (map pr xs))" by (rule concat_min_length) (rule assms)
  then show ?thesis by (auto simp: items_iff pr_counted_def)
qed

end

lemma consume_iff [simp]:
  "consumeNativeCompactItems kind cnt budget = Inr b \<longleftrightarrow> int cnt \<le> budget \<and> b = budget - int cnt"
  "int cnt \<le> budget \<Longrightarrow> consumeNativeCompactItems kind cnt budget = Inr (budget - int cnt)"
  by (auto simp: consumeNativeCompactItems_def)

subsection \<open>Binaries\<close>

definition pay_bin :: "bytes \<Rightarrow> 's \<Rightarrow> 's option" where
  "pay_bin b s = (if length b \<le> maxUint32 then Some s else None)"

definition pay_opt :: "bytes option \<Rightarrow> 's \<Rightarrow> 's option" where
  "pay_opt v s = (case v of None \<Rightarrow> Some s
     | Some b \<Rightarrow> if length b < nativeCompactNilU32 then Some s else None)"

lemma binary_iff:
  "readNativeCompactBinary data s = Inr (b, rest, s') \<longleftrightarrow>
   data = pr_bin b @ rest \<and> length b \<le> maxUint32 \<and> s' = s" (is "?l \<longleftrightarrow> ?r")
proof
  assume ?l
  then have len: "4 \<le> length data" and n: "be_val (take 4 data) \<le> length (drop 4 data)"
    and b: "b = take (be_val (take 4 data)) (drop 4 data)"
    and rest: "rest = drop (be_val (take 4 data)) (drop 4 data)" and s: "s' = s"
    by (auto simp: readNativeCompactBinary_def Let_def split: if_splits)
  have lb: "length b = be_val (take 4 data)" using b n by simp
  have "drop 4 data = b @ rest" by (simp only: b rest append_take_drop_id)
  with prefix4 [OF len] lb have "data = pr_bin b @ rest" by (simp add: pr_bin_def)
  with lb s be_val_take4 show ?r by simp
next
  assume ?r
  then show ?l by (auto simp: readNativeCompactBinary_def pr_bin_def be_val_be_bytes4)
qed

lemma optional_iff:
  "readNativeCompactOptionalBinary data s = Inr (v, rest, s') \<longleftrightarrow>
   data = pr_opt v @ rest \<and> pay_opt v s = Some s'" (is "?l \<longleftrightarrow> ?r")
proof
  assume l: ?l
  then have len: "4 \<le> length data"
    by (auto simp: readNativeCompactOptionalBinary_def split: if_splits)
  show ?r
  proof (cases "be_val (take 4 data) = nativeCompactNilU32")
    case True
    with l prefix4 [OF len] show ?thesis
      by (auto simp: readNativeCompactOptionalBinary_def pr_opt_def pay_opt_def split: if_splits)
  next
    case False
    with l obtain b where v: "v = Some b" and rd: "readNativeCompactBinary data s = Inr (b, rest, s')"
      by (auto simp: readNativeCompactOptionalBinary_def ebind_Inr_iff split: if_splits)
    then have d: "data = pr_bin b @ rest" "length b \<le> maxUint32" "s' = s" by (auto simp: binary_iff)
    then have "be_val (take 4 data) = length b" by (simp add: pr_bin_def be_val_be_bytes4)
    with False d have "length b < nativeCompactNilU32"
      by (simp add: nativeCompactNilU32_def maxUint32_def)
    with d v show ?thesis by (simp add: pr_opt_def pay_opt_def)
  qed
next
  assume r: ?r
  show ?l
  proof (cases v)
    case None
    with r show ?thesis
      by (simp add: readNativeCompactOptionalBinary_def pr_opt_def pay_opt_def be_val_be_bytes4
          nativeCompactNilU32_def maxUint32_def)
  next
    case (Some b)
    with r have b: "length b < nativeCompactNilU32" "s' = s" "data = pr_bin b @ rest"
      by (auto simp: pr_opt_def pay_opt_def split: if_splits)
    then have "readNativeCompactBinary data s = Inr (b, rest, s)"
      by (simp add: binary_iff nativeCompactNilU32_def maxUint32_def)
    moreover have "be_val (take 4 data) = length b"
      using b by (simp add: pr_bin_def be_val_be_bytes4 nativeCompactNilU32_def maxUint32_def)
    ultimately show ?thesis using b Some
      by (simp add: readNativeCompactOptionalBinary_def pr_bin_def)
  qed
qed

lemma print_read [simp]:
  "length b \<le> maxUint32 \<Longrightarrow> readNativeCompactBinary (pr_bin b @ rest) s = Inr (b, rest, s)"
  "pay_opt v s = Some s' \<Longrightarrow> readNativeCompactOptionalBinary (pr_opt v @ rest) s = Inr (v, rest, s')"
  by (auto simp: binary_iff optional_iff)

interpretation compact_binary: format readNativeCompactBinary pr_bin pay_bin
  by unfold_locales (auto simp: binary_iff pay_bin_def split: if_splits)

interpretation compact_optional: format readNativeCompactOptionalBinary pr_opt pay_opt
  by unfold_locales (auto simp: optional_iff)

text \<open>A list whose elements spend nothing is paid when every element is.\<close>

lemma pay_all_bin:
  "compact_binary.pay_all bs s = Some s' \<longleftrightarrow> (\<forall>b \<in> set bs. length b \<le> maxUint32) \<and> s' = s"
  by (induction bs arbitrary: s) (auto simp: pay_bin_def bind_eq_Some_conv)

subsection \<open>Key-value responses\<close>

definition pay_mget :: "bytes option \<Rightarrow> unit \<Rightarrow> unit option" where
  "pay_mget v s = (case v of None \<Rightarrow> Some s | Some b \<Rightarrow> pay_bin b s)"

interpretation compact_mget: format readMGetItem pr_mget pay_mget
proof unfold_locales
  fix data rest :: bytes and s s' :: unit and x :: "bytes option"
  show *: "readMGetItem data s = Inr (x, rest, s') \<Longrightarrow> data = pr_mget x @ rest \<and> pay_mget x s = Some s'"
    by (auto simp: readMGetItem_def ebind_Inr_iff binary_iff pr_mget_def pay_mget_def pay_bin_def
        split: list.splits if_splits)
  then show "readMGetItem data s = Inr (x, rest, s') \<Longrightarrow> \<exists>p. data = p @ rest" by blast
  show "pay_mget x s = Some s' \<Longrightarrow> readMGetItem (pr_mget x @ rest) s = Inr (x, rest, s')"
    by (auto simp: readMGetItem_def ebind_Inr_iff binary_iff pr_mget_def pay_mget_def pay_bin_def
        split: option.splits if_splits)
qed

lemma pay_all_mget:
  "compact_mget.pay_all vs s = Some s' \<longleftrightarrow> (\<forall>b. Some b \<in> set vs \<longrightarrow> length b \<le> maxUint32)"
  by (induction vs arbitrary: s)
    (auto simp: pay_mget_def pay_bin_def bind_eq_Some_conv split: option.splits if_splits)

lemma mget_iff:
  "decodeNativeCompactKVMGet data = Inr v \<longleftrightarrow>
   (\<exists>vs. data = nativeCompactKVMGet # pr_counted pr_mget vs \<and>
      length vs \<le> nativeMaxContainerItems \<and> (\<forall>b. Some b \<in> set vs \<longrightarrow> length b \<le> maxUint32) \<and>
      v = CList (map mget_value vs))"
proof -
  have min: "1 \<le> length (pr_mget x)" for x by (simp add: pr_mget_def split: option.splits)
  have "decodeNativeCompactKVMGet data = Inr v \<longleftrightarrow> (\<exists>vs n.
      (\<exists>rest. data = nativeCompactKVMGet # be_bytes 4 n @ rest \<and> n \<le> nativeMaxContainerItems \<and>
        n * 1 \<le> length rest \<and> read_items readMGetItem n rest () = Inr (vs, [], ())) \<and>
      v = CList (map mget_value vs))"
    by (fastforce simp: decodeNativeCompactKVMGet_def ebind_Inr_iff compactHead_iff)
  then show ?thesis
    unfolding compact_mget.counted_loop_iff [OF min] by (auto simp: pay_all_mget)
qed

subsection \<open>Fixed-width items\<close>

lemma fixedItems_concat:
  "length rest = n * sz \<Longrightarrow> concat (fixedItems sz n rest) = rest"
  by (induction n arbitrary: rest) auto

lemma fixedItems_length:
  "length rest = n * sz \<Longrightarrow> b \<in> set (fixedItems sz n rest) \<Longrightarrow> length b = sz"
proof (induction n arbitrary: rest)
  case (Suc n)
  then show ?case using Suc.IH [of "drop sz rest"] by auto
qed simp

lemma fixedItems_of_concat:
  "(\<And>b. b \<in> set bs \<Longrightarrow> length b = sz) \<Longrightarrow> fixedItems sz (length bs) (concat bs) = bs"
  by (induction bs) auto

lemma length_concat_fixed:
  "(\<And>b. b \<in> set bs \<Longrightarrow> length b = sz) \<Longrightarrow> length (concat bs) = length bs * sz"
  by (induction bs) auto

lemma length_fixedItems [simp]: "length (fixedItems sz n rest) = n"
  by (induction n arbitrary: rest) auto

lemma int_list_iff:
  "decodeNativeCompactIntegerList data = Inr v \<longleftrightarrow>
   (\<exists>ws :: 64 word list. data = nativeCompactIntegerList # pr_counted (\<lambda>w. be_bytes 8 (unat w)) ws \<and>
      length ws \<le> nativeMaxContainerItems \<and> v = CList (map CInt ws))" (is "?l \<longleftrightarrow> ?r")
proof
  assume ?l
  then obtain n rest where h: "data = nativeCompactIntegerList # be_bytes 4 n @ rest"
    "n \<le> nativeMaxContainerItems" and len: "length rest = n * 8"
    and v: "v = CList (map (\<lambda>b. CInt (word_of_nat (be_val b))) (fixedItems 8 n rest))"
    by (auto simp: decodeNativeCompactIntegerList_def ebind_Inr_iff compactHead_iff split: if_splits)
  let ?ws = "map (\<lambda>b. word_of_nat (be_val b) :: 64 word) (fixedItems 8 n rest)"
  have eight: "length b = 8" if "b \<in> set (fixedItems 8 n rest)" for b
    using that by (rule fixedItems_length [OF len])
  have "map (\<lambda>w. be_bytes 8 (unat w)) ?ws = fixedItems 8 n rest"
    by (auto simp: unat_be_val8 eight map_idI)
  then have "concat (map (\<lambda>w. be_bytes 8 (unat w)) ?ws) = rest"
    by (simp only: fixedItems_concat [OF len])
  with h v show ?r by (intro exI [of _ ?ws]) (simp add: pr_counted_def)
next
  assume ?r
  then obtain ws :: "64 word list"
    where data: "data = nativeCompactIntegerList # pr_counted (\<lambda>w. be_bytes 8 (unat w)) ws"
    and n: "length ws \<le> nativeMaxContainerItems" and v: "v = CList (map CInt ws)" by blast
  let ?bs = "map (\<lambda>w. be_bytes 8 (unat w)) ws"
  have len: "length (concat ?bs) = length ws * 8" by (subst length_concat_fixed [of _ 8]) auto
  then have "compactHead nativeCompactIntegerList ''compact integer list'' 8 data =
      Inr (length ws, concat ?bs)"
    using data n by (simp add: compactHead_iff pr_counted_def)
  moreover have "fixedItems 8 (length ?bs) (concat ?bs) = ?bs"
    by (rule fixedItems_of_concat) auto
  ultimately show ?l using len v by (simp add: decodeNativeCompactIntegerList_def)
qed

subsection \<open>Lists and maps of binaries\<close>

definition pay_bin_list :: "bytes list \<Rightarrow> int \<Rightarrow> int option" where
  "pay_bin_list bs r =
     (if length bs \<le> nativeMaxContainerItems \<and> int (length bs) \<le> r \<and>
         (\<forall>b \<in> set bs. length b \<le> maxUint32)
      then Some (r - int (length bs)) else None)"

lemma take_list_iff:
  "takeNativeCompactBinaryList data r = Inr (bs, rest, r') \<longleftrightarrow>
   data = pr_counted pr_bin bs @ rest \<and> pay_bin_list bs r = Some r'" (is "?l \<longleftrightarrow> ?r")
proof
  assume ?l
  then obtain n where len: "4 \<le> length data" and n: "be_val (take 4 data) = n" "n \<le> nativeMaxContainerItems"
    "int n \<le> r" and its: "read_items readNativeCompactBinary n (drop 4 data) (r - int n) = Inr (bs, rest, r')"
    by (auto simp: takeNativeCompactBinaryList_def ebind_Inr_iff split: if_splits)
  from prefix4 [OF len] n compact_binary.items_sound [OF its] show ?r
    by (auto simp: pr_counted_def pay_bin_list_def pay_all_bin)
next
  assume r: ?r
  then have n: "length bs \<le> nativeMaxContainerItems" "int (length bs) \<le> r"
    and pay: "compact_binary.pay_all bs (r - int (length bs)) = Some r'"
    by (auto simp: pay_bin_list_def pay_all_bin split: if_splits)
  have "length bs * 4 \<le> length (concat (map pr_bin bs))" by (rule concat_min_length) simp
  with r n compact_binary.items_complete [OF pay, of rest] show ?l
    by (auto simp: takeNativeCompactBinaryList_def pr_counted_def ebind_Inr_iff be_val_be_bytes4
        items_le_maxUint32)
qed

interpretation compact_bin_list: format takeNativeCompactBinaryList "pr_counted pr_bin" pay_bin_list
  by unfold_locales (auto simp: take_list_iff)

definition pay_pair ::
  "string \<times> bytes \<Rightarrow> int \<times> (string \<times> bytes) list \<Rightarrow> (int \<times> (string \<times> bytes) list) option" where
  "pay_pair kv s =
     (if length (fst kv) \<le> maxUint32 \<and> length (snd kv) \<le> maxUint32 \<and> fst kv \<notin> fst ` set (snd s)
      then Some (fst s, snd s @ [kv]) else None)"

interpretation compact_pair: format readBinaryMapEntry pr_pair pay_pair
proof unfold_locales
  fix data rest :: bytes and x :: "string \<times> bytes" and s s' :: "int \<times> (string \<times> bytes) list"
  show *: "readBinaryMapEntry data s = Inr (x, rest, s') \<Longrightarrow>
      data = pr_pair x @ rest \<and> pay_pair x s = Some s'"
    by (cases s; cases x)
      (auto simp: readBinaryMapEntry_def ebind_Inr_iff binary_iff Let_def pr_pair_def pay_pair_def
        split: if_splits)
  then show "readBinaryMapEntry data s = Inr (x, rest, s') \<Longrightarrow> \<exists>p. data = p @ rest" by blast
  show "pay_pair x s = Some s' \<Longrightarrow> readBinaryMapEntry (pr_pair x @ rest) s = Inr (x, rest, s')"
    by (cases s; cases x) (auto simp: readBinaryMapEntry_def pr_pair_def pay_pair_def split: if_splits)
qed

lemma pay_all_pair:
  "distinct (map fst vals) \<Longrightarrow>
   compact_pair.pay_all kvs (r, vals) = Some s' \<longleftrightarrow>
   (\<forall>(k, v) \<in> set kvs. length k \<le> maxUint32 \<and> length v \<le> maxUint32) \<and>
   distinct (map fst (vals @ kvs)) \<and> s' = (r, vals @ kvs)"
proof (induction kvs arbitrary: vals)
  case Nil
  then show ?case by auto
next
  case (Cons kv kvs)
  show ?case
  proof (cases "pay_pair kv (r, vals)")
    case None
    then have "compact_pair.pay_all (kv # kvs) (r, vals) \<noteq> Some s'" by simp
    moreover have "\<not> (length (fst kv) \<le> maxUint32 \<and> length (snd kv) \<le> maxUint32 \<and> fst kv \<notin> fst ` set vals)"
      using None by (auto simp: pay_pair_def split: if_splits)
    ultimately show ?thesis by (cases kv) auto
  next
    case (Some t)
    then have t: "t = (r, vals @ [kv])" and ok: "length (fst kv) \<le> maxUint32"
      "length (snd kv) \<le> maxUint32" "fst kv \<notin> fst ` set vals"
      by (auto simp: pay_pair_def split: if_splits)
    with Cons.prems have "distinct (map fst (vals @ [kv]))" by simp
    from Cons.IH [OF this] Some t ok show ?thesis by (cases kv) auto
  qed
qed

definition pay_bin_map :: "(string \<times> bytes) list \<Rightarrow> int \<Rightarrow> int option" where
  "pay_bin_map kvs r =
     (if length kvs \<le> nativeMaxContainerItems \<and> int (length kvs) \<le> r \<and> distinct (map fst kvs) \<and>
         (\<forall>(k, v) \<in> set kvs. length k \<le> maxUint32 \<and> length v \<le> maxUint32)
      then Some (r - int (length kvs)) else None)"

lemma take_map_iff:
  "takeNativeCompactBinaryMap data r = Inr (kvs, rest, r') \<longleftrightarrow>
   data = pr_counted pr_pair kvs @ rest \<and> pay_bin_map kvs r = Some r'" (is "?l \<longleftrightarrow> ?r")
proof
  assume ?l
  then obtain n es where len: "4 \<le> length data" and n: "be_val (take 4 data) = n" "n \<le> nativeMaxContainerItems"
    "int n \<le> r"
    and its: "read_items readBinaryMapEntry n (drop 4 data) (r - int n, []) = Inr (es, rest, (r', kvs))"
    by (auto simp: takeNativeCompactBinaryMap_def ebind_Inr_iff split: if_splits)
  from prefix4 [OF len] n compact_pair.items_sound [OF its] show ?r
    by (auto simp: pr_counted_def pay_bin_map_def pay_all_pair)
next
  assume r: ?r
  then have n: "length kvs \<le> nativeMaxContainerItems" "int (length kvs) \<le> r"
    and pay: "compact_pair.pay_all kvs (r - int (length kvs), []) = Some (r', kvs)"
    by (auto simp: pay_bin_map_def pay_all_pair split: if_splits)
  have "length kvs * 8 \<le> length (concat (map pr_pair kvs))"
    by (rule concat_min_length) (simp add: pr_pair_def)
  with r n compact_pair.items_complete [OF pay, of rest] show ?l
    by (auto simp: takeNativeCompactBinaryMap_def pr_counted_def ebind_Inr_iff be_val_be_bytes4
        items_le_maxUint32)
qed

interpretation compact_bin_map: format takeNativeCompactBinaryMap "pr_counted pr_pair" pay_bin_map
  by unfold_locales (auto simp: take_map_iff)

lemma pay_all_bin_map:
  "compact_bin_map.pay_all ms r = Some r' \<Longrightarrow>
   (\<forall>m \<in> set ms. distinct (map fst m)) \<and> r' = r - int (sum_list (map length ms)) \<and>
   (ms \<noteq> [] \<longrightarrow> 0 \<le> r')"
  by (induction ms arbitrary: r)
    (fastforce simp: pay_bin_map_def bind_eq_Some_conv split: if_splits)+

lemma list_list_iff:
  "decodeNativeCompactBinaryListList data = Inr v \<longleftrightarrow>
   (\<exists>ls r. data = nativeCompactBinaryListList # pr_counted (pr_counted pr_bin) ls \<and>
      length ls \<le> nativeMaxContainerItems \<and>
      compact_bin_list.pay_all ls (int nativeMaxContainerItems - int (length ls)) = Some r \<and>
      v = CList (map bin_list ls))"
proof -
  have min: "4 \<le> length (pr_counted pr_bin x)" for x by (simp add: pr_counted_def)
  have "decodeNativeCompactBinaryListList data = Inr v \<longleftrightarrow> (\<exists>ls n r.
      (\<exists>rest. data = nativeCompactBinaryListList # be_bytes 4 n @ rest \<and> n \<le> nativeMaxContainerItems \<and>
        n * 4 \<le> length rest \<and>
        read_items takeNativeCompactBinaryList n rest (int nativeMaxContainerItems - int n) = Inr (ls, [], r)) \<and>
      v = CList (map bin_list ls))"
    by (fastforce simp: decodeNativeCompactBinaryListList_def ebind_Inr_iff compactHead_iff)
  then show ?thesis unfolding compact_bin_list.counted_loop_iff [OF min] by auto
qed

lemma map_list_iff:
  "decodeNativeCompactBinaryMapList data = Inr v \<longleftrightarrow>
   (\<exists>ms r. data = nativeCompactBinaryMapList # pr_counted (pr_counted pr_pair) ms \<and>
      length ms \<le> nativeMaxContainerItems \<and>
      compact_bin_map.pay_all ms (int nativeMaxContainerItems - int (length ms)) = Some r \<and>
      v = CList (map bin_map ms))"
proof -
  have min: "4 \<le> length (pr_counted pr_pair x)" for x by (simp add: pr_counted_def)
  have "decodeNativeCompactBinaryMapList data = Inr v \<longleftrightarrow> (\<exists>ms n r.
      (\<exists>rest. data = nativeCompactBinaryMapList # be_bytes 4 n @ rest \<and> n \<le> nativeMaxContainerItems \<and>
        n * 4 \<le> length rest \<and>
        read_items takeNativeCompactBinaryMap n rest (int nativeMaxContainerItems - int n) = Inr (ms, [], r)) \<and>
      v = CList (map bin_map ms))"
    by (fastforce simp: decodeNativeCompactBinaryMapList_def ebind_Inr_iff compactHead_iff)
  then show ?thesis unfolding compact_bin_map.counted_loop_iff [OF min] by auto
qed

end
