(* ===== verification/CompactFlow.thy ===== *)
theory CompactFlow
  imports CompactFormats
begin

section \<open>Compact Flow records, claimed jobs and pipeline responses\<close>

text \<open>
  \<open>src/native_compact_flow_record.go\<close>, the claim decoder of \<open>src/native_compact.go\<close> and the
  backtracking decoder of \<open>src/native_compact_pipeline.go\<close>. The budget of
  \<open>newNativeCompactFlowRecordBudget\<close> is its remaining item count, started at one million.
\<close>

definition nativeCompactFlowClaimJobs :: byte where "nativeCompactFlowClaimJobs = 0x80"
definition nativeCompactFlowRecord :: byte where "nativeCompactFlowRecord = 0x84"
definition nativeCompactFlowRecordList :: byte where "nativeCompactFlowRecordList = 0x85"
definition nativeCompactPipelineResponse :: byte where "nativeCompactPipelineResponse = 0x95"

definition newNativeCompactFlowRecordBudget :: int where
  "newNativeCompactFlowRecordBudget = int nativeMaxContainerItems"

abbreviation consumeNativeCompactFlowRecordItems :: "string \<Rightarrow> nat \<Rightarrow> int \<Rightarrow> compact_error + int" where
  "consumeNativeCompactFlowRecordItems \<equiv> consumeNativeCompactItems"

subsection \<open>Flow records\<close>

definition nativeCompactFlowRecordFields :: "string list" where
  "nativeCompactFlowRecordFields =
    ['''', ''id'', ''type'', ''state'', ''version'', ''priority'', ''partition_key'',
     ''payload_ref'', ''result_ref'', ''error_ref'', ''payload'', ''result'', ''error'',
     ''created_at_ms'', ''updated_at_ms'', ''next_run_at_ms'', ''lease_deadline_ms'',
     ''lease_owner'', ''lease_token'', ''fencing_token'', ''attempts'', ''history_max_events'',
     ''history_hot_max_events'', ''child_groups'', ''parent_flow_id'', ''parent_partition_key'',
     ''root_flow_id'', ''correlation_id'', ''terminal_retention_until_ms'', ''ttl_ms'',
     ''retention_ttl_ms'', ''run_state'', ''value_refs'', ''values'', ''payload_omitted'',
     ''payload_size'', ''result_omitted'', ''result_size'', ''error_omitted'', ''error_size'',
     ''max_attempts'', ''attributes'']"

definition nativeCompactFlowRecordFieldName :: "byte \<Rightarrow> string" where
  "nativeCompactFlowRecordFieldName i =
     (if unat i \<ge> length nativeCompactFlowRecordFields then ''''
      else nativeCompactFlowRecordFields ! unat i)"

type_synonym flow_record = "(string \<times> goval) list"

text \<open>
  The body of the field loop. It returns the field it read (identifier, name, value); the state is
  the item budget and the record built so far, to which a field with a name is added.
\<close>

definition readFlowRecordField ::
  "bytes \<Rightarrow> int \<times> flow_record \<Rightarrow>
   compact_error + ((byte \<times> string \<times> goval) \<times> bytes \<times> (int \<times> flow_record))" where
  "readFlowRecordField data s =
     (case data of
        [] \<Rightarrow> Inl (CTruncated ''Flow record field'')
      | fieldID # rest \<Rightarrow>
          ebind (if fieldID = 0 then
                   ebind (readNativeCompactBinary rest ()) (\<lambda>(name, rest, _).
                     if name = [] then Inl (CBad ''Flow extension name is empty'')
                     else Inr (string_of name, rest))
                 else Inr (nativeCompactFlowRecordFieldName fieldID, rest)) (\<lambda>(fieldName, rest).
          ebind (map_err CValue (decodeNativeValueBudget nativeMaxDecodeDepth 0 rest (fst s)))
            (\<lambda>(value, rest, budget).
            if fieldName = '''' then Inr ((fieldID, fieldName, value), rest, (budget, snd s))
            else if fieldName \<in> fst ` set (snd s) then Inl (CDuplicate ''Flow record'' fieldName)
            else Inr ((fieldID, fieldName, value), rest, (budget, snd s @ [(fieldName, value)])))))"

definition takeNativeCompactFlowRecordWithBudget ::
  "bytes \<Rightarrow> int \<Rightarrow> compact_error + (flow_record \<times> bytes \<times> int)" where
  "takeNativeCompactFlowRecordWithBudget data budget =
     ebind (compactHead nativeCompactFlowRecord ''compact Flow record'' 2 data) (\<lambda>(cnt, rest).
     ebind (consumeNativeCompactFlowRecordItems ''compact Flow record'' cnt budget) (\<lambda>budget.
     ebind (read_items readFlowRecordField cnt rest (budget, []))
       (\<lambda>(_, rest, (budget, record)). Inr (record, rest, budget))))"

definition takeNativeCompactFlowRecordListWithBudget ::
  "bytes \<Rightarrow> int \<Rightarrow> compact_error + (flow_record list \<times> bytes \<times> int)" where
  "takeNativeCompactFlowRecordListWithBudget data budget =
     ebind (compactHead nativeCompactFlowRecordList ''compact Flow record list'' 5 data) (\<lambda>(cnt, rest).
     ebind (consumeNativeCompactFlowRecordItems ''compact Flow record list'' cnt budget)
       (read_items takeNativeCompactFlowRecordWithBudget cnt rest))"

definition any_map :: "(string \<times> goval) list \<Rightarrow> cvalue" where
  "any_map kvs = CMap (map (\<lambda>(k, v). (k, CAny v)) kvs)"

definition decodeNativeCompactFlowRecord :: "bytes \<Rightarrow> compact_error + cvalue" where
  "decodeNativeCompactFlowRecord data =
     ebind (takeNativeCompactFlowRecordWithBudget data newNativeCompactFlowRecordBudget) (\<lambda>(record, rest, _).
     ebind (compactEnd ''Flow record'' rest) (\<lambda>_. Inr (any_map record)))"

definition decodeNativeCompactFlowRecordList :: "bytes \<Rightarrow> compact_error + cvalue" where
  "decodeNativeCompactFlowRecordList data =
     ebind (takeNativeCompactFlowRecordListWithBudget data newNativeCompactFlowRecordBudget) (\<lambda>(rs, rest, _).
     ebind (compactEnd ''Flow record list'' rest) (\<lambda>_. Inr (CList (map any_map rs))))"

subsection \<open>Claimed jobs\<close>

datatype nativeCompactClaimLayout =
    nativeCompactClaimBase | nativeCompactClaimAttributes
  | nativeCompactClaimState | nativeCompactClaimStateAttributes

definition maxInt64 :: nat where "maxInt64 = 2 ^ 63 - 1"

text \<open>The attributes field: any generic value, refused unless it is a map.\<close>

definition readClaimAttributes :: "bytes \<Rightarrow> int \<Rightarrow> ((string \<times> goval) list \<times> bytes \<times> int) option" where
  "readClaimAttributes data budget =
     (case decodeNativeValueBudget nativeMaxDecodeDepth 0 data budget of
        Inr (VMap i kvs, rest, budget) \<Rightarrow> Some (kvs, rest, budget)
      | _ \<Rightarrow> None)"

text \<open>The two optional tails of a claimed job: its attributes and its run state.\<close>

definition claimAttributes ::
  "claimed_item \<Rightarrow> bytes \<Rightarrow> int \<Rightarrow> unit + (claimed_item \<times> bytes \<times> int)" where
  "claimAttributes item data budget =
     (case readClaimAttributes data budget of
        None \<Rightarrow> Inl ()
      | Some (attributes, data, budget) \<Rightarrow> Inr (item\<lparr>Attributes := Some attributes\<rparr>, data, budget))"

definition claimRunState :: "claimed_item \<Rightarrow> bytes \<Rightarrow> unit + (claimed_item \<times> bytes)" where
  "claimRunState item data =
     ebind (map_err (\<lambda>_. ()) (readNativeCompactOptionalBinary data ())) (\<lambda>(runState, data, _).
       Inr (item\<lparr>RunState := string_of (case runState of None \<Rightarrow> [] | Some r \<Rightarrow> r)\<rparr>, data))"

definition readClaimedItem ::
  "nativeCompactClaimLayout \<Rightarrow> bytes \<Rightarrow> int \<Rightarrow> unit + (claimed_item \<times> bytes \<times> int)" where
  "readClaimedItem layout data budget =
     ebind (map_err (\<lambda>_. ()) (readNativeCompactBinary data ())) (\<lambda>(jobID, data, _).
     ebind (map_err (\<lambda>_. ()) (readNativeCompactOptionalBinary data ())) (\<lambda>(partition, data, _).
     ebind (map_err (\<lambda>_. ()) (readNativeCompactBinary data ())) (\<lambda>(lease, data, _).
     if length data < 8 then Inl ()
     else
       let fencingRaw = be_val (take 8 data); data = drop 8 data in
       if fencingRaw > maxInt64 then Inl ()
       else
         let item = \<lparr>ID = string_of jobID, LeaseToken = string_of lease,
               FencingToken = word_of_nat fencingRaw,
               PartitionKey = string_of (case partition of None \<Rightarrow> [] | Some p \<Rightarrow> p),
               Type = '''', State = ''running'', RunState = '''', Payload = None, Attributes = None\<rparr> in
         case layout of
           nativeCompactClaimBase \<Rightarrow> Inr (item, data, budget)
         | nativeCompactClaimAttributes \<Rightarrow> claimAttributes item data budget
         | nativeCompactClaimState \<Rightarrow>
             ebind (claimRunState item data) (\<lambda>(item, data). Inr (item, data, budget))
         | nativeCompactClaimStateAttributes \<Rightarrow>
             ebind (claimRunState item data) (\<lambda>(item, data). claimAttributes item data budget))))"

definition tryDecodeNativeCompactClaimJobsLayout ::
  "bytes \<Rightarrow> nat \<Rightarrow> nativeCompactClaimLayout \<Rightarrow> claimed_item list option" where
  "tryDecodeNativeCompactClaimJobsLayout data cnt layout =
     (case consumeNativeCompactFlowRecordItems ''compact claimed jobs'' cnt newNativeCompactFlowRecordBudget of
        Inl _ \<Rightarrow> None
      | Inr budget \<Rightarrow>
          (case read_items (readClaimedItem layout) cnt data budget of
             Inl _ \<Rightarrow> None
           | Inr (jobs, rest, _) \<Rightarrow> if rest = [] then Some jobs else None))"

definition decodeNativeCompactClaimJobs :: "bytes \<Rightarrow> compact_error + claimed_item list" where
  "decodeNativeCompactClaimJobs data =
     ebind (compactHead nativeCompactFlowClaimJobs ''compact claim jobs'' 16 data) (\<lambda>(cnt, rest).
       case List.find (\<lambda>r. r \<noteq> None) (map (tryDecodeNativeCompactClaimJobsLayout rest cnt)
           [nativeCompactClaimBase, nativeCompactClaimAttributes,
            nativeCompactClaimState, nativeCompactClaimStateAttributes]) of
         Some (Some jobs) \<Rightarrow> Inr jobs
       | _ \<Rightarrow> Inl (CBad ''claim jobs payload is invalid''))"

end
