(* ===== verification/CompactPipeline.thy ===== *)
theory CompactPipeline
  imports CompactFlow
begin

section \<open>The backtracking pipeline response decoder\<close>

text \<open>
  \<open>src/native_compact_pipeline.go\<close>. A claimed-job item has up to four readings of different lengths,
  so the decoder searches: it takes the first affordable reading of each item, remembers the others
  on a stack of decisions, memoises failed positions and stops after a number of attempts linear in
  the item count. The loop is a step function on its local variables; its termination is the
  attempts budget.
\<close>

subsection \<open>The readings of one item\<close>

record candidate =
  cvalue :: cvalue
  cnext :: bytes
  ccost :: int

abbreviation cand :: "cvalue \<Rightarrow> bytes \<Rightarrow> int \<Rightarrow> candidate" where
  "cand v n c \<equiv> \<lparr>cvalue = v, cnext = n, ccost = c\<rparr>"

abbreviation spent :: "int \<Rightarrow> int" where
  "spent budget \<equiv> int nativeMaxContainerItems - budget"

definition takeNativeCompactPipelineAttributes :: "bytes \<Rightarrow> ((string \<times> goval) list \<times> bytes \<times> int) option" where
  "takeNativeCompactPipelineAttributes data =
     map_option (\<lambda>(kvs, rest, budget). (kvs, rest, spent budget))
       (readClaimAttributes data newNativeCompactFlowRecordBudget)"

definition decodeNativeCompactPipelineClaim :: "bytes \<Rightarrow> compact_error + candidate list" where
  "decodeNativeCompactPipelineClaim data =
     ebind (readNativeCompactBinary data ()) (\<lambda>(jobID, data, _).
     ebind (readNativeCompactOptionalBinary data ()) (\<lambda>(partition, data, _).
     ebind (readNativeCompactBinary data ()) (\<lambda>(lease, data, _).
     if length data < 8 then Inl (CTruncated ''pipeline claimed job fencing token'')
     else if be_val (take 8 data) > maxInt64
     then Inl (CNegative ''pipeline claimed job fencing token'')
     else
       let rawFencing = be_val (take 8 data); data = drop 8 data;
           base = [bin jobID, CBin partition, bin lease, CInt (word_of_nat rawFencing)];
           runState = readNativeCompactOptionalBinary data () in
       Inr ((case runState of
               Inl _ \<Rightarrow> []
             | Inr (rs, rest, _) \<Rightarrow>
                 (case takeNativeCompactPipelineAttributes rest of
                    None \<Rightarrow> []
                  | Some (attrs, rest, cost) \<Rightarrow> [cand (CList (base @ [CBin rs, any_map attrs])) rest cost]))
          @ (case takeNativeCompactPipelineAttributes data of
               None \<Rightarrow> []
             | Some (attrs, rest, cost) \<Rightarrow> [cand (CList (base @ [any_map attrs])) rest cost])
          @ (case runState of
               Inl _ \<Rightarrow> []
             | Inr (rs, rest, _) \<Rightarrow> [cand (CList (base @ [CBin rs])) rest 0])
          @ [cand (CList base) data 0]))))"

definition takeNativeCompactPipelineValueRef :: "bytes \<Rightarrow> compact_error + (cvalue \<times> bytes)" where
  "takeNativeCompactPipelineValueRef data =
     ebind (readNativeCompactBinary data ()) (\<lambda>(ref, data, _).
     ebind (readNativeCompactOptionalBinary data ()) (\<lambda>(partition, data, _).
     ebind (readNativeCompactOptionalBinary data ()) (\<lambda>(owner, data, _).
       Inr (CMap ([(''ref'', bin ref)]
              @ (case partition of None \<Rightarrow> [] | Some p \<Rightarrow> [(''partition_key'', bin p)])
              @ (case owner of None \<Rightarrow> [] | Some w \<Rightarrow> [(''owner_flow_id'', bin w)])), data))))"

definition decodeNativeCompactPipelineOKValues :: "byte \<Rightarrow> bytes \<Rightarrow> compact_error + candidate list" where
  "decodeNativeCompactPipelineOKValues present data =
     (if present = 0 then Inr [cand CNil data 0]
      else if present = 1 then
        ebind (readNativeCompactBinary data ()) (\<lambda>(v, rest, _). Inr [cand (bin v) rest 0])
      else if present = 2 then
        ebind (takeNativeCompactFlowRecordWithBudget data newNativeCompactFlowRecordBudget)
          (\<lambda>(record, rest, budget). Inr [cand (any_map record) rest (spent budget)])
      else if present = 3 then
        ebind (takeNativeCompactFlowRecordListWithBudget data newNativeCompactFlowRecordBudget)
          (\<lambda>(rs, rest, budget). Inr [cand (CList (map any_map rs)) rest (spent budget)])
      else if present = 4 then decodeNativeCompactPipelineClaim data
      else if present = 5 then
        ebind (takeNativeCompactPipelineValueRef data) (\<lambda>(v, rest). Inr [cand v rest 0])
      else if present = 6 then
        ebind (takeNativeCompactBinaryList data (int nativeMaxContainerItems))
          (\<lambda>(bs, rest, budget). Inr [cand (bin_list bs) rest (spent budget)])
      else if present = 7 then
        ebind (takeNativeCompactBinaryMap data (int nativeMaxContainerItems))
          (\<lambda>(kvs, rest, budget). Inr [cand (bin_map kvs) rest (spent budget)])
      else Inl (CUnsupportedTag ''pipeline value'' present))"

definition decodeNativeCompactPipelineItem :: "bytes \<Rightarrow> compact_error + candidate list" where
  "decodeNativeCompactPipelineItem data =
     (case data of
        [] \<Rightarrow> Inl (CTruncated ''pipeline item'')
      | status # data \<Rightarrow>
          if status = 0 then
            (case data of
               [] \<Rightarrow> Inl (CTruncated ''pipeline ok item'')
             | present # data \<Rightarrow>
                 ebind (decodeNativeCompactPipelineOKValues present data)
                   (\<lambda>cs. Inr (map (\<lambda>c. c\<lparr>cvalue := CList [CText ''ok'', cvalue c]\<rparr>) cs)))
          else if status \<noteq> 1 \<and> status \<noteq> 2 then Inl (CUnsupportedTag ''pipeline status'' status)
          else
            ebind (readNativeCompactBinary data ()) (\<lambda>(reason, rest, _).
              Inr [cand (CList [CText (if status = 1 then ''busy'' else ''error''), bin reason]) rest 0]))"

subsection \<open>The search\<close>

type_synonym pipeline_key = "nat \<times> bytes \<times> int"

record pipeline_decision =
  ditem :: nat
  drest :: bytes
  dcandidates :: "candidate list"
  dnext :: nat
  dremaining :: int

record pipeline_state =
  pitems :: "cvalue list"
  pdecisions :: "pipeline_decision list"   \<comment> \<open>the last decision first\<close>
  pfailed :: "pipeline_key set"
  pitem :: nat
  prest :: bytes
  premaining :: int
  pattempts :: nat
  perr :: "compact_error option"

definition nextNativeCompactPipelineCandidate ::
  "candidate list \<Rightarrow> nat \<Rightarrow> int \<Rightarrow> candidate option \<times> nat" where
  "nextNativeCompactPipelineCandidate cs start remaining =
     (case List.find (\<lambda>i. ccost (cs ! i) \<le> remaining) [start..<length cs] of
        Some i \<Rightarrow> (Some (cs ! i), i + 1)
      | None \<Rightarrow> (None, length cs))"

lemma nextCandidate_cases:
  assumes "nextNativeCompactPipelineCandidate cs start remaining = (r, nx)"
  shows "(r = None \<and> (\<forall>i. start \<le> i \<longrightarrow> i < length cs \<longrightarrow> remaining < ccost (cs ! i))) \<or>
    (\<exists>i. start \<le> i \<and> i < length cs \<and> nx = Suc i \<and> r = Some (cs ! i) \<and> ccost (cs ! i) \<le> remaining \<and>
       (\<forall>j. start \<le> j \<longrightarrow> j < i \<longrightarrow> remaining < ccost (cs ! j)))"
proof (cases "List.find (\<lambda>i. ccost (cs ! i) \<le> remaining) [start..<length cs]")
  case None
  with assms have "r = None" by (simp add: nextNativeCompactPipelineCandidate_def)
  with None show ?thesis by (auto simp: find_None_iff not_le)
next
  case (Some i)
  then obtain k where k: "k < length cs - start" "i = start + k" "ccost (cs ! i) \<le> remaining"
    and least: "\<And>j. j < k \<Longrightarrow> \<not> ccost (cs ! (start + j)) \<le> remaining"
    by (auto simp: find_Some_iff)
  have "remaining < ccost (cs ! j)" if "start \<le> j" "j < i" for j
    using least [of "j - start"] that k by (auto simp: not_le)
  then show ?thesis using assms Some k
    by (auto simp: nextNativeCompactPipelineCandidate_def)
qed

datatype backtrack =
    Exhausted "pipeline_key set"
  | OverBudget
  | Resumed "pipeline_decision list" "pipeline_key set" candidate

text \<open>The inner loop: resume the last decision that has an affordable reading not known to fail.\<close>

function pipeline_backtrack ::
  "nat \<Rightarrow> nat \<Rightarrow> pipeline_decision list \<Rightarrow> pipeline_key set \<Rightarrow> backtrack" where
  "pipeline_backtrack attempts maxAttempts [] failed = Exhausted failed"
| "pipeline_backtrack attempts maxAttempts (d # ds) failed =
     (case nextNativeCompactPipelineCandidate (dcandidates d) (dnext d) (dremaining d) of
        (None, _) \<Rightarrow>
          pipeline_backtrack attempts maxAttempts ds (insert (ditem d, drest d, dremaining d) failed)
      | (Some c, nx) \<Rightarrow>
          if (ditem d + 1, cnext c, dremaining d - ccost c) \<in> failed
          then pipeline_backtrack attempts maxAttempts (d\<lparr>dnext := nx\<rparr> # ds) failed
          else if attempts + 1 > maxAttempts then OverBudget
          else Resumed (d\<lparr>dnext := nx\<rparr> # ds) failed c)"
  by pat_completeness auto
termination
proof (relation "measures [\<lambda>(a, m, ds, f). length ds,
    \<lambda>(a, m, ds, f). case ds of [] \<Rightarrow> 0 | d # _ \<Rightarrow> length (dcandidates d) - dnext d]"; clarsimp)
  fix d :: pipeline_decision and c nx
  assume "(Some c, nx) = nextNativeCompactPipelineCandidate (dcandidates d) (dnext d) (dremaining d)"
  from nextCandidate_cases [OF this [symmetric]]
  show "length (dcandidates d) - nx < length (dcandidates d) - dnext d" by auto
qed

definition pipeline_retry :: "nat \<Rightarrow> pipeline_state \<Rightarrow> pipeline_state + (compact_error + cvalue list)" where
  "pipeline_retry maxAttempts st =
     (case pipeline_backtrack (pattempts st) maxAttempts (pdecisions st) (pfailed st) of
        Exhausted _ \<Rightarrow> Inr (Inl (case perr st of None \<Rightarrow> CBad ''pipeline response is invalid'' | Some e \<Rightarrow> e))
      | OverBudget \<Rightarrow> Inr (Inl CAmbiguity)
      | Resumed ds failed c \<Rightarrow>
          let last = hd ds in
          Inl (st\<lparr>pitems := (pitems st)[ditem last := cvalue c], pdecisions := ds, pfailed := failed,
                  pitem := ditem last + 1, prest := cnext c, premaining := dremaining last - ccost c,
                  pattempts := pattempts st + 1\<rparr>))"

definition pipeline_step ::
  "nat \<Rightarrow> nat \<Rightarrow> pipeline_state \<Rightarrow> pipeline_state + (compact_error + cvalue list)" where
  "pipeline_step cnt maxAttempts st =
     (let key = (pitem st, prest st, premaining st);
          fail = (\<lambda>e st. pipeline_retry maxAttempts
                    (st\<lparr>perr := Some e, pfailed := insert key (pfailed st)\<rparr>)) in
      if pitem st = cnt then
        (if prest st = [] then Inr (Inr (pitems st)) else fail (CTrailing ''pipeline response'') st)
      else if key \<in> pfailed st then pipeline_retry maxAttempts st
      else if pattempts st + 1 > maxAttempts then Inr (Inl CAmbiguity)
      else
        let st = st\<lparr>pattempts := pattempts st + 1\<rparr> in
        case decodeNativeCompactPipelineItem (prest st) of
          Inl e \<Rightarrow> fail e st
        | Inr cs \<Rightarrow>
            (case nextNativeCompactPipelineCandidate cs 0 (premaining st) of
               (None, _) \<Rightarrow> fail (CAggregate ''pipeline response'') st
             | (Some c, nx) \<Rightarrow>
                 Inl (st\<lparr>pitems := (pitems st)[pitem st := cvalue c],
                   pdecisions := (if nx < length cs
                     then \<lparr>ditem = pitem st, drest = prest st, dcandidates = cs, dnext = nx,
                            dremaining = premaining st\<rparr> # pdecisions st
                     else pdecisions st),
                   prest := cnext c, premaining := premaining st - ccost c, pitem := pitem st + 1\<rparr>)))"

lemma pipeline_retry_attempts:
  "pipeline_retry m st = Inl st' \<Longrightarrow> pattempts st < pattempts st' \<and> pattempts st' \<le> m"
proof -
  have "pipeline_backtrack a m ds f = Resumed ds' f' c \<Longrightarrow> a + 1 \<le> m" for a ds f ds' f' c
    by (induction a m ds f rule: pipeline_backtrack.induct)
      (auto split: prod.splits option.splits if_splits)
  then show "pipeline_retry m st = Inl st' \<Longrightarrow> ?thesis"
    by (fastforce simp: pipeline_retry_def Let_def split: backtrack.splits)
qed

lemma pipeline_step_attempts:
  "pipeline_step cnt m st = Inl st' \<Longrightarrow> pattempts st < pattempts st' \<and> pattempts st' \<le> m"
  by (auto simp: pipeline_step_def Let_def dest!: pipeline_retry_attempts
      split: if_splits sum.splits prod.splits option.splits)

function pipeline_loop :: "nat \<Rightarrow> nat \<Rightarrow> pipeline_state \<Rightarrow> compact_error + cvalue list" where
  "pipeline_loop cnt maxAttempts st =
     (case pipeline_step cnt maxAttempts st of
        Inl st' \<Rightarrow> pipeline_loop cnt maxAttempts st'
      | Inr r \<Rightarrow> r)"
  by pat_completeness auto
termination
  by (relation "measure (\<lambda>(cnt, m, st). m - pattempts st)") (fastforce dest: pipeline_step_attempts)+

declare pipeline_loop.simps [simp del]

definition pipeline_start :: "nat \<Rightarrow> bytes \<Rightarrow> pipeline_state" where
  "pipeline_start cnt rest =
     \<lparr>pitems = replicate cnt CNil, pdecisions = [], pfailed = {}, pitem = 0, prest = rest,
      premaining = int nativeMaxContainerItems - int cnt, pattempts = 0, perr = None\<rparr>"

definition decodeNativeCompactPipelineResponse :: "bytes \<Rightarrow> compact_error + cvalue list" where
  "decodeNativeCompactPipelineResponse data =
     ebind (compactHead nativeCompactPipelineResponse ''compact pipeline response'' 2 data)
       (\<lambda>(cnt, rest). pipeline_loop cnt (8 * (cnt + 1) + 64) (pipeline_start cnt rest))"

end
