(* ===== verification/CompactPipelineCorrect.thy ===== *)
theory CompactPipelineCorrect
  imports CompactPipeline
begin

section \<open>The pipeline search decides the pipeline grammar\<close>

text \<open>
  The specification is nondeterministic: an item at a position may be read as any of its affordable
  candidates (\<open>edge\<close>), and a response is a path of as many items as it declares that ends at the
  end of the payload. The search is sound (what it returns is such a path) and complete up to its
  attempts budget (when it reports anything else than the ambiguity budget, there is no such path):
  memoised positions are dead, and the decision stack covers everything that is not explored yet.
\<close>

type_synonym position = "bytes \<times> int"

definition edge :: "position \<Rightarrow> cvalue \<Rightarrow> position \<Rightarrow> bool" where
  "edge s v t \<longleftrightarrow> (\<exists>cs c. decodeNativeCompactPipelineItem (fst s) = Inr cs \<and> c \<in> set cs \<and>
     ccost c \<le> snd s \<and> v = cvalue c \<and> t = (cnext c, snd s - ccost c))"

fun path :: "position \<Rightarrow> cvalue list \<Rightarrow> position \<Rightarrow> bool" where
  "path s [] t \<longleftrightarrow> s = t"
| "path s (v # vs) t \<longleftrightarrow> (\<exists>u. edge s v u \<and> path u vs t)"

lemma path_snoc: "path s (vs @ [v]) t \<longleftrightarrow> (\<exists>u. path s vs u \<and> edge u v t)"
  by (induction vs arbitrary: s) (simp_all del: split_paired_Ex, blast+)

definition live :: "nat \<Rightarrow> position \<Rightarrow> bool" where
  "live n s \<longleftrightarrow> (\<exists>vs m. length vs = n \<and> path s vs ([], m))"

lemma live_0: "live 0 s \<longleftrightarrow> fst s = []"
  by (cases s) (auto simp: live_def)

lemma live_Suc: "live (Suc n) s \<longleftrightarrow> (\<exists>v t. edge s v t \<and> live n t)"
  unfolding live_def by (force simp: length_Suc_conv)

lemma live_at:
  assumes "i < cnt" and "decodeNativeCompactPipelineItem rest = Inr cs"
  shows "live (cnt - i) (rest, r) \<longleftrightarrow>
    (\<exists>j < length cs. ccost (cs ! j) \<le> r \<and> live (cnt - Suc i) (cnext (cs ! j), r - ccost (cs ! j)))"
    (is "_ \<longleftrightarrow> ?r")
proof -
  have "live (cnt - i) (rest, r) \<longleftrightarrow> live (Suc (cnt - Suc i)) (rest, r)"
    using assms(1) by (simp add: Suc_diff_Suc)
  also have "\<dots> \<longleftrightarrow> (\<exists>c \<in> set cs. ccost c \<le> r \<and> live (cnt - Suc i) (cnext c, r - ccost c))"
    unfolding live_Suc edge_def using assms(2) by fastforce
  also have "\<dots> \<longleftrightarrow> ?r" by (metis in_set_conv_nth)
  finally show ?thesis .
qed

subsection \<open>Invariant of the search\<close>

definition key_dead :: "nat \<Rightarrow> pipeline_key \<Rightarrow> bool" where
  "key_dead cnt k \<longleftrightarrow> (case k of (i, s) \<Rightarrow> i \<le> cnt \<and> \<not> live (cnt - i) s)"

abbreviation dpos :: "pipeline_decision \<Rightarrow> position" where
  "dpos d \<equiv> (drest d, dremaining d)"

text \<open>Some reading of the decision that is not tried yet leads to a complete parse.\<close>

definition untried_live :: "nat \<Rightarrow> pipeline_decision \<Rightarrow> bool" where
  "untried_live cnt d \<longleftrightarrow> (\<exists>i. dnext d \<le> i \<and> i < length (dcandidates d) \<and>
     ccost (dcandidates d ! i) \<le> dremaining d \<and>
     live (cnt - Suc (ditem d)) (cnext (dcandidates d ! i), dremaining d - ccost (dcandidates d ! i)))"

text \<open>
  \<open>chain\<close>: from the start through the decisions of the stack to the current position \<open>p\<close> at item
  \<open>i\<close>, every link either stays live or has a live untried reading.
\<close>

fun chain :: "nat \<Rightarrow> position \<Rightarrow> pipeline_decision list \<Rightarrow> nat \<Rightarrow> position \<Rightarrow> bool" where
  "chain cnt s [] i p \<longleftrightarrow> (live cnt s \<longrightarrow> live (cnt - i) p)"
| "chain cnt s (d # ds) i p \<longleftrightarrow>
     (live (cnt - ditem d) (dpos d) \<longrightarrow> live (cnt - i) p \<or> untried_live cnt d) \<and>
     chain cnt s ds (ditem d) (dpos d)"

text \<open>\<open>placed\<close>: every decision sits on the path the items spell out, deeper ones later.\<close>

fun placed :: "nat \<Rightarrow> position \<Rightarrow> cvalue list \<Rightarrow> pipeline_decision list \<Rightarrow> nat \<Rightarrow> bool" where
  "placed cnt s xs [] i \<longleftrightarrow> True"
| "placed cnt s xs (d # ds) i \<longleftrightarrow>
     ditem d < i \<and> ditem d < cnt \<and> decodeNativeCompactPipelineItem (drest d) = Inr (dcandidates d) \<and>
     path s (take (ditem d) xs) (dpos d) \<and> placed cnt s xs ds (ditem d)"

lemma placed_update: "placed cnt s xs ds i \<Longrightarrow> i \<le> j \<Longrightarrow> placed cnt s (xs[j := v]) ds i"
  by (induction ds arbitrary: i) auto

lemma placed_mono: "placed cnt s xs ds i \<Longrightarrow> i \<le> j \<Longrightarrow> placed cnt s xs ds j"
  by (cases ds) auto

definition search_inv :: "nat \<Rightarrow> position \<Rightarrow> pipeline_state \<Rightarrow> bool" where
  "search_inv cnt s st \<longleftrightarrow>
     length (pitems st) = cnt \<and> pitem st \<le> cnt \<and>
     path s (take (pitem st) (pitems st)) (prest st, premaining st) \<and>
     (\<forall>k \<in> pfailed st. key_dead cnt k) \<and>
     placed cnt s (pitems st) (pdecisions st) (pitem st) \<and>
     chain cnt s (pdecisions st) (pitem st) (prest st, premaining st)"

lemma chain_dead_pop:
  assumes "chain cnt s (d # ds) i p" and "\<not> live (cnt - i) p" and "\<not> untried_live cnt d"
  shows "\<not> live (cnt - ditem d) (dpos d)" and "chain cnt s ds (ditem d) (dpos d)"
  using assms by auto

lemma untried_live_advance:
  assumes nx: "nextNativeCompactPipelineCandidate (dcandidates d) (dnext d) (dremaining d) = (Some c, nx)"
  shows "untried_live cnt d \<longleftrightarrow>
    live (cnt - Suc (ditem d)) (cnext c, dremaining d - ccost c) \<or> untried_live cnt (d\<lparr>dnext := nx\<rparr>)"
proof -
  from nextCandidate_cases [OF nx] obtain i where i: "dnext d \<le> i" "i < length (dcandidates d)"
    "nx = Suc i" "c = dcandidates d ! i" "ccost c \<le> dremaining d"
    and skip: "\<And>j. dnext d \<le> j \<Longrightarrow> j < i \<Longrightarrow> dremaining d < ccost (dcandidates d ! j)" by auto
  show ?thesis
  proof
    assume "untried_live cnt d"
    then obtain j where j: "dnext d \<le> j" "j < length (dcandidates d)"
      "ccost (dcandidates d ! j) \<le> dremaining d"
      "live (cnt - Suc (ditem d)) (cnext (dcandidates d ! j), dremaining d - ccost (dcandidates d ! j))"
      by (auto simp: untried_live_def)
    with skip [of j] have "\<not> j < i" by auto
    then consider "j = i" | "Suc i \<le> j" by linarith
    then show "live (cnt - Suc (ditem d)) (cnext c, dremaining d - ccost c) \<or>
        untried_live cnt (d\<lparr>dnext := nx\<rparr>)"
      by cases (use i j in \<open>auto simp: untried_live_def\<close>)
  next
    assume *: "live (cnt - Suc (ditem d)) (cnext c, dremaining d - ccost c) \<or>
        untried_live cnt (d\<lparr>dnext := nx\<rparr>)"
    have "untried_live cnt d" if "live (cnt - Suc (ditem d)) (cnext c, dremaining d - ccost c)"
      unfolding untried_live_def using i that by blast
    moreover have "untried_live cnt d" if "untried_live cnt (d\<lparr>dnext := nx\<rparr>)"
    proof -
      from that i obtain j where "Suc i \<le> j" "j < length (dcandidates d)"
        "ccost (dcandidates d ! j) \<le> dremaining d"
        "live (cnt - Suc (ditem d)) (cnext (dcandidates d ! j), dremaining d - ccost (dcandidates d ! j))"
        by (auto simp: untried_live_def)
      with i show ?thesis unfolding untried_live_def by (intro exI [of _ j]) simp
    qed
    ultimately show "untried_live cnt d" using * by blast
  qed
qed

lemma untried_none:
  "nextNativeCompactPipelineCandidate (dcandidates d) (dnext d) (dremaining d) = (None, nx) \<Longrightarrow>
   \<not> untried_live cnt d"
  by (drule nextCandidate_cases) (fastforce simp: untried_live_def)

subsection \<open>Backtracking\<close>

lemma backtrack_correct:
  assumes "\<forall>k \<in> failed. key_dead cnt k" and "placed cnt s xs ds i" and "i \<le> cnt"
    and "chain cnt s ds i p" and "\<not> live (cnt - i) p"
  shows "case pipeline_backtrack a m ds failed of
      Exhausted f \<Rightarrow> \<not> live cnt s
    | OverBudget \<Rightarrow> True
    | Resumed ds' f c \<Rightarrow> (\<forall>k \<in> f. key_dead cnt k) \<and> ds' \<noteq> [] \<and> ditem (hd ds') < cnt \<and>
        path s (take (ditem (hd ds')) xs) (dpos (hd ds')) \<and>
        edge (dpos (hd ds')) (cvalue c) (cnext c, dremaining (hd ds') - ccost c) \<and>
        placed cnt s xs ds' (Suc (ditem (hd ds'))) \<and>
        chain cnt s ds' (Suc (ditem (hd ds'))) (cnext c, dremaining (hd ds') - ccost c)"
  using assms
proof (induction a m ds failed arbitrary: i p rule: pipeline_backtrack.induct)
  case (1 a m failed)
  then show ?case by simp
next
  case (2 a m d ds failed)
  note prems = "2.prems"
  obtain r nx where nx: "nextNativeCompactPipelineCandidate (dcandidates d) (dnext d) (dremaining d) = (r, nx)"
    by (cases "nextNativeCompactPipelineCandidate (dcandidates d) (dnext d) (dremaining d)")
  show ?case
  proof (cases r)
    case None
    have dead: "\<not> live (cnt - ditem d) (dpos d)" and ch: "chain cnt s ds (ditem d) (dpos d)"
      using chain_dead_pop [OF prems(4,5)] untried_none nx None by blast+
    with prems(1,2) have "\<forall>k \<in> insert (ditem d, drest d, dremaining d) failed. key_dead cnt k"
      by (auto simp: key_dead_def)
    from "2.IH"(1) [OF nx [symmetric] None this _ _ ch dead] prems(2) nx None show ?thesis by simp
  next
    case (Some c)
    let ?d = "d\<lparr>dnext := nx\<rparr>" and ?q = "(cnext c, dremaining d - ccost c)"
    have "c \<in> set (dcandidates d) \<and> ccost c \<le> dremaining d"
      using nextCandidate_cases [OF nx] Some by auto
    with prems(2) have ed: "edge (dpos d) (cvalue c) ?q" by (auto simp: edge_def)
    have unt: "untried_live cnt d \<longleftrightarrow> live (cnt - Suc (ditem d)) ?q \<or> untried_live cnt ?d"
      by (rule untried_live_advance) (use nx Some in simp)
    show ?thesis
    proof (cases "(ditem d + 1, cnext c, dremaining d - ccost c) \<in> failed")
      case True
      with prems(1) have "\<not> live (cnt - Suc (ditem d)) ?q" by (auto simp: key_dead_def)
      with unt prems(4) have ch: "chain cnt s (?d # ds) i p" by auto
      have "placed cnt s xs (?d # ds) i" using prems(2) by simp
      from "2.IH"(2) [OF nx [symmetric] Some True prems(1) this prems(3) ch prems(5)] nx Some True
      show ?thesis by simp
    next
      case False
      have "chain cnt s (?d # ds) (Suc (ditem d)) ?q" using unt prems(4,5) by auto
      with prems False nx Some ed show ?thesis by (simp add: placed_mono)
    qed
  qed
qed

lemma path_extend:
  assumes "path s (take i xs) p" and "edge p v q" and "i < length xs"
  shows "path s (take (Suc i) (xs[i := v])) q"
  using assms by (auto simp: take_Suc_conv_app_nth path_snoc simp del: split_paired_Ex)

definition outcome_ok :: "nat \<Rightarrow> position \<Rightarrow> pipeline_state + (compact_error + cvalue list) \<Rightarrow> bool" where
  "outcome_ok cnt s r \<longleftrightarrow>
     (case r of
        Inl st \<Rightarrow> search_inv cnt s st
      | Inr (Inr vs) \<Rightarrow> length vs = cnt \<and> (\<exists>m. path s vs ([], m))
      | Inr (Inl e) \<Rightarrow> e = CAmbiguity \<or> \<not> live cnt s)"

lemma retry_correct:
  assumes inv: "search_inv cnt s st" and dead: "\<not> live (cnt - pitem st) (prest st, premaining st)"
  shows "outcome_ok cnt s (pipeline_retry m st)"
proof -
  have "case pipeline_backtrack (pattempts st) m (pdecisions st) (pfailed st) of
      Exhausted f \<Rightarrow> \<not> live cnt s | OverBudget \<Rightarrow> True
    | Resumed ds' f c \<Rightarrow> (\<forall>k \<in> f. key_dead cnt k) \<and> ds' \<noteq> [] \<and> ditem (hd ds') < cnt \<and>
        path s (take (ditem (hd ds')) (pitems st)) (dpos (hd ds')) \<and>
        edge (dpos (hd ds')) (cvalue c) (cnext c, dremaining (hd ds') - ccost c) \<and>
        placed cnt s (pitems st) ds' (Suc (ditem (hd ds'))) \<and>
        chain cnt s ds' (Suc (ditem (hd ds'))) (cnext c, dremaining (hd ds') - ccost c)"
    by (rule backtrack_correct [OF _ _ _ _ dead]) (use inv in \<open>auto simp: search_inv_def\<close>)
  then show ?thesis using inv
    by (auto simp: pipeline_retry_def outcome_ok_def Let_def search_inv_def neq_Nil_conv
        intro!: path_extend intro: placed_update split: backtrack.splits option.splits)
qed

lemma step_candidate:
  assumes inv: "search_inv cnt s st" and lt: "pitem st < cnt"
    and cs: "decodeNativeCompactPipelineItem (prest st) = Inr cs"
    and nx: "nextNativeCompactPipelineCandidate cs 0 (premaining st) = (Some c, nx)"
  shows "search_inv cnt s (st\<lparr>pattempts := a, pitems := (pitems st)[pitem st := cvalue c],
      pdecisions := (if nx < length cs
        then \<lparr>ditem = pitem st, drest = prest st, dcandidates = cs, dnext = nx,
               dremaining = premaining st\<rparr> # pdecisions st
        else pdecisions st),
      prest := cnext c, premaining := premaining st - ccost c, pitem := pitem st + 1\<rparr>)"
proof -
  let ?d = "\<lparr>ditem = pitem st, drest = prest st, dcandidates = cs, dnext = nx, dremaining = premaining st\<rparr>"
  let ?q = "(cnext c, premaining st - ccost c)"
  from nextCandidate_cases [OF nx] obtain i where i: "i < length cs" "nx = Suc i" "c = cs ! i"
    "ccost c \<le> premaining st" and skip: "\<And>j. j < i \<Longrightarrow> premaining st < ccost (cs ! j)" by auto
  then have "c \<in> set cs" by simp
  with cs i(4) have ed: "edge (prest st, premaining st) (cvalue c) ?q"
    unfolding edge_def fst_conv snd_conv by blast
  have p: "path s (take (Suc (pitem st)) ((pitems st)[pitem st := cvalue c])) ?q"
    by (rule path_extend [OF _ ed]) (use inv lt in \<open>auto simp: search_inv_def\<close>)
  have rec: "live (cnt - pitem st) (prest st, premaining st) \<longleftrightarrow>
      live (cnt - Suc (pitem st)) ?q \<or> untried_live cnt ?d"
  proof -
    have "live (cnt - pitem st) (prest st, premaining st) \<longleftrightarrow> untried_live cnt (?d\<lparr>dnext := 0\<rparr>)"
      unfolding live_at [OF lt cs] by (auto simp: untried_live_def)
    also have "\<dots> \<longleftrightarrow> live (cnt - Suc (pitem st)) ?q \<or> untried_live cnt ?d"
      using untried_live_advance [of "?d\<lparr>dnext := 0\<rparr>" c nx cnt] nx by simp
    finally show ?thesis .
  qed
  have none: "\<not> untried_live cnt ?d" if "\<not> nx < length cs"
    using that by (auto simp: untried_live_def)
  have ch: "chain cnt s (if nx < length cs then ?d # pdecisions st else pdecisions st) (pitem st + 1) ?q"
  proof (cases "nx < length cs")
    case True
    then show ?thesis using inv rec by (simp add: search_inv_def)
  next
    case False
    with rec none have "live (cnt - pitem st) (prest st, premaining st) \<longleftrightarrow> live (cnt - Suc (pitem st)) ?q"
      by blast
    then show ?thesis using inv False by (cases "pdecisions st") (auto simp: search_inv_def)
  qed
  have pl: "placed cnt s ((pitems st)[pitem st := cvalue c])
      (if nx < length cs then ?d # pdecisions st else pdecisions st) (pitem st + 1)"
    using inv lt cs by (auto simp: search_inv_def intro: placed_update placed_mono)
  from inv lt p ch pl show ?thesis by (simp add: search_inv_def)
qed

lemma search_inv_fail:
  assumes "search_inv cnt s st" and "\<not> live (cnt - pitem st) (prest st, premaining st)"
  shows "outcome_ok cnt s (pipeline_retry m (st\<lparr>pattempts := a, perr := e,
      pfailed := insert (pitem st, prest st, premaining st) (pfailed st)\<rparr>))"
  by (rule retry_correct) (use assms in \<open>auto simp: search_inv_def key_dead_def\<close>)

lemma step_correct:
  assumes inv: "search_inv cnt s st"
  shows "outcome_ok cnt s (pipeline_step cnt m st)"
proof -
  let ?key = "(pitem st, prest st, premaining st)"
  have le: "pitem st \<le> cnt" using inv by (simp add: search_inv_def)
  consider (finish) "pitem st = cnt" | (known) "pitem st < cnt" "?key \<in> pfailed st"
    | (read) "pitem st < cnt" "?key \<notin> pfailed st" using le by linarith
  then show ?thesis
  proof cases
    case finish
    then show ?thesis using inv search_inv_fail [OF inv, where m = m and a = "pattempts st" and e = "Some (CTrailing ''pipeline response'')"]
      by (auto simp: pipeline_step_def outcome_ok_def [of _ _ "Inr _"] search_inv_def live_0 Let_def)
  next
    case known
    then have "\<not> live (cnt - pitem st) (prest st, premaining st)"
      using inv by (auto simp: search_inv_def key_dead_def)
    from retry_correct [OF inv this] known show ?thesis by (simp add: pipeline_step_def)
  next
    case read
    show ?thesis
    proof (cases "decodeNativeCompactPipelineItem (prest st)")
      case (Inl e)
      with read have "\<not> live (cnt - pitem st) (prest st, premaining st)"
        by (auto simp: Suc_diff_Suc [symmetric] live_Suc edge_def)
      from search_inv_fail [OF inv this] read Inl show ?thesis
        by (simp add: pipeline_step_def Let_def outcome_ok_def [of _ _ "Inr _"])
    next
      case (Inr cs)
      obtain r nx where nx: "nextNativeCompactPipelineCandidate cs 0 (premaining st) = (r, nx)"
        by (cases "nextNativeCompactPipelineCandidate cs 0 (premaining st)")
      show ?thesis
      proof (cases r)
        case None
        with nextCandidate_cases [OF nx] have "\<not> live (cnt - pitem st) (prest st, premaining st)"
          unfolding live_at [OF read(1) Inr] by (auto simp: not_le [symmetric])
        from search_inv_fail [OF inv this] read Inr nx None show ?thesis
          by (simp add: pipeline_step_def Let_def outcome_ok_def [of _ _ "Inr _"])
      next
        case (Some c)
        from step_candidate [OF inv read(1) Inr nx [unfolded Some], where a = "pattempts st + 1"]
          read Inr nx Some show ?thesis
          by (cases "nx < length cs") (simp_all add: pipeline_step_def Let_def outcome_ok_def)
      qed
    qed
  qed
qed

lemma loop_correct:
  "search_inv cnt s st \<Longrightarrow> outcome_ok cnt s (Inr (pipeline_loop cnt m st))"
proof (induction cnt m st rule: pipeline_loop.induct)
  case (1 cnt m st)
  show ?case
  proof (cases "pipeline_step cnt m st")
    case (Inl st')
    with step_correct [OF "1.prems", of m] have "search_inv cnt s st'" by (simp add: outcome_ok_def)
    from "1.IH" [OF Inl this] Inl show ?thesis by (simp add: pipeline_loop.simps [of cnt m st])
  next
    case (Inr r)
    with step_correct [OF "1.prems", of m] show ?thesis by (simp add: pipeline_loop.simps [of cnt m st])
  qed
qed

lemma start_inv: "search_inv cnt (rest, int nativeMaxContainerItems - int cnt) (pipeline_start cnt rest)"
  by (simp add: search_inv_def pipeline_start_def)

lemma loop_start_correct:
  "outcome_ok cnt (rest, int nativeMaxContainerItems - int cnt)
     (Inr (pipeline_loop cnt m (pipeline_start cnt rest)))"
  by (rule loop_correct [OF start_inv])

end
