(* ===== verification/CompactProperties.thy ===== *)
theory CompactProperties
  imports CompactPipelineCorrect
begin

section \<open>Properties of the compact response decoders\<close>

text \<open>
  The Flow record reader as a \<open>format\<close>, the claim reader as a \<open>reader\<close>, and the properties of the
  compact decoders with their concrete instances.
\<close>

subsection \<open>Flow records\<close>

type_synonym flow_field = "byte \<times> string \<times> goval"

definition pr_field :: "flow_field \<Rightarrow> bytes" where
  "pr_field f = (case f of (i, name, v) \<Rightarrow>
     if i = 0 then 0 # pr_bin (bytes_of name) @ wire v else i # wire v)"

definition field_ok :: "flow_field \<Rightarrow> bool" where
  "field_ok f = (case f of (i, name, v) \<Rightarrow>
     if i = 0 then name \<noteq> '''' \<and> length name \<le> maxUint32 else name = nativeCompactFlowRecordFieldName i)"

definition record_of :: "flow_field list \<Rightarrow> flow_record" where
  "record_of fs = map snd (filter (\<lambda>f. fst (snd f) \<noteq> '''') fs)"

definition pay_field :: "flow_field \<Rightarrow> int \<times> flow_record \<Rightarrow> (int \<times> flow_record) option" where
  "pay_field f s = (case f of (i, name, v) \<Rightarrow>
     if field_ok f \<and> (name \<noteq> '''' \<longrightarrow> name \<notin> fst ` set (snd s))
     then map_option (\<lambda>r. (r, snd s @ (if name = '''' then [] else [(name, v)])))
            (pay nativeMaxDecodeDepth 0 v (fst s))
     else None)"

lemma string_name_iff:
  "(\<exists>nm. d = pr_bin nm @ d' \<and> length nm \<le> maxUint32 \<and> nm \<noteq> [] \<and> name = string_of nm) \<longleftrightarrow>
   d = pr_bin (bytes_of name) @ d' \<and> length name \<le> maxUint32 \<and> name \<noteq> ''''"
proof
  assume "d = pr_bin (bytes_of name) @ d' \<and> length name \<le> maxUint32 \<and> name \<noteq> ''''"
  then show "\<exists>nm. d = pr_bin nm @ d' \<and> length nm \<le> maxUint32 \<and> nm \<noteq> [] \<and> name = string_of nm"
    by (intro exI [of _ "bytes_of name"]) simp
qed auto

lemma field_iff:
  "readFlowRecordField data s = Inr (f, rest, s') \<longleftrightarrow>
   data = pr_field f @ rest \<and> pay_field f s = Some s'"
proof (cases data)
  case Nil
  then show ?thesis by (auto simp: readFlowRecordField_def pr_field_def split: prod.splits)
next
  case (Cons i d)
  obtain j name v where f: "f = (j, name, v)" by (cases f)
  obtain r rec where s: "s = (r, rec)" by (cases s)
  show ?thesis
  proof (cases "i = 0")
    case True
    have "readFlowRecordField data s = Inr (f, rest, s') \<longleftrightarrow>
      (\<exists>nm d' r'. readNativeCompactBinary d () = Inr (nm, d', ()) \<and> nm \<noteq> [] \<and> j = 0 \<and> name = string_of nm \<and>
        decodeNativeValueBudget nativeMaxDecodeDepth 0 d' r = Inr (v, rest, r') \<and>
        name \<notin> fst ` set rec \<and> s' = (r', rec @ [(name, v)]))"
      using Cons True f s
      by (fastforce simp: readFlowRecordField_def ebind_Inr_iff string_of_def split: if_splits)
    also have "\<dots> \<longleftrightarrow> j = 0 \<and> name \<notin> fst ` set rec \<and> (\<exists>d' r'. (\<exists>nm. d = pr_bin nm @ d' \<and>
        length nm \<le> maxUint32 \<and> nm \<noteq> [] \<and> name = string_of nm) \<and>
        d' = wire v @ rest \<and> pay nativeMaxDecodeDepth 0 v r = Some r' \<and> s' = (r', rec @ [(name, v)]))"
      by (auto simp: binary_iff native_value.rd_iff)
    also have "\<dots> \<longleftrightarrow> data = pr_field f @ rest \<and> pay_field f s = Some s'"
      unfolding string_name_iff using Cons True f s
      by (auto simp: pr_field_def pay_field_def field_ok_def)
    finally show ?thesis .
  next
    case False
    have "readFlowRecordField data s = Inr (f, rest, s') \<longleftrightarrow>
      (\<exists>r'. decodeNativeValueBudget nativeMaxDecodeDepth 0 d r = Inr (v, rest, r') \<and> j = i \<and>
        name = nativeCompactFlowRecordFieldName i \<and> (name \<noteq> '''' \<longrightarrow> name \<notin> fst ` set rec) \<and>
        s' = (r', rec @ (if name = '''' then [] else [(name, v)])))"
      using Cons False f s
      by (fastforce simp: readFlowRecordField_def ebind_Inr_iff split: if_splits)
    also have "\<dots> \<longleftrightarrow> data = pr_field f @ rest \<and> pay_field f s = Some s'"
      using Cons False f s
      by (auto simp: native_value.rd_iff pr_field_def pay_field_def field_ok_def)
    finally show ?thesis .
  qed
qed

interpretation flow_field: format readFlowRecordField pr_field pay_field
  by unfold_locales (auto simp: field_iff)


lemma pay_field_Some_iff:
  "pay_field f s = Some s' \<longleftrightarrow>
   (\<exists>i n v r'. f = (i, n, v) \<and> field_ok f \<and> (n \<noteq> '''' \<longrightarrow> n \<notin> fst ` set (snd s)) \<and>
      pay nativeMaxDecodeDepth 0 v (fst s) = Some r' \<and>
      s' = (r', snd s @ (if n = '''' then [] else [(n, v)])))"
  by (cases f) (auto simp: pay_field_def)

lemma pay_all_field:
  assumes "flow_field.pay_all fs (r, rec) = Some (r', rec')" and "distinct (map fst rec)"
  shows "rec' = rec @ record_of fs \<and> distinct (map fst rec') \<and>
    (\<forall>f \<in> set fs. field_ok f) \<and> r' = r - int (sum_list (map (\<lambda>(i, n, v). items v) fs)) \<and>
    (fs \<noteq> [] \<longrightarrow> 0 \<le> r')"
  using assms
proof (induction fs arbitrary: r rec)
  case Nil
  then show ?case by (simp add: record_of_def)
next
  case (Cons f fs)
  obtain i n v where f: "f = (i, n, v)" by (cases f)
  let ?add = "if n = '''' then [] else [(n, v)]"
  from Cons.prems(1) f obtain r1 where "field_ok f" and fresh: "n \<noteq> '''' \<longrightarrow> n \<notin> fst ` set rec"
    and r1: "pay nativeMaxDecodeDepth 0 v r = Some r1"
    and rest: "flow_field.pay_all fs (r1, rec @ ?add) = Some (r', rec')"
    by (auto simp: pay_field_Some_iff bind_eq_Some_conv)
  have "distinct (map fst (rec @ ?add))" using Cons.prems(2) fresh by auto
  note ih = Cons.IH [OF rest this]
  have ro: "record_of (f # fs) = ?add @ record_of fs" by (simp add: record_of_def f)
  have "0 \<le> r'" using ih r1 rest by (cases fs) (auto simp: pay_Some_iff)
  moreover have d: "distinct (map fst rec')" using ih by blast
  moreover have "rec' = rec @ record_of (f # fs)" unfolding ro using ih by simp
  moreover have "\<forall>f \<in> set (f # fs). field_ok f" using ih \<open>field_ok f\<close> by simp
  moreover have "r' = r - int (sum_list (map (\<lambda>(i, n, v). items v) (f # fs)))"
    using ih r1 by (simp add: f pay_Some_iff)
  ultimately show ?case by blast
qed

lemma pay_all_field_canon:
  "flow_field.pay_all fs s = Some s' \<Longrightarrow> f \<in> set fs \<Longrightarrow> canon (snd (snd f))"
proof (induction fs arbitrary: s)
  case (Cons g fs)
  then show ?case
    by (auto simp: bind_eq_Some_conv pay_field_Some_iff pay_Some_iff)
qed simp

lemma take_record_sound:
  assumes "takeNativeCompactFlowRecordWithBudget data r = Inr (record, rest, r')"
  shows "\<exists>fs. data = nativeCompactFlowRecord # pr_counted pr_field fs @ rest \<and>
    record = record_of fs \<and> distinct (map fst record) \<and> (\<forall>f \<in> set fs. field_ok f) \<and>
    r' = r - int (length fs) - int (sum_list (map (\<lambda>(i, n, v). items v) fs)) \<and> 0 \<le> r'"
proof -
  from assms obtain n d fs where h: "data = nativeCompactFlowRecord # be_bytes 4 n @ d" and n: "int n \<le> r"
    and its: "read_items readFlowRecordField n d (r - int n, []) = Inr (fs, rest, (r', record))"
    by (fastforce simp: takeNativeCompactFlowRecordWithBudget_def ebind_Inr_iff compactHead_iff)
  from flow_field.items_sound [OF its] have d: "d = concat (map pr_field fs) @ rest" "length fs = n"
    and pay: "flow_field.pay_all fs (r - int n, []) = Some (r', record)" by auto
  from pay_all_field [OF pay] h n d show ?thesis
    by (intro exI [of _ fs]) (cases "fs = []"; auto simp: pr_counted_def)
qed

lemma take_record_complete:
  assumes pay: "flow_field.pay_all fs (r - int (length fs), []) = Some (r', record)"
    and n: "length fs \<le> nativeMaxContainerItems" "int (length fs) \<le> r"
  shows "takeNativeCompactFlowRecordWithBudget (nativeCompactFlowRecord # pr_counted pr_field fs @ rest) r =
    Inr (record_of fs, rest, r')"
proof -
  from pay_all_field [OF pay] have rec: "record = record_of fs" by simp
  have "2 \<le> length (pr_field f)" if "f \<in> set fs" for f
  proof -
    from pay_all_field_canon [OF pay that] wire_nonempty show ?thesis by (fastforce simp: pr_field_def split: prod.splits)
  qed
  then have "length fs * 2 \<le> length (concat (map pr_field fs))" by (rule concat_min_length)
  then have "compactHead nativeCompactFlowRecord ''compact Flow record'' 2
      (nativeCompactFlowRecord # pr_counted pr_field fs @ rest) = Inr (length fs, concat (map pr_field fs) @ rest)"
    using n by (simp add: compactHead_iff pr_counted_def)
  then show ?thesis using flow_field.items_complete [OF pay, of rest] rec n
    by (simp add: takeNativeCompactFlowRecordWithBudget_def)
qed

interpretation flow_record: reader takeNativeCompactFlowRecordWithBudget
  by unfold_locales (metis append_Cons append_assoc take_record_sound)

subsection \<open>Claimed jobs\<close>

lemma claim_attributes_suffix:
  "readClaimAttributes data r = Some (kvs, rest, r') \<Longrightarrow>
   (\<exists>p. data = p @ rest) \<and> r' \<le> r \<and> distinct (map fst kvs)"
  by (auto simp: readClaimAttributes_def native_value.rd_iff pay_Some_iff
      split: sum.splits prod.splits goval.splits)

lemma claim_attributes_sound:
  "claimAttributes item data r = Inr (job, rest, r') \<Longrightarrow>
   (\<exists>p. data = p @ rest) \<and> r' \<le> r \<and> FencingToken job = FencingToken item \<and> State job = State item"
  by (auto simp: claimAttributes_def split: option.splits dest!: claim_attributes_suffix)

lemma claim_run_state_sound:
  "claimRunState item data = Inr (job, rest) \<Longrightarrow>
   (\<exists>p. data = p @ rest) \<and> FencingToken job = FencingToken item \<and> State job = State item"
  by (auto simp: claimRunState_def ebind_Inr_iff optional_iff)

lemma claimed_item_sound:
  assumes "readClaimedItem layout data r = Inr (job, rest, r')"
  shows "(\<exists>p. data = p @ rest) \<and> r' \<le> r \<and> 0 \<le> sint (FencingToken job) \<and> State job = ''running''"
proof -
  let ?tail = "\<lambda>item d. case layout of
      nativeCompactClaimBase \<Rightarrow> Inr (item, d, r)
    | nativeCompactClaimAttributes \<Rightarrow> claimAttributes item d r
    | nativeCompactClaimState \<Rightarrow> ebind (claimRunState item d) (\<lambda>(item, d). Inr (item, d, r))
    | nativeCompactClaimStateAttributes \<Rightarrow>
        ebind (claimRunState item d) (\<lambda>(item, d). claimAttributes item d r)"
  have tail: "(\<exists>p. d = p @ rest) \<and> r' \<le> r \<and> FencingToken job = FencingToken item \<and> State job = State item"
    if "?tail item d = Inr (job, rest, r')" for item d
    using that by (cases layout)
      (fastforce simp: ebind_Inr_iff dest: claim_run_state_sound claim_attributes_sound)+
  from assms obtain jobID d1 part d2 lease d3 item where
    h: "data = pr_bin jobID @ d1" "d1 = pr_opt part @ d2" "d2 = pr_bin lease @ d3"
    and f: "be_val (take 8 d3) \<le> maxInt64" and t: "?tail item (drop 8 d3) = Inr (job, rest, r')"
    and i: "FencingToken item = word_of_nat (be_val (take 8 d3))" "State item = ''running''"
    unfolding readClaimedItem_def ebind_Inr_iff Let_def
    by (clarsimp simp: ebind_Inr_iff binary_iff optional_iff split: if_splits)
  note s = tail [OF t]
  then have j: "FencingToken job = word_of_nat (be_val (take 8 d3))" "State job = ''running''" "r' \<le> r"
    using i by simp_all
  have "sint (word_of_nat (be_val (take 8 d3)) :: 64 word) = int (be_val (take 8 d3))"
    using f by (simp add: signed_of_nat signed_take_bit_int_eq_self maxInt64_def)
  with j have "0 \<le> sint (FencingToken job)" by simp
  moreover have "\<exists>p. d3 = p @ rest" using s by (metis append_take_drop_id append_assoc)
  ultimately show ?thesis using h j by (metis append_assoc)
qed

interpretation claimed_item: reader "readClaimedItem layout" for layout
  by unfold_locales (blast dest: claimed_item_sound)

lemma claim_items_sound:
  "read_items (readClaimedItem layout) n data r = Inr (jobs, rest, r') \<Longrightarrow>
   \<forall>job \<in> set jobs. 0 \<le> sint (FencingToken job) \<and> State job = ''running''"
proof (induction n arbitrary: data r jobs)
  case (Suc n)
  then obtain job d r1 js where "readClaimedItem layout data r = Inr (job, d, r1)"
    and "read_items (readClaimedItem layout) n d r1 = Inr (js, rest, r')" and "jobs = job # js"
    by (auto simp: ebind_Inr_iff)
  with Suc.IH claimed_item_sound show ?case by fastforce
qed simp

lemma claim_jobs_layout:
  assumes "decodeNativeCompactClaimJobs data = Inr jobs"
  shows "\<exists>layout n rest r. data = nativeCompactFlowClaimJobs # be_bytes 4 n @ rest \<and>
    n \<le> nativeMaxContainerItems \<and>
    read_items (readClaimedItem layout) n rest (int nativeMaxContainerItems - int n) = Inr (jobs, [], r)"
proof -
  from assms obtain n rest where h: "data = nativeCompactFlowClaimJobs # be_bytes 4 n @ rest"
    "n \<le> nativeMaxContainerItems"
    and f: "List.find (\<lambda>r. r \<noteq> None) (map (tryDecodeNativeCompactClaimJobsLayout rest n)
        [nativeCompactClaimBase, nativeCompactClaimAttributes,
         nativeCompactClaimState, nativeCompactClaimStateAttributes]) = Some (Some jobs)"
    by (auto simp: decodeNativeCompactClaimJobs_def ebind_Inr_iff compactHead_iff
        split: option.splits if_splits)
  from f obtain layout where "tryDecodeNativeCompactClaimJobsLayout rest n layout = Some jobs"
    by (auto split: if_splits)
  with h show ?thesis
    by (fastforce simp: tryDecodeNativeCompactClaimJobsLayout_def newNativeCompactFlowRecordBudget_def
        split: sum.splits if_splits)
qed

subsection \<open>Responses without ambiguity\<close>

text \<open>A parse in which every item has exactly one reading.\<close>

fun plain :: "position \<Rightarrow> cvalue list \<Rightarrow> position \<Rightarrow> bool" where
  "plain s [] t \<longleftrightarrow> s = t"
| "plain s (v # vs) t \<longleftrightarrow>
     (\<exists>c. decodeNativeCompactPipelineItem (fst s) = Inr [c] \<and> ccost c \<le> snd s \<and> v = cvalue c \<and>
        plain (cnext c, snd s - ccost c) vs t)"

lemma plain_path: "plain s vs t \<Longrightarrow> path s vs t"
proof (induction vs arbitrary: s)
  case (Cons v vs)
  then obtain c where "decodeNativeCompactPipelineItem (fst s) = Inr [c]" "ccost c \<le> snd s" "v = cvalue c"
    "path (cnext c, snd s - ccost c) vs t" by auto
  moreover from this have "edge s v (cnext c, snd s - ccost c)" by (auto simp: edge_def)
  ultimately show ?case by auto
qed simp

lemma next_single [simp]:
  "ccost c \<le> r \<Longrightarrow> nextNativeCompactPipelineCandidate [c] 0 r = (Some c, 1)"
  by (simp add: nextNativeCompactPipelineCandidate_def)

lemma plain_loop:
  assumes "plain (prest st, premaining st) vs ([], m)" and "pitem st + length vs = cnt"
    and "length (pitems st) = cnt" and "pfailed st = {}" and "pdecisions st = []"
    and "pattempts st = pitem st" and "cnt \<le> maxA"
  shows "pipeline_loop cnt maxA st = Inr (take (pitem st) (pitems st) @ vs)"
  using assms
proof (induction vs arbitrary: st)
  case Nil
  then show ?case by (simp add: pipeline_loop.simps [of cnt maxA st] pipeline_step_def)
next
  case (Cons v vs)
  then obtain c where c: "decodeNativeCompactPipelineItem (prest st) = Inr [c]" "ccost c \<le> premaining st"
    "v = cvalue c" "plain (cnext c, premaining st - ccost c) vs ([], m)" by auto
  let ?st = "st\<lparr>pattempts := pattempts st + 1, pitems := (pitems st)[pitem st := cvalue c],
      prest := cnext c, premaining := premaining st - ccost c, pitem := pitem st + 1\<rparr>"
  have "pipeline_step cnt maxA st = Inl ?st"
    using Cons.prems c by (simp add: pipeline_step_def Let_def)
  moreover have "pipeline_loop cnt maxA ?st = Inr (take (pitem ?st) (pitems ?st) @ vs)"
    by (rule Cons.IH) (use Cons.prems c in simp_all)
  ultimately show ?case using Cons.prems c
    by (simp add: pipeline_loop.simps [of cnt maxA st] take_Suc_conv_app_nth)
qed

lemma plain_decodes:
  assumes "plain (body, int nativeMaxContainerItems - int (length vs)) vs ([], m)"
    and "length vs \<le> nativeMaxContainerItems" and "length vs * 2 \<le> length body"
  shows "decodeNativeCompactPipelineResponse
    (nativeCompactPipelineResponse # be_bytes 4 (length vs) @ body) = Inr vs"
proof -
  have "compactHead nativeCompactPipelineResponse ''compact pipeline response'' 2
      (nativeCompactPipelineResponse # be_bytes 4 (length vs) @ body) = Inr (length vs, body)"
    using assms(2,3) by (simp add: compactHead_iff)
  moreover have "pipeline_loop (length vs) (8 * (length vs + 1) + 64) (pipeline_start (length vs) body) = Inr vs"
    by (subst plain_loop [where vs = vs and m = m]) (use assms(1) in \<open>simp_all add: pipeline_start_def\<close>)
  ultimately show ?thesis by (simp add: decodeNativeCompactPipelineResponse_def)
qed

subsection \<open>Properties\<close>

text \<open>The concrete response of the instances below: one nil value and one error.\<close>

definition sample_pipeline :: bytes where
  "sample_pipeline = [0, 0, 2, 0, 0, 0, 1, 65]"

definition sample_results :: "cvalue list" where
  "sample_results = [CList [CText ''ok'', CNil], CList [CText ''error'', bin [65]]]"

lemma sample_plain:
  "plain (sample_pipeline, int nativeMaxContainerItems - int (length sample_results)) sample_results
     ([], int nativeMaxContainerItems - 2)"
  by (simp add: sample_pipeline_def sample_results_def decodeNativeCompactPipelineItem_def
      decodeNativeCompactPipelineOKValues_def readNativeCompactBinary_def nativeMaxContainerItems_def)

lemma sample_decodes:
  "decodeNativeCompactPipelineResponse (nativeCompactPipelineResponse # be_bytes 4 2 @ sample_pipeline) =
   Inr sample_results"
  using plain_decodes [OF sample_plain]
  by (simp add: sample_results_def sample_pipeline_def nativeMaxContainerItems_def wire_simps)

text \<open>
  C6. The backtracking pipeline decoder is sound: the values it returns are a reading of the whole
  payload, as many as the header declares, each one of the readings its position offers, with the
  total item cost within the budget.
\<close>

theorem pipeline_decode_sound:
  assumes "decodeNativeCompactPipelineResponse data = Inr vs"
  shows "\<exists>body m. data = nativeCompactPipelineResponse # be_bytes 4 (length vs) @ body \<and>
    length vs \<le> nativeMaxContainerItems \<and>
    path (body, int nativeMaxContainerItems - int (length vs)) vs ([], m)"
proof -
  from assms obtain cnt body where h: "data = nativeCompactPipelineResponse # be_bytes 4 cnt @ body"
    "cnt \<le> nativeMaxContainerItems"
    and l: "pipeline_loop cnt (8 * (cnt + 1) + 64) (pipeline_start cnt body) = Inr vs"
    by (auto simp: decodeNativeCompactPipelineResponse_def ebind_Inr_iff compactHead_iff)
  from loop_start_correct [of cnt body "8 * (cnt + 1) + 64"] l h show ?thesis
    by (auto simp: outcome_ok_def)
qed

theorem pipeline_decode_sound_witness:
  "\<exists>body m. nativeCompactPipelineResponse # be_bytes 4 2 @ sample_pipeline =
      nativeCompactPipelineResponse # be_bytes 4 (length sample_results) @ body \<and>
    length sample_results \<le> nativeMaxContainerItems \<and>
    path (body, int nativeMaxContainerItems - int (length sample_results)) sample_results ([], m)"
  by (rule pipeline_decode_sound [OF sample_decodes])

text \<open>
  C7. The pipeline decoder is complete up to its ambiguity budget: when a payload has any reading at
  all, the decoder returns values or reports that the ambiguity budget is exceeded. Memoising failed
  positions and dropping decisions never loses a reading.
\<close>

theorem pipeline_decode_complete:
  assumes "path (body, int nativeMaxContainerItems - int (length vs)) vs ([], m)"
    and "length vs \<le> nativeMaxContainerItems" and "length vs * 2 \<le> length body"
  shows "decodeNativeCompactPipelineResponse
      (nativeCompactPipelineResponse # be_bytes 4 (length vs) @ body) = Inl CAmbiguity \<or>
    (\<exists>vs'. decodeNativeCompactPipelineResponse
      (nativeCompactPipelineResponse # be_bytes 4 (length vs) @ body) = Inr vs')"
proof -
  let ?n = "length vs"
  have "compactHead nativeCompactPipelineResponse ''compact pipeline response'' 2
      (nativeCompactPipelineResponse # be_bytes 4 ?n @ body) = Inr (?n, body)"
    using assms(2,3) by (simp add: compactHead_iff)
  moreover have "live ?n (body, int nativeMaxContainerItems - int ?n)"
    using assms(1) by (auto simp: live_def)
  ultimately show ?thesis
    using loop_start_correct [of ?n body "8 * (?n + 1) + 64"]
    by (auto simp: outcome_ok_def decodeNativeCompactPipelineResponse_def split: sum.splits)
qed

theorem pipeline_decode_complete_witness:
  "decodeNativeCompactPipelineResponse
      (nativeCompactPipelineResponse # be_bytes 4 (length sample_results) @ sample_pipeline) = Inl CAmbiguity \<or>
    (\<exists>vs'. decodeNativeCompactPipelineResponse
      (nativeCompactPipelineResponse # be_bytes 4 (length sample_results) @ sample_pipeline) = Inr vs')"
proof (rule pipeline_decode_complete)
  from plain_path [OF sample_plain] show "path (sample_pipeline, int nativeMaxContainerItems -
      int (length sample_results)) sample_results ([], int nativeMaxContainerItems - 2)" .
qed (simp_all add: sample_results_def sample_pipeline_def nativeMaxContainerItems_def)

text \<open>
  A payload whose items have one reading each is decoded to exactly that reading: the ambiguity
  budget never rejects an unambiguous response, whatever its length.
\<close>

theorem pipeline_decode_unambiguous:
  assumes "plain (body, int nativeMaxContainerItems - int (length vs)) vs ([], m)"
    and "length vs \<le> nativeMaxContainerItems" and "length vs * 2 \<le> length body"
  shows "decodeNativeCompactPipelineResponse
    (nativeCompactPipelineResponse # be_bytes 4 (length vs) @ body) = Inr vs"
  by (rule plain_decodes [OF assms])

theorem pipeline_decode_unambiguous_witness:
  "decodeNativeCompactPipelineResponse
    (nativeCompactPipelineResponse # be_bytes 4 (length sample_results) @ sample_pipeline) = Inr sample_results"
  by (rule pipeline_decode_unambiguous [OF sample_plain])
    (simp_all add: sample_results_def sample_pipeline_def nativeMaxContainerItems_def)

text \<open>
  The compact \<open>MGET\<close> decoder accepts exactly the payloads that are a counted list of optional
  values, and returns those values in order.
\<close>

theorem mget_accepts_exactly:
  "decodeNativeCompactKVMGet data = Inr v \<longleftrightarrow>
   (\<exists>vs. data = nativeCompactKVMGet # pr_counted pr_mget vs \<and>
      length vs \<le> nativeMaxContainerItems \<and> (\<forall>b. Some b \<in> set vs \<longrightarrow> length b \<le> maxUint32) \<and>
      v = CList (map mget_value vs))"
  by (rule mget_iff)

theorem mget_accepts_exactly_witness:
  "decodeNativeCompactKVMGet (nativeCompactKVMGet # pr_counted pr_mget [Some [7], None]) =
   Inr (CList [bin [7], CNil])"
  unfolding mget_accepts_exactly
  by (rule exI [of _ "[Some [7], None]"]) (simp add: native_limits mget_value_def)

text \<open>
  A Flow record is decoded from exactly the bytes of its fields; no field name occurs twice, and
  the fields and everything nested in them are charged to the item budget, which never goes negative.
\<close>

theorem flow_record_sound:
  assumes "takeNativeCompactFlowRecordWithBudget data r = Inr (flds, rest, r')"
  shows "\<exists>fs. data = nativeCompactFlowRecord # pr_counted pr_field fs @ rest \<and>
    flds = record_of fs \<and> distinct (map fst flds) \<and> (\<forall>f \<in> set fs. field_ok f) \<and>
    r' = r - int (length fs) - int (sum_list (map (\<lambda>(i, n, v). items v) fs)) \<and> 0 \<le> r'"
  by (rule take_record_sound [OF assms])

lemma sample_record:
  "takeNativeCompactFlowRecordWithBudget [0x84, 0, 0, 0, 1, 1, 0] 10 = Inr ([(''id'', VNil)], [], 8)"
proof -
  have "flow_field.pay_all [(1, ''id'', VNil)] (10 - int (length [(1 :: byte, ''id'', VNil)]), []) =
      Some (8, [(''id'', VNil)])"
    by (simp add: pay_field_def field_ok_def pay_def nativeCompactFlowRecordFieldName_def
        nativeCompactFlowRecordFields_def)
  from take_record_complete [OF this, of "[]"] show ?thesis
    by (simp add: nativeMaxContainerItems_def pr_counted_def pr_field_def nativeCompactFlowRecord_def
        record_of_def wire_simps)
qed

theorem flow_record_sound_witness:
  "\<exists>fs. [0x84, 0, 0, 0, 1, 1, 0] = nativeCompactFlowRecord # pr_counted pr_field fs @ [] \<and>
    [(''id'', VNil)] = record_of fs \<and> distinct (map fst [(''id'', VNil)]) \<and> (\<forall>f \<in> set fs. field_ok f) \<and>
    (8 :: int) = 10 - int (length fs) - int (sum_list (map (\<lambda>(i, n, v). items v) fs)) \<and> (0 :: int) \<le> 8"
  by (rule flow_record_sound [OF sample_record])

text \<open>
  Claimed jobs: what the decoder returns was read in one layout from the whole payload, as many
  jobs as the header declares; every fencing token is a non-negative 64-bit integer and every job is
  running.
\<close>

theorem claim_jobs_sound:
  assumes "decodeNativeCompactClaimJobs data = Inr jobs"
  shows "(\<forall>job \<in> set jobs. 0 \<le> sint (FencingToken job) \<and> State job = ''running'') \<and>
    (\<exists>layout rest r. data = nativeCompactFlowClaimJobs # be_bytes 4 (length jobs) @ rest \<and>
      length jobs \<le> nativeMaxContainerItems \<and>
      read_items (readClaimedItem layout) (length jobs) rest
        (int nativeMaxContainerItems - int (length jobs)) = Inr (jobs, [], r))"
  using claim_jobs_layout [OF assms]
  by (auto dest: read_items_length claim_items_sound)

definition sample_claims_payload :: bytes where
  "sample_claims_payload = pr_bin [65] @ pr_opt None @ pr_bin [66] @ be_bytes 8 9"

definition sample_job :: claimed_item where
  "sample_job = \<lparr>ID = ''A'', LeaseToken = ''B'', FencingToken = 9, PartitionKey = '''', Type = '''',
     State = ''running'', RunState = '''', Payload = None, Attributes = None\<rparr>"

lemma sample_claim_item:
  "readClaimedItem nativeCompactClaimBase sample_claims_payload r = Inr (sample_job, [], r)"
proof -
  have "string_of [65] = ''A''" "string_of [66] = ''B''" "string_of [] = ''''"
    by code_simp+
  moreover have "be_val (be_bytes 8 9) = 9" by (simp add: be_val_be_bytes)
  ultimately show ?thesis
    by (simp add: readClaimedItem_def sample_claims_payload_def sample_job_def pay_opt_def maxInt64_def maxUint32_def)
qed

lemma sample_claims:
  "decodeNativeCompactClaimJobs (nativeCompactFlowClaimJobs # be_bytes 4 1 @ sample_claims_payload) = Inr [sample_job]"
proof -
  have "length sample_claims_payload = 22"
    by (simp add: sample_claims_payload_def pr_opt_def)
  then have "compactHead nativeCompactFlowClaimJobs ''compact claim jobs'' 16
      (nativeCompactFlowClaimJobs # be_bytes 4 1 @ sample_claims_payload) = Inr (1, sample_claims_payload)"
    by (simp only: compactHead_iff) (simp add: nativeMaxContainerItems_def)
  moreover have "tryDecodeNativeCompactClaimJobsLayout sample_claims_payload 1 nativeCompactClaimBase = Some [sample_job]"
    by (simp add: tryDecodeNativeCompactClaimJobsLayout_def newNativeCompactFlowRecordBudget_def
        nativeMaxContainerItems_def sample_claim_item)
  ultimately show ?thesis by (simp add: decodeNativeCompactClaimJobs_def)
qed

theorem claim_jobs_sound_witness:
  "0 \<le> sint (FencingToken sample_job) \<and>
    (\<exists>layout rest r. nativeCompactFlowClaimJobs # be_bytes 4 1 @ sample_claims_payload =
        nativeCompactFlowClaimJobs # be_bytes 4 (length [sample_job]) @ rest \<and>
      length [sample_job] \<le> nativeMaxContainerItems \<and>
      read_items (readClaimedItem layout) (length [sample_job]) rest
        (int nativeMaxContainerItems - int (length [sample_job])) = Inr ([sample_job], [], r))"
  using claim_jobs_sound [OF sample_claims] by (simp del: read_items.simps)

end
