(* ===== verification/FlowQueryCodec.thy ===== *)
theory FlowQueryCodec
  imports CompactProperties
begin

section \<open>The compact FLOW.QUERY result\<close>

text \<open>
  \<open>src/native_flow_query_result_codec.go\<close> and \<open>src/native_flow_query_typed_codec.go\<close>: the fixed
  header with its quality codes and usage counters, the page cursor, the bitmap-coded records, and
  the two decoders over them: the generic one for raw commands and the typed one for the query
  client, which also requires its text fields to be UTF-8. The usage checks are those of
  \<open>src/flow_query_response.go\<close>. The record index that the code puts into an error message is not kept.
\<close>

subsection \<open>UTF-8\<close>

definition cont_in :: "nat \<Rightarrow> nat \<Rightarrow> byte \<Rightarrow> bool" where
  "cont_in lo hi b \<longleftrightarrow> lo \<le> unat b \<and> unat b \<le> hi"

text \<open>\<open>utf8.Valid\<close>: well-formed sequences, without surrogates, overlong forms or code points above U+10FFFF.\<close>

fun utf8_valid :: "bytes \<Rightarrow> bool" where
  "utf8_valid [] = True"
| "utf8_valid (b0 # rest) =
     (let n = unat b0 in
      if n < 0x80 then utf8_valid rest
      else if 0xC2 \<le> n \<and> n \<le> 0xDF then
        (case rest of b1 # r \<Rightarrow> cont_in 0x80 0xBF b1 \<and> utf8_valid r | _ \<Rightarrow> False)
      else if 0xE0 \<le> n \<and> n \<le> 0xEF then
        (case rest of b1 # b2 # r \<Rightarrow>
           cont_in (if n = 0xE0 then 0xA0 else 0x80) (if n = 0xED then 0x9F else 0xBF) b1 \<and>
           cont_in 0x80 0xBF b2 \<and> utf8_valid r
         | _ \<Rightarrow> False)
      else if 0xF0 \<le> n \<and> n \<le> 0xF4 then
        (case rest of b1 # b2 # b3 # r \<Rightarrow>
           cont_in (if n = 0xF0 then 0x90 else 0x80) (if n = 0xF4 then 0x8F else 0xBF) b1 \<and>
           cont_in 0x80 0xBF b2 \<and> cont_in 0x80 0xBF b3 \<and> utf8_valid r
         | _ \<Rightarrow> False)
      else False)"

subsection \<open>Tables\<close>

definition nativeCompactFlowQueryResult :: byte where "nativeCompactFlowQueryResult = 0xA0"
definition nativeCompactQueryMaxRecords :: nat where "nativeCompactQueryMaxRecords = 100"
definition nativeCompactQueryMinCursorBytes :: nat where "nativeCompactQueryMinCursorBytes = 16"
definition nativeCompactQueryMaxCursorBytes :: nat where "nativeCompactQueryMaxCursorBytes = 4096"
definition nativeCompactQueryCursorPrefix :: string where "nativeCompactQueryCursorPrefix = ''fqc1_''"
definition flowQueryResultContract :: string where
  "flowQueryResultContract = ''ferric.flow.query.result/v1''"

definition nativeCompactQueryRecordFields :: "string list" where
  "nativeCompactQueryRecordFields =
    [''id'', ''type'', ''state'', ''version'', ''priority'', ''partition_key'',
     ''created_at_ms'', ''updated_at_ms'', ''next_run_at_ms'', ''lease_deadline_ms'',
     ''attempts'', ''run_state'', ''max_active_ms'', ''parent_flow_id'', ''root_flow_id'',
     ''correlation_id'', ''attributes'', ''state_meta'', ''event_id'', ''fields'']"

definition nativeCompactQueryQualityFields :: "string list" where
  "nativeCompactQueryQualityFields = [''exactness'', ''freshness'', ''coverage'', ''pagination'']"

definition nativeCompactQueryQualityValues :: "string list list" where
  "nativeCompactQueryQualityValues =
    [[''authoritative'', ''projected_exact'', ''exact'', ''not_applicable''],
     [''current'', ''projection_watermark'', ''not_applicable'', ''''],
     [''complete'', ''unavailable'', '''', ''''],
     [''none'', ''complete'', ''authenticated_seek'', ''live_seek'']]"

definition nativeCompactQueryUsageFields :: "string list" where
  "nativeCompactQueryUsageFields =
    [''range_seeks'', ''range_pages'', ''scanned_entries'', ''scanned_bytes'',
     ''hydrated_records'', ''residual_checks'', ''duplicate_entries'', ''result_records'',
     ''response_bytes'', ''memory_high_water_bytes'', ''wall_time_us'']"

subsection \<open>Header and usage counters\<close>

text \<open>Counters are read as unsigned and refused above the signed 64-bit range, so they are non-negative.\<close>

definition readNativeCompactQueryU64 :: "bytes \<Rightarrow> 's \<Rightarrow> compact_error + (int \<times> bytes \<times> 's)" where
  "readNativeCompactQueryU64 data s =
     (if length data < 8 then Inl (CTruncated ''FLOW.QUERY integer'')
      else if be_val (take 8 data) > maxInt64 then Inl (CBad ''FLOW.QUERY integer exceeds signed 64-bit range'')
      else Inr (int (be_val (take 8 data)), drop 8 data, s))"

record flow_query_usage =
  RangeSeeks :: int
  RangePages :: int
  ScannedEntries :: int
  ScannedBytes :: int
  HydratedRecords :: int
  ResidualChecks :: int
  DuplicateEntries :: int
  ResultRecords :: int
  ResponseBytes :: int
  MemoryHighWaterBytes :: int
  WallTimeUS :: int

record query_header =
  hkind :: byte
  hquality :: "string list"
  husage :: "int list"

definition qualityAt :: "nat \<Rightarrow> byte \<Rightarrow> string" where
  "qualityAt i code = (if unat code \<ge> 4 then '''' else nativeCompactQueryQualityValues ! i ! unat code)"

definition readNativeCompactQueryHeader :: "bytes \<Rightarrow> compact_error + (query_header \<times> bytes)" where
  "readNativeCompactQueryHeader data =
     (if length data < 2 + length nativeCompactQueryQualityFields + 8 * length nativeCompactQueryUsageFields \<or>
         data ! 0 \<noteq> nativeCompactFlowQueryResult
      then Inl (CTruncated ''FLOW.QUERY result'')
      else
        let quality = map (\<lambda>i. qualityAt i (data ! (2 + i))) [0..<length nativeCompactQueryQualityFields] in
        if '''' \<in> set quality then Inl (CBad ''FLOW.QUERY quality code is invalid'')
        else
          ebind (read_items readNativeCompactQueryU64 (length nativeCompactQueryUsageFields) (drop 6 data) ())
            (\<lambda>(usage, rest, _). Inr (\<lparr>hkind = data ! 1, hquality = quality, husage = usage\<rparr>, rest)))"

definition flowQueryUsageFromCompact :: "int list \<Rightarrow> flow_query_usage" where
  "flowQueryUsageFromCompact v =
     \<lparr>RangeSeeks = v ! 0, RangePages = v ! 1, ScannedEntries = v ! 2, ScannedBytes = v ! 3,
      HydratedRecords = v ! 4, ResidualChecks = v ! 5, DuplicateEntries = v ! 6,
      ResultRecords = v ! 7, ResponseBytes = v ! 8, MemoryHighWaterBytes = v ! 9, WallTimeUS = v ! 10\<rparr>"

definition validateFlowQueryUsageCounters :: "flow_query_usage \<Rightarrow> compact_error + unit" where
  "validateFlowQueryUsageCounters u =
     (let maxInt = int maxInt64;
          maxPages = (if ScannedEntries u \<le> maxInt - RangeSeeks u then ScannedEntries u + RangeSeeks u else maxInt);
          maxResidualChecks = (if ScannedEntries u \<le> maxInt div 12 then ScannedEntries u * 12 else maxInt) in
      guard (\<not> (HydratedRecords u > ScannedEntries u \<or> DuplicateEntries u > ScannedEntries u \<or>
               RangePages u > maxPages \<or> ResidualChecks u > maxResidualChecks))
        (CBad ''FLOW.QUERY usage: counters are inconsistent''))"

definition validateFlowQueryRecordUsage :: "flow_query_usage \<Rightarrow> nat \<Rightarrow> compact_error + unit" where
  "validateFlowQueryRecordUsage u cnt =
     (if ResultRecords u \<noteq> int cnt then Inl (CMismatch ''FLOW.QUERY returned records'')
      else if ResultRecords u > ScannedEntries u then Inl (CBad ''FLOW.QUERY returned records exceed scanned entries'')
      else Inr ())"

definition validateFlowQueryCountUsage :: "flow_query_usage \<Rightarrow> compact_error + unit" where
  "validateFlowQueryCountUsage u = guard (ResultRecords u = 1) (CMismatch ''FLOW.QUERY count result'')"

subsection \<open>Page and records\<close>

text \<open>\<open>None\<close> is the last page, \<open>Some cursor\<close> a page that has more.\<close>

type_synonym query_page = "bytes option"

definition readNativeCompactQueryPageData :: "bytes \<Rightarrow> compact_error + (query_page \<times> bytes)" where
  "readNativeCompactQueryPageData data =
     (if length data < 5 then Inl (CTruncated ''FLOW.QUERY page'')
      else
        let hasMore = data ! 0; sz = be_val (take 4 (drop 1 data)); rest = drop 5 data in
        if hasMore = 0 \<and> sz = nativeCompactNilU32 then Inr (None, rest)
        else if hasMore \<noteq> 1 \<or> sz < nativeCompactQueryMinCursorBytes \<or> sz = nativeCompactNilU32 \<or>
                sz > nativeCompactQueryMaxCursorBytes \<or> sz > length rest
        then Inl (CBad ''FLOW.QUERY cursor is invalid'')
        else
          let cursor = take sz rest in
          if take (length nativeCompactQueryCursorPrefix) cursor \<noteq> bytes_of nativeCompactQueryCursorPrefix \<or>
             \<not> utf8_valid cursor
          then Inl (CBad ''FLOW.QUERY cursor is invalid'')
          else Inr (Some cursor, drop sz rest))"

definition page_map :: "query_page \<Rightarrow> cvalue" where
  "page_map p =
     (case p of
        None \<Rightarrow> CMap [(''has_more'', CBool False), (''cursor'', CNil)]
      | Some c \<Rightarrow> CMap [(''has_more'', CBool True), (''cursor'', bin c)])"

type_synonym query_record = "(string \<times> cvalue) list"

text \<open>One field value: any generic value, or a text that is nil or non-empty UTF-8.\<close>

definition readQueryValue :: "bytes \<Rightarrow> int \<Rightarrow> compact_error + (cvalue \<times> bytes \<times> int)" where
  "readQueryValue data budget =
     ebind (map_err CValue (decodeNativeValueBudget nativeMaxDecodeDepth 0 data budget))
       (\<lambda>(v, rest, budget). Inr (CAny v, rest, budget))"

definition readNativeCompactQueryText :: "bytes \<Rightarrow> int \<Rightarrow> compact_error + (cvalue \<times> bytes \<times> int)" where
  "readNativeCompactQueryText data budget =
     (case data of
        [] \<Rightarrow> Inl (CTruncated ''native value'')
      | tag # rest \<Rightarrow>
          let budget = budget - 1 in
          if budget < 0 then Inl (CAggregate ''native value'')
          else if tag = 0 then Inr (CNil, rest, budget)
          else if tag \<noteq> 4 then Inl (CUnsupportedTag ''expected binary value'' tag)
          else if length data < 5 then Inl (CTruncated ''binary length'')
          else
            let sz = be_val (take 4 rest); rest = drop 4 rest in
            if sz > length rest then Inl (CTruncated ''binary value'')
            else
              let value = take sz rest in
              if value = [] \<or> \<not> utf8_valid value then Inl (CBad ''text is empty or invalid UTF-8'')
              else Inr (CText (string_of value), drop sz rest, budget))"

definition nativeCompactQueryRecordTextField :: "nat \<Rightarrow> bool" where
  "nativeCompactQueryRecordTextField i \<longleftrightarrow> i \<in> {0, 1, 2, 5, 11, 13, 14, 15, 18}"

text \<open>
  The loop over the field table: a field whose bit is set in the bitmap is read and added to the
  record under its name. The two record readers differ in how they read a field.
\<close>

fun readQueryFields ::
  "(nat \<Rightarrow> bytes \<Rightarrow> int \<Rightarrow> compact_error + (cvalue \<times> bytes \<times> int)) \<Rightarrow> nat \<Rightarrow> (nat \<times> string) list \<Rightarrow>
   bytes \<Rightarrow> int \<Rightarrow> compact_error + (query_record \<times> bytes \<times> int)" where
  "readQueryFields rd bitmap [] data budget = Inr ([], data, budget)"
| "readQueryFields rd bitmap ((i, field) # fs) data budget =
     (if \<not> bit bitmap i then readQueryFields rd bitmap fs data budget
      else
        ebind (rd i data budget) (\<lambda>(v, data, budget).
        ebind (readQueryFields rd bitmap fs data budget) (\<lambda>(kvs, data, budget).
          Inr ((field, v) # kvs, data, budget))))"

definition readQueryRecordWith ::
  "(nat \<Rightarrow> bytes \<Rightarrow> int \<Rightarrow> compact_error + (cvalue \<times> bytes \<times> int)) \<Rightarrow>
   bytes \<Rightarrow> int \<Rightarrow> compact_error + (query_record \<times> bytes \<times> int)" where
  "readQueryRecordWith rd data budget =
     (if length data < 4 then Inl (CTruncated ''record bitmap'')
      else
        let bitmap = be_val (take 4 data) in
        if bitmap \<ge> 2 ^ 20 then Inl (CBad ''record contains reserved fields'')
        else readQueryFields rd bitmap (enumerate 0 nativeCompactQueryRecordFields) (drop 4 data) budget)"

definition readNativeCompactQueryRecord ::
  "bytes \<Rightarrow> int \<Rightarrow> compact_error + (query_record \<times> bytes \<times> int)" where
  "readNativeCompactQueryRecord = readQueryRecordWith (\<lambda>i. readQueryValue)"

definition readNativeCompactQueryRecordTyped ::
  "bytes \<Rightarrow> int \<Rightarrow> compact_error + (query_record \<times> bytes \<times> int)" where
  "readNativeCompactQueryRecordTyped = readQueryRecordWith
     (\<lambda>i. if nativeCompactQueryRecordTextField i then readNativeCompactQueryText else readQueryValue)"

subsection \<open>The two decoders\<close>

definition quality_map :: "string list \<Rightarrow> cvalue" where
  "quality_map q = CMap (zip nativeCompactQueryQualityFields (map (\<lambda>s. bin (bytes_of s)) q))"

definition usage_map :: "int list \<Rightarrow> cvalue" where
  "usage_map u = CMap (zip nativeCompactQueryUsageFields (map (\<lambda>n. CInt (word_of_int n)) u))"

definition raw_head :: "query_header \<Rightarrow> (string \<times> cvalue) list" where
  "raw_head h = [(''version'', bin (bytes_of flowQueryResultContract)),
     (''quality'', quality_map (hquality h)), (''usage'', usage_map (husage h))]"

definition raw_records :: "query_record list \<Rightarrow> query_page \<Rightarrow> (string \<times> cvalue) list" where
  "raw_records rs page = [(''records'', CList (map CMap rs)), (''page'', page_map page)]"

definition raw_count :: "int \<Rightarrow> (string \<times> cvalue) list" where
  "raw_count n = [(''result'', CMap [(''kind'', bin (bytes_of ''count'')), (''value'', CInt (word_of_int n))])]"

text \<open>The record count of a page: 32 bits, at most a hundred.\<close>

definition readQueryCount :: "bytes \<Rightarrow> compact_error + (nat \<times> bytes)" where
  "readQueryCount data =
     (if length data < 4 then Inl (CTruncated ''FLOW.QUERY record count'')
      else if be_val (take 4 data) > nativeCompactQueryMaxRecords then Inl (CBad ''FLOW.QUERY page exceeds 100 records'')
      else Inr (be_val (take 4 data), drop 4 data))"

text \<open>The checks both decoders end with: nothing unread, and the reported size is the payload's.\<close>

definition queryEnd :: "flow_query_usage \<Rightarrow> bytes \<Rightarrow> bytes \<Rightarrow> compact_error + unit" where
  "queryEnd u data rest =
     ebind (compactEnd ''FLOW.QUERY result'' rest) (\<lambda>_.
       guard (ResponseBytes u = int (length data)) (CMismatch ''FLOW.QUERY response_bytes''))"

definition decodeNativeCompactFlowQueryResult :: "bytes \<Rightarrow> compact_error + cvalue" where
  "decodeNativeCompactFlowQueryResult data =
     ebind (readNativeCompactQueryHeader data) (\<lambda>(header, rest).
     let usage = flowQueryUsageFromCompact (husage header) in
     ebind (validateFlowQueryUsageCounters usage) (\<lambda>_.
     if hkind header = 0 then
       ebind (readNativeCompactQueryPageData rest) (\<lambda>(page, rest).
       ebind (readQueryCount rest) (\<lambda>(cnt, rest).
       ebind (validateFlowQueryRecordUsage usage cnt) (\<lambda>_.
       ebind (consumeNativeCompactFlowRecordItems ''FLOW.QUERY records'' cnt newNativeCompactFlowRecordBudget) (\<lambda>budget.
       ebind (read_items readNativeCompactQueryRecord cnt rest budget) (\<lambda>(rs, rest, _).
       ebind (queryEnd usage data rest) (\<lambda>_.
         Inr (CMap (raw_head header @ raw_records rs page))))))))
     else if hkind header = 1 then
       ebind (validateFlowQueryCountUsage usage) (\<lambda>_.
       ebind (readNativeCompactQueryU64 rest ()) (\<lambda>(n, rest, _).
       ebind (queryEnd usage data rest) (\<lambda>_.
         Inr (CMap (raw_head header @ raw_count n)))))
     else Inl (CUnsupportedTag ''FLOW.QUERY result kind'' (hkind header))))"

record flow_query_page =
  HasMore :: bool
  Cursor :: string

record flow_query_quality =
  Exactness :: string
  Freshness :: string
  Coverage :: string
  Pagination :: string

record flow_query_result =
  Version :: string
  Records :: "query_record list option"
  Page :: "flow_query_page option"
  Count :: "int option"
  Quality :: flow_query_quality
  Usage :: flow_query_usage
  Raw :: "(string \<times> cvalue) list"

definition typedNativeCompactQueryPage :: "query_page \<Rightarrow> flow_query_page" where
  "typedNativeCompactQueryPage p =
     (case p of None \<Rightarrow> \<lparr>HasMore = False, Cursor = ''''\<rparr> | Some c \<Rightarrow> \<lparr>HasMore = True, Cursor = string_of c\<rparr>)"

definition typed_head :: "query_header \<Rightarrow> flow_query_result" where
  "typed_head h =
     \<lparr>Version = flowQueryResultContract, Records = None, Page = None, Count = None,
      Quality = \<lparr>Exactness = hquality h ! 0, Freshness = hquality h ! 1, Coverage = hquality h ! 2,
                 Pagination = hquality h ! 3\<rparr>,
      Usage = flowQueryUsageFromCompact (husage h), Raw = raw_head h\<rparr>"

definition decodeNativeCompactFlowQueryResultTyped :: "bytes \<Rightarrow> compact_error + flow_query_result" where
  "decodeNativeCompactFlowQueryResultTyped data =
     ebind (readNativeCompactQueryHeader data) (\<lambda>(header, rest).
     let usage = flowQueryUsageFromCompact (husage header); result = typed_head header in
     ebind (validateFlowQueryUsageCounters usage) (\<lambda>_.
     if hkind header = 0 then
       ebind (readNativeCompactQueryPageData rest) (\<lambda>(page, rest).
       ebind (readQueryCount rest) (\<lambda>(cnt, rest).
       ebind (consumeNativeCompactFlowRecordItems ''FLOW.QUERY records'' cnt newNativeCompactFlowRecordBudget) (\<lambda>budget.
       ebind (read_items readNativeCompactQueryRecordTyped cnt rest budget) (\<lambda>(rs, rest, _).
       ebind (validateFlowQueryRecordUsage usage cnt) (\<lambda>_.
       ebind (queryEnd usage data rest) (\<lambda>_.
         Inr (result\<lparr>Records := Some rs, Page := Some (typedNativeCompactQueryPage page),
                     Raw := raw_head header @ raw_records rs page\<rparr>)))))))
     else if hkind header = 1 then
       ebind (readNativeCompactQueryU64 rest ()) (\<lambda>(n, rest, _).
       ebind (validateFlowQueryCountUsage usage) (\<lambda>_.
       ebind (queryEnd usage data rest) (\<lambda>_.
         Inr (result\<lparr>Count := Some n, Raw := raw_head header @ raw_count n\<rparr>))))
     else Inl (CUnsupportedTag ''FLOW.QUERY result kind'' (hkind header))))"

subsection \<open>The typed decoder refines the generic one\<close>

text \<open>\<open>untext\<close> forgets the typing of a field: text is the binary it was read from.\<close>

fun untext :: "cvalue \<Rightarrow> cvalue" where
  "untext (CText s) = CAny (VBytes (bytes_of s))"
| "untext CNil = CAny VNil"
| "untext v = v"

definition untyped_record :: "query_record \<Rightarrow> query_record" where
  "untyped_record r = map (\<lambda>(k, v). (k, untext v)) r"

definition untyped_raw :: "flow_query_result \<Rightarrow> cvalue" where
  "untyped_raw res =
     (case Records res of
        None \<Rightarrow> CMap (Raw res)
      | Some rs \<Rightarrow> CMap (map (\<lambda>(k, v). if k = ''records'' then (k, CList (map (\<lambda>r. CMap (untyped_record r)) rs))
                                      else (k, v)) (Raw res)))"

lemma decode_binary:
  "decodeNativeValueBudget D 0 (4 # rest) r =
    (if r - 1 < 0 then Inl DecodeItems
     else if length rest < 4 then Inl BinaryLengthTruncated
     else let sz = be_val (take 4 rest); rest = drop 4 rest in
       if length rest < sz then Inl BinaryTruncated
       else Inr (VBytes (take sz rest), drop sz rest, r - 1))"
  by (subst decodeNativeValueBudget.simps) (simp add: Let_def)

lemma decode_nil:
  "decodeNativeValueBudget D 0 (0 # rest) r = (if r - 1 < 0 then Inl DecodeItems else Inr (VNil, rest, r - 1))"
  by (subst decodeNativeValueBudget.simps) (simp add: Let_def)

lemma text_refines_value:
  assumes "readNativeCompactQueryText data r = Inr (v, rest, r')"
  shows "readQueryValue data r = Inr (untext v, rest, r')"
proof (cases data)
  case Nil
  with assms show ?thesis by (simp add: readNativeCompactQueryText_def)
next
  case (Cons tag d)
  show ?thesis
  proof (cases "tag = 0")
    case True
    with assms Cons show ?thesis
      by (auto simp: readNativeCompactQueryText_def readQueryValue_def decode_nil Let_def split: if_splits)
  next
    case False
    with assms Cons have "tag = 4" "\<not> r - 1 < 0" "\<not> length d < 4" "be_val (take 4 d) \<le> length (drop 4 d)"
      "v = CText (string_of (take (be_val (take 4 d)) (drop 4 d)))" "rest = drop (be_val (take 4 d)) (drop 4 d)"
      "r' = r - 1"
      by (auto simp: readNativeCompactQueryText_def Let_def split: if_splits)
    with Cons show ?thesis by (simp add: readQueryValue_def decode_binary Let_def)
  qed
qed

lemma value_untext: "readQueryValue data r = Inr (v, rest, r') \<Longrightarrow> untext v = v"
  by (auto simp: readQueryValue_def ebind_Inr_iff)

lemma fields_refine:
  assumes "\<And>i data r v rest r'. rd i data r = Inr (v, rest, r') \<Longrightarrow> readQueryValue data r = Inr (untext v, rest, r')"
    and "readQueryFields rd bitmap fs data r = Inr (kvs, rest, r')"
  shows "readQueryFields (\<lambda>i. readQueryValue) bitmap fs data r = Inr (untyped_record kvs, rest, r')"
  using assms(2)
proof (induction fs arbitrary: data r kvs)
  case Nil
  then show ?case by (simp add: untyped_record_def)
next
  case (Cons f fs)
  obtain i field where f: "f = (i, field)" by (cases f)
  show ?case
  proof (cases "bit bitmap i")
    case False
    with Cons f show ?thesis by simp
  next
    case True
    with Cons.prems f obtain v d1 r1 kvs' where v: "rd i data r = Inr (v, d1, r1)"
      and rest: "readQueryFields rd bitmap fs d1 r1 = Inr (kvs', rest, r')" and kvs: "kvs = (field, v) # kvs'"
      by (auto simp: ebind_Inr_iff)
    from Cons.IH [OF rest] assms(1) [OF v] True f kvs show ?thesis by (simp add: untyped_record_def)
  qed
qed

lemma record_refines:
  assumes "readNativeCompactQueryRecordTyped data r = Inr (rec, rest, r')"
  shows "readNativeCompactQueryRecord data r = Inr (untyped_record rec, rest, r')"
proof -
  let ?rd = "\<lambda>i. if nativeCompactQueryRecordTextField i then readNativeCompactQueryText else readQueryValue"
  have rd: "readQueryValue data r = Inr (untext v, rest, r')"
    if "?rd i data r = Inr (v, rest, r')" for i data r v rest r'
    using that text_refines_value value_untext by (auto split: if_splits)
  from assms have len: "\<not> length data < 4" "\<not> be_val (take 4 data) \<ge> 2 ^ 20"
    and f: "readQueryFields ?rd (be_val (take 4 data)) (enumerate 0 nativeCompactQueryRecordFields) (drop 4 data) r =
      Inr (rec, rest, r')"
    by (auto simp: readNativeCompactQueryRecordTyped_def readQueryRecordWith_def Let_def split: if_splits)
  have "readQueryFields (\<lambda>i. readQueryValue) (be_val (take 4 data))
      (enumerate 0 nativeCompactQueryRecordFields) (drop 4 data) r = Inr (untyped_record rec, rest, r')"
    by (rule fields_refine [OF _ f]) (rule rd)
  with len show ?thesis by (simp add: readNativeCompactQueryRecord_def readQueryRecordWith_def Let_def)
qed

lemma records_refine:
  "read_items readNativeCompactQueryRecordTyped n data r = Inr (rs, rest, r') \<Longrightarrow>
   read_items readNativeCompactQueryRecord n data r = Inr (map untyped_record rs, rest, r')"
  by (induction n arbitrary: data r rs) (fastforce simp: ebind_Inr_iff dest: record_refines)+

lemma typed_raw:
  "untyped_raw (typed_head h\<lparr>Records := Some rs, Page := p, Raw := raw_head h @ raw_records rs page\<rparr>) =
   CMap (raw_head h @ raw_records (map untyped_record rs) page)"
  "untyped_raw (typed_head h\<lparr>Count := Some n, Raw := raw_head h @ raw_count n\<rparr>) =
   CMap (raw_head h @ raw_count n)"
  by (simp_all add: untyped_raw_def raw_head_def raw_records_def typed_head_def)

text \<open>The counters of a decoded header are in the signed 64-bit range.\<close>

definition pay_u64 :: "int \<Rightarrow> 's \<Rightarrow> 's option" where
  "pay_u64 n s = (if 0 \<le> n \<and> n \<le> int maxInt64 then Some s else None)"

interpretation query_u64: format readNativeCompactQueryU64 "\<lambda>n. be_bytes 8 (nat n)" pay_u64
proof unfold_locales
  fix data rest :: bytes and n :: int and s s' :: 's
  show *: "readNativeCompactQueryU64 data s = Inr (n, rest, s') \<Longrightarrow>
      data = be_bytes 8 (nat n) @ rest \<and> pay_u64 n s = Some s'"
    by (auto simp: readNativeCompactQueryU64_def pay_u64_def split: if_splits)
  then show "readNativeCompactQueryU64 data s = Inr (n, rest, s') \<Longrightarrow> \<exists>p. data = p @ rest" by blast
  show "pay_u64 n s = Some s' \<Longrightarrow> readNativeCompactQueryU64 (be_bytes 8 (nat n) @ rest) s = Inr (n, rest, s')"
    by (auto simp: readNativeCompactQueryU64_def pay_u64_def be_val_be_bytes maxInt64_def split: if_splits)
qed

lemma pay_all_u64:
  "query_u64.pay_all ns s = Some s' \<longleftrightarrow> (\<forall>n \<in> set ns. 0 \<le> n \<and> n \<le> int maxInt64) \<and> s' = s"
  by (induction ns arbitrary: s) (auto simp: pay_u64_def bind_eq_Some_conv)

definition usage_in_range :: "flow_query_usage \<Rightarrow> bool" where
  "usage_in_range u \<longleftrightarrow> list_all (\<lambda>n. 0 \<le> n \<and> n \<le> int maxInt64)
     [RangeSeeks u, RangePages u, ScannedEntries u, ScannedBytes u, HydratedRecords u, ResidualChecks u,
      DuplicateEntries u, ResultRecords u, ResponseBytes u, MemoryHighWaterBytes u, WallTimeUS u]"

lemma header_in_range:
  assumes "readNativeCompactQueryHeader data = Inr (h, rest)"
  shows "usage_in_range (flowQueryUsageFromCompact (husage h))"
proof -
  have len: "length nativeCompactQueryUsageFields = 11" by (simp add: nativeCompactQueryUsageFields_def)
  from assms obtain us where us: "read_items readNativeCompactQueryU64 (length nativeCompactQueryUsageFields)
      (drop 6 data) () = Inr (us, rest, ())" and h: "husage h = us"
    by (auto simp: readNativeCompactQueryHeader_def Let_def ebind_Inr_iff simp del: read_items.simps
        split: if_splits)
  have l: "length us = 11" using read_items_length [OF us] len by simp
  have "0 \<le> us ! i \<and> us ! i \<le> int maxInt64" if "i < 11" for i
    using query_u64.items_sound [OF us] that l by (simp add: pay_all_u64)
  then show ?thesis
    by (simp add: usage_in_range_def flowQueryUsageFromCompact_def h)
qed

text \<open>
  C12. The typed query decoder refines the generic one: whenever the typed decoder accepts a payload,
  the generic decoder accepts it too and returns the typed result's raw map, up to text fields being
  the binaries they were read from.
\<close>

theorem typed_query_refines_generic:
  assumes "decodeNativeCompactFlowQueryResultTyped data = Inr res"
  shows "decodeNativeCompactFlowQueryResult data = Inr (untyped_raw res)"
proof -
  from assms obtain h rest where h: "readNativeCompactQueryHeader data = Inr (h, rest)"
    and ok: "validateFlowQueryUsageCounters (flowQueryUsageFromCompact (husage h)) = Inr ()"
    and kind: "hkind h = 0 \<or> hkind h = 1"
    by (auto simp: decodeNativeCompactFlowQueryResultTyped_def Let_def ebind_Inr_iff split: if_splits)
  from kind show ?thesis
  proof
    assume "hkind h = 0"
    with assms h ok show ?thesis
      by (fastforce simp: decodeNativeCompactFlowQueryResultTyped_def decodeNativeCompactFlowQueryResult_def
          Let_def ebind_Inr_iff typed_raw dest: records_refine)
  next
    assume "hkind h = 1"
    with assms h ok show ?thesis
      by (fastforce simp: decodeNativeCompactFlowQueryResultTyped_def decodeNativeCompactFlowQueryResult_def
          Let_def ebind_Inr_iff typed_raw)
  qed
qed

text \<open>The concrete count result of the instances below.\<close>

definition sample_usage :: "int list" where
  "sample_usage = [0, 0, 0, 0, 0, 0, 0, 1, 102, 0, 0]"

definition sample_count_payload :: bytes where
  "sample_count_payload = [0xA0, 1, 0, 0, 0, 0] @ concat (map (\<lambda>n. be_bytes 8 (nat n)) sample_usage) @
     be_bytes 8 (nat 9)"

definition sample_header :: query_header where
  "sample_header = \<lparr>hkind = 1, hquality = [''authoritative'', ''current'', ''complete'', ''none''],
     husage = sample_usage\<rparr>"

lemma length_sample_count: "length sample_count_payload = 102"
  by (simp add: sample_count_payload_def sample_usage_def)

lemma sample_header: "readNativeCompactQueryHeader sample_count_payload = Inr (sample_header, be_bytes 8 (nat 9))"
proof -
  have "query_u64.pay_all sample_usage () = Some ()"
    unfolding pay_all_u64 by (simp add: sample_usage_def maxInt64_def)
  from query_u64.items_complete [OF this, of "be_bytes 8 (nat 9)"]
  have its: "read_items readNativeCompactQueryU64 (length nativeCompactQueryUsageFields)
      (drop 6 sample_count_payload) () = Inr (sample_usage, be_bytes 8 (nat 9), ())"
    by (simp add: sample_count_payload_def nativeCompactQueryUsageFields_def sample_usage_def
        del: read_items.simps)
  have q: "map (\<lambda>i. qualityAt i (sample_count_payload ! (2 + i))) [0..<length nativeCompactQueryQualityFields] =
      [''authoritative'', ''current'', ''complete'', ''none'']"
    by (simp add: nativeCompactQueryQualityFields_def sample_count_payload_def qualityAt_def
        nativeCompactQueryQualityValues_def upt_rec)
  have h: "sample_count_payload ! 0 = nativeCompactFlowQueryResult" "sample_count_payload ! 1 = 1"
    by (simp_all add: sample_count_payload_def nativeCompactFlowQueryResult_def)
  show ?thesis unfolding readNativeCompactQueryHeader_def q its Let_def
    using h by (simp add: length_sample_count sample_header_def nativeCompactQueryQualityFields_def
        nativeCompactQueryUsageFields_def)
qed

lemma sample_typed:
  "decodeNativeCompactFlowQueryResultTyped sample_count_payload =
   Inr (typed_head sample_header\<lparr>Count := Some 9, Raw := raw_head sample_header @ raw_count 9\<rparr>)"
proof -
  have "readNativeCompactQueryU64 (be_bytes 8 (nat 9)) () = Inr (9, [], ())"
    using query_u64.rd_complete [of 9 "()" "()" "[]"] by (simp add: pay_u64_def maxInt64_def)
  moreover have "hkind sample_header = 1" by (simp add: sample_header_def)
  moreover have "flowQueryUsageFromCompact (husage sample_header) =
      \<lparr>RangeSeeks = 0, RangePages = 0, ScannedEntries = 0, ScannedBytes = 0, HydratedRecords = 0,
       ResidualChecks = 0, DuplicateEntries = 0, ResultRecords = 1, ResponseBytes = 102,
       MemoryHighWaterBytes = 0, WallTimeUS = 0\<rparr>"
    by (simp add: sample_header_def sample_usage_def flowQueryUsageFromCompact_def)
  ultimately show ?thesis
    by (simp add: decodeNativeCompactFlowQueryResultTyped_def sample_header validateFlowQueryUsageCounters_def
        validateFlowQueryCountUsage_def queryEnd_def length_sample_count maxInt64_def)
qed

theorem typed_query_refines_generic_witness:
  "decodeNativeCompactFlowQueryResult sample_count_payload =
   Inr (untyped_raw (typed_head sample_header\<lparr>Count := Some 9, Raw := raw_head sample_header @ raw_count 9\<rparr>))"
  by (rule typed_query_refines_generic [OF sample_typed])

text \<open>
  C13. A query result that the typed decoder accepts is consistent: every usage counter is a
  non-negative signed 64-bit integer, the number of result records is the number of records returned
  (at most 100, and one for a count), the reported response size is the payload's length, and exactly
  one of the records and the count is present.
\<close>

theorem typed_query_consistent:
  assumes "decodeNativeCompactFlowQueryResultTyped data = Inr res"
  shows "usage_in_range (Usage res) \<and> ResponseBytes (Usage res) = int (length data) \<and>
    ResultRecords (Usage res) \<le> 100 \<and>
    ((\<exists>rs. Records res = Some rs \<and> Count res = None \<and> ResultRecords (Usage res) = int (length rs) \<and>
        ResultRecords (Usage res) \<le> ScannedEntries (Usage res)) \<or>
     (\<exists>n. Records res = None \<and> Count res = Some n \<and> 0 \<le> n \<and> n \<le> int maxInt64 \<and>
        ResultRecords (Usage res) = 1)) \<and>
    HydratedRecords (Usage res) \<le> ScannedEntries (Usage res)"
proof -
  from assms obtain h rest where h: "readNativeCompactQueryHeader data = Inr (h, rest)"
    and ok: "validateFlowQueryUsageCounters (flowQueryUsageFromCompact (husage h)) = Inr ()"
    and kind: "hkind h = 0 \<or> hkind h = 1"
    by (auto simp: decodeNativeCompactFlowQueryResultTyped_def Let_def ebind_Inr_iff split: if_splits)
  from ok have hyd: "HydratedRecords (flowQueryUsageFromCompact (husage h)) \<le>
      ScannedEntries (flowQueryUsageFromCompact (husage h))"
    by (auto simp: validateFlowQueryUsageCounters_def Let_def)
  from kind show ?thesis
  proof
    assume "hkind h = 0"
    with assms h ok hyd show ?thesis
      by (auto simp: decodeNativeCompactFlowQueryResultTyped_def Let_def ebind_Inr_iff typed_head_def
          queryEnd_def validateFlowQueryRecordUsage_def readQueryCount_def nativeCompactQueryMaxRecords_def
          header_in_range split: if_splits dest!: read_items_length)
  next
    assume "hkind h = 1"
    with assms h ok hyd show ?thesis
      by (auto simp: decodeNativeCompactFlowQueryResultTyped_def Let_def ebind_Inr_iff typed_head_def
          queryEnd_def validateFlowQueryCountUsage_def header_in_range query_u64.rd_iff pay_u64_def
          split: if_splits)
  qed
qed

theorem typed_query_consistent_witness:
  "ResponseBytes (Usage (typed_head sample_header)) = int (length sample_count_payload)"
  using typed_query_consistent [OF sample_typed] by (simp add: typed_head_def)

end
