(* ===== verification/Frames.thy ===== *)
theory Frames
  imports FlowQueryCodec
begin

section \<open>Frames and single responses\<close>

text \<open>
  The 24-byte frame header of \<open>src/native_frame.go\<close> and \<open>src/native_connection.go\<close> (\<open>FSNP\<close>, version,
  flags, lane, opcode, request id, body length), reading a response frame from the connection, and
  \<open>src/native_response.go\<close>: decoding the body of a complete response by its flags, and the checks on
  server-initiated responses. The connection is the byte string still to be read.
\<close>

subsection \<open>Frames\<close>

definition nativeMagic :: string where "nativeMagic = ''FSNP''"
definition nativeRequestVersion :: byte where "nativeRequestVersion = 0x01"
definition nativeResponseVersion :: byte where "nativeResponseVersion = 0x81"
definition nativeHeaderLen :: nat where "nativeHeaderLen = 24"

record native_frame =
  fflags :: byte
  flaneID :: "32 word"
  fopcode :: "16 word"
  frequestID :: "64 word"
  fbody :: bytes

definition frame_header :: "byte \<Rightarrow> native_frame \<Rightarrow> bytes" where
  "frame_header version f =
     bytes_of nativeMagic @ [version, fflags f] @ be_bytes 4 (unat (flaneID f)) @
     be_bytes 2 (unat (fopcode f)) @ be_bytes 8 (unat (frequestID f)) @ be_bytes 4 (length (fbody f))"

text \<open>What \<open>writeRequest\<close> writes to the connection for an encoded request body.\<close>

definition request_bytes :: "byte \<Rightarrow> 32 word \<Rightarrow> 16 word \<Rightarrow> 64 word \<Rightarrow> bytes \<Rightarrow> bytes" where
  "request_bytes flags laneID opcode requestID body =
     frame_header nativeRequestVersion
       \<lparr>fflags = flags, flaneID = laneID, fopcode = opcode, frequestID = requestID, fbody = body\<rparr> @ body"

datatype frame_error =
    ConnectionEOF
  | InvalidMagic
  | UnsupportedVersion byte
  | FrameTooLarge nat

definition readNativeFrameWithLimit :: "int \<Rightarrow> bytes \<Rightarrow> 's \<Rightarrow> frame_error + (native_frame \<times> bytes \<times> 's)" where
  "readNativeFrameWithLimit maxBody input s =
     (let maxBodyBytes = (if maxBody \<le> 0 \<or> maxBody > int nativeMaxFrameBytes then nativeMaxFrameBytes else nat maxBody);
          header = take nativeHeaderLen input; rest = drop nativeHeaderLen input in
      if length header < nativeHeaderLen then Inl ConnectionEOF
      else if take 4 header \<noteq> bytes_of nativeMagic then Inl InvalidMagic
      else if header ! 4 \<noteq> nativeResponseVersion then Inl (UnsupportedVersion (header ! 4))
      else
        let bodyLen = be_val (take 4 (drop 20 header)) in
        if bodyLen > maxBodyBytes then Inl (FrameTooLarge maxBodyBytes)
        else if length rest < bodyLen then Inl ConnectionEOF
        else Inr (\<lparr>fflags = header ! 5,
                   flaneID = word_of_nat (be_val (take 4 (drop 6 header))),
                   fopcode = word_of_nat (be_val (take 2 (drop 10 header))),
                   frequestID = word_of_nat (be_val (take 8 (drop 12 header))),
                   fbody = take bodyLen rest\<rparr>, drop bodyLen rest, s))"

definition frame_limit :: "int \<Rightarrow> nat" where
  "frame_limit maxBody = (if maxBody \<le> 0 \<or> maxBody > int nativeMaxFrameBytes then nativeMaxFrameBytes else nat maxBody)"

definition pay_frame :: "int \<Rightarrow> native_frame \<Rightarrow> 's \<Rightarrow> 's option" where
  "pay_frame maxBody f s = (if length (fbody f) \<le> frame_limit maxBody then Some s else None)"

abbreviation response_bytes :: "native_frame \<Rightarrow> bytes" where
  "response_bytes f \<equiv> frame_header nativeResponseVersion f @ fbody f"

lemma frame_limit_le: "frame_limit maxBody \<le> maxUint32"
  by (auto simp: frame_limit_def native_limits)

lemma be_val_unat:
  "be_val (be_bytes 4 (unat (w :: 32 word))) = unat w" "be_val (be_bytes 2 (unat (v :: 16 word))) = unat v"
  using unsigned_less [of w, where ?'a = nat] unsigned_less [of v, where ?'a = nat]
  by (simp_all add: be_val_be_bytes)

lemma length_frame_header [simp]: "length (frame_header v f) = 24"
  by (simp add: frame_header_def nativeMagic_def)

lemma frame_header_parts:
  "take 4 (frame_header v f) = bytes_of nativeMagic"
  "frame_header v f ! 4 = v" "frame_header v f ! 5 = fflags f"
  "take 4 (drop 6 (frame_header v f)) = be_bytes 4 (unat (flaneID f))"
  "take 2 (drop 10 (frame_header v f)) = be_bytes 2 (unat (fopcode f))"
  "take 8 (drop 12 (frame_header v f)) = be_bytes 8 (unat (frequestID f))"
  "take 4 (drop 20 (frame_header v f)) = be_bytes 4 (length (fbody f))"
  by (simp_all add: frame_header_def nativeMagic_def nth_append)

lemma frame_complete:
  assumes "pay_frame maxBody f s = Some s'"
  shows "readNativeFrameWithLimit maxBody (response_bytes f @ rest) s = Inr (f, rest, s')"
proof -
  from assms have le: "length (fbody f) \<le> frame_limit maxBody" and "s' = s"
    by (auto simp: pay_frame_def split: if_splits)
  have "take 24 (response_bytes f @ rest) = frame_header nativeResponseVersion f"
    "drop 24 (response_bytes f @ rest) = fbody f @ rest" by simp_all
  with le \<open>s' = s\<close> order_trans [OF le frame_limit_le] show ?thesis
    by (simp add: readNativeFrameWithLimit_def nativeHeaderLen_def frame_header_parts be_val_be_bytes4 be_val_unat
        flip: frame_limit_def)
qed

lemma header_split:
  assumes "length h = 24" and "take 4 h = bytes_of nativeMagic"
  shows "h = bytes_of nativeMagic @ [h ! 4, h ! 5] @ take 4 (drop 6 h) @ take 2 (drop 10 h) @
    take 8 (drop 12 h) @ take 4 (drop 20 h)"
proof -
  have "h = take 4 h @ take 2 (drop 4 h) @ take 4 (drop 6 h) @ take 2 (drop 10 h) @ take 8 (drop 12 h) @ drop 20 h"
    using append_take_drop_id [of 4 h] append_take_drop_id [of 2 "drop 4 h"] append_take_drop_id [of 4 "drop 6 h"]
      append_take_drop_id [of 2 "drop 10 h"] append_take_drop_id [of 8 "drop 12 h"]
    by simp
  moreover have "take 2 (drop 4 h) = [h ! 4, h ! 5]"
    using assms(1) by (simp add: take_drop nth_drop list_eq_iff_nth_eq less_Suc_eq numeral_2_eq_2)
  moreover have "take 4 (drop 20 h) = drop 20 h" using assms(1) by simp
  ultimately show ?thesis using assms(2) by simp
qed

lemma unat_be_val: "length bs = 4 \<Longrightarrow> unat (word_of_nat (be_val bs) :: 32 word) = be_val bs"
  "length bs = 2 \<Longrightarrow> unat (word_of_nat (be_val bs) :: 16 word) = be_val bs"
  using be_val_bound [of bs] by (simp_all add: unat_of_nat)

lemma header_print:
  assumes len: "length h = 24" and magic: "take 4 h = bytes_of nativeMagic" and "h ! 4 = v"
    and "fflags f = h ! 5" and "flaneID f = word_of_nat (be_val (take 4 (drop 6 h)))"
    and "fopcode f = word_of_nat (be_val (take 2 (drop 10 h)))"
    and "frequestID f = word_of_nat (be_val (take 8 (drop 12 h)))"
    and "length (fbody f) = be_val (take 4 (drop 20 h))"
  shows "frame_header v f = h"
proof -
  have "frame_header v f = bytes_of nativeMagic @ [h ! 4, h ! 5] @ take 4 (drop 6 h) @ take 2 (drop 10 h) @
      take 8 (drop 12 h) @ take 4 (drop 20 h)"
    using assms by (simp add: frame_header_def unat_be_val unat_be_val8)
  also have "\<dots> = h" by (rule header_split [OF len magic, symmetric])
  finally show ?thesis .
qed

lemma frame_sound:
  assumes "readNativeFrameWithLimit maxBody input s = Inr (f, rest, s')"
  shows "input = response_bytes f @ rest \<and> pay_frame maxBody f s = Some s'"
proof -
  let ?h = "take 24 input" and ?r = "drop 24 input"
  let ?n = "be_val (take 4 (drop 20 ?h))"
  from assms have len: "length ?h = 24" and magic: "take 4 ?h = bytes_of nativeMagic"
    and v: "?h ! 4 = nativeResponseVersion" and n: "?n \<le> frame_limit maxBody" "?n \<le> length ?r"
    and f: "f = \<lparr>fflags = ?h ! 5, flaneID = word_of_nat (be_val (take 4 (drop 6 ?h))),
      fopcode = word_of_nat (be_val (take 2 (drop 10 ?h))),
      frequestID = word_of_nat (be_val (take 8 (drop 12 ?h))), fbody = take ?n ?r\<rparr>"
    and rest: "rest = drop ?n ?r" and s: "s' = s"
    by (auto simp: readNativeFrameWithLimit_def nativeHeaderLen_def Let_def simp flip: frame_limit_def
        split: if_splits)
  have nb: "length (fbody f) = ?n" using n(2) f by simp
  have "frame_header nativeResponseVersion f = ?h"
    by (rule header_print [OF len magic v]) (use nb f in simp_all)
  moreover have "?r = fbody f @ rest" using f rest by (simp only: native_frame.simps append_take_drop_id)
  ultimately have "input = response_bytes f @ rest" by (metis append_take_drop_id append_assoc)
  with n nb s show ?thesis by (simp add: pay_frame_def)
qed

interpretation frame: format "readNativeFrameWithLimit maxBody" response_bytes "pay_frame maxBody" for maxBody
  by unfold_locales (auto dest: frame_sound simp del: append_assoc intro: frame_complete)

end
