(* ===== verification/WireRoundtrip.thy ===== *)
theory WireRoundtrip
  imports WireCodec
begin

section \<open>The encoder produces the wire grammar\<close>

text \<open>
  \<open>norm v\<close> is what a receiver reads back for \<open>v\<close>: integers of every width become 64-bit integers,
  strings become binaries, pointers disappear, maps are sorted by key, and the typed command
  payloads become the map they stand for.
\<close>

definition norm_uint :: "64 word \<Rightarrow> goval" where
  "norm_uint v = (if unat v \<le> 2 ^ 63 - 1 then VInt v else VUint v)"

definition norm_str :: "string \<Rightarrow> goval" where
  "norm_str s = VBytes (bytes_of s)"

function norm :: "goval \<Rightarrow> goval" where
  "norm v =
     (case v of
       VInt8 w \<Rightarrow> VInt (scast w) | VInt16 w \<Rightarrow> VInt (scast w) | VInt32 w \<Rightarrow> VInt (scast w)
     | VUint w \<Rightarrow> norm_uint w | VUint8 w \<Rightarrow> norm_uint (ucast w)
     | VUint16 w \<Rightarrow> norm_uint (ucast w) | VUint32 w \<Rightarrow> norm_uint (ucast w)
     | VString s \<Rightarrow> norm_str s
     | VStringer i s \<Rightarrow> norm_str s
     | VArray i vs \<Rightarrow> VArray None (map norm vs)
     | VMap i kvs \<Rightarrow> VMap None (sort_key fst (map (\<lambda>(k, v). (k, norm v)) kvs))
     | VRMap i kvs \<Rightarrow> VMap None (sort_key fst (map (\<lambda>(k, v). (the k, norm v)) kvs))
     | VNilPtr \<Rightarrow> VNil
     | VPtr i v \<Rightarrow> norm v
     | VDeferred r \<Rightarrow> (case r of Inl e \<Rightarrow> VNil | Inr v \<Rightarrow> norm v)
     | VMGet i args sk \<Rightarrow>
         VMap None [(''keys'', VArray None
           (case sk of Some ks \<Rightarrow> map norm_str ks | None \<Rightarrow> map norm args))]
     | VMSet args kv \<Rightarrow>
         VMap None [(''pairs'', VArray None
           (case kv of
              Some (ks, vs) \<Rightarrow> map (\<lambda>(k, v). VArray None [norm_str k, norm v]) (zip ks vs)
            | None \<Rightarrow> map (\<lambda>(k, v). VArray None [norm k, norm v]) (pairs_of args)))]
     | VKeyValueCommand cmd ks vs \<Rightarrow>
         VMap None [(''command'', norm_str cmd),
           (''args'', VArray None (concat (map (\<lambda>(k, v). [norm_str k, norm v]) (zip ks vs))))]
     | VKeyCommand cmd i ks \<Rightarrow>
         VMap None [(''command'', norm_str cmd), (''args'', VArray None (map norm_str ks))]
     | _ \<Rightarrow> v)"
  by pat_completeness auto
termination
  by (relation "measure size")
    (auto dest: size_mem_list size_mem_entries size_mem_pairs size_mem_zip)

declare norm.simps [simp del]

lemma norm_cases [simp]:
  "norm VNil = VNil" "norm (VBool x) = VBool x" "norm (VInt w) = VInt w"
  "norm (VInt8 w8) = VInt (scast w8)" "norm (VInt16 w16) = VInt (scast w16)"
  "norm (VInt32 w32) = VInt (scast w32)"
  "norm (VUint w) = norm_uint w" "norm (VUint8 w8) = norm_uint (ucast w8)"
  "norm (VUint16 w16) = norm_uint (ucast w16)" "norm (VUint32 w32) = norm_uint (ucast w32)"
  "norm (VFloat w) = VFloat w" "norm (VString s) = norm_str s" "norm (VBytes bs) = VBytes bs"
  "norm (VStringer i s) = norm_str s" "norm VNilPtr = VNil" "norm (VPtr p v) = norm v"
  "norm (VArray i vs) = VArray None (map norm vs)"
  "norm (VDeferred (Inr v)) = norm v" "norm VUnsupported = VUnsupported"
  by (subst norm.simps; simp)+

text \<open>A Go map has each key once; every other value is unrestricted.\<close>

fun go_wf :: "goval \<Rightarrow> bool" where
  "go_wf (VArray i vs) = (\<forall>v \<in> set vs. go_wf v)"
| "go_wf (VMap i kvs) = (distinct (map fst kvs) \<and> (\<forall>(k, v) \<in> set kvs. go_wf v))"
| "go_wf (VRMap i kvs) = (\<forall>(k, v) \<in> set kvs. go_wf v)"
| "go_wf (VPtr p v) = go_wf v"
| "go_wf (VDeferred r) = (case r of Inl e \<Rightarrow> True | Inr v \<Rightarrow> go_wf v)"
| "go_wf (VMGet i args sk) = (\<forall>v \<in> set args. go_wf v)"
| "go_wf (VMSet args kv) =
     ((\<forall>v \<in> set args. go_wf v) \<and>
      (case kv of None \<Rightarrow> True | Some (ks, vs) \<Rightarrow> (\<forall>v \<in> set vs. go_wf v)))"
| "go_wf (VKeyValueCommand cmd ks vs) = (\<forall>v \<in> set vs. go_wf v)"
| "go_wf _ = True"

subsection \<open>What one write appends and spends\<close>

definition emits :: "nat \<Rightarrow> encoder \<Rightarrow> encoder \<Rightarrow> bytes \<Rightarrow> nat \<Rightarrow> bool" where
  "emits L b b' w c \<longleftrightarrow>
     ebuf b' = ebuf b @ w \<and> eremaining b' + int c \<le> eremaining b \<and>
     (0 \<le> eremaining b \<longrightarrow> 0 \<le> eremaining b') \<and>
     (length (ebuf b) \<le> L \<longrightarrow> length (ebuf b') \<le> L)"

named_theorems emit_intros \<open>what each primitive write emits\<close>

lemma emits_refl: "emits L b b [] 0"
  by (simp add: emits_def)

lemma emits_trans [trans]:
  "emits L b b' w c \<Longrightarrow> emits L b' b'' w' c' \<Longrightarrow> emits L b b'' (w @ w') (c + c')"
  by (auto simp: emits_def)

lemma emits_remaining: "emits L b b' w c \<Longrightarrow> eremaining b' \<le> eremaining b"
  by (auto simp: emits_def)

lemma write_emits [emit_intros]:
  "writeBytes L bs b = Inr b' \<Longrightarrow> emits L b b' bs 0"
  "writeByte L v b = Inr b' \<Longrightarrow> emits L b b' [v] 0"
  "writeString L s b = Inr b' \<Longrightarrow> emits L b b' (bytes_of s) 0"
  by (auto simp: writeBytes_def writeByte_def writeString_def ensure_size_def ebind_Inr_iff emits_def)

lemma enter_emits [emit_intros]:
  assumes "enter vis i d b = Inr (vis', b')"
  shows "emits L b b' [] 1" "d \<le> nativeMaxEncodeDepth"
  using assms by (auto simp: enter_def emits_def Let_def split: if_splits option.splits)

lemma scalar_emits [emit_intros]:
  "writeNativeInt L w b = Inr b' \<Longrightarrow> emits L b b' (wire (VInt w)) 0"
  "writeNativeFloat L w b = Inr b' \<Longrightarrow> emits L b b' (wire (VFloat w)) 0"
  "writeNativeContainerHeader L tag n b = Inr b' \<Longrightarrow> emits L b b' (tag # be_bytes 4 n) 0"
  by (auto simp: writeNativeInt_def writeNativeFloat_def writeNativeContainerHeader_def ebind_Inr_iff
      dest!: write_emits dest: emits_trans)

lemma writeNativeUint_emits [emit_intros]:
  "writeNativeUint L w b = Inr b' \<Longrightarrow> emits L b b' (wire (norm_uint w)) 0"
  by (auto simp: writeNativeUint_def norm_uint_def ebind_Inr_iff split: if_splits
      dest!: write_emits dest: emits_trans scalar_emits(1))

lemma binary_emits [emit_intros]:
  "writeNativeBytes L bs b = Inr b' \<Longrightarrow> emits L b b' (wire (VBytes bs)) 0 \<and> canon (VBytes bs)"
  "writeNativeString L s b = Inr b' \<Longrightarrow> emits L b b' (wire (norm_str s)) 0 \<and> canon (norm_str s)"
  by (auto simp: writeNativeBytes_def writeNativeString_def norm_str_def ebind_Inr_iff split: if_splits
      dest!: write_emits(1,3) scalar_emits(3) dest: emits_trans)

lemma key_emits [emit_intros]:
  "writeNativeMapKey L k b = Inr b' \<Longrightarrow>
   emits L b b' (be_bytes 4 (length k) @ bytes_of k) 0 \<and> length k \<le> maxUint32"
  by (auto simp: writeNativeMapKey_def ebind_Inr_iff split: if_splits
      dest!: write_emits dest: emits_trans)

subsection \<open>Loops and containers\<close>

lemma for_each_emits:
  assumes body: "\<And>x b b'. x \<in> set xs \<Longrightarrow> eremaining b \<le> M \<Longrightarrow> f x b = Inr b' \<Longrightarrow>
      emits L b b' (out x) (cost x) \<and> P x"
    and "eremaining b \<le> M" and "for_each f xs b = Inr b'"
  shows "emits L b b' (concat (map out xs)) (sum_list (map cost xs)) \<and> (\<forall>x \<in> set xs. P x)"
  using assms
proof (induction xs arbitrary: b)
  case Nil
  then show ?case by (simp add: emits_refl)
next
  case (Cons x xs)
  from Cons.prems(3) obtain b1 where x: "f x b = Inr b1" and xs: "for_each f xs b1 = Inr b'"
    by (auto simp: ebind_Inr_iff)
  from Cons.prems(1) [OF _ Cons.prems(2) x] have e: "emits L b b1 (out x) (cost x)" and px: "P x"
    by simp_all
  have "eremaining b1 \<le> M" using emits_remaining [OF e] Cons.prems(2) by simp
  with Cons.IH [OF _ _ xs] Cons.prems(1)
  have "emits L b1 b' (concat (map out xs)) (sum_list (map cost xs)) \<and> (\<forall>x \<in> set xs. P x)"
    by simp
  with emits_trans [OF e] px show ?case by simp
qed

definition encodes :: "nat \<Rightarrow> nat \<Rightarrow> encoder \<Rightarrow> encoder \<Rightarrow> goval \<Rightarrow> bool" where
  "encodes L d b b' x \<longleftrightarrow>
     emits L b b' (wire x) (items x) \<and> canon x \<and> depth_ok nativeMaxEncodeDepth d x"

lemma depth_ok_Suc: "depth_ok D (Suc d) v \<Longrightarrow> depth_ok D d v"
  by (induction D d v rule: depth_ok.induct) auto

lemma encodes_pointer:
  assumes "enter vis i d b = Inr (vis', b1)" and "encodes L (Suc d) b1 b' x"
  shows "encodes L d b b' x"
proof -
  from enter_emits(1) [OF assms(1), of L] have "emits L b b1 [] 1" .
  moreover from assms(2) have "emits L b1 b' (wire x) (items x)" by (simp add: encodes_def)
  ultimately have "emits L b b' (wire x) (1 + items x)" using emits_trans by fastforce
  then show ?thesis using assms(2) by (auto simp: encodes_def emits_def dest: depth_ok_Suc)
qed

lemma encodes_leaf:
  assumes "enter vis i d b = Inr (vis', b1)" and "emits L b1 b' (wire x) 0" and "canon x"
    and "items x = 1" and "\<And>D. d \<le> D \<Longrightarrow> depth_ok D d x"
  shows "encodes L d b b' x"
  using emits_trans [OF enter_emits(1) [OF assms(1)] assms(2)] enter_emits(2) [OF assms(1)] assms(3-5)
  by (simp add: encodes_def)

lemma head_emits:
  "writeArrayHead L n b = Inr b' \<Longrightarrow> emits L b b' (5 # be_bytes 4 n) 0 \<and> int n \<le> eremaining b"
  "writeMapHead L n b = Inr b' \<Longrightarrow> emits L b b' (6 # be_bytes 4 n) 0 \<and> int n \<le> eremaining b"
  by (auto simp: writeArrayHead_def writeMapHead_def ensureNativeEncodeContainerBudget_def ebind_Inr_iff
      dest: scalar_emits(3))

abbreviation "maxItems \<equiv> int nativeMaxContainerItems"

lemma encodes_array:
  assumes "enter vis i d b = Inr (vis', b1)" and "eremaining b \<le> maxItems"
    and "writeArrayHead L (length xs) b1 = Inr b2"
    and "emits L b2 b' (concat (map wire xs)) (sum_list (map items xs))"
    and "\<forall>x \<in> set xs. canon x \<and> depth_ok nativeMaxEncodeDepth (Suc d) x"
  shows "encodes L d b b' (VArray None xs)"
proof -
  note h = head_emits(1) [OF assms(3)]
    and e = enter_emits(1) [OF assms(1), of L] enter_emits(2) [OF assms(1)]
  have "emits L b b' ([] @ (5 # be_bytes 4 (length xs)) @ concat (map wire xs))
      (1 + (0 + sum_list (map items xs)))"
    using h e(1) assms(4) by (meson emits_trans)
  moreover have "length xs \<le> nativeMaxContainerItems"
    using h emits_remaining [OF e(1)] assms(2) by linarith
  ultimately show ?thesis using assms(5) e(2) by (simp add: encodes_def)
qed

lemma encodes_map:
  assumes "enter vis i d b = Inr (vis', b1)" and "eremaining b \<le> maxItems"
    and "emits L b1 b2 (6 # be_bytes 4 (length kvs)) 0" and "int (length kvs) \<le> eremaining b1"
    and "emits L b2 b' (concat (map entry_wire kvs)) (sum_list (map (\<lambda>(k, v). items v) kvs))"
    and "\<forall>(k, x) \<in> set kvs. length k \<le> maxUint32 \<and> canon x \<and> depth_ok nativeMaxEncodeDepth (Suc d) x"
    and "distinct (map fst kvs)"
  shows "encodes L d b b' (VMap None kvs)"
proof -
  note e = enter_emits(1) [OF assms(1), of L] enter_emits(2) [OF assms(1)]
  have "emits L b b' ([] @ (6 # be_bytes 4 (length kvs)) @ concat (map entry_wire kvs))
      (1 + (0 + sum_list (map (\<lambda>(k, v). items v) kvs)))"
    using assms(3,5) e(1) by (meson emits_trans)
  moreover have "length kvs \<le> nativeMaxContainerItems"
    using assms(4) emits_remaining [OF e(1)] assms(2) by linarith
  ultimately show ?thesis using assms(6,7) e(2) by (auto simp: encodes_def)
qed

lemma encodes_str:
  "writeNativeStringKey L vis d s b = Inr b' \<Longrightarrow> encodes L d b b' (norm_str s)"
  by (auto simp: writeNativeStringKey_def ebind_Inr_iff norm_str_def
      dest!: binary_emits(2) intro: encodes_leaf)

lemma values_emits:
  assumes "\<And>v b b'. v \<in> set vs \<Longrightarrow> eremaining b \<le> maxItems \<Longrightarrow> W v b = Inr b' \<Longrightarrow>
      encodes L d b b' (N v)"
    and "eremaining b \<le> maxItems" and "for_each W vs b = Inr b'"
  shows "emits L b b' (concat (map wire (map N vs))) (sum_list (map items (map N vs))) \<and>
    (\<forall>x \<in> set (map N vs). canon x \<and> depth_ok nativeMaxEncodeDepth d x)"
proof -
  have body: "emits L b b' (wire (N v)) (items (N v)) \<and>
      (canon (N v) \<and> depth_ok nativeMaxEncodeDepth d (N v))"
    if "v \<in> set vs" and "eremaining b \<le> maxItems" and "W v b = Inr b'" for v b b'
    using assms(1) [OF that] by (simp add: encodes_def)
  have "emits L b b' (concat (map (\<lambda>v. wire (N v)) vs)) (sum_list (map (\<lambda>v. items (N v)) vs)) \<and>
      (\<forall>v \<in> set vs. canon (N v) \<and> depth_ok nativeMaxEncodeDepth d (N v))"
    by (rule for_each_emits [OF _ assms(2,3)]) (rule body)
  then show ?thesis by (simp add: o_def)
qed

lemma entries_emits:
  assumes "\<And>k v b b'. (k, v) \<in> set es \<Longrightarrow> eremaining b \<le> maxItems \<Longrightarrow> W v b = Inr b' \<Longrightarrow>
      encodes L d b b' (norm v)"
    and "eremaining b \<le> maxItems"
    and "for_each (\<lambda>(k, v) b. ebind (writeNativeMapKey L k b) (W v)) es b = Inr b'"
  defines "kvs \<equiv> map (\<lambda>(k, v). (k, norm v)) es"
  shows "emits L b b' (concat (map entry_wire kvs)) (sum_list (map (\<lambda>(k, v). items v) kvs)) \<and>
    (\<forall>(k, x) \<in> set kvs. length k \<le> maxUint32 \<and> canon x \<and> depth_ok nativeMaxEncodeDepth d x)"
proof -
  let ?out = "\<lambda>(k, v). be_bytes 4 (length k) @ bytes_of k @ wire (norm v)"
  let ?P = "\<lambda>(k, v). length k \<le> maxUint32 \<and> canon (norm v) \<and> depth_ok nativeMaxEncodeDepth d (norm v)"
  have body: "emits L b b' (?out e) (items (norm (snd e))) \<and> ?P e"
    if "e \<in> set es" and r: "eremaining b \<le> maxItems"
      and w: "(\<lambda>(k, v) b. ebind (writeNativeMapKey L k b) (W v)) e b = Inr b'" for e b b'
  proof -
    obtain k v where e: "e = (k, v)" by (cases e)
    with w obtain b1 where k: "writeNativeMapKey L k b = Inr b1" and v: "W v b1 = Inr b'"
      by (auto simp: ebind_Inr_iff)
    note ke = key_emits [OF k]
    have "encodes L d b1 b' (norm v)"
      using assms(1) [OF _ _ v, of k] that(1) e emits_remaining [OF conjunct1 [OF ke]] r by simp
    with ke show ?thesis
      using emits_trans [OF conjunct1 [OF ke], of b' "wire (norm v)"] by (auto simp: e encodes_def)
  qed
  have eqs: "map entry_wire kvs = map ?out es"
    "map (\<lambda>(k, v). items v) kvs = map (\<lambda>e. items (norm (snd e))) es"
    by (auto simp: kvs_def)
  have all: "(\<forall>e \<in> set kvs. (\<lambda>(k, x). length k \<le> maxUint32 \<and> canon x \<and>
      depth_ok nativeMaxEncodeDepth d x) e) = (\<forall>e \<in> set es. ?P e)"
    by (auto simp: kvs_def)
  show ?thesis
    unfolding eqs all by (rule for_each_emits [OF body assms(2,3)])
qed

lemma pair_encodes:
  assumes "enter vis i d b = Inr (vis', b1)" and "eremaining b \<le> maxItems"
    and "writeArrayHead L 2 b1 = Inr b2"
    and "eremaining b2 \<le> maxItems \<Longrightarrow> encodes L (Suc d) b2 b3 x"
    and "eremaining b3 \<le> maxItems \<Longrightarrow> encodes L (Suc d) b3 b' y"
  shows "encodes L d b b' (VArray None [x, y])"
proof -
  have r2: "eremaining b2 \<le> maxItems"
    using emits_remaining [OF enter_emits(1) [OF assms(1), of L]]
      emits_remaining [OF conjunct1 [OF head_emits(1) [OF assms(3)]]] assms(2) by linarith
  note x = assms(4) [OF r2]
  then have "eremaining b3 \<le> maxItems" using r2 by (auto simp: encodes_def dest: emits_remaining)
  note y = assms(5) [OF this]
  from x y have "emits L b2 b' (wire x @ wire y) (items x + items y)"
    unfolding encodes_def by (blast intro: emits_trans)
  with x y assms(1-3) show ?thesis
    by (intro encodes_array) (auto simp: encodes_def numeral_2_eq_2)
qed

subsection \<open>Sorting of entries\<close>

lemma map_insort_key: "(\<And>y. f' (g y) = f y) \<Longrightarrow> map g (insort_key f x xs) = insort_key f' (g x) (map g xs)"
  by (induction xs) auto

lemma map_sort_key_eq:
  assumes "\<And>y. f' (g y) = f y"
  shows "map g (sort_key f xs) = sort_key f' (map g xs)"
  by (induction xs) (simp_all add: map_insort_key [of f' g f, OF assms])

lemma norm_map:
  "norm (VMap i kvs) = VMap None (map (\<lambda>(k, v). (k, norm v)) (sort_key fst kvs))"
proof -
  have "map (\<lambda>(k, v). (k, norm v)) (sort_key fst kvs) =
      sort_key fst (map (\<lambda>(k, v). (k, norm v)) kvs)"
    by (rule map_sort_key_eq) auto
  then show ?thesis by (subst norm.simps) simp
qed

lemma sorted_no_adjacent_distinct:
  "sorted xs \<Longrightarrow> firstAdjacentDuplicate xs = None \<Longrightarrow> distinct xs"
proof (induction xs rule: firstAdjacentDuplicate.induct)
  case (1 x y zs)
  then have "x \<noteq> y" and "distinct (y # zs)" and "\<forall>z \<in> set zs. y \<le> z" and "x \<le> y"
    by (auto split: if_splits)
  then show ?case by auto
qed auto

lemma sortedEntries_Inr:
  assumes "sortedNativeReflectMapEntries kvs = Inr es"
  shows "norm (VRMap i kvs) = VMap None (map (\<lambda>(k, v). (k, norm v)) es)"
    and "distinct (map fst es)" and "length es = length kvs"
proof -
  from assms have es: "es = sort_key fst (map (\<lambda>(k, v). (the k, v)) kvs)"
    and nodup: "firstAdjacentDuplicate (map fst es) = None"
    by (auto simp: sortedNativeReflectMapEntries_def Let_def split: if_splits option.splits)
  have "map (\<lambda>(k, v). (k, norm v)) es =
      sort_key fst (map (\<lambda>(k, v). (k, norm v)) (map (\<lambda>(k, v). (the k, v)) kvs))"
    unfolding es by (rule map_sort_key_eq) auto
  also have "map (\<lambda>(k, v). (k, norm v)) (map (\<lambda>(k, v). (the k, v)) kvs) =
      map (\<lambda>(k, v). (the k, norm v)) kvs"
    by auto
  finally show "norm (VRMap i kvs) = VMap None (map (\<lambda>(k, v). (k, norm v)) es)"
    by (subst norm.simps) simp
  show "distinct (map fst es)"
    by (rule sorted_no_adjacent_distinct [OF _ nodup]) (simp add: es)
  show "length es = length kvs" by (simp add: es)
qed

subsection \<open>The value writer\<close>

lemma keysField_emits:
  assumes "writeKeysField L vis i d n name b = Inr (vis', b')"
  obtains b1 b2 b3 where "emits L b b2 (6 # be_bytes 4 1 @ be_bytes 4 (length name) @ bytes_of name) 0"
    and "1 \<le> eremaining b" and "length name \<le> maxUint32"
    and "enter vis i d b2 = Inr (vis', b3)" and "writeArrayHead L n b3 = Inr b'"
proof -
  from assms obtain b1 b2 b3 where "1 \<le> eremaining b"
    and h: "writeNativeContainerHeader L 6 1 b = Inr b1" and k: "writeNativeMapKey L name b1 = Inr b2"
    and "enter vis i d b2 = Inr (vis', b3)" and "writeArrayHead L n b3 = Inr b'"
    by (auto simp: writeKeysField_def writeNativeSingleFieldMap_def ebind_Inr_iff
        ensureNativeEncodeContainerBudget_def)
  with emits_trans [OF scalar_emits(3) [OF h] conjunct1 [OF key_emits [OF k]]] key_emits [OF k]
  show ?thesis by (intro that) auto
qed

lemma encodes_field_map:
  assumes "enter vis i d b = Inr (vis', b1)" and "eremaining b \<le> maxItems"
    and "emits L b1 b2 (6 # be_bytes 4 1 @ be_bytes 4 (length name) @ bytes_of name) 0"
    and "1 \<le> eremaining b1" and "length name \<le> maxUint32"
    and "eremaining b2 \<le> maxItems \<Longrightarrow> encodes L (Suc d) b2 b' x"
  shows "encodes L d b b' (VMap None [(name, x)])"
proof -
  note e = enter_emits(1) [OF assms(1), of L] enter_emits(2) [OF assms(1)]
  have "eremaining b2 \<le> maxItems"
    using emits_remaining [OF e(1)] emits_remaining [OF assms(3)] assms(2) by linarith
  from assms(6) [OF this] have x: "emits L b2 b' (wire x) (items x)" "canon x"
    "depth_ok nativeMaxEncodeDepth (Suc d) x"
    by (simp_all add: encodes_def)
  from emits_trans [OF e(1) emits_trans [OF assms(3) x(1)]]
  show ?thesis using x e(2) assms(5) by (simp add: encodes_def nativeMaxContainerItems_def)
qed

lemma encodes_command_map:
  assumes "enter vis None d b = Inr (vis0, b0)" and "eremaining b \<le> maxItems"
    and "writeCommandField L vis0 i (d + 1) cmd (length xs) b0 = Inr (vis', b1)"
    and "eremaining b1 \<le> maxItems \<Longrightarrow>
      emits L b1 b' (concat (map wire xs)) (sum_list (map items xs)) \<and>
      (\<forall>x \<in> set xs. canon x \<and> depth_ok nativeMaxEncodeDepth (d + 2) x)"
  shows "encodes L d b b' (VMap None [(''command'', norm_str cmd), (''args'', VArray None xs)])"
proof -
  from assms(3) obtain c1 c2 c3 c4 c5 where h: "writeMapHead L 2 b0 = Inr c1"
    and k1: "writeNativeMapKey L ''command'' c1 = Inr c2"
    and v1: "writeNativeStringKey L vis0 (d + 1) cmd c2 = Inr c3"
    and k2: "writeNativeMapKey L ''args'' c3 = Inr c4"
    and en: "enter vis0 i (d + 1) c4 = Inr (vis', c5)" and ah: "writeArrayHead L (length xs) c5 = Inr b1"
    by (auto simp: writeCommandField_def ebind_Inr_iff)
  note e0 = enter_emits(1) [OF assms(1), of L] and hm = head_emits(2) [OF h]
    and e1 = conjunct1 [OF key_emits [OF k1]] and s1 = encodes_str [OF v1]
    and e2 = conjunct1 [OF key_emits [OF k2]]
  have s1e: "emits L c2 c3 (wire (norm_str cmd)) (items (norm_str cmd))" using s1 by (simp add: encodes_def)
  have r4: "eremaining c4 \<le> maxItems"
    using emits_remaining [OF e0] emits_remaining [OF conjunct1 [OF hm]] emits_remaining [OF e1]
      emits_remaining [OF s1e] emits_remaining [OF e2] assms(2) by linarith
  have "eremaining b1 \<le> maxItems"
    using r4 emits_remaining [OF enter_emits(1) [OF en, of L]]
      emits_remaining [OF conjunct1 [OF head_emits(1) [OF ah]]] by linarith
  from assms(4) [OF this] have arr: "encodes L (Suc d) c4 b' (VArray None xs)"
    using encodes_array [OF en r4 ah] by simp
  have args: "emits L c4 b' (wire (VArray None xs)) (items (VArray None xs))"
    using arr by (simp add: encodes_def)
  note all = emits_trans [OF e1 emits_trans [OF s1e emits_trans [OF e2 args]]]
  show ?thesis
    by (rule encodes_map [OF assms(1,2)])
      (use hm all s1 arr key_emits [OF k1] key_emits [OF k2] in \<open>auto simp: encodes_def numeral_2_eq_2\<close>)
qed

definition faithful :: "nat \<Rightarrow> goval \<Rightarrow> bool" where
  "faithful L v \<longleftrightarrow> (\<forall>vis d b b'.
     writeNativeValue L vis d v b = Inr b' \<longrightarrow> go_wf v \<longrightarrow> eremaining b \<le> maxItems \<longrightarrow>
     encodes L d b b' (norm v))"

lemma faithfulI:
  "(\<And>vis d b b'. writeNativeValue L vis d v b = Inr b' \<Longrightarrow> go_wf v \<Longrightarrow> eremaining b \<le> maxItems \<Longrightarrow>
     encodes L d b b' (norm v)) \<Longrightarrow> faithful L v"
  by (simp add: faithful_def)

lemma faithfulD:
  "faithful L v \<Longrightarrow> writeNativeValue L vis d v b = Inr b' \<Longrightarrow> go_wf v \<Longrightarrow>
   eremaining b \<le> maxItems \<Longrightarrow> encodes L d b b' (norm v)"
  by (simp add: faithful_def)

fun leaf :: "goval \<Rightarrow> bool" where
  "leaf (VArray i vs) = False" | "leaf (VMap i kvs) = False" | "leaf (VRMap i rkvs) = False"
| "leaf (VPtr p v) = False" | "leaf (VDeferred r) = False" | "leaf (VMGet i args sk) = False"
| "leaf (VMSet args kv) = False" | "leaf (VKeyValueCommand cmd ks vs) = False"
| "leaf (VKeyCommand cmd i ks) = False" | "leaf v = True"

text \<open>The value written for a leaf, after \<open>enter\<close>.\<close>

fun write_leaf :: "nat \<Rightarrow> goval \<Rightarrow> encoder \<Rightarrow> codec_error + encoder" where
  "write_leaf L (VBool v) b = writeByte L (if v then 1 else 2) b"
| "write_leaf L (VInt w) b = writeNativeInt L w b"
| "write_leaf L (VInt8 w8) b = writeNativeInt L (scast w8) b"
| "write_leaf L (VInt16 w16) b = writeNativeInt L (scast w16) b"
| "write_leaf L (VInt32 w32) b = writeNativeInt L (scast w32) b"
| "write_leaf L (VUint w) b = writeNativeUint L w b"
| "write_leaf L (VUint8 w8) b = writeNativeUint L (ucast w8) b"
| "write_leaf L (VUint16 w16) b = writeNativeUint L (ucast w16) b"
| "write_leaf L (VUint32 w32) b = writeNativeUint L (ucast w32) b"
| "write_leaf L (VFloat w) b = writeNativeFloat L w b"
| "write_leaf L (VString s) b = writeNativeString L s b"
| "write_leaf L (VStringer i s) b = writeNativeString L s b"
| "write_leaf L (VBytes bs) b = writeNativeBytes L bs b"
| "write_leaf L VUnsupported b = Inl UnsupportedType"
| "write_leaf L v b = writeByte L 0 b"

lemma writeNativeValue_leaf:
  "leaf v \<Longrightarrow> writeNativeValue L vis d v b =
     ebind (enter vis (nativeEncodeIdentity v) d b) (\<lambda>(_, b). write_leaf L v b)"
  unfolding writeNativeValue.simps [of L vis d v] by (cases v) auto

lemma canon_norm_uint [simp]: "canon (norm_uint w)" "items (norm_uint w) = 1"
    "depth_ok D d (norm_uint w) \<longleftrightarrow> d \<le> D"
  by (simp_all add: norm_uint_def)

lemma norm_str_shape [simp]: "items (norm_str s) = 1" "depth_ok D d (norm_str s) \<longleftrightarrow> d \<le> D"
  by (simp_all add: norm_str_def)

lemma write_leaf_emits:
  "leaf v \<Longrightarrow> write_leaf L v b = Inr b' \<Longrightarrow> emits L b b' (wire (norm v)) 0 \<and> canon (norm v)"
  by (cases v;
      auto dest!: write_emits(2) scalar_emits(1,2) writeNativeUint_emits binary_emits)

lemma leaf_shape: "leaf v \<Longrightarrow> items (norm v) = 1" "leaf v \<Longrightarrow> d \<le> D \<Longrightarrow> depth_ok D d (norm v)"
  by (cases v; simp)+

lemma faithful_leaf: "leaf v \<Longrightarrow> faithful L v"
proof (rule faithfulI)
  fix vis d b b'
  assume lf: "leaf v" and "writeNativeValue L vis d v b = Inr b'"
  then obtain vis' b1 where en: "enter vis (nativeEncodeIdentity v) d b = Inr (vis', b1)"
    and "write_leaf L v b1 = Inr b'"
    by (auto simp: writeNativeValue_leaf ebind_Inr_iff)
  with write_leaf_emits [OF lf] leaf_shape [OF lf] encodes_leaf [OF en]
  show "encodes L d b b' (norm v)" by blast
qed

lemma faithful_ptr: "faithful L v \<Longrightarrow> faithful L (VPtr p v)"
proof (rule faithfulI)
  fix vis d b b'
  assume "faithful L v" and w: "writeNativeValue L vis d (VPtr p v) b = Inr b'"
    and "go_wf (VPtr p v)" and r: "eremaining b \<le> maxItems"
  from w obtain vis' b1 where en: "enter vis (Some p) d b = Inr (vis', b1)"
    and "writeNativeValue L vis' (Suc d) v b1 = Inr b'"
    by (subst (asm) writeNativeValue.simps) (auto simp: ebind_Inr_iff)
  moreover have "eremaining b1 \<le> maxItems"
    using emits_remaining [OF enter_emits(1) [OF en, of L]] r by simp
  ultimately have "encodes L (Suc d) b1 b' (norm v)"
    using \<open>faithful L v\<close> \<open>go_wf (VPtr p v)\<close> by (auto dest: faithfulD)
  from encodes_pointer [OF en this] show "encodes L d b b' (norm (VPtr p v))" by simp
qed

lemma faithful_deferred: "(\<And>v. r = Inr v \<Longrightarrow> faithful L v) \<Longrightarrow> faithful L (VDeferred r)"
proof (rule faithfulI)
  fix vis d b b'
  assume "\<And>v. r = Inr v \<Longrightarrow> faithful L v" and w: "writeNativeValue L vis d (VDeferred r) b = Inr b'"
    and "go_wf (VDeferred r)" and "eremaining b \<le> maxItems"
  moreover from w obtain v where "r = Inr v" and "writeNativeValue L vis d v b = Inr b'"
    by (subst (asm) writeNativeValue.simps) (auto split: sum.splits)
  ultimately show "encodes L d b b' (norm (VDeferred r))"
    by (auto dest: faithfulD)
qed

lemma faithful_array: "(\<And>v. v \<in> set vs \<Longrightarrow> faithful L v) \<Longrightarrow> faithful L (VArray i vs)"
proof (rule faithfulI)
  fix vis d b b'
  assume IH: "\<And>v. v \<in> set vs \<Longrightarrow> faithful L v"
    and w: "writeNativeValue L vis d (VArray i vs) b = Inr b'"
    and wf: "go_wf (VArray i vs)" and r: "eremaining b \<le> maxItems"
  from w obtain vis' b1 b2 where en: "enter vis i d b = Inr (vis', b1)"
    and h: "writeArrayHead L (length vs) b1 = Inr b2"
    and loop: "for_each (\<lambda>v. writeNativeValue L vis' (d + 1) v) vs b2 = Inr b'"
    by (subst (asm) writeNativeValue.simps) (auto simp: ebind_Inr_iff split: if_splits)
  have "eremaining b2 \<le> maxItems"
    using emits_remaining [OF enter_emits(1) [OF en, of L]]
      emits_remaining [OF conjunct1 [OF head_emits(1) [OF h]]] r by simp
  note r2 = this
  have "emits L b2 b' (concat (map wire (map norm vs))) (sum_list (map items (map norm vs))) \<and>
      (\<forall>x \<in> set (map norm vs). canon x \<and> depth_ok nativeMaxEncodeDepth (Suc d) x)"
    by (rule values_emits [OF _ r2 loop]) (use IH wf in \<open>auto dest: faithfulD\<close>)
  then show "encodes L d b b' (norm (VArray i vs))"
    using encodes_array [OF en r, of L "map norm vs" b2 b'] h by simp
qed

lemma faithful_map: "(\<And>k v. (k, v) \<in> set kvs \<Longrightarrow> faithful L v) \<Longrightarrow> faithful L (VMap i kvs)"
proof (rule faithfulI)
  fix vis d b b'
  assume IH: "\<And>k v. (k, v) \<in> set kvs \<Longrightarrow> faithful L v"
    and w: "writeNativeValue L vis d (VMap i kvs) b = Inr b'"
    and wf: "go_wf (VMap i kvs)" and r: "eremaining b \<le> maxItems"
  let ?es = "sort_key fst kvs"
  from w obtain vis' b1 b2 where en: "enter vis i d b = Inr (vis', b1)"
    and h: "writeMapHead L (length kvs) b1 = Inr b2"
    and loop: "for_each (\<lambda>(k, v) b. ebind (writeNativeMapKey L k b)
      (writeNativeValue L vis' (d + 1) v)) ?es b2 = Inr b'"
    by (subst (asm) writeNativeValue.simps) (auto simp: ebind_Inr_iff split: if_splits)
  have "eremaining b2 \<le> maxItems"
    using emits_remaining [OF enter_emits(1) [OF en, of L]]
      emits_remaining [OF conjunct1 [OF head_emits(2) [OF h]]] r by simp
  note loop' = entries_emits [OF _ this loop]
  have "encodes L (Suc d) b b' (norm v)" if "(k, v) \<in> set ?es" "eremaining b \<le> maxItems"
    "writeNativeValue L vis' (d + 1) v b = Inr b'" for k v b b'
    using that IH [of k v] wf by (auto dest: faithfulD)
  note body = loop' [OF this]
  have "distinct (map fst (map (\<lambda>(k, v). (k, norm v)) ?es))"
    using wf by (simp add: o_def case_prod_beta sort_key_map_fst)
  then show "encodes L d b b' (norm (VMap i kvs))"
    unfolding norm_map using body head_emits(2) [OF h]
    by (intro encodes_map [OF en r]) auto
qed

lemma faithful_rmap: "(\<And>k v. (k, v) \<in> set kvs \<Longrightarrow> faithful L v) \<Longrightarrow> faithful L (VRMap i kvs)"
proof (rule faithfulI)
  fix vis d b b'
  assume IH: "\<And>k v. (k, v) \<in> set kvs \<Longrightarrow> faithful L v"
    and w: "writeNativeValue L vis d (VRMap i kvs) b = Inr b'"
    and wf: "go_wf (VRMap i kvs)" and r: "eremaining b \<le> maxItems"
  from w obtain vis' b1 b2 es where en: "enter vis i d b = Inr (vis', b1)"
    and n: "int (length kvs) \<le> eremaining b1"
    and es: "sortedNativeReflectMapEntries kvs = Inr es"
    and h: "writeNativeContainerHeader L 6 (length kvs) b1 = Inr b2"
    and loop: "for_each (\<lambda>(k, v) b. ebind (writeNativeMapKey L k b)
      (writeNativeValue L vis' (d + 1) v)) es b2 = Inr b'"
    by (subst (asm) writeNativeValue.simps)
      (auto simp: ebind_Inr_iff ensureNativeEncodeContainerBudget_def)
  note srt = sortedEntries_Inr [OF es] and he = scalar_emits(3) [OF h]
  have r2: "eremaining b2 \<le> maxItems"
    using emits_remaining [OF enter_emits(1) [OF en, of L]] emits_remaining [OF he] r by simp
  have "encodes L (Suc d) b b' (norm v)" if "(k, v) \<in> set es" "eremaining b \<le> maxItems"
    "writeNativeValue L vis' (d + 1) v b = Inr b'" for k v b b'
    using that IH [of "Some k" v] sortedEntries_mem [OF es that(1)] wf by (auto dest: faithfulD)
  note body = entries_emits [OF this r2 loop]
  show "encodes L d b b' (norm (VRMap i kvs))"
    unfolding srt(1) using body he n srt(2,3)
    by (intro encodes_map [OF en r]) (auto simp: o_def case_prod_beta)
qed

lemma strings_emits:
  assumes "for_each (writeNativeStringKey L vis d) ks b = Inr b'" and "eremaining b \<le> maxItems"
  shows "emits L b b' (concat (map wire (map norm_str ks))) (sum_list (map items (map norm_str ks))) \<and>
    (\<forall>x \<in> set (map norm_str ks). canon x \<and> depth_ok nativeMaxEncodeDepth d x)"
  by (rule values_emits [OF _ assms(2,1)]) (rule encodes_str)

lemma encodes_keys_field:
  assumes en: "enter vis j d b = Inr (vis0, b0)" and r: "eremaining b \<le> maxItems"
    and f: "writeKeysField L vis0 i (d + 1) (length xs) name b0 = Inr (vis', b1)"
    and elems: "eremaining b1 \<le> maxItems \<Longrightarrow>
      emits L b1 b' (concat (map wire xs)) (sum_list (map items xs)) \<and>
      (\<forall>x \<in> set xs. canon x \<and> depth_ok nativeMaxEncodeDepth (d + 2) x)"
  shows "encodes L d b b' (VMap None [(name, VArray None xs)])"
proof -
  from f obtain b2 b3
    where fm: "emits L b0 b2 (6 # be_bytes 4 1 @ be_bytes 4 (length name) @ bytes_of name) 0"
      "1 \<le> eremaining b0" "length name \<le> maxUint32"
    and en2: "enter vis0 i (d + 1) b2 = Inr (vis', b3)" and h: "writeArrayHead L (length xs) b3 = Inr b1"
    by (rule keysField_emits)
  have "encodes L (Suc d) b2 b' (VArray None xs)" if r2: "eremaining b2 \<le> maxItems"
  proof -
    have "eremaining b1 \<le> maxItems"
      using r2 emits_remaining [OF enter_emits(1) [OF en2, of L]]
        emits_remaining [OF conjunct1 [OF head_emits(1) [OF h]]] by simp
    from elems [OF this] show ?thesis using encodes_array [OF en2 r2 h] by simp
  qed
  from encodes_field_map [OF en r fm this] show ?thesis .
qed

lemma faithful_mget: "(\<And>v. v \<in> set args \<Longrightarrow> faithful L v) \<Longrightarrow> faithful L (VMGet i args sk)"
proof (rule faithfulI)
  fix vis d b b'
  assume IH: "\<And>v. v \<in> set args \<Longrightarrow> faithful L v"
    and w: "writeNativeValue L vis d (VMGet i args sk) b = Inr b'"
    and wf: "go_wf (VMGet i args sk)" and r: "eremaining b \<le> maxItems"
  define xs where "xs = (case sk of Some ks \<Rightarrow> map norm_str ks | None \<Rightarrow> map norm args)"
  have nm: "norm (VMGet i args sk) = VMap None [(''keys'', VArray None xs)]"
    by (subst norm.simps) (simp add: xs_def)
  from w obtain vis0 b0 vis' b1 where en: "enter vis None d b = Inr (vis0, b0)"
    and f: "writeKeysField L vis0 i (d + 1) (length xs) ''keys'' b0 = Inr (vis', b1)"
    and loop: "case sk of Some ks \<Rightarrow> for_each (writeNativeStringKey L vis' (d + 2)) ks b1 = Inr b'
      | None \<Rightarrow> for_each (\<lambda>v. writeNativeValue L vis' (d + 2) v) args b1 = Inr b'"
    by (subst (asm) writeNativeValue.simps)
      (fastforce simp: ebind_Inr_iff xs_def split: option.splits)
  have "emits L b1 b' (concat (map wire xs)) (sum_list (map items xs)) \<and>
      (\<forall>x \<in> set xs. canon x \<and> depth_ok nativeMaxEncodeDepth (d + 2) x)" if r1: "eremaining b1 \<le> maxItems"
  proof (cases sk)
    case None
    with loop have l: "for_each (\<lambda>v. writeNativeValue L vis' (d + 2) v) args b1 = Inr b'" by simp
    show ?thesis unfolding xs_def None option.case
      by (rule values_emits [OF _ r1 l]) (use IH wf in \<open>auto dest: faithfulD\<close>)
  next
    case (Some ks)
    with loop r1 strings_emits [of L vis' "d + 2" ks b1 b'] show ?thesis by (simp add: xs_def)
  qed
  from encodes_keys_field [OF en r f this] show "encodes L d b b' (norm (VMGet i args sk))"
    by (simp add: nm)
qed

lemma faithful_keycommand: "faithful L (VKeyCommand cmd i ks)"
proof (rule faithfulI)
  fix vis d b b'
  assume w: "writeNativeValue L vis d (VKeyCommand cmd i ks) b = Inr b'"
    and r: "eremaining b \<le> maxItems"
  from w obtain vis0 b0 vis' b1 where en: "enter vis None d b = Inr (vis0, b0)"
    and f: "writeCommandField L vis0 i (d + 1) cmd (length (map norm_str ks)) b0 = Inr (vis', b1)"
    and loop: "for_each (writeNativeStringKey L vis' (d + 2)) ks b1 = Inr b'"
    by (subst (asm) writeNativeValue.simps) (auto simp: ebind_Inr_iff)
  from encodes_command_map [OF en r f strings_emits [OF loop]]
  show "encodes L d b b' (norm (VKeyCommand cmd i ks))"
    by (subst norm.simps) simp
qed

lemma groups_emits:
  assumes "\<And>e b b'. e \<in> set es \<Longrightarrow> eremaining b \<le> maxItems \<Longrightarrow> W e b = Inr b' \<Longrightarrow>
      emits L b b' (concat (map wire (g e))) (sum_list (map items (g e))) \<and>
      (\<forall>x \<in> set (g e). canon x \<and> depth_ok nativeMaxEncodeDepth d x)"
    and "eremaining b \<le> maxItems" and "for_each W es b = Inr b'"
  shows "emits L b b' (concat (map wire (concat (map g es)))) (sum_list (map items (concat (map g es)))) \<and>
    (\<forall>x \<in> set (concat (map g es)). canon x \<and> depth_ok nativeMaxEncodeDepth d x)"
proof -
  have "emits L b b' (concat (map (\<lambda>e. concat (map wire (g e))) es))
      (sum_list (map (\<lambda>e. sum_list (map items (g e))) es)) \<and>
      (\<forall>e \<in> set es. \<forall>x \<in> set (g e). canon x \<and> depth_ok nativeMaxEncodeDepth d x)"
    by (rule for_each_emits [OF _ assms(2,3)]) (rule assms(1))
  moreover have "concat (map wire (concat (map g es))) = concat (map (\<lambda>e. concat (map wire (g e))) es)"
    and "sum_list (map items (concat (map g es))) = sum_list (map (\<lambda>e. sum_list (map items (g e))) es)"
    by (induction es) auto
  ultimately show ?thesis by auto
qed

lemma length_pair_groups:
  "length (concat (map (\<lambda>(k, v). [f k, g v]) es)) = 2 * length es"
  by (induction es) auto

lemma faithful_kvcommand: "(\<And>v. v \<in> set vs \<Longrightarrow> faithful L v) \<Longrightarrow> faithful L (VKeyValueCommand cmd ks vs)"
proof (rule faithfulI)
  fix vis d b b'
  assume IH: "\<And>v. v \<in> set vs \<Longrightarrow> faithful L v"
    and w: "writeNativeValue L vis d (VKeyValueCommand cmd ks vs) b = Inr b'"
    and wf: "go_wf (VKeyValueCommand cmd ks vs)" and r: "eremaining b \<le> maxItems"
  let ?g = "\<lambda>(k, v). [norm_str k, norm v]"
  from w obtain vis0 b0 vis' b1 where en: "enter vis None d b = Inr (vis0, b0)"
    and len: "length ks = length vs"
    and f: "writeCommandField L vis0 None (d + 1) cmd (2 * length ks) b0 = Inr (vis', b1)"
    and loop: "for_each (\<lambda>(k, v) b. ebind (writeNativeStringKey L vis' (d + 2) k b)
      (writeNativeValue L vis' (d + 2) v)) (zip ks vs) b1 = Inr b'"
    by (subst (asm) writeNativeValue.simps) (auto simp: ebind_Inr_iff split: if_splits)
  have body: "emits L b b' (concat (map wire (?g e))) (sum_list (map items (?g e))) \<and>
      (\<forall>x \<in> set (?g e). canon x \<and> depth_ok nativeMaxEncodeDepth (d + 2) x)"
    if "e \<in> set (zip ks vs)" and r: "eremaining b \<le> maxItems"
      and e: "(\<lambda>(k, v) b. ebind (writeNativeStringKey L vis' (d + 2) k b)
        (writeNativeValue L vis' (d + 2) v)) e b = Inr b'" for e b b'
  proof -
    obtain k v where kv: "e = (k, v)" by (cases e)
    with e obtain b1 where k: "writeNativeStringKey L vis' (d + 2) k b = Inr b1"
      and v: "writeNativeValue L vis' (d + 2) v b1 = Inr b'"
      by (auto simp: ebind_Inr_iff)
    have ke: "encodes L (d + 2) b b1 (norm_str k)" by (rule encodes_str [OF k])
    then have "eremaining b1 \<le> maxItems" using r by (auto simp: encodes_def dest: emits_remaining)
    moreover have "v \<in> set vs" using that(1) kv by (auto dest: set_zip_rightD)
    ultimately have "encodes L (d + 2) b1 b' (norm v)"
      using faithfulD [OF IH v] wf by auto
    with ke show ?thesis unfolding kv encodes_def by (auto dest: emits_trans)
  qed
  have "length (concat (map ?g (zip ks vs))) = 2 * length ks"
    by (simp add: length_pair_groups len)
  with f have f': "writeCommandField L vis0 None (d + 1) cmd (length (concat (map ?g (zip ks vs)))) b0
      = Inr (vis', b1)"
    by simp
  let ?xs = "concat (map ?g (zip ks vs))"
  have "emits L b1 b' (concat (map wire ?xs)) (sum_list (map items ?xs)) \<and>
      (\<forall>x \<in> set ?xs. canon x \<and> depth_ok nativeMaxEncodeDepth (d + 2) x)" if "eremaining b1 \<le> maxItems"
    by (rule groups_emits [OF _ that loop]) (rule body)
  from encodes_command_map [OF en r f' this]
  show "encodes L d b b' (norm (VKeyValueCommand cmd ks vs))"
    by (subst norm.simps) simp
qed

lemma pairs_emits:
  assumes IH: "\<And>k v b b'. (k, v) \<in> set es \<Longrightarrow> eremaining b \<le> maxItems \<Longrightarrow>
      W1 k b = Inr b' \<Longrightarrow> encodes L (d + 3) b b' (N1 k)"
    "\<And>k v b b'. (k, v) \<in> set es \<Longrightarrow> eremaining b \<le> maxItems \<Longrightarrow>
      W2 v b = Inr b' \<Longrightarrow> encodes L (d + 3) b b' (N2 v)"
    and r: "eremaining b \<le> maxItems"
    and loop: "for_each (\<lambda>(k, v) b.
        ebind (enter vis None (d + 2) b) (\<lambda>(_, b).
        ebind (writeArrayHead L 2 b) (\<lambda>b. ebind (W1 k b) (W2 v)))) es b = Inr b'"
  defines "xs \<equiv> map (\<lambda>(k, v). VArray None [N1 k, N2 v]) es"
  shows "emits L b b' (concat (map wire xs)) (sum_list (map items xs)) \<and>
    (\<forall>x \<in> set xs. canon x \<and> depth_ok nativeMaxEncodeDepth (d + 2) x)"
  unfolding xs_def
proof (rule values_emits [OF _ r loop])
  fix e :: "'a \<times> 'b" and b b'
  assume e: "e \<in> set es" and r: "eremaining b \<le> maxItems"
    and w: "(\<lambda>(k, v) b.
        ebind (enter vis None (d + 2) b) (\<lambda>(_, b).
        ebind (writeArrayHead L 2 b) (\<lambda>b. ebind (W1 k b) (W2 v)))) e b = Inr b'"
  obtain k v where kv: "e = (k, v)" by (cases e)
  with w obtain vis' b1 b2 b3 where en: "enter vis None (d + 2) b = Inr (vis', b1)"
    and h: "writeArrayHead L 2 b1 = Inr b2" and k: "W1 k b2 = Inr b3" and v: "W2 v b3 = Inr b'"
    by (auto simp: ebind_Inr_iff)
  have three: "Suc (d + 2) = d + 3" by simp
  from e kv have mem: "(k, v) \<in> set es" by simp
  show "encodes L (d + 2) b b' ((\<lambda>(k, v). VArray None [N1 k, N2 v]) e)"
    unfolding kv prod.case
    by (rule pair_encodes [OF en r h IH(1) [OF mem _ k, folded three] IH(2) [OF mem _ v, folded three]])
qed

lemma faithful_mset:
  assumes IH: "\<And>v. v \<in> set args \<Longrightarrow> faithful L v"
    "\<And>ks vs v. kv = Some (ks, vs) \<Longrightarrow> v \<in> set vs \<Longrightarrow> faithful L v"
  shows "faithful L (VMSet args kv)"
proof (rule faithfulI)
  fix vis d b b'
  assume w: "writeNativeValue L vis d (VMSet args kv) b = Inr b'"
    and wf: "go_wf (VMSet args kv)" and r: "eremaining b \<le> maxItems"
  define xs where "xs = (case kv of
      Some (ks, vs) \<Rightarrow> map (\<lambda>(k, v). VArray None [norm_str k, norm v]) (zip ks vs)
    | None \<Rightarrow> map (\<lambda>(k, v). VArray None [norm k, norm v]) (pairs_of args))"
  have nm: "norm (VMSet args kv) = VMap None [(''pairs'', VArray None xs)]"
    by (subst norm.simps) (simp add: xs_def)
  from w obtain vis0 b0 c1 n vis1 c2 b1 where en: "enter vis None d b = Inr (vis0, b0)"
    and bud: "ensureNativeEncodeContainerBudget ''map'' 1 b0 = Inr ()"
    and sf: "writeNativeSingleFieldMap L ''pairs'' b0 = Inr c1"
    and n: "mset_count args kv = Inr n"
    and en2: "enter vis0 None (d + 1) c1 = Inr (vis1, c2)"
    and h: "writeArrayHead L n c2 = Inr b1"
    and loop: "case kv of
        Some (ks, vs) \<Rightarrow> for_each (\<lambda>(k, v) b.
          ebind (enter vis1 None (d + 2) b) (\<lambda>(_, b). ebind (writeArrayHead L 2 b) (\<lambda>b.
          ebind (writeNativeStringKey L vis1 (d + 3) k b) (writeNativeValue L vis1 (d + 3) v))))
          (zip ks vs) b1 = Inr b'
      | None \<Rightarrow> for_each (\<lambda>(k, v) b.
          ebind (enter vis1 None (d + 2) b) (\<lambda>(_, b). ebind (writeArrayHead L 2 b) (\<lambda>b.
          ebind (writeNativeValue L vis1 (d + 3) k b) (writeNativeValue L vis1 (d + 3) v))))
          (pairs_of args) b1 = Inr b'"
    by (subst (asm) writeNativeValue.simps) (auto simp: ebind_Inr_iff split: option.splits)
  have "n = length xs" using n by (auto simp: mset_count_def xs_def split: option.splits if_splits)
  with bud sf en2 h have f: "writeKeysField L vis0 None (d + 1) (length xs) ''pairs'' b0 = Inr (vis1, b1)"
    by (simp add: writeKeysField_def)
  have "emits L b1 b' (concat (map wire xs)) (sum_list (map items xs)) \<and>
      (\<forall>x \<in> set xs. canon x \<and> depth_ok nativeMaxEncodeDepth (d + 2) x)" if r1: "eremaining b1 \<le> maxItems"
  proof (cases kv)
    case None
    note l = loop [unfolded None option.case]
    show ?thesis unfolding xs_def None option.case
      by (rule pairs_emits [OF _ _ r1 l]; rule faithfulD [OF IH(1)])
        (use wf in \<open>auto dest: pairs_of_mem\<close>)
  next
    case (Some p)
    obtain ks vs where p: "p = (ks, vs)" by (cases p)
    note l = loop [unfolded Some p option.case prod.case]
    show ?thesis unfolding xs_def Some p option.case prod.case
    proof (rule pairs_emits [OF _ _ r1 l])
      show "encodes L (d + 3) b b' (norm_str k)" if "writeNativeStringKey L vis1 (d + 3) k b = Inr b'" for k b b'
        using that by (rule encodes_str)
      show "encodes L (d + 3) b b' (norm v)" if "(k, v) \<in> set (zip ks vs)" "eremaining b \<le> maxItems"
        "writeNativeValue L vis1 (d + 3) v b = Inr b'" for k v b b'
        using that faithfulD [OF IH(2) that(3)] wf Some p by (auto dest: set_zip_rightD)
    qed
  qed
  from encodes_keys_field [OF en r f this] show "encodes L d b b' (norm (VMSet args kv))"
    by (simp add: nm)
qed

lemma faithful_step: "(\<And>y. size y < size v \<Longrightarrow> faithful L y) \<Longrightarrow> faithful L v"
  by (cases v; hypsubst_thin; rule faithful_ptr faithful_deferred faithful_array faithful_map
      faithful_rmap faithful_mget faithful_mset faithful_kvcommand faithful_keycommand faithful_leaf)
    (auto dest: size_mem_list size_mem_entries)

theorem write_faithful: "faithful L v"
  by (induction v rule: measure_induct_rule [of size]) (rule faithful_step)

end
