(* ===== verification/WireComplete.thy ===== *)
theory WireComplete
  imports WireRoundtrip
begin

section \<open>The encoder succeeds, refuses cycles, and its bulk payloads are maps\<close>

text \<open>
  Three complements to the round trip: the encoder returns a result on every value the decoder can
  return, within the limits (so the round trip is not vacuous); a value it accepts never contains a
  container inside itself, the typed payloads included; and the typed \<open>MGET\<close> and \<open>MSET\<close> payloads are written exactly as the map
  they replace, errors included.
\<close>

subsection \<open>Success on canonical values\<close>

definition advance :: "encoder \<Rightarrow> bytes \<Rightarrow> nat \<Rightarrow> encoder" where
  "advance b w c = b\<lparr>ebuf := ebuf b @ w, eremaining := eremaining b - int c\<rparr>"

lemma advance_sel [simp]:
  "ebuf (advance b w c) = ebuf b @ w" "eremaining (advance b w c) = eremaining b - int c"
  by (simp_all add: advance_def)

lemma advance_advance [simp]: "advance (advance b w c) w' c' = advance b (w @ w') (c + c')"
  by (simp add: advance_def)

lemma advance_nil [simp]: "advance b [] 0 = b"
  by (simp add: advance_def)

definition room :: "nat \<Rightarrow> encoder \<Rightarrow> bytes \<Rightarrow> bool" where
  "room L b w \<longleftrightarrow> length (ebuf b) + length w \<le> L"

lemma write_room:
  "room L b w \<Longrightarrow> writeBytes L w b = Inr (advance b w 0)"
  "room L b [x] \<Longrightarrow> writeByte L x b = Inr (advance b [x] 0)"
  "room L b (bytes_of s) \<Longrightarrow> writeString L s b = Inr (advance b (bytes_of s) 0)"
  by (auto simp: writeBytes_def writeByte_def writeString_def ensure_size_def room_def advance_def)

lemma enter_room:
  "d \<le> nativeMaxEncodeDepth \<Longrightarrow> 1 \<le> eremaining b \<Longrightarrow> enter vis None d b = Inr (vis, advance b [] 1)"
  by (simp add: enter_def advance_def)

lemma scalar_room:
  "room L b (wire (VInt w)) \<Longrightarrow> writeNativeInt L w b = Inr (advance b (wire (VInt w)) 0)"
  "room L b (wire (VFloat w)) \<Longrightarrow> writeNativeFloat L w b = Inr (advance b (wire (VFloat w)) 0)"
  "room L b (wire (norm_uint w)) \<Longrightarrow> writeNativeUint L w b = Inr (advance b (wire (norm_uint w)) 0)"
  "room L b (tag # be_bytes 4 n) \<Longrightarrow>
     writeNativeContainerHeader L tag n b = Inr (advance b (tag # be_bytes 4 n) 0)"
  by (auto simp: writeNativeInt_def writeNativeFloat_def writeNativeUint_def norm_uint_def
      writeNativeContainerHeader_def write_room room_def split: if_splits)

lemma binary_room:
  "room L b (wire (VBytes bs)) \<Longrightarrow> length bs \<le> maxUint32 \<Longrightarrow>
   writeNativeBytes L bs b = Inr (advance b (wire (VBytes bs)) 0)"
  by (auto simp: writeNativeBytes_def scalar_room write_room room_def)

lemma key_room:
  "room L b (be_bytes 4 (length k) @ bytes_of k) \<Longrightarrow> length k \<le> maxUint32 \<Longrightarrow>
   writeNativeMapKey L k b = Inr (advance b (be_bytes 4 (length k) @ bytes_of k) 0)"
  by (auto simp: writeNativeMapKey_def write_room room_def)

lemma head_room:
  "room L b (5 # be_bytes 4 n) \<Longrightarrow> int n \<le> eremaining b \<Longrightarrow>
   writeArrayHead L n b = Inr (advance b (5 # be_bytes 4 n) 0)"
  "room L b (6 # be_bytes 4 n) \<Longrightarrow> int n \<le> eremaining b \<Longrightarrow>
   writeMapHead L n b = Inr (advance b (6 # be_bytes 4 n) 0)"
  by (simp_all add: writeArrayHead_def writeMapHead_def ensureNativeEncodeContainerBudget_def scalar_room)

lemma for_each_room:
  assumes "\<And>x b. x \<in> set xs \<Longrightarrow> room L b (out x) \<Longrightarrow> int (cost x) \<le> eremaining b \<Longrightarrow>
      f x b = Inr (advance b (out x) (cost x))"
    and "room L b (concat (map out xs))" and "int (sum_list (map cost xs)) \<le> eremaining b"
  shows "for_each f xs b = Inr (advance b (concat (map out xs)) (sum_list (map cost xs)))"
  using assms
proof (induction xs arbitrary: b)
  case Nil
  then show ?case by simp
next
  case (Cons x xs)
  have "f x b = Inr (advance b (out x) (cost x))"
    using Cons.prems by (simp add: room_def)
  moreover have "for_each f xs (advance b (out x) (cost x)) =
      Inr (advance (advance b (out x) (cost x)) (concat (map out xs)) (sum_list (map cost xs)))"
    using Cons.prems by (intro Cons.IH) (auto simp: room_def)
  ultimately show ?case by simp
qed

definition writes_all :: "nat \<Rightarrow> goval \<Rightarrow> bool" where
  "writes_all L v \<longleftrightarrow> (\<forall>vis d b. canon v \<longrightarrow> depth_ok nativeMaxEncodeDepth d v \<longrightarrow>
     int (items v) \<le> eremaining b \<longrightarrow> room L b (wire (norm v)) \<longrightarrow>
     writeNativeValue L vis d v b = Inr (advance b (wire (norm v)) (items v)))"

lemma writes_all_leaf: "leaf v \<Longrightarrow> writes_all L v"
  by (cases v; simp add: writes_all_def writeNativeValue_leaf enter_room room_def scalar_room
      binary_room write_room norm_uint_def)

lemma writes_all_array:
  assumes IH: "\<And>v. v \<in> set vs \<Longrightarrow> writes_all L v"
  shows "writes_all L (VArray i vs)"
  unfolding writes_all_def
proof (intro allI impI)
  fix vis d b
  assume c: "canon (VArray i vs)" and dep: "depth_ok nativeMaxEncodeDepth d (VArray i vs)"
    and r: "int (items (VArray i vs)) \<le> eremaining b" and rm: "room L b (wire (norm (VArray i vs)))"
  let ?b1 = "advance b [] 1" and ?h = "5 # be_bytes 4 (length vs)"
  have n: "int (length vs) \<le> eremaining ?b1"
    using values_lengths [of vs] c r by auto
  have "for_each (\<lambda>v. writeNativeValue L vis (d + 1) v) vs (advance ?b1 ?h 0) =
      Inr (advance (advance ?b1 ?h 0) (concat (map (\<lambda>v. wire (norm v)) vs)) (sum_list (map items vs)))"
    by (rule for_each_room)
      (use IH c dep r rm in \<open>auto simp: writes_all_def room_def o_def\<close>)
  moreover have "\<not> length vs > maxUint32" using c by (auto dest: items_le_maxUint32)
  ultimately show "writeNativeValue L vis d (VArray i vs) b =
      Inr (advance b (wire (norm (VArray i vs))) (items (VArray i vs)))"
    using c dep r rm head_room(1) [of L ?b1 "length vs", OF _ n]
    by (subst writeNativeValue.simps) (simp add: enter_room room_def o_def)
qed

lemma sum_list_sort_key: "sum_list (map f (sort_key k xs)) = sum_list (map f xs)"
  for f :: "'a \<Rightarrow> nat"
  by (metis mset_map mset_sort sum_mset_sum_list)

lemma writes_all_map:
  assumes IH: "\<And>k v. (k, v) \<in> set kvs \<Longrightarrow> writes_all L v"
  shows "writes_all L (VMap i kvs)"
  unfolding writes_all_def
proof (intro allI impI)
  fix vis d b
  assume c: "canon (VMap i kvs)" and dep: "depth_ok nativeMaxEncodeDepth d (VMap i kvs)"
    and r: "int (items (VMap i kvs)) \<le> eremaining b" and rm: "room L b (wire (norm (VMap i kvs)))"
  let ?b1 = "advance b [] 1" and ?h = "6 # be_bytes 4 (length kvs)" and ?es = "sort_key fst kvs"
  let ?out = "\<lambda>(k, v). be_bytes 4 (length k) @ bytes_of k @ wire (norm v)"
  let ?cost = "\<lambda>(k, v). items v"
  let ?W = "\<lambda>(k, v) b. ebind (writeNativeMapKey L k b) (writeNativeValue L vis (d + 1) v)"
  have w: "wire (norm (VMap i kvs)) = ?h @ concat (map ?out ?es)"
  proof -
    have "map entry_wire (map (\<lambda>(k, v). (k, norm v)) ?es) = map ?out ?es" by auto
    then show ?thesis by (simp add: norm_map del: map_map)
  qed
  have n: "int (length kvs) \<le> eremaining ?b1"
  proof -
    have "\<forall>(k, v) \<in> set kvs. canon v" using c by auto
    from entries_lengths [OF this] r show ?thesis by auto
  qed
  have body: "?W e b = Inr (advance b (?out e) (?cost e))"
    if "e \<in> set ?es" "room L b (?out e)" "int (?cost e) \<le> eremaining b" for e b
  proof -
    obtain k v where e: "e = (k, v)" by (cases e)
    with that(1) have "(k, v) \<in> set kvs" by simp
    moreover from this c dep have "canon v" "length k \<le> maxUint32" "depth_ok nativeMaxEncodeDepth (Suc d) v"
      by auto
    ultimately show ?thesis
      using that(2,3) IH [of k v] by (simp add: e writes_all_def room_def key_room)
  qed
  have "for_each ?W ?es (advance ?b1 ?h 0) =
      Inr (advance (advance ?b1 ?h 0) (concat (map ?out ?es)) (sum_list (map ?cost ?es)))"
    by (rule for_each_room [OF body])
      (use r rm in \<open>auto simp: room_def w sum_list_sort_key\<close>)
  moreover have "room L ?b1 ?h" using rm by (simp add: room_def w)
  moreover have "\<not> length kvs > maxUint32" using c by (auto dest: items_le_maxUint32)
  ultimately show "writeNativeValue L vis d (VMap i kvs) b =
      Inr (advance b (wire (norm (VMap i kvs))) (items (VMap i kvs)))"
    unfolding w using c dep r head_room(2) [of L ?b1 "length kvs", OF _ n]
    by (subst writeNativeValue.simps) (simp add: enter_room sum_list_sort_key)
qed

theorem writes_all_values: "writes_all L v"
proof (induction v rule: measure_induct_rule [of size])
  case (less v)
  then show ?case
  proof (cases "canon v")
    case False
    then show ?thesis by (simp add: writes_all_def)
  next
    case True
    show ?thesis
    proof (cases "leaf v")
      case False
      with True less show ?thesis
        by (cases v) (auto intro!: writes_all_array writes_all_map
            dest: size_mem_list size_mem_entries)
    qed (rule writes_all_leaf)
  qed
qed

lemma encode_canonical:
  assumes "canon v" and "depth_ok nativeMaxEncodeDepth 0 v" and "items v \<le> nativeMaxContainerItems"
    and "length (wire (norm v)) \<le> nat limit" and "0 < limit"
  shows "encodeNativeValueWithLimit v limit = Inr (wire (norm v))"
  using writes_all_values [of "nat limit" v] assms
  by (simp add: writes_all_def encodeNativeValueWithLimit_def room_def)

subsection \<open>Containers inside themselves\<close>

text \<open>
  What lies directly inside a value, each with the containers around it: \<open>vis\<close> and those of the value. The
  keys or arguments of a typed payload are a container inside it (\<open>fieldIdentity\<close>).
\<close>

fun fieldIdentity :: "goval \<Rightarrow> ident" where
  "fieldIdentity (VMGet i args ks) = i"
| "fieldIdentity (VKeyCommand cmd i ks) = i"
| "fieldIdentity v = None"

definition around :: "nat set \<Rightarrow> goval \<Rightarrow> nat set" where
  "around vis v = vis \<union> set_option (nativeEncodeIdentity v) \<union> set_option (fieldIdentity v)"

fun elementsOf :: "goval \<Rightarrow> goval list" where
  "elementsOf (VArray i vs) = vs"
| "elementsOf (VMap i kvs) = map snd kvs"
| "elementsOf (VRMap i kvs) = map snd kvs"
| "elementsOf (VPtr i x) = [x]"
| "elementsOf (VMGet i args None) = args"
| "elementsOf (VMSet args None) = args"
| "elementsOf (VMSet args (Some (ks, vs))) = vs"
| "elementsOf (VKeyValueCommand cmd ks vs) = vs"
| "elementsOf v = []"

lemma elements_smaller: "x \<in> set (elementsOf v) \<Longrightarrow> size x < size v"
  by (induction v rule: elementsOf.induct) (auto dest: size_mem_list size_mem_entries)

text \<open>
  \<open>untangled vis v\<close>: no container of \<open>v\<close> lies inside itself or inside one of \<open>vis\<close>, by identity.
\<close>

definition unseen :: "nat set \<Rightarrow> ident \<Rightarrow> bool" where
  "unseen vis i \<longleftrightarrow> (case i of None \<Rightarrow> True | Some j \<Rightarrow> j \<notin> vis)"

function untangled :: "nat set \<Rightarrow> goval \<Rightarrow> bool" where
  "untangled vis v =
     (case deferred_of v of
        Some r \<Rightarrow> (case r of Inl e \<Rightarrow> True | Inr v' \<Rightarrow> untangled vis v')
      | None \<Rightarrow>
          unseen vis (nativeEncodeIdentity v) \<and> unseen vis (fieldIdentity v) \<and>
          (\<forall>x \<in> set (elementsOf v). untangled (around vis v) x))"
  by pat_completeness auto
termination
  by (relation "measure (\<lambda>(vis, v). size v)") (auto simp: deferred_of_Some elements_smaller)

declare untangled.simps [simp del]

lemma pairs_of_cover: "even (length xs) \<Longrightarrow> x \<in> set xs \<Longrightarrow> \<exists>k v. (k, v) \<in> set (pairs_of xs) \<and> (x = k \<or> x = v)"
  by (induction xs rule: pairs_of.induct) auto

lemma zip_cover: "length ks = length vs \<Longrightarrow> v \<in> set vs \<Longrightarrow> \<exists>k. (k, v) \<in> set (zip ks vs)"
  by (metis in_set_zip in_set_conv_nth fst_conv snd_conv)

lemma for_each_InrD:
  "for_each f xs b = Inr b' \<Longrightarrow> x \<in> set xs \<Longrightarrow> \<exists>b b'. f x b = Inr b'"
  by (induction xs arbitrary: b) (auto simp: ebind_Inr_iff)

lemma enter_identity:
  "enter vis i d b = Inr (vis', b') \<Longrightarrow> unseen vis i \<and> vis' = vis \<union> set_option i"
  by (auto simp: enter_def unseen_def Let_def split: if_splits option.splits)

lemma field_identity:
  "writeKeysField L vis i d cnt name b = Inr (vis', b') \<Longrightarrow> unseen vis i \<and> vis' = vis \<union> set_option i"
  "writeCommandField L vis i d cmd cnt b = Inr (vis', b') \<Longrightarrow> unseen vis i \<and> vis' = vis \<union> set_option i"
  by (auto simp: writeKeysField_def writeCommandField_def ebind_Inr_iff dest: enter_identity)

text \<open>What is written inside a value is written with the containers around it.\<close>

definition writtenIn :: "nat \<Rightarrow> nat set \<Rightarrow> goval \<Rightarrow> bool" where
  "writtenIn L vis x \<longleftrightarrow> (\<exists>d b b'. writeNativeValue L vis d x b = Inr b')"

lemma writtenI: "writeNativeValue L vis d x b = Inr b' \<Longrightarrow> writtenIn L vis x"
  by (auto simp: writtenIn_def)

lemma loop_written: "for_each (\<lambda>v. writeNativeValue L vis d v) vs b = Inr b' \<Longrightarrow> x \<in> set vs \<Longrightarrow> writtenIn L vis x"
  by (drule (1) for_each_InrD) (auto intro: writtenI)

lemma entries_written:
  assumes "for_each (\<lambda>(k, v) b. ebind (writeNativeMapKey L k b) (writeNativeValue L vis d v)) es b = Inr b'"
    and "(k, x) \<in> set es"
  shows "writtenIn L vis x"
  using for_each_InrD [OF assms] by (auto simp: ebind_Inr_iff intro: writtenI)

lemma mset_written:
  assumes "writeNativeValue L vis d (VMSet args kv) b = Inr b'" and "x \<in> set (elementsOf (VMSet args kv))"
  shows "writtenIn L vis x"
proof (cases kv)
  case None
  with assms(1) obtain b4 where even: "even (length args)"
    and loop: "for_each (\<lambda>(k, v) b.
         ebind (enter vis None (d + 2) b) (\<lambda>(_, b).
         ebind (writeArrayHead L 2 b) (\<lambda>b.
         ebind (writeNativeValue L vis (d + 3) k b)
           (writeNativeValue L vis (d + 3) v)))) (pairs_of args) b4 = Inr b'"
    by (subst (asm) writeNativeValue.simps)
      (auto simp: ebind_Inr_iff mset_count_def even_iff_mod_2_eq_zero dest!: enter_identity split: if_splits)
  from assms(2) None have "x \<in> set args" by simp
  from pairs_of_cover [OF even this] obtain k y where ky: "(k, y) \<in> set (pairs_of args)" "x = k \<or> x = y"
    by blast
  from for_each_InrD [OF loop ky(1)] ky(2) show ?thesis by (auto simp: ebind_Inr_iff intro: writtenI)
next
  case (Some kvs)
  obtain ks vs where kvs: "kvs = (ks, vs)" by (cases kvs)
  with Some assms(1) obtain b4 where len: "length ks = length vs"
    and loop: "for_each (\<lambda>(k, v) b.
         ebind (enter vis None (d + 2) b) (\<lambda>(_, b).
         ebind (writeArrayHead L 2 b) (\<lambda>b.
         ebind (writeNativeStringKey L vis (d + 3) k b)
           (writeNativeValue L vis (d + 3) v)))) (zip ks vs) b4 = Inr b'"
    by (subst (asm) writeNativeValue.simps)
      (auto simp: ebind_Inr_iff mset_count_def dest!: enter_identity split: if_splits)
  from assms(2) Some kvs obtain k where k: "(k, x) \<in> set (zip ks vs)" using zip_cover [OF len] by auto
  from for_each_InrD [OF loop k] show ?thesis by (auto simp: ebind_Inr_iff intro: writtenI)
qed

lemma key_value_written:
  assumes "writeNativeValue L vis d (VKeyValueCommand cmd ks vs) b = Inr b'" and "x \<in> set vs"
  shows "writtenIn L vis x"
proof -
  from assms(1) obtain b4 where len: "length ks = length vs"
    and loop: "for_each (\<lambda>(k, v) b. ebind (writeNativeStringKey L vis (d + 2) k b)
         (writeNativeValue L vis (d + 2) v)) (zip ks vs) b4 = Inr b'"
    by (subst (asm) writeNativeValue.simps)
      (auto simp: ebind_Inr_iff dest!: enter_identity field_identity split: if_splits)
  from zip_cover [OF len assms(2)] obtain k where "(k, x) \<in> set (zip ks vs)" by blast
  from for_each_InrD [OF loop this] show ?thesis by (auto simp: ebind_Inr_iff intro: writtenI)
qed

lemma reflected_written:
  assumes "writeNativeValue L vis d (VRMap i kvs) b = Inr b'" and "kv \<in> set kvs"
  shows "writtenIn L (around vis (VRMap i kvs)) (snd kv)"
proof -
  from assms(1) obtain es b2 where es: "sortedNativeReflectMapEntries kvs = Inr es"
    and loop: "for_each (\<lambda>(k, v) b. ebind (writeNativeMapKey L k b)
      (writeNativeValue L (around vis (VRMap i kvs)) (d + 1) v)) es b2 = Inr b'"
    by (subst (asm) writeNativeValue.simps) (auto simp: ebind_Inr_iff around_def dest!: enter_identity)
  from es have "(the (fst kv), snd kv) \<in> set es"
    using assms(2) by (force simp: sortedNativeReflectMapEntries_def Let_def split: if_splits option.splits)
  from entries_written [OF loop this] show ?thesis .
qed

lemma element_written:
  assumes "writeNativeValue L vis d v b = Inr b'" and "deferred_of v = None" and "x \<in> set (elementsOf v)"
  shows "writtenIn L (around vis v) x"
proof (cases v)
  case (VArray i vs)
  with assms show ?thesis
    by (subst (asm) writeNativeValue.simps)
      (auto simp: ebind_Inr_iff around_def dest!: enter_identity intro: loop_written split: if_splits)
next
  case (VMap i kvs)
  with assms obtain b2 where loop: "for_each (\<lambda>(k, v) b. ebind (writeNativeMapKey L k b)
      (writeNativeValue L (around vis (VMap i kvs)) (d + 1) v)) (sort_key fst kvs) b2 = Inr b'"
    by (subst (asm) writeNativeValue.simps)
      (auto simp: ebind_Inr_iff around_def dest!: enter_identity split: if_splits)
  from assms(3) VMap obtain k where "(k, x) \<in> set (sort_key fst kvs)" by auto
  from entries_written [OF loop this] show ?thesis unfolding VMap .
next
  case (VRMap i kvs)
  with assms reflected_written [of L vis d i kvs b b'] show ?thesis by auto
next
  case (VPtr p y)
  with assms show ?thesis
    by (subst (asm) writeNativeValue.simps)
      (auto simp: ebind_Inr_iff around_def dest!: enter_identity intro: writtenI)
next
  case (VMGet i args sk)
  with assms show ?thesis
    by (cases sk; subst (asm) writeNativeValue.simps)
      (auto simp: ebind_Inr_iff around_def dest!: enter_identity field_identity intro: loop_written)
next
  case (VMSet args kv)
  with assms mset_written [of L vis d args kv b b' x] show ?thesis by (simp add: around_def)
next
  case (VKeyValueCommand cmd ks vs)
  with assms key_value_written [of L vis d cmd ks vs b b' x] show ?thesis by (simp add: around_def)
qed (use assms in auto)

lemma written_identities:
  assumes "writeNativeValue L vis d v b = Inr b'" and "deferred_of v = None"
  shows "unseen vis (nativeEncodeIdentity v)" and "unseen vis (fieldIdentity v)"
proof -
  from assms show id: "unseen vis (nativeEncodeIdentity v)"
    by (subst (asm) writeNativeValue.simps) (auto simp: ebind_Inr_iff dest!: enter_identity)
  have none: "unseen vis None" by (simp add: unseen_def)
  show "unseen vis (fieldIdentity v)"
  proof (cases v)
    case (VMGet i args sk)
    with assms show ?thesis
      by (cases sk; subst (asm) writeNativeValue.simps)
        (auto simp: ebind_Inr_iff dest!: enter_identity field_identity)
  next
    case (VKeyCommand cmd i ks)
    with assms show ?thesis
      by (subst (asm) writeNativeValue.simps) (auto simp: ebind_Inr_iff dest!: enter_identity field_identity)
  qed (simp_all add: none)
qed

lemma write_untangled: "writeNativeValue L vis d v b = Inr b' \<Longrightarrow> untangled vis v"
proof (induction v arbitrary: vis d b b' rule: measure_induct_rule [of size])
  case (less v)
  show ?case
  proof (cases "deferred_of v")
    case (Some r)
    then have v: "v = VDeferred r" by (simp add: deferred_of_Some)
    from less.prems less.IH show ?thesis
      by (subst (asm) writeNativeValue.simps) (auto simp: v untangled.simps [of vis "VDeferred r"] split: sum.splits)
  next
    case None
    have "untangled (around vis v) x" if "x \<in> set (elementsOf v)" for x
      using element_written [OF less.prems None that] less.IH [OF elements_smaller [OF that]] by (auto simp: writtenIn_def)
    with written_identities [OF less.prems None] None show ?thesis
      by (subst untangled.simps) simp
  qed
qed

subsection \<open>Bulk payloads\<close>

lemma writeNativeStringKey_eq:
  "writeNativeStringKey L vis d = (\<lambda>s. writeNativeValue L vis d (VString s))"
  by (intro ext) (simp add: writeNativeStringKey_def writeNativeValue_leaf)

lemma write_single_map:
  assumes "length vs \<le> maxUint32"
  shows "writeNativeValue L vis d (VMap None [(name, VArray i vs)]) b =
    ebind (enter vis None d b) (\<lambda>(vis, b).
    ebind (writeKeysField L vis i (d + 1) (length vs) name b) (\<lambda>(vis, b).
      for_each (\<lambda>v. writeNativeValue L vis (d + 2) v) vs b))"
proof -
  have arr: "writeNativeValue L vis (Suc d) (VArray i vs) b =
      ebind (enter vis i (Suc d) b) (\<lambda>(vis, b).
      ebind (writeArrayHead L (length vs) b) (for_each (\<lambda>v. writeNativeValue L vis (Suc (Suc d)) v) vs))"
    for vis b
    using assms by (subst writeNativeValue.simps) (simp cong: ebind_cong)
  show ?thesis
    by (subst writeNativeValue.simps)
      (auto simp: arr writeMapHead_def writeKeysField_def writeNativeSingleFieldMap_def maxUint32_def
        ebind_assoc case_prod_beta intro!: ebind_cong)
qed

lemma mget_is_map:
  assumes "length args \<le> maxUint32"
  shows "writeNativeValue L vis d (VMGet i args None) b =
    writeNativeValue L vis d (VMap None [(''keys'', VArray i args)]) b"
  unfolding write_single_map [OF assms]
  by (subst writeNativeValue.simps) simp

lemma mget_strings_is_map:
  assumes "length ks \<le> maxUint32"
  shows "writeNativeValue L vis d (VMGet i args (Some ks)) b =
    writeNativeValue L vis d (VMap None [(''keys'', VArray i (map VString ks))]) b"
proof -
  have n: "length (map VString ks) \<le> maxUint32" using assms by simp
  show ?thesis
    unfolding write_single_map [OF n] for_each_map writeNativeStringKey_eq [symmetric]
    by (subst writeNativeValue.simps) simp
qed

lemma write_pair_array:
  "writeNativeValue L vis d (VArray None [x, y]) b =
   ebind (enter vis None d b) (\<lambda>(_, b).
   ebind (writeArrayHead L 2 b) (\<lambda>b.
   ebind (writeNativeValue L vis (d + 1) x b) (writeNativeValue L vis (d + 1) y)))"
proof -
  have "\<not> length [x, y] > maxUint32" by (simp add: maxUint32_def)
  then show ?thesis
    by (subst writeNativeValue.simps)
      (auto simp: enter_def Let_def numeral_2_eq_2 split: option.splits intro!: ebind_cong)
qed

lemma mset_args_is_map:
  assumes "length args \<le> maxUint32" and "even (length args)"
  shows "writeNativeValue L vis d (VMSet args None) b =
    writeNativeValue L vis d
      (VMap None [(''pairs'', VArray None (map (\<lambda>(k, v). VArray None [k, v]) (pairs_of args)))]) b"
proof -
  let ?pair = "\<lambda>vis (k, v) b. ebind (enter vis None (d + 2) b) (\<lambda>(_, b).
      ebind (writeArrayHead L 2 b) (\<lambda>b.
      ebind (writeNativeValue L vis (d + 3) k b) (writeNativeValue L vis (d + 3) v)))"
  have n: "length (map (\<lambda>(k, v). VArray None [k, v]) (pairs_of args)) \<le> maxUint32"
    using assms(1) by simp
  have m: "mset_count args None = Inr (length args div 2)"
    using assms(2) by (simp add: mset_count_def even_iff_mod_2_eq_zero)
  have three: "d + 3 = d + 2 + 1" by simp
  have pair: "?pair vis = (\<lambda>p. writeNativeValue L vis (d + 2) (case p of (k, v) \<Rightarrow> VArray None [k, v]))"
    for vis
    unfolding three by (auto simp: fun_eq_iff write_pair_array)
  have lhs: "writeNativeValue L vis d (VMSet args None) b =
    ebind (enter vis None d b) (\<lambda>(vis, b).
    ebind (writeKeysField L vis None (d + 1) (length args div 2) ''pairs'' b) (\<lambda>(vis, b).
      for_each (?pair vis) (pairs_of args) b))"
    by (subst writeNativeValue.simps)
      (auto simp: m writeKeysField_def ebind_assoc intro!: ebind_cong)
  show ?thesis
    unfolding lhs pair write_single_map [OF n] for_each_map by simp
qed

lemma mset_keys_is_map:
  assumes "length ks = length vs" and "length ks \<le> maxUint32"
  shows "writeNativeValue L vis d (VMSet args (Some (ks, vs))) b =
    writeNativeValue L vis d
      (VMap None [(''pairs'', VArray None (map (\<lambda>(k, v). VArray None [VString k, v]) (zip ks vs)))]) b"
proof -
  let ?pair = "\<lambda>vis (k, v) b. ebind (enter vis None (d + 2) b) (\<lambda>(_, b).
      ebind (writeArrayHead L 2 b) (\<lambda>b.
      ebind (writeNativeStringKey L vis (d + 3) k b) (writeNativeValue L vis (d + 3) v)))"
  have n: "length (map (\<lambda>(k, v). VArray None [VString k, v]) (zip ks vs)) \<le> maxUint32"
    using assms by simp
  have m: "mset_count args (Some (ks, vs)) = Inr (length ks)" using assms(1) by (simp add: mset_count_def)
  have three: "d + 3 = d + 2 + 1" by simp
  have pair: "?pair vis = (\<lambda>p. writeNativeValue L vis (d + 2) (case p of (k, v) \<Rightarrow> VArray None [VString k, v]))" for vis
    unfolding three writeNativeStringKey_eq by (auto simp: fun_eq_iff write_pair_array)
  have lhs: "writeNativeValue L vis d (VMSet args (Some (ks, vs))) b =
    ebind (enter vis None d b) (\<lambda>(vis, b).
    ebind (writeKeysField L vis None (d + 1) (length ks) ''pairs'' b) (\<lambda>(vis, b).
      for_each (?pair vis) (zip ks vs) b))"
    by (subst writeNativeValue.simps)
      (auto simp: m writeKeysField_def ebind_assoc intro!: ebind_cong)
  show ?thesis
    unfolding lhs pair write_single_map [OF n] for_each_map using assms(1) by simp
qed

end
