(* ===== verification/WireProperties.thy ===== *)
theory WireProperties
  imports WireComplete
begin

section \<open>Properties of the native value codec\<close>

text \<open>
  What the two directions of the codec promise to their callers, stated over the entry points
  \<open>encodeNativeValueWithLimit\<close> and \<open>decodeNativeValue\<close>, each with a concrete instance.
\<close>

lemma encode_success:
  assumes "encodeNativeValueWithLimit v limit = Inr bs" and "go_wf v"
  shows "bs = wire (norm v)" and "canon (norm v)" and "depth_ok nativeMaxEncodeDepth 0 (norm v)"
    and "items (norm v) \<le> nativeMaxContainerItems" and "int (length bs) \<le> limit"
proof -
  let ?b = "\<lparr>ebuf = [], eremaining = int nativeMaxContainerItems\<rparr>"
  from assms(1) obtain b' where w: "writeNativeValue (nat limit) {} 0 v ?b = Inr b'"
    and bs: "bs = ebuf b'" and pos: "0 < limit"
    by (auto simp: encodeNativeValueWithLimit_def ebind_Inr_iff split: if_splits)
  have "encodes (nat limit) 0 ?b b' (norm v)"
    by (rule faithfulD [OF write_faithful w assms(2)]) simp
  then show "bs = wire (norm v)" "canon (norm v)" "depth_ok nativeMaxEncodeDepth 0 (norm v)"
    "items (norm v) \<le> nativeMaxContainerItems" "int (length bs) \<le> limit"
    using bs pos by (auto simp: encodes_def emits_def)
qed

text \<open>The value the instances below encode: it is in canonical form.\<close>

definition sample_value :: goval where
  "sample_value = VArray None [VInt 5, VBytes [104, 105], VMap None [(''k'', VUint (2 ^ 63))]]"

lemma sample_value_ok:
  "canon sample_value" "depth_ok nativeMaxEncodeDepth 0 sample_value"
  "items sample_value \<le> nativeMaxContainerItems" "go_wf sample_value" "norm sample_value = sample_value"
  by (simp_all add: sample_value_def native_limits norm.simps [of "VMap i kvs" for i kvs] norm_uint_def)

lemma sample_value_encodes:
  "encodeNativeValueWithLimit sample_value 100 = Inr (wire sample_value)"
  using encode_canonical [of sample_value 100] sample_value_ok by (simp add: sample_value_def)

text \<open>
  C2. Round trip: whatever \<open>encodeNativeValueWithLimit\<close> returns for a Go value, \<open>decodeNativeValue\<close>
  reads back as the normal form of that value, consuming every byte.
\<close>

theorem encode_decode_roundtrip:
  assumes "go_wf v" and "encodeNativeValueWithLimit v limit = Inr bs"
  shows "decodeNativeValue bs = Inr (norm v, [])"
  using encode_success [OF assms(2,1)]
  by (simp add: decodeNativeValue_iff nativeMaxEncodeDepth_def nativeMaxDecodeDepth_def)

theorem encode_decode_roundtrip_witness:
  "decodeNativeValue (wire sample_value) = Inr (sample_value, [])"
  using encode_decode_roundtrip [OF sample_value_ok(4) sample_value_encodes] sample_value_ok(5) by simp

text \<open>
  C3. The decoder accepts exactly the wire grammar: it returns \<open>v\<close> with \<open>rest\<close> unread if and only if
  the input is the encoding of \<open>v\<close> followed by \<open>rest\<close>, \<open>v\<close> is canonical, at most 64 levels deep and
  worth at most 1,000,000 items. No other input decodes, and no encoding has two readings.
\<close>

theorem decode_accepts_exactly_wire:
  "decodeNativeValue data = Inr (v, rest) \<longleftrightarrow>
   data = wire v @ rest \<and> canon v \<and> depth_ok nativeMaxDecodeDepth 0 v \<and>
   items v \<le> nativeMaxContainerItems"
  by (rule decodeNativeValue_iff)

text \<open>
  The limit holds: a successful encoding is never longer than the limit it was given, and a
  limit that is not positive is refused.
\<close>

theorem encode_within_limit:
  assumes "go_wf v" and "encodeNativeValueWithLimit v limit = Inr bs"
  shows "0 < limit \<and> int (length bs) \<le> limit"
proof
  show "0 < limit" using assms(2) by (auto simp: encodeNativeValueWithLimit_def split: if_splits)
  show "int (length bs) \<le> limit" by (rule encode_success(5) [OF assms(2,1)])
qed

theorem encode_within_limit_witness:
  "int (length (wire sample_value)) \<le> 100"
  using encode_within_limit [OF sample_value_ok(4) sample_value_encodes] by simp

text \<open>
  C9. The encoder is complete: every canonical value within the depth, item and byte limits is
  encoded, as its wire form with map entries sorted; the encoder refuses nothing it should accept.
\<close>

theorem encode_complete:
  assumes "canon v" and "depth_ok nativeMaxEncodeDepth 0 v" and "items v \<le> nativeMaxContainerItems"
    and "int (length (wire (norm v))) \<le> limit" and "0 < limit"
  shows "encodeNativeValueWithLimit v limit = Inr (wire (norm v))"
  using encode_canonical [of v limit] assms by simp

theorem encode_complete_witness:
  "encodeNativeValueWithLimit sample_value 100 = Inr (wire (norm sample_value))"
  by (rule encode_complete) (use sample_value_ok in \<open>simp_all add: sample_value_def\<close>)

text \<open>
  C10. Reference cycles are refused: a value that the encoder accepts has no container, the key and
  argument containers of its typed payloads included, that lies inside itself, however deep and through
  whatever arrays, maps, pointers and typed payloads. So the recursion over an aliased Go value is over a
  tree.
\<close>

theorem encode_refuses_cycles:
  assumes "encodeNativeValueWithLimit v limit = Inr bs"
  shows "untangled {} v"
  using assms write_untangled
  by (fastforce simp: encodeNativeValueWithLimit_def ebind_Inr_iff split: if_splits)

text \<open>
  Containers with identities inside one another, through a typed payload: the pointer occurs twice, side by
  side, which is no cycle.
\<close>

definition sample_aliases :: goval where
  "sample_aliases = VMSet [VBool True, VArray (Some 1) [VPtr 2 VNil, VMGet (Some 3) [VPtr 2 VNil] None]] None"

lemma sample_aliases_encodes: "\<exists>bs. encodeNativeValueWithLimit sample_aliases 100 = Inr bs"
  by (simp add: sample_aliases_def encodeNativeValueWithLimit_def native_limits writeNativeValue.simps enter_def mset_count_def
      writeKeysField_def writeArrayHead_def writeNativeSingleFieldMap_def writeNativeContainerHeader_def writeNativeMapKey_def
      ensureNativeEncodeContainerBudget_def writeByte_def writeBytes_def writeString_def ensure_size_def guard_def)

theorem encode_refuses_cycles_witness:
  "untangled {} sample_aliases \<and> \<not> untangled {} (VMGet (Some 1) [VArray (Some 1) []] None)"
proof -
  have "untangled {} sample_aliases" using sample_aliases_encodes encode_refuses_cycles by blast
  then show ?thesis by (simp add: untangled.simps unseen_def around_def)
qed

text \<open>The pairs of an \<open>MSET\<close> payload, in either form.\<close>

definition mset_pairs :: "goval list \<Rightarrow> (string list \<times> goval list) option \<Rightarrow> (goval \<times> goval) list" where
  "mset_pairs args kv = (case kv of None \<Rightarrow> pairs_of args | Some (ks, vs) \<Rightarrow> zip (map VString ks) vs)"

text \<open>
  C11. The typed \<open>MSET\<close> payload, given as arguments or as keys and values, is equivalent to the generic one:
  writing it appends the same bytes, spends the same budget and fails with the same error as writing the map
  \<open>{"pairs": [[k1, v1], ...]}\<close>. Arguments that do not pair up, or a number of values other than that of
  keys, are an error, after the head of the map.
\<close>

theorem mset_payload_is_generic_map:
  assumes "length args \<le> maxUint32" and "case kv of None \<Rightarrow> True | Some (ks, vs) \<Rightarrow> length ks \<le> maxUint32"
  shows "case mset_count args kv of
      Inr cnt \<Rightarrow>
        writeNativeValue L vis d (VMSet args kv) b =
        writeNativeValue L vis d (VMap None [(''pairs'', VArray None (map (\<lambda>(k, v). VArray None [k, v]) (mset_pairs args kv)))]) b
    | Inl e \<Rightarrow>
        writeNativeValue L vis d (VMSet args kv) b =
          ebind (enter vis None d b) (\<lambda>(vis, b).
          ebind (ensureNativeEncodeContainerBudget ''map'' 1 b) (\<lambda>_.
          ebind (writeNativeSingleFieldMap L ''pairs'' b) (\<lambda>b. Inl e)))"
proof (cases "mset_count args kv")
  case (Inl e)
  then show ?thesis by (subst writeNativeValue.simps) (auto intro!: ebind_cong)
next
  case (Inr cnt)
  show ?thesis
  proof (cases kv)
    case None
    then have "even (length args)" using Inr by (auto simp: mset_count_def even_iff_mod_2_eq_zero split: if_splits)
    from mset_args_is_map [OF assms(1) this] None Inr show ?thesis by (simp add: mset_pairs_def)
  next
    case (Some kvs)
    obtain ks vs where kvs: "kvs = (ks, vs)" by (cases kvs)
    then have "length ks = length vs" using Some Inr by (auto simp: mset_count_def split: if_splits)
    from mset_keys_is_map [OF this] assms(2) Some kvs Inr show ?thesis
      by (simp add: mset_pairs_def zip_map1 case_prod_unfold comp_def)
  qed
qed

theorem mset_payload_is_generic_map_witness:
  "writeNativeValue 64 {} 0 (VMSet [VString ''k'', VInt 7] None) \<lparr>ebuf = [], eremaining = 9\<rparr> =
   writeNativeValue 64 {} 0
     (VMap None [(''pairs'', VArray None [VArray None [VString ''k'', VInt 7]])]) \<lparr>ebuf = [], eremaining = 9\<rparr> \<and>
   writeNativeValue 64 {} 0 (VMSet [] (Some ([''k''], [VInt 7]))) \<lparr>ebuf = [], eremaining = 9\<rparr> =
   writeNativeValue 64 {} 0
     (VMap None [(''pairs'', VArray None [VArray None [VString ''k'', VInt 7]])]) \<lparr>ebuf = [], eremaining = 9\<rparr>"
  using mset_payload_is_generic_map [of "[VString ''k'', VInt 7]" None 64 "{}" 0]
    mset_payload_is_generic_map [of "[]" "Some ([''k''], [VInt 7])" 64 "{}" 0]
  by (simp add: maxUint32_def mset_count_def mset_pairs_def)

text \<open>
  The typed \<open>MGET\<close> payload with string keys is equivalent to the generic map
  \<open>{"keys": [k1, ...]}\<close>, on every branch, errors included.
\<close>

theorem mget_payload_is_generic_map:
  assumes "length ks \<le> maxUint32"
  shows "writeNativeValue L vis d (VMGet i args (Some ks)) b =
    writeNativeValue L vis d (VMap None [(''keys'', VArray i (map VString ks))]) b"
  by (rule mget_strings_is_map [OF assms])

theorem mget_payload_is_generic_map_witness:
  "writeNativeValue 64 {} 0 (VMGet None [] (Some [''a'', ''b''])) \<lparr>ebuf = [], eremaining = 9\<rparr> =
   writeNativeValue 64 {} 0
     (VMap None [(''keys'', VArray None [VString ''a'', VString ''b''])]) \<lparr>ebuf = [], eremaining = 9\<rparr>"
  using mget_payload_is_generic_map [of "[''a'', ''b'']" 64 "{}" 0 None "[]"]
  by (simp add: maxUint32_def)

end
