(* ===== verification/Responses.thy ===== *)
theory Responses
  imports Frames WireProperties
begin

section \<open>Decoding a complete response\<close>

text \<open>
  The dispatcher of \<open>src/native_compact.go\<close> over compact markers, restricted by the codecs the server
  advertised, and the response decoder of \<open>src/native_response.go\<close>. A result with \<open>ok = false\<close> and no
  error is \<open>Inr None\<close>.
\<close>

subsection \<open>Negotiated codecs\<close>

datatype nativeCompactCodec =
    nativeCodecFlowClaimJobs | nativeCodecFlowRecord | nativeCodecFlowRecordList | nativeCodecKVGet
  | nativeCodecKVMGet | nativeCodecOKList | nativeCodecPipeline | nativeCodecFlowQueryResult

record nativeResponseCodecs =
  byOpcode :: "16 word \<rightharpoonup> nativeCompactCodec"
  negotiated :: bool

definition nativeOpPipeline :: "16 word" where "nativeOpPipeline = 0x000E"
definition nativeOpEvent :: "16 word" where "nativeOpEvent = 0x0010"
definition nativeOpGoAway :: "16 word" where "nativeOpGoAway = 0x000A"
definition nativeStatusOK :: "16 word" where "nativeStatusOK = 0"

lemmas compact_markers = nativeCompactFlowClaimJobs_def nativeCompactOKList_def nativeCompactKVGet_def
  nativeCompactKVMGet_def nativeCompactFlowRecord_def nativeCompactFlowRecordList_def
  nativeCompactBinaryListList_def nativeCompactBinaryMapList_def nativeCompactIntegerList_def
  nativeCompactKVMGetFixed_def nativeCompactPipelineResponse_def nativeCompactFlowQueryResult_def

fun nativeCompactCodecAcceptsMarker :: "nativeCompactCodec \<Rightarrow> byte \<Rightarrow> bool" where
  "nativeCompactCodecAcceptsMarker nativeCodecFlowClaimJobs m \<longleftrightarrow> m = nativeCompactFlowClaimJobs"
| "nativeCompactCodecAcceptsMarker nativeCodecFlowRecord m \<longleftrightarrow> m = nativeCompactFlowRecord"
| "nativeCompactCodecAcceptsMarker nativeCodecFlowRecordList m \<longleftrightarrow> m = nativeCompactFlowRecordList"
| "nativeCompactCodecAcceptsMarker nativeCodecKVGet m \<longleftrightarrow> m = nativeCompactKVGet"
| "nativeCompactCodecAcceptsMarker nativeCodecKVMGet m \<longleftrightarrow> m = nativeCompactKVMGet \<or> m = nativeCompactKVMGetFixed"
| "nativeCompactCodecAcceptsMarker nativeCodecOKList m \<longleftrightarrow> m = nativeCompactOKList"
| "nativeCompactCodecAcceptsMarker nativeCodecPipeline m \<longleftrightarrow>
     m \<in> {nativeCompactFlowClaimJobs, nativeCompactOKList, nativeCompactKVGet, nativeCompactKVMGet,
          nativeCompactFlowRecord, nativeCompactFlowRecordList, nativeCompactBinaryListList,
          nativeCompactBinaryMapList, nativeCompactIntegerList, nativeCompactKVMGetFixed,
          nativeCompactPipelineResponse}"
| "nativeCompactCodecAcceptsMarker nativeCodecFlowQueryResult m \<longleftrightarrow> m = nativeCompactFlowQueryResult"

definition nativeCompactResult :: "16 word \<Rightarrow> byte \<Rightarrow> cvalue \<Rightarrow> cvalue" where
  "nativeCompactResult opcode marker v =
     (if opcode = nativeOpPipeline \<and> marker \<noteq> nativeCompactOKList \<and> marker \<noteq> nativeCompactPipelineResponse
      then CPipelineValues v else v)"

definition decodeNativeCompactValueWithCodecs ::
  "16 word \<Rightarrow> bytes \<Rightarrow> nativeResponseCodecs \<Rightarrow> compact_error + cvalue option" where
  "decodeNativeCompactValueWithCodecs opcode data codecs =
     (case data of
        [] \<Rightarrow> Inl CEmpty
      | m # _ \<Rightarrow>
          if negotiated codecs \<and>
             (case byOpcode codecs opcode of None \<Rightarrow> True | Some c \<Rightarrow> \<not> nativeCompactCodecAcceptsMarker c m)
          then Inr None
          else
            let result = (\<lambda>r. ebind r (\<lambda>v. Inr (Some (nativeCompactResult opcode m v)))) in
            if m = nativeCompactFlowClaimJobs then
              result (ebind (decodeNativeCompactClaimJobs data) (\<lambda>jobs. Inr (CClaims jobs)))
            else if m = nativeCompactOKList then result (decodeNativeCompactOKList data)
            else if m = nativeCompactKVGet then result (decodeNativeCompactKVGet data)
            else if m = nativeCompactKVMGet then result (decodeNativeCompactKVMGet data)
            else if m = nativeCompactKVMGetFixed then result (decodeNativeCompactKVMGetFixed data)
            else if m = nativeCompactFlowRecord then result (decodeNativeCompactFlowRecord data)
            else if m = nativeCompactFlowRecordList then result (decodeNativeCompactFlowRecordList data)
            else if m = nativeCompactBinaryListList then result (decodeNativeCompactBinaryListList data)
            else if m = nativeCompactBinaryMapList then result (decodeNativeCompactBinaryMapList data)
            else if m = nativeCompactIntegerList then result (decodeNativeCompactIntegerList data)
            else if m = nativeCompactPipelineResponse then
              result (ebind (decodeNativeCompactPipelineResponse data) (\<lambda>vs. Inr (CList vs)))
            else if m = nativeCompactFlowQueryResult then result (decodeNativeCompactFlowQueryResult data)
            else Inr None)"

subsection \<open>Flags\<close>

definition nativeFlagTrace :: byte where "nativeFlagTrace = 0x01"
definition nativeFlagCustomPayload :: byte where "nativeFlagCustomPayload = 0x02"
definition nativeFlagWarning :: byte where "nativeFlagWarning = 0x04"
definition nativeFlagCompressed :: byte where "nativeFlagCompressed = 0x08"
definition nativeFlagNoReply :: byte where "nativeFlagNoReply = 0x10"
definition nativeFlagMoreChunks :: byte where "nativeFlagMoreChunks = 0x20"

definition nativeResponseWireFlags :: byte where
  "nativeResponseWireFlags = nativeFlagTrace OR nativeFlagCustomPayload OR nativeFlagWarning OR
     nativeFlagCompressed OR nativeFlagMoreChunks"
definition nativeStableChunkFlags :: byte where
  "nativeStableChunkFlags = nativeFlagTrace OR nativeFlagCustomPayload OR nativeFlagWarning"

lemmas native_flags = nativeFlagTrace_def nativeFlagCustomPayload_def nativeFlagWarning_def
  nativeFlagCompressed_def nativeFlagNoReply_def nativeFlagMoreChunks_def

datatype response_error =
    RUnsupportedFlags byte
  | RStillChunked
  | RInvalidMode
  | RCompressed
  | RTruncated
  | RCustomEmpty
  | RMarkerUnsupported byte
  | RCompact compact_error
  | RValue decode_error
  | RTrailing
  | RBodyTooLarge
  | RFrameLimitInvalid
  | RBufferedTooLarge
  | RBufferedFrames int
  | RChunkFrames int
  | RFlagsChanged
  | RModeChanged

definition validateNativeResponseFlags :: "byte \<Rightarrow> bool \<Rightarrow> response_error + unit" where
  "validateNativeResponseFlags flags chunksAllowed =
     (if flags AND NOT nativeResponseWireFlags \<noteq> 0 \<or> flags AND nativeFlagNoReply \<noteq> 0
      then Inl (RUnsupportedFlags flags)
      else if \<not> chunksAllowed \<and> flags AND nativeFlagMoreChunks \<noteq> 0 then Inl RStillChunked
      else Inr ())"

subsection \<open>Responses\<close>

datatype response_value =
    RGeneric goval
  | RCompactValue cvalue
  | RFlowQuery flow_query_result

record native_response =
  rflags :: byte
  rlaneID :: "32 word"
  ropcode :: "16 word"
  rrequestID :: "64 word"
  rstatus :: "16 word"
  rvalue :: response_value
  rwireBytes :: nat

type_synonym decode_mode = "8 word"
definition nativeResponseDecodeGeneric :: decode_mode where "nativeResponseDecodeGeneric = 0"
definition nativeResponseDecodeFlowQuery :: decode_mode where "nativeResponseDecodeFlowQuery = 1"

definition nativeCompactFlowQueryCodecAccepted :: "16 word \<Rightarrow> bytes \<Rightarrow> nativeResponseCodecs \<Rightarrow> bool" where
  "nativeCompactFlowQueryCodecAccepted opcode data codecs =
     (case data of
        [] \<Rightarrow> False
      | m # _ \<Rightarrow>
          if m \<noteq> nativeCompactFlowQueryResult then False
          else if \<not> negotiated codecs then True
          else (case byOpcode codecs opcode of None \<Rightarrow> False | Some c \<Rightarrow> nativeCompactCodecAcceptsMarker c m))"

definition decodeNativeCompactResponseWithMode ::
  "16 word \<Rightarrow> bytes \<Rightarrow> nativeResponseCodecs \<Rightarrow> decode_mode \<Rightarrow> compact_error + response_value option" where
  "decodeNativeCompactResponseWithMode opcode data codecs mode =
     (if mode = nativeResponseDecodeFlowQuery \<and> nativeCompactFlowQueryCodecAccepted opcode data codecs
      then ebind (decodeNativeCompactFlowQueryResultTyped data) (\<lambda>r. Inr (Some (RFlowQuery r)))
      else ebind (decodeNativeCompactValueWithCodecs opcode data codecs)
             (\<lambda>v. Inr (map_option RCompactValue v)))"

definition decodeNativeResponseFrameWithCodecsAndMode ::
  "native_frame \<Rightarrow> bytes \<Rightarrow> byte \<Rightarrow> nativeResponseCodecs \<Rightarrow> decode_mode \<Rightarrow> response_error + native_response" where
  "decodeNativeResponseFrameWithCodecsAndMode first body flags codecs mode =
     (if mode \<noteq> nativeResponseDecodeGeneric \<and> mode \<noteq> nativeResponseDecodeFlowQuery then Inl RInvalidMode
      else ebind (validateNativeResponseFlags flags False) (\<lambda>_.
      if flags AND nativeFlagCompressed \<noteq> 0 then Inl RCompressed
      else if length body < 2 then Inl RTruncated
      else
        let status = word_of_nat (be_val (take 2 body)); payload = drop 2 body;
            response = (\<lambda>v. \<lparr>rflags = flags, rlaneID = flaneID first, ropcode = fopcode first,
              rrequestID = frequestID first, rstatus = status, rvalue = v, rwireBytes = length body\<rparr>) in
        if flags AND nativeFlagCustomPayload \<noteq> 0 then
          (if length body = 2 then Inl RCustomEmpty
           else
             let responseMode = (if status \<noteq> nativeStatusOK then nativeResponseDecodeGeneric else mode) in
             ebind (map_err RCompact (decodeNativeCompactResponseWithMode (fopcode first) payload codecs responseMode))
               (\<lambda>v. case v of
                  None \<Rightarrow> Inl (RMarkerUnsupported (body ! 2))
                | Some v \<Rightarrow> Inr (response v)))
        else
          ebind (map_err RValue (decodeNativeOwnedValue payload)) (\<lambda>(v, rest).
            if rest \<noteq> [] then Inl RTrailing else Inr (response (RGeneric v)))))"

subsection \<open>Server-initiated responses\<close>

datatype server_frame_error =
    NativeError "16 word" response_value
  | DataLane "32 word"
  | BadStatus "16 word"
  | ReservedRequestID "16 word"

definition nativeConnectionLevelError :: "native_response \<Rightarrow> server_frame_error option" where
  "nativeConnectionLevelError f =
     (if rrequestID f = 0 \<and> ropcode f = 0 \<and> rlaneID f = 0 \<and> rstatus f \<noteq> nativeStatusOK
      then Some (NativeError (rstatus f) (rvalue f)) else None)"

definition validateNativeServerInitiatedResponse :: "native_response \<Rightarrow> server_frame_error option" where
  "validateNativeServerInitiatedResponse f =
     (if rrequestID f \<noteq> 0 then None
      else case nativeConnectionLevelError f of
        Some e \<Rightarrow> Some e
      | None \<Rightarrow>
          if rlaneID f \<noteq> 0 then Some (DataLane (rlaneID f))
          else if rstatus f \<noteq> nativeStatusOK then Some (BadStatus (rstatus f))
          else if ropcode f = nativeOpEvent \<or> ropcode f = nativeOpGoAway then None
          else Some (ReservedRequestID (ropcode f)))"

subsection \<open>Helper facts\<close>

lemma byte_bits: "(\<forall>n < 8. P n) \<longleftrightarrow> P 0 \<and> P 1 \<and> P 2 \<and> P 3 \<and> P 4 \<and> P 5 \<and> P 6 \<and> P (7 :: nat)"
proof -
  have "n \<in> {0, 1, 2, 3, 4, 5, 6, 7}" if "n < 8" for n :: nat using that by auto
  then show ?thesis by fastforce
qed

lemma byte_zero_iff: "(w :: byte) = 0 \<longleftrightarrow> (\<forall>n < 8. \<not> bit w n)"
  by (auto intro: bit_word_eqI)

lemma flag_zero_iff:
  "(w AND NOT m = 0) \<longleftrightarrow> (\<forall>n < 8. bit w n \<longrightarrow> bit m n)"
  "(w AND m = 0) \<longleftrightarrow> (\<forall>n < 8. bit w n \<longrightarrow> \<not> bit m n)" for w m :: byte
  by (auto simp: byte_zero_iff bit_and_iff bit_not_iff)

lemma plain_flags_iff:
  assumes "flags AND nativeFlagCustomPayload = 0"
  shows "validateNativeResponseFlags flags False = Inr () \<and> flags AND nativeFlagCompressed = 0 \<longleftrightarrow>
    flags AND NOT (nativeFlagTrace OR nativeFlagWarning) = 0"
  using assms
  unfolding validateNativeResponseFlags_def nativeResponseWireFlags_def native_flags
  by (auto simp: flag_zero_iff byte_bits)

lemma owned_is_decode: "decodeNativeOwnedValue data = decodeNativeValue data"
  by (simp add: decodeNativeOwnedValue_def decodeNativeValue_def decodeNativeValueWithLimits_def
      decodeNativeValueWithOwnership_def)

lemma status_print: "word_of_nat (be_val (be_bytes 2 (unat (w :: 16 word)))) = w"
  by (simp add: be_val_unat)

lemma status_split:
  "\<not> length body < 2 \<Longrightarrow> body = be_bytes 2 (unat (word_of_nat (be_val (take 2 body)) :: 16 word)) @ drop 2 body"
  by (simp add: unat_be_val)

subsection \<open>Properties\<close>

text \<open>
  C14. Frames round-trip through the header: the reader returns a frame exactly when the input starts
  with that frame's 24-byte header and body and the body is within the negotiated limit; it consumes
  exactly those bytes.
\<close>

theorem read_frame_exactly:
  "readNativeFrameWithLimit maxBody input () = Inr (f, rest, ()) \<longleftrightarrow>
   input = frame_header nativeResponseVersion f @ fbody f @ rest \<and> length (fbody f) \<le> frame_limit maxBody"
  by (simp add: frame.rd_iff pay_frame_def)

text \<open>
  A generic response is decoded exactly when its body is a 16-bit status followed by the wire form
  of one value: the decoder returns that status and value for the frame's lane, opcode and request.
\<close>

theorem generic_response_exactly:
  assumes "flags AND nativeFlagCustomPayload = 0"
  shows "decodeNativeResponseFrameWithCodecsAndMode first body flags codecs nativeResponseDecodeGeneric = Inr r \<longleftrightarrow>
    flags AND NOT (nativeFlagTrace OR nativeFlagWarning) = 0 \<and>
    (\<exists>(status :: 16 word) v. body = be_bytes 2 (unat status) @ wire v \<and> canon v \<and>
      depth_ok nativeMaxDecodeDepth 0 v \<and> items v \<le> nativeMaxContainerItems \<and>
      r = \<lparr>rflags = flags, rlaneID = flaneID first, ropcode = fopcode first, rrequestID = frequestID first,
           rstatus = status, rvalue = RGeneric v, rwireBytes = length body\<rparr>)"
    (is "?l \<longleftrightarrow> ?f \<and> ?r")
proof -
  have flags: "validateNativeResponseFlags flags False = Inr () \<and> flags AND nativeFlagCompressed = 0 \<longleftrightarrow> ?f"
    using assms by (rule plain_flags_iff)
  have dec: "decodeNativeOwnedValue payload = Inr (v, []) \<longleftrightarrow> payload = wire v \<and> canon v \<and>
      depth_ok nativeMaxDecodeDepth 0 v \<and> items v \<le> nativeMaxContainerItems" for payload v
    using decodeNativeValue_iff [of payload v "[]"] by (simp add: owned_is_decode)
  have "?l \<longleftrightarrow> ?f \<and> \<not> length body < 2 \<and> (\<exists>v. decodeNativeOwnedValue (drop 2 body) = Inr (v, []) \<and>
      r = \<lparr>rflags = flags, rlaneID = flaneID first, ropcode = fopcode first, rrequestID = frequestID first,
           rstatus = word_of_nat (be_val (take 2 body)), rvalue = RGeneric v, rwireBytes = length body\<rparr>)"
    unfolding flags [symmetric] using assms
    by (auto simp: decodeNativeResponseFrameWithCodecsAndMode_def ebind_Inr_iff Let_def
        nativeResponseDecodeGeneric_def split: if_splits)
  also have "\<dots> \<longleftrightarrow> ?f \<and> ?r"
    unfolding dec using status_split [of body] by (auto simp: status_print)
  finally show ?thesis .
qed

definition sample_frame :: native_frame where
  "sample_frame = \<lparr>fflags = 0, flaneID = 1, fopcode = 0x0101, frequestID = 7, fbody = []\<rparr>"

definition no_codecs :: nativeResponseCodecs where
  "no_codecs = \<lparr>byOpcode = Map.empty, negotiated = False\<rparr>"

theorem generic_response_exactly_witness:
  "decodeNativeResponseFrameWithCodecsAndMode sample_frame (be_bytes 2 0 @ wire sample_value) 0 no_codecs
     nativeResponseDecodeGeneric =
   Inr \<lparr>rflags = 0, rlaneID = 1, ropcode = 0x0101, rrequestID = 7,
        rstatus = 0, rvalue = RGeneric sample_value, rwireBytes = length (be_bytes 2 0 @ wire sample_value)\<rparr>"
  using sample_value_ok
  by (subst generic_response_exactly)
    (auto simp: nativeMaxDecodeDepth_def nativeMaxEncodeDepth_def sample_frame_def intro!: exI [of _ 0])

end
