(* ===== verification/Assembler.thy ===== *)
theory Assembler
  imports Responses
begin

section \<open>Reassembly of chunked responses\<close>

text \<open>
  \<open>nativeResponseAssembler\<close> of \<open>src/native_frame.go\<close>. Chunk states are held by pointer in the code, so
  what \<open>addWithDecodeMode\<close> changes before an error stays changed; the operation therefore returns the new
  assembler together with its result. A slice that is grown explicitly (\<open>state.body\<close>) carries its
  capacity, which is how the code bounds memory.
\<close>

subsection \<open>State\<close>

type_synonym chunk_key = "64 word \<times> 16 word \<times> 32 word"

record chunk_state =
  cfirst :: native_frame
  cparts :: "bytes list"
  cbody :: "(bytes \<times> nat) option"     \<comment> \<open>contents and capacity\<close>
  cbytes :: nat
  cframes :: nat
  cmode :: decode_mode

record assembler =
  amaxBytes :: int
  amaxFrames :: int
  achunks :: "chunk_key \<rightharpoonup> chunk_state"
  abufferedBytes :: int
  abufferedFrames :: int
  acodecs :: nativeResponseCodecs

definition newNativeResponseAssembler :: "int \<Rightarrow> int \<Rightarrow> nativeResponseCodecs \<Rightarrow> assembler" where
  "newNativeResponseAssembler maxBytes maxFrames codecs =
     \<lparr>amaxBytes = maxBytes, amaxFrames = maxFrames, achunks = Map.empty, abufferedBytes = 0,
      abufferedFrames = 0, acodecs = codecs\<rparr>"

definition compactionThreshold :: "assembler \<Rightarrow> int" where
  "compactionThreshold a = max 1 (amaxBytes a div 2)"

definition compact :: "nat \<Rightarrow> chunk_state \<Rightarrow> chunk_state" where
  "compact maxBytes s =
     (let capacity = (if cbytes s \<le> maxBytes div 2 then cbytes s * 2 else maxBytes) in
      s\<lparr>cbody := Some (concat (cparts s), capacity), cparts := []\<rparr>)"

definition appendNativeResponseChunk :: "bytes \<times> nat \<Rightarrow> bytes \<Rightarrow> nat \<Rightarrow> (bytes \<times> nat) option" where
  "appendNativeResponseChunk body nextChunk maxLen =
     (let contents = fst body; cap = snd body; required = length contents + length nextChunk in
      if int (length nextChunk) > int maxLen - int (length contents) then None
      else if required > cap then
        let capacity = (if cap \<le> maxLen div 2 then cap * 2 else maxLen);
            capacity = (if capacity < required then required else capacity);
            capacity = (if capacity > maxLen then maxLen else capacity) in
        Some (contents @ nextChunk, capacity)
      else Some (contents @ nextChunk, cap))"

subsection \<open>Adding a frame\<close>

definition frame_key :: "native_frame \<Rightarrow> chunk_key" where
  "frame_key f = (frequestID f, fopcode f, flaneID f)"

definition moreChunks :: "native_frame \<Rightarrow> bool" where
  "moreChunks f \<longleftrightarrow> fflags f AND nativeFlagMoreChunks \<noteq> 0"

text \<open>The state a chunk is added to: the one being assembled, or a new one.\<close>

definition openChunk :: "native_frame \<Rightarrow> decode_mode \<Rightarrow> chunk_state option \<Rightarrow> response_error + chunk_state" where
  "openChunk frame mode st =
     (case st of
        None \<Rightarrow> Inr \<lparr>cfirst = frame\<lparr>fbody := []\<rparr>, cparts = [], cbody = None, cbytes = 0, cframes = 0, cmode = mode\<rparr>
      | Some s \<Rightarrow>
          if fflags (cfirst s) AND nativeStableChunkFlags \<noteq> fflags frame AND nativeStableChunkFlags
          then Inl RFlagsChanged
          else if cmode s \<noteq> mode then Inl RModeChanged
          else Inr s)"

definition chunkLimits :: "assembler \<Rightarrow> native_frame \<Rightarrow> chunk_state \<Rightarrow> response_error + unit" where
  "chunkLimits a frame s =
     (if int (length (fbody frame)) > amaxBytes a - int (cbytes s) then Inl RBodyTooLarge
      else if int (cframes s) \<ge> amaxFrames a then Inl (RChunkFrames (amaxFrames a))
      else if int (length (fbody frame)) > amaxBytes a - abufferedBytes a then Inl RBufferedTooLarge
      else if abufferedFrames a \<ge> amaxFrames a then Inl (RBufferedFrames (amaxFrames a))
      else Inr ())"

text \<open>Storing the chunk's bytes, in the growing body once it is compacted, else as a part.\<close>

definition storeChunk :: "nat \<Rightarrow> bytes \<Rightarrow> chunk_state \<Rightarrow> chunk_state option" where
  "storeChunk maxBytes chunk s =
     (case cbody s of
        Some body \<Rightarrow> map_option (\<lambda>b. s\<lparr>cbody := Some b\<rparr>) (appendNativeResponseChunk body chunk maxBytes)
      | None \<Rightarrow> Some (s\<lparr>cparts := cparts s @ [chunk]\<rparr>))"

definition assembledBody :: "chunk_state \<Rightarrow> bytes" where
  "assembledBody s = (case cbody s of Some (b, _) \<Rightarrow> b | None \<Rightarrow> concat (cparts s))"

definition addWithDecodeMode ::
  "native_frame \<Rightarrow> decode_mode \<Rightarrow> assembler \<Rightarrow> assembler \<times> (response_error + native_response option)" where
  "addWithDecodeMode frame mode a =
     (case validateNativeResponseFlags (fflags frame) True of
        Inl e \<Rightarrow> (a, Inl e)
      | Inr _ \<Rightarrow>
     if amaxBytes a \<le> 0 \<or> int (length (fbody frame)) > amaxBytes a then (a, Inl RBodyTooLarge)
     else if amaxFrames a \<le> 0 then (a, Inl RFrameLimitInvalid)
     else
     let key = frame_key frame in
     if achunks a key = None \<and> \<not> moreChunks frame then
       (if int (length (fbody frame)) > amaxBytes a - abufferedBytes a then (a, Inl RBufferedTooLarge)
        else if abufferedFrames a \<ge> amaxFrames a then (a, Inl (RBufferedFrames (amaxFrames a)))
        else (a, ebind (decodeNativeResponseFrameWithCodecsAndMode frame (fbody frame) (fflags frame) (acodecs a) mode)
                   (\<lambda>r. Inr (Some r))))
     else
     case openChunk frame mode (achunks a key) of
       Inl e \<Rightarrow> (a, Inl e)
     | Inr s \<Rightarrow>
     let s = s\<lparr>cfirst := (cfirst s)\<lparr>fflags := fflags (cfirst s) OR fflags frame\<rparr>\<rparr>;
         a = a\<lparr>achunks := (achunks a)(key \<mapsto> s)\<rparr> in
     case chunkLimits a frame s of
       Inl e \<Rightarrow> (a, Inl e)
     | Inr _ \<Rightarrow>
     case storeChunk (nat (amaxBytes a)) (fbody frame) s of
       None \<Rightarrow> (a, Inl RBodyTooLarge)
     | Some s \<Rightarrow>
     let s = s\<lparr>cbytes := cbytes s + length (fbody frame), cframes := cframes s + 1\<rparr>;
         s = (if cbody s = None \<and> int (cbytes s) \<ge> compactionThreshold a then compact (nat (amaxBytes a)) s else s);
         a = a\<lparr>achunks := (achunks a)(key \<mapsto> s), abufferedBytes := abufferedBytes a + int (length (fbody frame)),
               abufferedFrames := abufferedFrames a + 1\<rparr> in
     if moreChunks frame then (a, Inr None)
     else
       (a\<lparr>achunks := (achunks a)(key := None), abufferedBytes := abufferedBytes a - int (cbytes s),
          abufferedFrames := abufferedFrames a - int (cframes s)\<rparr>,
        ebind (decodeNativeResponseFrameWithCodecsAndMode (cfirst s) (assembledBody s)
                 ((fflags (cfirst s) OR fflags frame) AND NOT nativeFlagMoreChunks) (acodecs a) (cmode s))
          (\<lambda>r. Inr (Some r))))"

definition add :: "native_frame \<Rightarrow> assembler \<Rightarrow> assembler \<times> (response_error + native_response option)" where
  "add frame a = addWithDecodeMode frame nativeResponseDecodeGeneric a"

subsection \<open>Reading one response\<close>

text \<open>\<open>readNativeResponseWithPolicy\<close>: frames are read and added until a response is complete.\<close>

datatype read_error = ReadFrame frame_error | ReadResponse response_error

lemma frame_shorter:
  "readNativeFrameWithLimit m input s = Inr (f, rest, s') \<Longrightarrow> length rest < length input"
  by (drule frame.rd_sound) auto

function readResponseLoop :: "int \<Rightarrow> assembler \<Rightarrow> bytes \<Rightarrow> read_error + (native_response \<times> bytes)" where
  "readResponseLoop maxBytes a input =
     (case readNativeFrameWithLimit maxBytes input () of
        Inl e \<Rightarrow> Inl (ReadFrame e)
      | Inr (frame, rest, _) \<Rightarrow>
          (case add frame a of
             (_, Inl e) \<Rightarrow> Inl (ReadResponse e)
           | (_, Inr (Some r)) \<Rightarrow> Inr (r, rest)
           | (a', Inr None) \<Rightarrow> readResponseLoop maxBytes a' rest))"
  by pat_completeness auto
termination
  by (relation "measure (\<lambda>(m, a, input). length input)") (auto dest: frame_shorter)

declare readResponseLoop.simps [simp del]

definition nativeMaxResponseChunkFrames :: int where "nativeMaxResponseChunkFrames = 65536"

definition readNativeResponseWithPolicy ::
  "int \<Rightarrow> nativeResponseCodecs \<Rightarrow> bytes \<Rightarrow> read_error + (native_response \<times> bytes)" where
  "readNativeResponseWithPolicy maxBytes codecs input =
     readResponseLoop maxBytes (newNativeResponseAssembler maxBytes nativeMaxResponseChunkFrames codecs) input"

subsection \<open>Outcomes of an addition\<close>

definition flagChunk :: "native_frame \<Rightarrow> chunk_state \<Rightarrow> chunk_state" where
  "flagChunk frame s = s\<lparr>cfirst := (cfirst s)\<lparr>fflags := fflags (cfirst s) OR fflags frame\<rparr>\<rparr>"

text \<open>A chunk state after its frame's bytes were stored, counted and, at the threshold, compacted.\<close>

definition extends :: "assembler \<Rightarrow> bytes \<Rightarrow> chunk_state \<Rightarrow> chunk_state \<Rightarrow> bool" where
  "extends a chunk s s' \<longleftrightarrow> (\<exists>s1. storeChunk (nat (amaxBytes a)) chunk s = Some s1 \<and>
     (let s2 = s1\<lparr>cbytes := cbytes s1 + length chunk, cframes := cframes s1 + 1\<rparr> in
      s' = (if cbody s2 = None \<and> int (cbytes s2) \<ge> compactionThreshold a
            then compact (nat (amaxBytes a)) s2 else s2)))"

lemma chunkLimits_chunks [simp]: "chunkLimits (a\<lparr>achunks := m\<rparr>) = chunkLimits a"
  by (intro ext) (simp add: chunkLimits_def)

lemma threshold_chunks [simp]: "compactionThreshold (a\<lparr>achunks := m\<rparr>) = compactionThreshold a"
  by (simp add: compactionThreshold_def)

lemma add_cases:
  assumes "addWithDecodeMode frame mode a = (a', r)"
  obtains (unchanged) "a' = a"
  | (refused) s where "openChunk frame mode (achunks a (frame_key frame)) = Inr s"
      "a' = a\<lparr>achunks := (achunks a)(frame_key frame \<mapsto> flagChunk frame s)\<rparr>" "0 < amaxBytes a" "0 < amaxFrames a"
  | (stored) s s' where "openChunk frame mode (achunks a (frame_key frame)) = Inr s"
      "chunkLimits a frame (flagChunk frame s) = Inr ()" "extends a (fbody frame) (flagChunk frame s) s'"
      "moreChunks frame" "r = Inr None" "0 < amaxBytes a"
      "a' = a\<lparr>achunks := (achunks a)(frame_key frame \<mapsto> s'),
         abufferedBytes := abufferedBytes a + int (length (fbody frame)), abufferedFrames := abufferedFrames a + 1\<rparr>"
  | (completed) s s' where "openChunk frame mode (achunks a (frame_key frame)) = Inr s"
      "chunkLimits a frame (flagChunk frame s) = Inr ()" "extends a (fbody frame) (flagChunk frame s) s'"
      "\<not> moreChunks frame" "achunks a (frame_key frame) \<noteq> None" "0 < amaxBytes a"
      "a' = a\<lparr>achunks := (achunks a)(frame_key frame := None),
         abufferedBytes := abufferedBytes a + int (length (fbody frame)) - int (cbytes s'),
         abufferedFrames := abufferedFrames a + 1 - int (cframes s')\<rparr>"
      "r = ebind (decodeNativeResponseFrameWithCodecsAndMode (cfirst s') (assembledBody s')
             ((fflags (cfirst s') OR fflags frame) AND NOT nativeFlagMoreChunks) (acodecs a) (cmode s'))
             (\<lambda>r. Inr (Some r))"
proof -
  let ?st = "achunks a (frame_key frame)"
  consider "a' = a"
    | s where "openChunk frame mode ?st = Inr s" "0 < amaxBytes a" "0 < amaxFrames a"
        "\<not> (?st = None \<and> \<not> moreChunks frame)" "validateNativeResponseFlags (fflags frame) True = Inr ()"
        "\<not> int (length (fbody frame)) > amaxBytes a"
    using assms unfolding addWithDecodeMode_def Let_def
    by (auto split: sum.splits if_splits)
  then show thesis
  proof cases
    case 1
    then show thesis by (rule unchanged)
  next
    case (2 s)
    note add = assms [unfolded addWithDecodeMode_def Let_def, folded flagChunk_def]
    show thesis
    proof (cases "chunkLimits a frame (flagChunk frame s)")
      case (Inl e)
      with 2 add show thesis by (intro refused [of s]) auto
    next
      case (Inr u)
      show thesis
      proof (cases "storeChunk (nat (amaxBytes a)) (fbody frame) (flagChunk frame s)")
        case None
        with 2 Inr add show thesis by (intro refused [of s]) auto
      next
        case (Some s1)
        let ?s2 = "s1\<lparr>cbytes := cbytes s1 + length (fbody frame), cframes := cframes s1 + 1\<rparr>"
        let ?s' = "if cbody ?s2 = None \<and> int (cbytes ?s2) \<ge> compactionThreshold a
          then compact (nat (amaxBytes a)) ?s2 else ?s2"
        have ext: "extends a (fbody frame) (flagChunk frame s) ?s'" using Some by (simp add: extends_def)
        show thesis
        proof (cases "moreChunks frame")
          case True
          show thesis by (rule stored [OF 2(1) _ ext True]) (use 2 Inr Some add True in auto)
        next
          case False
          show thesis by (rule completed [OF 2(1) _ ext False]) (use 2 Inr Some add False in auto)
        qed
      qed
    qed
  qed
qed

subsection \<open>Invariant\<close>

definition chunk_ok :: "int \<Rightarrow> chunk_state \<Rightarrow> bool" where
  "chunk_ok maxBytes s \<longleftrightarrow>
     length (assembledBody s) = cbytes s \<and>
     (case cbody s of
        None \<Rightarrow> cframes s = length (cparts s) \<and> int (cbytes s) < max 1 (maxBytes div 2)
      | Some (b, cap) \<Rightarrow> cparts s = [] \<and> length b \<le> cap \<and> int cap \<le> maxBytes)"

definition asm_inv :: "assembler \<Rightarrow> bool" where
  "asm_inv a \<longleftrightarrow>
     finite (dom (achunks a)) \<and>
     (\<forall>k s. achunks a k = Some s \<longrightarrow> chunk_ok (amaxBytes a) s) \<and>
     abufferedBytes a = map_total (\<lambda>s. int (cbytes s)) (achunks a) \<and>
     abufferedFrames a = map_total (\<lambda>s. int (cframes s)) (achunks a) \<and>
     abufferedBytes a \<le> max 0 (amaxBytes a) \<and> abufferedFrames a \<le> max 0 (amaxFrames a)"

lemma new_inv: "asm_inv (newNativeResponseAssembler maxBytes maxFrames codecs)"
  by (simp add: asm_inv_def newNativeResponseAssembler_def)

lemma flagChunk_sel [simp]:
  "cbytes (flagChunk f s) = cbytes s" "cframes (flagChunk f s) = cframes s" "cmode (flagChunk f s) = cmode s"
  "cbody (flagChunk f s) = cbody s" "cparts (flagChunk f s) = cparts s"
  "assembledBody (flagChunk f s) = assembledBody s" "chunk_ok m (flagChunk f s) = chunk_ok m s"
  by (simp_all add: flagChunk_def assembledBody_def chunk_ok_def split: option.splits)

lemma openChunk_old:
  assumes "openChunk frame mode st = Inr s"
  shows "int (cbytes s) = old_value (\<lambda>s. int (cbytes s)) st" "int (cframes s) = old_value (\<lambda>s. int (cframes s)) st"
    "assembledBody s = (case st of None \<Rightarrow> [] | Some s \<Rightarrow> assembledBody s)" "cmode s = mode"
    "(\<And>s. st = Some s \<Longrightarrow> chunk_ok m s) \<Longrightarrow> chunk_ok m s"
  using assms by (auto simp: openChunk_def assembledBody_def chunk_ok_def split: option.splits if_splits)

lemma append_body:
  assumes "appendNativeResponseChunk (b, cap) chunk maxLen = Some (b', cap')" and "length b \<le> cap" and "cap \<le> maxLen"
  shows "b' = b @ chunk" and "length b' \<le> cap'" and "cap' \<le> maxLen"
  using assms by (auto simp: appendNativeResponseChunk_def Let_def split: if_splits)

lemma extends_ok:
  assumes ext: "extends a chunk s s'" and ok: "chunk_ok (amaxBytes a) s" and pos: "0 < amaxBytes a"
    and fits: "int (length chunk) \<le> amaxBytes a - int (cbytes s)"
  shows "chunk_ok (amaxBytes a) s'" and "cbytes s' = cbytes s + length chunk" and "cframes s' = cframes s + 1"
    and "assembledBody s' = assembledBody s @ chunk" and "cfirst s' = cfirst s" and "cmode s' = cmode s"
proof -
  from ext obtain s1 where s1: "storeChunk (nat (amaxBytes a)) chunk s = Some s1"
    and s': "s' = (let s2 = s1\<lparr>cbytes := cbytes s1 + length chunk, cframes := cframes s1 + 1\<rparr> in
      if cbody s2 = None \<and> int (cbytes s2) \<ge> compactionThreshold a then compact (nat (amaxBytes a)) s2 else s2)"
    by (auto simp: extends_def Let_def)
  have st: "cbytes s1 = cbytes s" "cframes s1 = cframes s" "cfirst s1 = cfirst s" "cmode s1 = cmode s"
    using s1 by (auto simp: storeChunk_def split: option.splits)
  show "cbytes s' = cbytes s + length chunk" "cframes s' = cframes s + 1" "cfirst s' = cfirst s" "cmode s' = cmode s"
    using st by (auto simp: s' compact_def Let_def)
  have body: "chunk_ok (amaxBytes a) s' \<and> assembledBody s' = assembledBody s @ chunk"
  proof (cases "cbody s")
    case None
    then have s1': "s1 = s\<lparr>cparts := cparts s @ [chunk]\<rparr>" using s1 by (simp add: storeChunk_def)
    with None ok fits pos show ?thesis
      by (auto simp: s' compact_def Let_def chunk_ok_def assembledBody_def compactionThreshold_def nat_div_distrib)
  next
    case (Some bc)
    obtain b cap where bc: "bc = (b, cap)" by (cases bc)
    from s1 Some bc obtain b' cap' where b': "appendNativeResponseChunk (b, cap) chunk (nat (amaxBytes a)) = Some (b', cap')"
      and s1': "s1 = s\<lparr>cbody := Some (b', cap')\<rparr>" by (auto simp: storeChunk_def)
    have "length b \<le> cap" "cap \<le> nat (amaxBytes a)" using ok Some bc by (auto simp: chunk_ok_def)
    from append_body [OF b' this] ok Some bc s1' pos show ?thesis
      by (auto simp: s' Let_def chunk_ok_def assembledBody_def)
  qed
  then show "chunk_ok (amaxBytes a) s'" "assembledBody s' = assembledBody s @ chunk" by simp_all
qed

lemma limits_fit:
  assumes "chunkLimits a frame s = Inr ()"
  shows "int (length (fbody frame)) \<le> amaxBytes a - int (cbytes s)"
    "int (length (fbody frame)) \<le> amaxBytes a - abufferedBytes a" "abufferedFrames a < amaxFrames a"
    "int (cframes s) < amaxFrames a"
  using assms by (auto simp: chunkLimits_def split: if_splits)

lemma add_inv:
  assumes inv: "asm_inv a" and add: "addWithDecodeMode frame mode a = (a', r)"
  shows "asm_inv a'"
proof -
  let ?k = "frame_key frame" and ?B = "\<lambda>s. int (cbytes s)" and ?F = "\<lambda>s. int (cframes s)"
  have fin: "finite (dom (achunks a))" and oks: "\<And>k s. achunks a k = Some s \<Longrightarrow> chunk_ok (amaxBytes a) s"
    and B: "abufferedBytes a = map_total ?B (achunks a)" and F: "abufferedFrames a = map_total ?F (achunks a)"
    using inv by (auto simp: asm_inv_def)
  note tot = map_total_upd [OF fin] map_total_del [OF fin]
  have nn: "0 \<le> abufferedBytes a" "0 \<le> abufferedFrames a" unfolding B F by (auto intro: map_total_nonneg)
  from add show ?thesis
  proof (cases rule: add_cases)
    case unchanged
    with inv show ?thesis by simp
  next
    case (refused s)
    note old = openChunk_old [OF refused(1)]
    have "chunk_ok (amaxBytes a) (flagChunk frame s)" using old(5) oks by simp
    with refused(2) inv old(1,2) show ?thesis by (auto simp: asm_inv_def tot)
  next
    case (stored s s')
    note old = openChunk_old [OF stored(1)] and lim = limits_fit [OF stored(2)]
    have "chunk_ok (amaxBytes a) (flagChunk frame s)" using old(5) oks by simp
    note ext = extends_ok [OF stored(3) this stored(6)]
    from ext(1-3) old(1,2) lim inv nn stored(7) show ?thesis
      by (auto simp: asm_inv_def tot)
  next
    case (completed s s')
    note old = openChunk_old [OF completed(1)] and lim = limits_fit [OF completed(2)]
    have "chunk_ok (amaxBytes a) (flagChunk frame s)" using old(5) oks by simp
    note ext = extends_ok [OF completed(3) this completed(6)]
    have "old_value ?B (achunks a ?k) \<le> abufferedBytes a" "old_value ?F (achunks a ?k) \<le> abufferedFrames a"
      unfolding B F by (rule old_value_le [OF fin], simp)+
    with ext(2,3) old(1,2) lim inv nn completed(7) show ?thesis
      by (auto simp: asm_inv_def tot)
  qed
qed

lemma add_limits:
  assumes "addWithDecodeMode frame mode a = (a', r)"
  shows "amaxBytes a' = amaxBytes a" and "amaxFrames a' = amaxFrames a" and "acodecs a' = acodecs a"
  by (use assms in \<open>cases rule: add_cases; simp\<close>)+

definition assemble_step :: "native_frame \<times> decode_mode \<Rightarrow> assembler \<Rightarrow> assembler" where
  "assemble_step ev a = fst (addWithDecodeMode (fst ev) (snd ev) a)"

interpretation assembler: event_machine assemble_step
  "\<lambda>a. asm_inv a \<and> amaxBytes a = M \<and> amaxFrames a = F" for M F
proof unfold_locales
  fix a :: assembler and ev :: "native_frame \<times> decode_mode"
  assume *: "asm_inv a \<and> amaxBytes a = M \<and> amaxFrames a = F"
  obtain a' r where add: "addWithDecodeMode (fst ev) (snd ev) a = (a', r)"
    by (cases "addWithDecodeMode (fst ev) (snd ev) a")
  with * add_inv [OF _ add] add_limits [OF add]
  show "asm_inv (assemble_step ev a) \<and> amaxBytes (assemble_step ev a) = M \<and>
      amaxFrames (assemble_step ev a) = F"
    by (simp add: assemble_step_def)
qed

subsection \<open>Chunking is transparent\<close>

lemma extends_total:
  assumes "chunk_ok (amaxBytes a) s" and "int (length chunk) \<le> amaxBytes a - int (cbytes s)"
  shows "\<exists>s'. extends a chunk s s'"
proof -
  have "\<exists>s1. storeChunk (nat (amaxBytes a)) chunk s = Some s1"
    using assms by (auto simp: storeChunk_def appendNativeResponseChunk_def chunk_ok_def assembledBody_def Let_def
        split: option.splits)
  then show ?thesis by (auto simp: extends_def Let_def)
qed

lemma add_fits:
  assumes "validateNativeResponseFlags (fflags frame) True = Inr ()"
    and "moreChunks frame \<or> achunks a (frame_key frame) \<noteq> None" and pos: "0 < amaxBytes a"
    and s: "openChunk frame mode (achunks a (frame_key frame)) = Inr s"
    and lim: "chunkLimits a frame (flagChunk frame s) = Inr ()" and ok: "chunk_ok (amaxBytes a) s"
  shows "\<exists>s'. extends a (fbody frame) (flagChunk frame s) s' \<and>
    addWithDecodeMode frame mode a =
      (if moreChunks frame then
         (a\<lparr>achunks := (achunks a)(frame_key frame \<mapsto> s'),
            abufferedBytes := abufferedBytes a + int (length (fbody frame)), abufferedFrames := abufferedFrames a + 1\<rparr>,
          Inr None)
       else
         (a\<lparr>achunks := (achunks a)(frame_key frame := None),
            abufferedBytes := abufferedBytes a + int (length (fbody frame)) - int (cbytes s'),
            abufferedFrames := abufferedFrames a + 1 - int (cframes s')\<rparr>,
          ebind (decodeNativeResponseFrameWithCodecsAndMode (cfirst s') (assembledBody s')
             ((fflags (cfirst s') OR fflags frame) AND NOT nativeFlagMoreChunks) (acodecs a) (cmode s'))
             (\<lambda>r. Inr (Some r))))"
proof -
  note fit = limits_fit [OF lim]
  have ok': "chunk_ok (amaxBytes a) (flagChunk frame s)" using ok by simp
  from extends_total [OF ok' fit(1)] obtain s' where ext: "extends a (fbody frame) (flagChunk frame s) s'" ..
  then obtain s1 where "storeChunk (nat (amaxBytes a)) (fbody frame) (flagChunk frame s) = Some s1"
    and "s' = (let s2 = s1\<lparr>cbytes := cbytes s1 + length (fbody frame), cframes := cframes s1 + 1\<rparr> in
      if cbody s2 = None \<and> int (cbytes s2) \<ge> compactionThreshold a then compact (nat (amaxBytes a)) s2 else s2)"
    by (auto simp: extends_def Let_def)
  moreover have "\<not> int (length (fbody frame)) > amaxBytes a" "\<not> amaxFrames a \<le> 0" using fit by linarith+
  ultimately show ?thesis
    using assms(1,2) s lim pos ext
    by (intro exI [of _ s']) (auto simp: addWithDecodeMode_def Let_def simp flip: flagChunk_def)
qed

text \<open>What the assembler holds for a key while its frames \<open>fs\<close> arrive.\<close>

definition holds :: "assembler \<Rightarrow> chunk_key \<Rightarrow> decode_mode \<Rightarrow> native_frame list \<Rightarrow> assembler \<Rightarrow> bool" where
  "holds a0 k mode fs a \<longleftrightarrow> (\<exists>s.
     a = a0\<lparr>achunks := (achunks a0)(k \<mapsto> s),
            abufferedBytes := abufferedBytes a0 + int (sum_list (map (\<lambda>f. length (fbody f)) fs)),
            abufferedFrames := abufferedFrames a0 + int (length fs)\<rparr> \<and>
     frame_key (cfirst s) = k \<and> cmode s = mode \<and> assembledBody s = concat (map fbody fs) \<and>
     cbytes s = sum_list (map (\<lambda>f. length (fbody f)) fs) \<and> cframes s = length fs \<and>
     fflags (cfirst s) = foldr (OR) (map fflags fs) 0 \<and> chunk_ok (amaxBytes a0) s)"

definition chunk_of :: "chunk_key \<Rightarrow> byte \<Rightarrow> native_frame \<Rightarrow> bool" where
  "chunk_of k sf f \<longleftrightarrow> frame_key f = k \<and> validateNativeResponseFlags (fflags f) True = Inr () \<and>
     fflags f AND nativeStableChunkFlags = sf"

lemma or_stable:
  "(\<And>f. f \<in> set fs \<Longrightarrow> fflags f AND m = w) \<Longrightarrow> fs \<noteq> [] \<Longrightarrow> foldr (OR) (map fflags fs) 0 AND m = w"
proof (induction fs)
  case (Cons f fs)
  then show ?case by (cases "fs = []") (auto simp: bit.conj_disj_distrib2)
qed simp

lemma foldr_or_snoc: "foldr (OR) (ws @ [w]) (0 :: byte) = foldr (OR) ws 0 OR w"
  by (induction ws) (simp_all add: or.assoc)

lemma hold_first:
  assumes inv: "asm_inv a0" and new: "achunks a0 k = None" and f: "chunk_of k sf f" "moreChunks f"
    and pos: "0 < amaxBytes a0"
    and bytes: "int (length (fbody f)) \<le> amaxBytes a0 - abufferedBytes a0" and frames: "abufferedFrames a0 < amaxFrames a0"
  shows "holds a0 k mode [f] (fst (addWithDecodeMode f mode a0))"
proof -
  have k: "frame_key f = k" using f(1) by (simp add: chunk_of_def)
  let ?s = "\<lparr>cfirst = f\<lparr>fbody := []\<rparr>, cparts = [], cbody = None, cbytes = 0, cframes = 0, cmode = mode\<rparr>"
  have nn: "0 \<le> abufferedBytes a0" "0 \<le> abufferedFrames a0"
    using inv by (auto simp: asm_inv_def intro: map_total_nonneg)
  have s: "openChunk f mode (achunks a0 (frame_key f)) = Inr ?s" using new k by (simp add: openChunk_def)
  have lim: "chunkLimits a0 f (flagChunk f ?s) = Inr ()"
    using bytes frames nn by (simp add: chunkLimits_def)
  have ok: "chunk_ok (amaxBytes a0) ?s" by (simp add: chunk_ok_def assembledBody_def)
  from add_fits [OF _ _ pos s lim ok] f obtain s' where ext: "extends a0 (fbody f) (flagChunk f ?s) s'"
    and add: "fst (addWithDecodeMode f mode a0) = a0\<lparr>achunks := (achunks a0)(k \<mapsto> s'),
      abufferedBytes := abufferedBytes a0 + int (length (fbody f)), abufferedFrames := abufferedFrames a0 + 1\<rparr>"
    by (auto simp: chunk_of_def k)
  have "chunk_ok (amaxBytes a0) (flagChunk f ?s)" using ok by simp
  note ex = extends_ok [OF ext this pos]
  have "frame_key (cfirst s') = k" using ex(5) limits_fit(1) [OF lim] k
    by (simp add: flagChunk_def frame_key_def)
  then show ?thesis unfolding holds_def add using ex limits_fit(1) [OF lim] ok
    by (intro exI [of _ s']) (simp add: flagChunk_def assembledBody_def)
qed

lemma hold_step:
  assumes h: "holds a0 k mode fs a" and fs: "fs \<noteq> []" "\<And>g. g \<in> set fs \<Longrightarrow> chunk_of k sf g"
    and f: "chunk_of k sf f" and pos: "0 < amaxBytes a0" and inv: "asm_inv a0"
    and bytes: "int (sum_list (map (\<lambda>f. length (fbody f)) fs)) + int (length (fbody f)) \<le> amaxBytes a0 - abufferedBytes a0"
    and frames: "abufferedFrames a0 + int (length fs) < amaxFrames a0"
  obtains s s' where "achunks a k = Some s" "extends a (fbody f) (flagChunk f s) s'"
    "chunk_ok (amaxBytes a) (flagChunk f s)" "int (length (fbody f)) \<le> amaxBytes a - int (cbytes (flagChunk f s))"
    "addWithDecodeMode f mode a =
      (if moreChunks f then
         (a\<lparr>achunks := (achunks a)(k \<mapsto> s'),
            abufferedBytes := abufferedBytes a + int (length (fbody f)), abufferedFrames := abufferedFrames a + 1\<rparr>,
          Inr None)
       else
         (a\<lparr>achunks := (achunks a)(k := None),
            abufferedBytes := abufferedBytes a + int (length (fbody f)) - int (cbytes s'),
            abufferedFrames := abufferedFrames a + 1 - int (cframes s')\<rparr>,
          ebind (decodeNativeResponseFrameWithCodecsAndMode (cfirst s') (assembledBody s')
             ((fflags (cfirst s') OR fflags f) AND NOT nativeFlagMoreChunks) (acodecs a) (cmode s'))
             (\<lambda>r. Inr (Some r))))"
proof -
  have k: "frame_key f = k" using f by (simp add: chunk_of_def)
  from h obtain s where a: "a = a0\<lparr>achunks := (achunks a0)(k \<mapsto> s),
      abufferedBytes := abufferedBytes a0 + int (sum_list (map (\<lambda>f. length (fbody f)) fs)),
      abufferedFrames := abufferedFrames a0 + int (length fs)\<rparr>"
    and s: "cmode s = mode" "cbytes s = sum_list (map (\<lambda>f. length (fbody f)) fs)" "cframes s = length fs"
      "fflags (cfirst s) = foldr (OR) (map fflags fs) 0" "chunk_ok (amaxBytes a0) s"
    by (auto simp: holds_def)
  have nn: "0 \<le> abufferedBytes a0" "0 \<le> abufferedFrames a0"
    using inv by (auto simp: asm_inv_def intro: map_total_nonneg)
  have "fflags (cfirst s) AND nativeStableChunkFlags = sf"
    unfolding s(4) by (rule or_stable) (use fs in \<open>auto simp: chunk_of_def\<close>)
  then have op: "openChunk f mode (achunks a (frame_key f)) = Inr s"
    using f s(1) by (simp add: openChunk_def a k chunk_of_def)
  have lim: "chunkLimits a f (flagChunk f s) = Inr ()"
    using bytes frames nn s(2,3) by (simp add: chunkLimits_def a)
  have ok: "chunk_ok (amaxBytes a) s" using s(5) by (simp add: a)
  have pos': "0 < amaxBytes a" using pos by (simp add: a)
  from add_fits [OF _ _ pos' op lim ok] f obtain s' where "extends a (fbody f) (flagChunk f s) s'"
    "addWithDecodeMode f mode a =
      (if moreChunks f then
         (a\<lparr>achunks := (achunks a)(k \<mapsto> s'),
            abufferedBytes := abufferedBytes a + int (length (fbody f)), abufferedFrames := abufferedFrames a + 1\<rparr>,
          Inr None)
       else
         (a\<lparr>achunks := (achunks a)(k := None),
            abufferedBytes := abufferedBytes a + int (length (fbody f)) - int (cbytes s'),
            abufferedFrames := abufferedFrames a + 1 - int (cframes s')\<rparr>,
          ebind (decodeNativeResponseFrameWithCodecsAndMode (cfirst s') (assembledBody s')
             ((fflags (cfirst s') OR fflags f) AND NOT nativeFlagMoreChunks) (acodecs a) (cmode s'))
             (\<lambda>r. Inr (Some r))))"
    by (auto simp: chunk_of_def k a)
  then show thesis using that [of s s'] ok limits_fit(1) [OF lim] by (simp add: a)
qed

lemma holds_at:
  assumes "holds a0 k mode fs a" and "achunks a k = Some s"
  shows "a = a0\<lparr>achunks := (achunks a0)(k \<mapsto> s),
      abufferedBytes := abufferedBytes a0 + int (sum_list (map (\<lambda>f. length (fbody f)) fs)),
      abufferedFrames := abufferedFrames a0 + int (length fs)\<rparr>"
    and "frame_key (cfirst s) = k" and "cmode s = mode" and "assembledBody s = concat (map fbody fs)"
    and "cbytes s = sum_list (map (\<lambda>f. length (fbody f)) fs)" and "cframes s = length fs"
    and "fflags (cfirst s) = foldr (OR) (map fflags fs) 0"
  using assms unfolding holds_def by auto

lemma hold_more:
  assumes h: "holds a0 k mode fs a" and fs: "fs \<noteq> []" "\<And>g. g \<in> set fs \<Longrightarrow> chunk_of k sf g"
    and f: "chunk_of k sf f" "moreChunks f" and pos: "0 < amaxBytes a0" and inv: "asm_inv a0"
    and bytes: "int (sum_list (map (\<lambda>f. length (fbody f)) fs)) + int (length (fbody f)) \<le> amaxBytes a0 - abufferedBytes a0"
    and frames: "abufferedFrames a0 + int (length fs) < amaxFrames a0"
  shows "holds a0 k mode (fs @ [f]) (fst (addWithDecodeMode f mode a))"
proof -
  have ma: "amaxBytes a = amaxBytes a0" using h by (auto simp: holds_def)
  obtain s s' where s: "achunks a k = Some s"
    and ext: "extends a (fbody f) (flagChunk f s) s'" and ok: "chunk_ok (amaxBytes a) (flagChunk f s)"
    and fit: "int (length (fbody f)) \<le> amaxBytes a - int (cbytes (flagChunk f s))"
    and add: "fst (addWithDecodeMode f mode a) = a\<lparr>achunks := (achunks a)(k \<mapsto> s'),
      abufferedBytes := abufferedBytes a + int (length (fbody f)), abufferedFrames := abufferedFrames a + 1\<rparr>"
    by (rule hold_step [OF h fs f(1) pos inv bytes frames]) (use f(2) that in auto)
  have "0 < amaxBytes a" using pos ma by simp
  note ex = extends_ok [OF ext ok this fit]
  note a = holds_at(1) [OF h s] and hs = holds_at(2-) [OF h s]
  have "frame_key (cfirst s') = k" "fflags (cfirst s') = foldr (OR) (map fflags (fs @ [f])) 0"
    using ex(5) hs(1,6) foldr_or_snoc [of "map fflags fs" "fflags f"] by (simp_all add: flagChunk_def frame_key_def)
  moreover have "fst (addWithDecodeMode f mode a) = a0\<lparr>achunks := (achunks a0)(k \<mapsto> s'),
      abufferedBytes := abufferedBytes a0 + int (sum_list (map (\<lambda>f. length (fbody f)) (fs @ [f]))),
      abufferedFrames := abufferedFrames a0 + int (length (fs @ [f]))\<rparr>"
    unfolding add by (simp add: a)
  moreover have "cmode s' = mode" "cframes s' = length (fs @ [f])" "chunk_ok (amaxBytes a0) s'"
    "assembledBody s' = concat (map fbody (fs @ [f]))"
    "cbytes s' = sum_list (map (\<lambda>f. length (fbody f)) (fs @ [f]))"
    using ex(1-4,6) hs(2-5) ma by simp_all
  ultimately show ?thesis unfolding holds_def by blast
qed

lemma hold_all:
  assumes inv: "asm_inv a0" and new: "achunks a0 k = None" and pos: "0 < amaxBytes a0"
    and "fs \<noteq> []" and "\<And>f. f \<in> set fs \<Longrightarrow> chunk_of k sf f \<and> moreChunks f"
    and "int (sum_list (map (\<lambda>f. length (fbody f)) fs)) \<le> amaxBytes a0 - abufferedBytes a0"
    and "abufferedFrames a0 + int (length fs) \<le> amaxFrames a0"
  shows "holds a0 k mode fs (fold (\<lambda>f a. fst (addWithDecodeMode f mode a)) fs a0)"
  using assms(4-)
proof (induction fs rule: rev_induct)
  case (snoc f fs)
  show ?case
  proof (cases "fs = []")
    case True
    with snoc.prems show ?thesis by (auto intro!: hold_first [OF inv new _ _ pos])
  next
    case False
    with snoc have "holds a0 k mode fs (fold (\<lambda>f a. fst (addWithDecodeMode f mode a)) fs a0)" by auto
    from hold_more [OF this False _ _ _ pos inv] snoc.prems show ?thesis by auto
  qed
qed simp

lemma decode_by_key:
  assumes "frame_key f = frame_key g"
  shows "decodeNativeResponseFrameWithCodecsAndMode f = decodeNativeResponseFrameWithCodecsAndMode g"
proof -
  have eqs: "frequestID f = frequestID g" "fopcode f = fopcode g" "flaneID f = flaneID g"
    using assms by (simp_all add: frame_key_def)
  show ?thesis by (intro ext) (simp only: decodeNativeResponseFrameWithCodecsAndMode_def eqs)
qed

lemma assembled_response:
  assumes inv: "asm_inv a" and new: "achunks a k = None" and pos: "0 < amaxBytes a"
    and fs: "fs \<noteq> []" "\<And>f. f \<in> set fs \<Longrightarrow> chunk_of k sf f \<and> moreChunks f"
    and l: "chunk_of k sf l" "\<not> moreChunks l"
    and bytes: "int (sum_list (map (\<lambda>f. length (fbody f)) (fs @ [l]))) \<le> amaxBytes a - abufferedBytes a"
    and frames: "abufferedFrames a + int (length (fs @ [l])) \<le> amaxFrames a"
  shows "addWithDecodeMode l mode (fold (\<lambda>f a. fst (addWithDecodeMode f mode a)) fs a) =
    (a, ebind (decodeNativeResponseFrameWithCodecsAndMode l (concat (map fbody (fs @ [l])))
          (foldr (OR) (map fflags (fs @ [l])) 0 AND NOT nativeFlagMoreChunks) (acodecs a) mode)
          (\<lambda>r. Inr (Some r)))"
proof -
  let ?a = "fold (\<lambda>f a. fst (addWithDecodeMode f mode a)) fs a"
  have h: "holds a k mode fs ?a"
    by (rule hold_all [OF inv new pos fs(1)]) (use fs(2) bytes frames in auto)
  have ma: "amaxBytes ?a = amaxBytes a" using h by (auto simp: holds_def)
  obtain s s' where s: "achunks ?a k = Some s"
    and ext: "extends ?a (fbody l) (flagChunk l s) s'" and ok: "chunk_ok (amaxBytes ?a) (flagChunk l s)"
    and fit: "int (length (fbody l)) \<le> amaxBytes ?a - int (cbytes (flagChunk l s))"
    and add: "addWithDecodeMode l mode ?a =
      (?a\<lparr>achunks := (achunks ?a)(k := None),
          abufferedBytes := abufferedBytes ?a + int (length (fbody l)) - int (cbytes s'),
          abufferedFrames := abufferedFrames ?a + 1 - int (cframes s')\<rparr>,
       ebind (decodeNativeResponseFrameWithCodecsAndMode (cfirst s') (assembledBody s')
         ((fflags (cfirst s') OR fflags l) AND NOT nativeFlagMoreChunks) (acodecs ?a) (cmode s')) (\<lambda>r. Inr (Some r)))"
    by (rule hold_step [OF h fs(1) _ l(1) pos inv]) (use fs(2) bytes frames l(2) that in auto)
  have "0 < amaxBytes ?a" using pos ma by simp
  note ex = extends_ok [OF ext ok this fit]
  note a = holds_at(1) [OF h s] and hs = holds_at(2-) [OF h s]
  have "decodeNativeResponseFrameWithCodecsAndMode (cfirst s') = decodeNativeResponseFrameWithCodecsAndMode l"
    by (rule decode_by_key) (use ex(5) hs(1) l(1) in \<open>simp add: flagChunk_def frame_key_def chunk_of_def\<close>)
  moreover have "fflags (cfirst s') OR fflags l = foldr (OR) (map fflags (fs @ [l])) 0"
    using ex(5) hs(6) foldr_or_snoc [of "map fflags fs" "fflags l"] by (simp add: flagChunk_def or.assoc)
  moreover have "(achunks a)(k \<mapsto> s, k := None) = achunks a" using new by auto
  ultimately show ?thesis unfolding add using ex hs by (simp add: a)
qed

subsection \<open>Properties\<close>

lemma buffered_nonneg: "asm_inv a \<Longrightarrow> 0 \<le> abufferedBytes a \<and> 0 \<le> abufferedFrames a"
  by (auto simp: asm_inv_def intro: map_total_nonneg)

text \<open>
  C5. Memory of partial responses is bounded: after any sequence of frames, whatever the server sends,
  the byte and frame counters are exactly the totals over the chunks held, within the configured limits,
  and every grown buffer's capacity is within the byte limit.
\<close>

theorem assembler_memory_bounded:
  "let a = fold assemble_step evs (newNativeResponseAssembler M F codecs) in
    0 \<le> abufferedBytes a \<and> abufferedBytes a \<le> max 0 M \<and>
    0 \<le> abufferedFrames a \<and> abufferedFrames a \<le> max 0 F \<and>
    abufferedBytes a = map_total (\<lambda>s. int (length (assembledBody s))) (achunks a) \<and>
    abufferedFrames a = map_total (\<lambda>s. int (cframes s)) (achunks a) \<and>
    (\<nexists>k s b cap. achunks a k = Some s \<and> cbody s = Some (b, cap) \<and> (M < int cap \<or> cap < length b))"
proof -
  define a where "a = fold assemble_step evs (newNativeResponseAssembler M F codecs)"
  have "asm_inv a \<and> amaxBytes a = M \<and> amaxFrames a = F"
    unfolding a_def by (rule assembler.run_inv) (use new_inv in \<open>simp add: newNativeResponseAssembler_def\<close>)
  then have inv: "asm_inv a" and m: "amaxBytes a = M" "amaxFrames a = F" by auto
  have "map_total (\<lambda>s. int (length (assembledBody s))) (achunks a) = map_total (\<lambda>s. int (cbytes s)) (achunks a)"
    unfolding map_total_def using inv by (intro sum.cong) (auto simp: asm_inv_def chunk_ok_def)
  moreover have "\<nexists>k s b cap. achunks a k = Some s \<and> cbody s = Some (b, cap) \<and> (M < int cap \<or> cap < length b)"
    using inv m by (fastforce simp: asm_inv_def chunk_ok_def)
  ultimately show ?thesis using inv m buffered_nonneg [OF inv]
    unfolding a_def [symmetric] Let_def by (simp add: asm_inv_def)
qed

text \<open>
  C4. Chunking is transparent: a response split into any number of chunks decodes exactly as one body
  with the chunks concatenated, and completing it leaves the assembler as it was before the first chunk.
  The chunks carry the same request, opcode, lane and stable flags, all but the last are marked as
  having more, and they fit the limits together with what is already buffered.
\<close>

theorem chunking_transparent:
  assumes "asm_inv a" and "achunks a k = None" and "0 < amaxBytes a" and "fs \<noteq> []"
    and "\<And>f. f \<in> set fs \<Longrightarrow> chunk_of k sf f \<and> moreChunks f"
    and "chunk_of k sf l" and "\<not> moreChunks l"
    and "int (sum_list (map (\<lambda>f. length (fbody f)) (fs @ [l]))) \<le> amaxBytes a - abufferedBytes a"
    and "abufferedFrames a + int (length (fs @ [l])) \<le> amaxFrames a"
  shows "addWithDecodeMode l mode (fold (\<lambda>f a. fst (addWithDecodeMode f mode a)) fs a) =
    (a, ebind (decodeNativeResponseFrameWithCodecsAndMode l (concat (map fbody (fs @ [l])))
          (foldr (OR) (map fflags (fs @ [l])) 0 AND NOT nativeFlagMoreChunks) (acodecs a) mode)
          (\<lambda>r. Inr (Some r)))"
  by (rule assembled_response [OF assms])

theorem chunking_transparent_witness:
  "addWithDecodeMode (sample_frame\<lparr>fbody := [0]\<rparr>) 0 (fold (\<lambda>f a. fst (addWithDecodeMode f 0 a))
      [sample_frame\<lparr>fflags := 0x20, fbody := [0, 0]\<rparr>] (newNativeResponseAssembler 100 10 no_codecs)) =
   (newNativeResponseAssembler 100 10 no_codecs,
    ebind (decodeNativeResponseFrameWithCodecsAndMode (sample_frame\<lparr>fbody := [0]\<rparr>) [0, 0, 0] 0 no_codecs 0)
      (\<lambda>r. Inr (Some r)))"
  using chunking_transparent [of "newNativeResponseAssembler 100 10 no_codecs" "(7, 0x0101, 1)"
      "[sample_frame\<lparr>fflags := 0x20, fbody := [0, 0]\<rparr>]" 0 "sample_frame\<lparr>fbody := [0]\<rparr>" 0] new_inv
  by (simp add: newNativeResponseAssembler_def chunk_of_def frame_key_def sample_frame_def moreChunks_def
      validateNativeResponseFlags_def nativeResponseWireFlags_def nativeStableChunkFlags_def native_flags)

end
