(* ===== verification/FlowControl.thy ===== *)
theory FlowControl
  imports Interfaces
begin

section \<open>The inflight-credit controller\<close>

text \<open>
  \<open>nativeFlowController\<close> of \<open>src/native_limits.go\<close>: request credits per connection and per lane, a queue
  of waiters per lane, and a list of lanes with waiters that is served round-robin. Each operation is
  the code between taking and releasing the mutex, so an execution is a sequence of these operations.
  \<open>acquire\<close> is two of them: the first grants, refuses or queues; a queued call later either sees
  its ready channel closed or its context done.

  Waiters and elements of the \<open>ready\<close> list are identified by numbers drawn from \<open>nextID\<close>, as Go
  identifies them by address. The doubly linked list of a lane's waiters is the list of their
  identifiers, so \<open>unlinkNativeFlowWaiter\<close> removes one. A waiter's \<open>queue\<close> pointer is compared with the
  lane's queue in \<open>removeQueuedWaiterLocked\<close>; it points there exactly while the waiter is linked in it.
\<close>

subsection \<open>State\<close>

type_synonym lane = "32 word"

datatype flow_error =
    errNativeNoInflightCredit
  | errNativeServerLaneQueueClosed
  | errNativeClientQueueFull
  | errNativeConnectionUnavailable
  | ContextDone
  | CloseCause nat

record flow_waiter =
  wlane :: lane            \<comment> \<open>the lane the waiting call asked for\<close>
  wsettled :: bool
  wgranted :: bool
  werr :: "flow_error option"
  wdone :: bool            \<comment> \<open>the call has returned\<close>

record lane_queue =
  qwaiters :: "nat list"
  qwaiting :: int
  qready :: "nat option"

record flow_controller =
  connectionLimit :: int
  laneWindowLimit :: int
  laneQueueLimit :: int
  laneLimit :: int
  maxQueued :: int
  activeTotal :: int
  activeByLane :: "lane \<rightharpoonup> int"
  queues :: "lane \<rightharpoonup> lane_queue"
  ready :: "(nat \<times> lane) list"
  queuedTotal :: int
  closedErr :: "flow_error option"
  waiters :: "nat \<rightharpoonup> flow_waiter"
  nextID :: nat

definition nativeDefaultConnectionCredits :: int where "nativeDefaultConnectionCredits = 4096"
definition nativeDefaultLaneCredits :: int where "nativeDefaultLaneCredits = 1024"
definition nativeDefaultLaneQueue :: int where "nativeDefaultLaneQueue = 1024"
definition nativeDefaultQueuedRequests :: int where "nativeDefaultQueuedRequests = 65536"

definition newNativeFlowController :: "int \<Rightarrow> int \<Rightarrow> int \<Rightarrow> int option \<Rightarrow> flow_controller" where
  "newNativeFlowController connection laneCredits queueLimit maxQueuedRequests =
     (let connection = (if connection < 0 then nativeDefaultConnectionCredits else connection);
          laneCredits = (if laneCredits < 0 then nativeDefaultLaneCredits else laneCredits);
          queueLimit = (if queueLimit < 0 then nativeDefaultLaneQueue else queueLimit);
          maxQ = (case maxQueuedRequests of None \<Rightarrow> nativeDefaultQueuedRequests
                  | Some n \<Rightarrow> if n < 0 then 0 else n) in
      \<lparr>connectionLimit = connection, laneWindowLimit = laneCredits, laneQueueLimit = queueLimit,
       laneLimit = min laneCredits queueLimit, maxQueued = maxQ, activeTotal = 0, activeByLane = Map.empty,
       queues = Map.empty, ready = [], queuedTotal = 0, closedErr = None, waiters = Map.empty, nextID = 0\<rparr>)"

subsection \<open>Credits\<close>

definition activeIn :: "flow_controller \<Rightarrow> lane \<Rightarrow> int" where
  "activeIn f l = (case activeByLane f l of None \<Rightarrow> 0 | Some n \<Rightarrow> n)"

definition canAcquireLocked :: "flow_controller \<Rightarrow> lane \<Rightarrow> bool" where
  "canAcquireLocked f l \<longleftrightarrow> activeTotal f < connectionLimit f \<and> activeIn f l < laneLimit f"

definition activateLocked :: "lane \<Rightarrow> flow_controller \<Rightarrow> flow_controller" where
  "activateLocked l f = f\<lparr>activeTotal := activeTotal f + 1,
     activeByLane := (activeByLane f)(l \<mapsto> activeIn f l + 1)\<rparr>"

subsection \<open>Queues\<close>

definition removeLaneQueueLocked :: "lane \<Rightarrow> lane_queue \<Rightarrow> flow_controller \<Rightarrow> flow_controller" where
  "removeLaneQueueLocked l q f =
     f\<lparr>ready := (case qready q of None \<Rightarrow> ready f | Some e \<Rightarrow> filter (\<lambda>x. fst x \<noteq> e) (ready f)),
       queues := (queues f)(l := None)\<rparr>"

definition removeQueuedWaiterLocked :: "lane \<Rightarrow> nat \<Rightarrow> flow_controller \<Rightarrow> flow_controller" where
  "removeQueuedWaiterLocked l w f =
     (case queues f l of
        None \<Rightarrow> f
      | Some q \<Rightarrow>
          if w \<notin> set (qwaiters q) \<or> qwaiting q \<le> 0 then f
          else
            let q = q\<lparr>qwaiters := remove1 w (qwaiters q), qwaiting := qwaiting q - 1\<rparr>;
                f = f\<lparr>queues := (queues f)(l \<mapsto> q), queuedTotal := queuedTotal f - 1\<rparr> in
            if qwaiting q = 0 then removeLaneQueueLocked l q f else f)"

definition settledIn :: "flow_controller \<Rightarrow> nat \<Rightarrow> bool" where
  "settledIn f w = (case waiters f w of None \<Rightarrow> True | Some x \<Rightarrow> wsettled x)"

text \<open>\<open>takeWaiterLocked\<close>: unlink waiters from the head until one is not settled.\<close>

fun takeWaiterLocked :: "flow_controller \<Rightarrow> nat list \<Rightarrow> nat option \<times> nat list" where
  "takeWaiterLocked f [] = (None, [])"
| "takeWaiterLocked f (w # ws) = (if settledIn f w then takeWaiterLocked f ws else (Some w, ws))"

definition settleGranted :: "nat \<Rightarrow> flow_controller \<Rightarrow> flow_controller" where
  "settleGranted w f = f\<lparr>waiters := (waiters f)(w := map_option (\<lambda>x. x\<lparr>wgranted := True, wsettled := True\<rparr>) (waiters f w))\<rparr>"

subsection \<open>The pump\<close>

text \<open>
  The inner loop of \<open>pumpLocked\<close> looks at the front of the \<open>ready\<close> list at most \<open>attempts\<close> times: a
  stale element is removed, a lane at its limit moves to the back, otherwise one waiter is granted
  and the loop ends. It returns whether it granted.
\<close>

fun pumpPass :: "nat \<Rightarrow> flow_controller \<Rightarrow> flow_controller \<times> bool" where
  "pumpPass 0 f = (f, False)"
| "pumpPass (Suc attempts) f =
     (if \<not> activeTotal f < connectionLimit f then (f, False)
      else case ready f of
        [] \<Rightarrow> (f, False)
      | (e, l) # rest \<Rightarrow>
          (case queues f l of
             None \<Rightarrow> pumpPass attempts (f\<lparr>ready := rest\<rparr>)
           | Some q \<Rightarrow>
               if qready q \<noteq> Some e \<or> qwaiting q = 0 then pumpPass attempts (f\<lparr>ready := rest\<rparr>)
               else if activeIn f l \<ge> laneLimit f then pumpPass attempts (f\<lparr>ready := rest @ [(e, l)]\<rparr>)
               else
                 (case takeWaiterLocked f (qwaiters q) of
                    (None, ws) \<Rightarrow> pumpPass attempts (removeLaneQueueLocked l (q\<lparr>qwaiters := ws\<rparr>) f)
                  | (Some w, ws) \<Rightarrow>
                      let q = q\<lparr>qwaiters := ws, qwaiting := qwaiting q - 1\<rparr>;
                          f = f\<lparr>queues := (queues f)(l \<mapsto> q), queuedTotal := queuedTotal f - 1\<rparr>;
                          f = (if qwaiting q = 0 then removeLaneQueueLocked l q f
                               else f\<lparr>ready := rest @ [(e, l)]\<rparr>) in
                      (settleGranted w (activateLocked l f), True))))"

lemma pumpPass_active:
  "pumpPass n f = (f', g) \<Longrightarrow> connectionLimit f' = connectionLimit f \<and> closedErr f' = closedErr f \<and>
     activeTotal f' = activeTotal f + (if g then 1 else 0) \<and> (g \<longrightarrow> activeTotal f < connectionLimit f)"
proof (induction n arbitrary: f)
  case (Suc n)
  show ?case
    using Suc.prems
    by (auto simp: Let_def removeLaneQueueLocked_def activateLocked_def settleGranted_def
        split: if_splits list.splits option.splits prod.splits dest!: Suc.IH)
qed simp

function pumpLocked :: "flow_controller \<Rightarrow> flow_controller" where
  "pumpLocked f =
     (if closedErr f = None \<and> activeTotal f < connectionLimit f \<and> ready f \<noteq> [] then
        (case pumpPass (length (ready f)) f of
           (f', granted) \<Rightarrow> if granted then pumpLocked f' else f')
      else f)"
  by pat_completeness auto
termination
  by (relation "measure (\<lambda>f. nat (connectionLimit f - activeTotal f))") (auto dest!: pumpPass_active [OF sym])

declare pumpLocked.simps [simp del]

subsection \<open>Operations\<close>

datatype acquire_result = Granted | Refused flow_error | Queued nat

definition acquire :: "bool \<Rightarrow> lane \<Rightarrow> flow_controller \<Rightarrow> flow_controller \<times> acquire_result" where
  "acquire ctxDone l f =
     (if ctxDone then (f, Refused ContextDone) else
      case closedErr f of
        Some e \<Rightarrow> (f, Refused e)
      | None \<Rightarrow>
          if laneQueueLimit f = 0 then (f, Refused errNativeServerLaneQueueClosed)
          else if connectionLimit f = 0 \<or> laneLimit f = 0 then (f, Refused errNativeNoInflightCredit)
          else if canAcquireLocked f l then (activateLocked l f, Granted)
          else if queuedTotal f \<ge> maxQueued f then (f, Refused errNativeClientQueueFull)
          else
            let w = nextID f;
                q = (case queues f l of None \<Rightarrow> \<lparr>qwaiters = [], qwaiting = 0, qready = None\<rparr> | Some q \<Rightarrow> q);
                q = q\<lparr>qwaiters := qwaiters q @ [w], qwaiting := qwaiting q + 1\<rparr>;
                e = w + 1 in
            (f\<lparr>waiters := (waiters f)(w \<mapsto> \<lparr>wlane = l, wsettled = False, wgranted = False, werr = None, wdone = False\<rparr>),
               queuedTotal := queuedTotal f + 1, nextID := nextID f + 2,
               queues := (queues f)(l \<mapsto> (if qready q = None then q\<lparr>qready := Some e\<rparr> else q)),
               ready := (if qready q = None then ready f @ [(e, l)] else ready f)\<rparr>, Queued w))"

definition release :: "lane \<Rightarrow> flow_controller \<Rightarrow> flow_controller" where
  "release l f =
     (let active = activeIn f l in
      if active \<le> 0 then f
      else
        let f = f\<lparr>activeTotal := activeTotal f - 1,
                  activeByLane := (if active = 1 then (activeByLane f)(l := None)
                                   else (activeByLane f)(l \<mapsto> active - 1))\<rparr> in
        if closedErr f = None then pumpLocked f else f)"

text \<open>The ready branch of a queued call: its channel was closed, by a grant or by closing.\<close>

definition wakeWaiter :: "nat \<Rightarrow> flow_controller \<Rightarrow> flow_controller \<times> acquire_result option" where
  "wakeWaiter w f =
     (case waiters f w of
        None \<Rightarrow> (f, None)
      | Some x \<Rightarrow>
          if wdone x \<or> \<not> wsettled x then (f, None)
          else (f\<lparr>waiters := (waiters f)(w \<mapsto> x\<lparr>wdone := True\<rparr>)\<rparr>,
                Some (case werr x of
                  Some e \<Rightarrow> Refused e
                | None \<Rightarrow> if \<not> wgranted x then Refused errNativeConnectionUnavailable else Granted)))"

text \<open>The \<open>ctx.Done\<close> branch: leave the queue, or give back a credit that was granted meanwhile.\<close>

definition cancelWaiter :: "nat \<Rightarrow> flow_controller \<Rightarrow> flow_controller" where
  "cancelWaiter w f =
     (case waiters f w of
        None \<Rightarrow> f
      | Some x \<Rightarrow>
          if wdone x then f
          else if \<not> wsettled x then
            removeQueuedWaiterLocked (wlane x) w
              (f\<lparr>waiters := (waiters f)(w \<mapsto> x\<lparr>wsettled := True, wdone := True\<rparr>)\<rparr>)
          else
            let f = f\<lparr>waiters := (waiters f)(w \<mapsto> x\<lparr>wdone := True\<rparr>)\<rparr> in
            if wgranted x then release (wlane x) f else f)"

definition updateLimits :: "int option \<Rightarrow> int option \<Rightarrow> flow_controller \<Rightarrow> flow_controller" where
  "updateLimits connection laneCredits f =
     (let f = (case connection of Some n \<Rightarrow> if n \<ge> 0 then f\<lparr>connectionLimit := n\<rparr> else f | None \<Rightarrow> f);
          f = (case laneCredits of Some n \<Rightarrow> if n \<ge> 0 then f\<lparr>laneWindowLimit := n\<rparr> else f | None \<Rightarrow> f);
          f = f\<lparr>laneLimit := min (laneWindowLimit f) (laneQueueLimit f)\<rparr> in
      if closedErr f = None then pumpLocked f else f)"

text \<open>\<open>close\<close> walks the queue of every lane and settles the waiters it finds with the error.\<close>

definition queueOf :: "flow_controller \<Rightarrow> lane \<Rightarrow> nat list" where
  "queueOf f l = (case queues f l of None \<Rightarrow> [] | Some q \<Rightarrow> qwaiters q)"

definition closeFlow :: "flow_error option \<Rightarrow> flow_controller \<Rightarrow> flow_controller" where
  "closeFlow err f =
     (if closedErr f \<noteq> None then f
      else
        let e = (case err of None \<Rightarrow> errNativeConnectionUnavailable | Some e \<Rightarrow> e) in
        f\<lparr>closedErr := Some e,
          waiters := (\<lambda>w. map_option (\<lambda>x.
            if w \<in> set (queueOf f (wlane x)) \<and> \<not> wsettled x then x\<lparr>wsettled := True, werr := Some e\<rparr> else x)
            (waiters f w)),
          queues := Map.empty, ready := [], queuedTotal := 0\<rparr>)"

datatype flow_event =
    EAcquire bool lane
  | EWake nat
  | ECancel nat
  | ERelease lane
  | EUpdate "int option" "int option"
  | EClose "flow_error option"

fun flow_step :: "flow_event \<Rightarrow> flow_controller \<Rightarrow> flow_controller" where
  "flow_step (EAcquire d l) f = fst (acquire d l f)"
| "flow_step (EWake w) f = fst (wakeWaiter w f)"
| "flow_step (ECancel w) f = cancelWaiter w f"
| "flow_step (ERelease l) f = release l f"
| "flow_step (EUpdate c l) f = updateLimits c l f"
| "flow_step (EClose e) f = closeFlow e f"

end
