(* ===== verification/FlowCorrect.thy ===== *)
theory FlowCorrect
  imports FlowControl
begin

section \<open>Correctness of the inflight-credit controller\<close>

text \<open>
  The invariant of \<open>nativeFlowController\<close> and that every operation keeps it; what one pass of the pump
  does. The properties are in \<open>FlowProperties\<close>.
\<close>

subsection \<open>The invariant\<close>

definition active_ok :: "flow_controller \<Rightarrow> bool" where
  "active_ok f \<longleftrightarrow> finite (dom (activeByLane f)) \<and> (\<forall>l n. activeByLane f l = Some n \<longrightarrow> 0 < n) \<and>
     activeTotal f = map_total (\<lambda>n. n) (activeByLane f)"

definition pending_waiter :: "flow_controller \<Rightarrow> lane \<Rightarrow> nat \<Rightarrow> bool" where
  "pending_waiter f l w \<longleftrightarrow> (\<exists>x. waiters f w = Some x \<and> wlane x = l \<and> \<not> wsettled x \<and> \<not> wgranted x \<and> \<not> wdone x)"

definition queue_ok :: "flow_controller \<Rightarrow> lane \<Rightarrow> lane_queue \<Rightarrow> bool" where
  "queue_ok f l q \<longleftrightarrow> qwaiting q = int (length (qwaiters q)) \<and> qwaiters q \<noteq> [] \<and> distinct (qwaiters q) \<and>
     (\<forall>w \<in> set (qwaiters q). pending_waiter f l w) \<and> (\<exists>e. qready q = Some e \<and> (e, l) \<in> set (ready f))"

definition ready_ok :: "flow_controller \<Rightarrow> bool" where
  "ready_ok f \<longleftrightarrow> distinct (map fst (ready f)) \<and>
     (\<forall>e l. (e, l) \<in> set (ready f) \<longrightarrow> e < nextID f \<and> (\<exists>q. queues f l = Some q \<and> qready q = Some e))"

definition queues_ok :: "flow_controller \<Rightarrow> bool" where
  "queues_ok f \<longleftrightarrow> finite (dom (queues f)) \<and> (\<forall>l q. queues f l = Some q \<longrightarrow> queue_ok f l q) \<and>
     queuedTotal f = map_total qwaiting (queues f) \<and> queuedTotal f \<le> maxQueued f"

definition limits_ok :: "flow_controller \<Rightarrow> bool" where
  "limits_ok f \<longleftrightarrow> 0 \<le> connectionLimit f \<and> 0 \<le> laneWindowLimit f \<and> 0 \<le> laneQueueLimit f \<and>
     laneLimit f = min (laneWindowLimit f) (laneQueueLimit f) \<and> 0 \<le> maxQueued f"

definition settled_ok :: "flow_controller \<Rightarrow> bool" where
  "settled_ok f \<longleftrightarrow> (\<forall>w x. waiters f w = Some x \<longrightarrow>
     w < nextID f \<and> (wgranted x \<longrightarrow> wsettled x) \<and> (wdone x \<longrightarrow> wsettled x) \<and>
     (\<not> wsettled x \<longrightarrow> w \<in> set (queueOf f (wlane x))))"

definition core_inv :: "flow_controller \<Rightarrow> bool" where
  "core_inv f \<longleftrightarrow> active_ok f \<and> queues_ok f \<and> ready_ok f \<and> limits_ok f \<and> settled_ok f \<and>
     (closedErr f \<noteq> None \<longrightarrow> queues f = Map.empty)"

text \<open>Work conservation: as long as the controller is open, no lane with waiters could be given a credit.\<close>

definition no_idle_credit :: "flow_controller \<Rightarrow> bool" where
  "no_idle_credit f \<longleftrightarrow> (\<forall>l \<in> dom (queues f). \<not> canAcquireLocked f l)"

definition flow_inv :: "flow_controller \<Rightarrow> bool" where
  "flow_inv f \<longleftrightarrow> core_inv f \<and> no_idle_credit f"

lemmas core_defs = core_inv_def active_ok_def queues_ok_def ready_ok_def limits_ok_def settled_ok_def

lemma new_flow_inv: "flow_inv (newNativeFlowController c l q m)"
  by (auto simp: flow_inv_def core_defs no_idle_credit_def newNativeFlowController_def Let_def
      nativeDefaultConnectionCredits_def nativeDefaultLaneCredits_def nativeDefaultLaneQueue_def
      nativeDefaultQueuedRequests_def split: option.splits)

subsection \<open>Facts about controllers in the invariant\<close>

lemma core_parts:
  assumes "core_inv f"
  shows core_active: "active_ok f" and core_queues: "queues_ok f" and core_ready: "ready_ok f"
    and core_limits: "limits_ok f" and core_settled: "settled_ok f"
    and core_closed: "closedErr f \<noteq> None \<Longrightarrow> queues f = Map.empty"
  using assms by (simp_all add: core_inv_def)

lemma core_queue: "core_inv f \<Longrightarrow> queues f l = Some q \<Longrightarrow> queue_ok f l q"
  using core_queues [of f] by (simp add: queues_ok_def)

lemma activeIn_old: "activeIn f l = old_value (\<lambda>n. n) (activeByLane f l)"
  by (simp add: activeIn_def old_value_def)

lemma activeIn_nonneg: "core_inv f \<Longrightarrow> 0 \<le> activeIn f l"
  using core_active [of f] by (auto simp: active_ok_def activeIn_def intro: less_imp_le split: option.splits)

lemma activeIn_le_total:
  assumes "core_inv f"
  shows "activeIn f l \<le> activeTotal f"
proof (cases "activeByLane f l")
  case None
  have "0 \<le> map_total (\<lambda>n. n) (activeByLane f)"
    using core_active [OF assms] by (intro map_total_nonneg) (auto simp: active_ok_def less_imp_le)
  with None core_active [OF assms] show ?thesis by (simp add: activeIn_def active_ok_def)
next
  case (Some n)
  with core_active [OF assms] map_total_ge [of "activeByLane f" "\<lambda>n. n" l n] show ?thesis
    by (auto simp: activeIn_def active_ok_def less_imp_le)
qed

lemma queued_waiter:
  "core_inv f \<Longrightarrow> queues f l = Some q \<Longrightarrow> w \<in> set (qwaiters q) \<Longrightarrow> pending_waiter f l w"
  using core_queue [of f l q] by (simp add: queue_ok_def)

lemma take_head:
  assumes "core_inv f" and "queues f l = Some q"
  obtains w ws where "qwaiters q = w # ws" and "takeWaiterLocked f (qwaiters q) = (Some w, ws)"
proof (cases "qwaiters q")
  case Nil
  with core_queue [OF assms] show thesis by (simp add: queue_ok_def)
next
  case (Cons w ws)
  then have "pending_waiter f l w" using queued_waiter [OF assms, of w] by simp
  then have "\<not> settledIn f w" by (auto simp: pending_waiter_def settledIn_def)
  with Cons that show thesis by simp
qed

lemma ready_front:
  assumes "core_inv f" and "(e, l) \<in> set (ready f)"
  obtains q where "queues f l = Some q" and "qready q = Some e" and "qwaiting q \<noteq> 0"
proof -
  from core_ready [OF assms(1)] assms(2) obtain q where q: "queues f l = Some q" "qready q = Some e"
    by (auto simp: ready_ok_def)
  with core_queue [OF assms(1) q(1)] that show thesis by (simp add: queue_ok_def)
qed

lemma ready_lane_unique:
  "core_inv f \<Longrightarrow> (e, l) \<in> set (ready f) \<Longrightarrow> (e', l) \<in> set (ready f) \<Longrightarrow> e' = e"
  by (metis option.inject ready_front)

lemma ready_covers: "core_inv f \<Longrightarrow> queues f l = Some q \<Longrightarrow> \<exists>e. (e, l) \<in> set (ready f)"
  using core_queue [of f l q] by (auto simp: queue_ok_def)

text \<open>The parts of the invariant that a change to other fields leaves alone.\<close>

lemma pending_waiter_fields [simp]:
  "pending_waiter (f\<lparr>ready := r\<rparr>) = pending_waiter f"
  "pending_waiter (f\<lparr>activeTotal := a\<rparr>) = pending_waiter f"
  "pending_waiter (f\<lparr>activeByLane := b\<rparr>) = pending_waiter f"
  "pending_waiter (f\<lparr>queues := qs\<rparr>) = pending_waiter f"
  "pending_waiter (f\<lparr>queuedTotal := n\<rparr>) = pending_waiter f"
  "pending_waiter (f\<lparr>connectionLimit := n\<rparr>) = pending_waiter f"
  "pending_waiter (f\<lparr>laneWindowLimit := n\<rparr>) = pending_waiter f"
  "pending_waiter (f\<lparr>laneLimit := n\<rparr>) = pending_waiter f"
  by (simp_all add: pending_waiter_def fun_eq_iff)

lemma activeIn_fields [simp]:
  "activeIn (f\<lparr>ready := r\<rparr>) = activeIn f"
  "activeIn (f\<lparr>queues := qs\<rparr>) = activeIn f"
  "activeIn (f\<lparr>waiters := ws\<rparr>) = activeIn f"
  "activeIn (f\<lparr>queuedTotal := n\<rparr>) = activeIn f"
  "activeIn (f\<lparr>connectionLimit := n\<rparr>) = activeIn f"
  "activeIn (f\<lparr>laneWindowLimit := n\<rparr>) = activeIn f"
  "activeIn (f\<lparr>laneLimit := n\<rparr>) = activeIn f"
  "activeIn (f\<lparr>nextID := i\<rparr>) = activeIn f"
  "activeIn (f\<lparr>closedErr := err\<rparr>) = activeIn f"
  by (simp_all add: activeIn_def fun_eq_iff)

lemma core_ready_perm:
  assumes "core_inv f" and "set r = set (ready f)" and "distinct (map fst r)"
  shows "core_inv (f\<lparr>ready := r\<rparr>)"
  using core_parts [OF assms(1)] assms(2,3) unfolding core_inv_def
  by (simp add: active_ok_def queues_ok_def queue_ok_def ready_ok_def limits_ok_def settled_ok_def queueOf_def)

subsection \<open>One pass of the pump\<close>

text \<open>The state after the pump has given a credit to \<open>w\<close>, the first waiter of the lane in front.\<close>

definition served :: "nat \<Rightarrow> lane \<Rightarrow> (nat \<times> lane) list \<Rightarrow> lane_queue \<Rightarrow> nat \<Rightarrow> nat list \<Rightarrow> flow_controller \<Rightarrow> flow_controller" where
  "served e l rest q w ws f = f\<lparr>
     activeTotal := activeTotal f + 1,
     activeByLane := (activeByLane f)(l \<mapsto> activeIn f l + 1),
     queues := (queues f)(l := if ws = [] then None else Some (q\<lparr>qwaiters := ws, qwaiting := qwaiting q - 1\<rparr>)),
     ready := (if ws = [] then rest else rest @ [(e, l)]),
     queuedTotal := queuedTotal f - 1,
     waiters := (waiters f)(w := map_option (\<lambda>x. x\<lparr>wgranted := True, wsettled := True\<rparr>) (waiters f w))\<rparr>"

lemma pumpPass_blocked:
  assumes "core_inv f" and "activeTotal f < connectionLimit f" and "ready f = (e, l) # rest"
    and "laneLimit f \<le> activeIn f l"
  shows "pumpPass (Suc n) f = pumpPass n (f\<lparr>ready := rest @ [(e, l)]\<rparr>)"
proof -
  obtain q where "queues f l = Some q" "qready q = Some e" "qwaiting q \<noteq> 0"
    using ready_front [OF assms(1), of e l] assms(3) by auto
  with assms show ?thesis by simp
qed

lemma pumpPass_serve:
  assumes "core_inv f" and "activeTotal f < connectionLimit f" and "ready f = (e, l) # rest"
    and "activeIn f l < laneLimit f"
  obtains q w ws where "queues f l = Some q" and "qready q = Some e" and "qwaiters q = w # ws"
    and "pumpPass (Suc n) f = (served e l rest q w ws f, True)"
proof -
  obtain q where q: "queues f l = Some q" "qready q = Some e" "qwaiting q \<noteq> 0"
    using ready_front [OF assms(1), of e l] assms(3) by auto
  obtain w ws where w: "qwaiters q = w # ws" "takeWaiterLocked f (qwaiters q) = (Some w, ws)"
    using take_head [OF assms(1) q(1)] by blast
  have len: "qwaiting q = int (length ws) + 1"
    using core_queue [OF assms(1) q(1)] w(1) by (simp add: queue_ok_def)
  have "e \<notin> fst ` set rest" using core_ready [OF assms(1)] assms(3) by (simp add: ready_ok_def)
  then have rest: "filter (\<lambda>x. fst x \<noteq> e) rest = rest" by (auto intro!: filter_True)
  have "pumpPass (Suc n) f = (served e l rest q w ws f, True)"
    using assms(2,3,4) q w len rest
    by (simp add: served_def Let_def removeLaneQueueLocked_def activateLocked_def settleGranted_def activeIn_def)
  with q w that show thesis by blast
qed

lemma served_active:
  "active_ok f \<Longrightarrow> 0 \<le> activeIn f l \<Longrightarrow> active_ok (served e l rest q w ws f)"
  by (auto simp: active_ok_def served_def map_total_upd activeIn_old)

lemma served_queueOf [simp]:
  "queueOf (served e l rest q w ws f) l' = (if l' = l then ws else queueOf f l')"
  by (simp add: queueOf_def served_def)

lemma served_ready [simp]: "served e l rest q w ws (f\<lparr>ready := r\<rparr>) = served e l rest q w ws f"
  by (simp add: served_def)

lemma served_pending:
  "pending_waiter f l' v \<Longrightarrow> v \<noteq> w \<Longrightarrow> pending_waiter (served e l rest q w ws f) l' v"
  by (simp add: pending_waiter_def served_def)

lemma served_queue:
  assumes f: "core_inv f" and r: "ready f = (e, l) # rest"
    and q: "queues f l = Some q" "qready q = Some e" "qwaiters q = w # ws"
    and l': "queues (served e l rest q w ws f) l' = Some q'"
  shows "queue_ok (served e l rest q w ws f) l' q'"
proof (cases "l' = l")
  case True
  with l' have q': "q' = q\<lparr>qwaiters := ws, qwaiting := qwaiting q - 1\<rparr>" and "ws \<noteq> []"
    by (auto simp: served_def split: if_splits)
  have "\<forall>v \<in> set ws. pending_waiter (served e l rest q w ws f) l v"
    using core_queue [OF f q(1)] q(3) by (auto simp: queue_ok_def intro!: served_pending)
  with True q' \<open>ws \<noteq> []\<close> q core_queue [OF f q(1)] show ?thesis by (simp add: queue_ok_def served_def)
next
  case False
  with l' have q': "queues f l' = Some q'" by (simp add: served_def)
  have "w \<notin> set (qwaiters q')"
    using queued_waiter [OF f q', of w] queued_waiter [OF f q(1), of w] q(3) False
    by (auto simp: pending_waiter_def)
  then have "\<forall>v \<in> set (qwaiters q'). pending_waiter (served e l rest q w ws f) l' v"
    using core_queue [OF f q'] by (auto simp: queue_ok_def intro!: served_pending)
  with core_queue [OF f q'] False r show ?thesis by (auto simp: queue_ok_def served_def)
qed

lemma served_core:
  assumes f: "core_inv f" and r: "ready f = (e, l) # rest"
    and q: "queues f l = Some q" "qready q = Some e" "qwaiters q = w # ws"
  shows "core_inv (served e l rest q w ws f)"
proof -
  let ?f = "served e l rest q w ws f"
  have w: "pending_waiter f l w" using queued_waiter [OF f q(1)] q(3) by simp
  have len: "qwaiting q = int (length ws) + 1" using core_queue [OF f q(1)] q(3) by (simp add: queue_ok_def)
  have rest: "e' \<noteq> e \<and> l' \<noteq> l" if "(e', l') \<in> set rest" for e' l'
    using core_ready [OF f] r that ready_lane_unique [OF f, of e l e'] by (force simp: ready_ok_def)
  have "queuedTotal ?f = map_total qwaiting (queues ?f)"
    using core_queues [OF f] q(1) len by (auto simp: served_def queues_ok_def map_total_upd map_total_del)
  then have qs_ok: "queues_ok ?f"
    using core_queues [OF f] served_queue [OF f r q] by (simp add: queues_ok_def served_def)
  have r_ok: "ready_ok ?f"
    using core_ready [OF f] r rest q(1,2) by (fastforce simp: ready_ok_def served_def)
  have "queueOf f l = w # ws" using q by (simp add: queueOf_def)
  moreover have "nextID ?f = nextID f" by (simp add: served_def)
  ultimately have s_ok: "settled_ok ?f"
    using core_settled [OF f] w unfolding settled_ok_def served_queueOf
    by (force simp: served_def pending_waiter_def split: if_splits)
  have "active_ok ?f" using served_active core_active [OF f] activeIn_nonneg [OF f] by blast
  moreover have "limits_ok ?f" using core_limits [OF f] by (simp add: limits_ok_def served_def)
  moreover have "closedErr ?f = None"
    using core_closed [OF f] q(1) by (cases "closedErr f") (simp_all add: served_def)
  ultimately show ?thesis using qs_ok r_ok s_ok by (simp add: core_inv_def)
qed

text \<open>
  A pass looks at the lanes in order. It grants to the first one below its limit and moves the lanes
  before it to the back; or, when there is none among them, it only rotates the list.
\<close>

lemma core_rotate:
  "core_inv f \<Longrightarrow> ready f = r1 @ r2 \<Longrightarrow> core_inv (f\<lparr>ready := r2 @ r1\<rparr>)"
  using core_ready [of f] by (intro core_ready_perm) (auto simp: ready_ok_def)

lemma pumpPass_spec:
  assumes "core_inv f" and "activeTotal f < connectionLimit f" and "n \<le> length (ready f)"
  shows "(\<forall>(e, l) \<in> set (take n (ready f)). laneLimit f \<le> activeIn f l) \<and>
       pumpPass n f = (f\<lparr>ready := drop n (ready f) @ take n (ready f)\<rparr>, False) \<or>
     (\<exists>pre e l post q w ws. ready f = pre @ (e, l) # post \<and> (\<forall>(e, l) \<in> set pre. laneLimit f \<le> activeIn f l) \<and>
       activeIn f l < laneLimit f \<and> queues f l = Some q \<and> qready q = Some e \<and> qwaiters q = w # ws \<and>
       pumpPass n f = (served e l (post @ pre) q w ws f, True))"
  using assms
proof (induction n arbitrary: f)
  case 0
  then show ?case by simp
next
  case (Suc n)
  from Suc.prems(3) obtain e l rest where r: "ready f = (e, l) # rest"
    by (cases "ready f") auto
  show ?case
  proof (cases "laneLimit f \<le> activeIn f l")
    case False
    then have "activeIn f l < laneLimit f" by simp
    from pumpPass_serve [OF Suc.prems(1,2) r this, of n] obtain q w ws where
      "queues f l = Some q" "qready q = Some e" "qwaiters q = w # ws"
      "pumpPass (Suc n) f = (served e l rest q w ws f, True)" by blast
    with r False show ?thesis
      by (intro disjI2 exI [of _ "[]"] exI [of _ e] exI [of _ l] exI [of _ rest]) auto
  next
    case True
    let ?f = "f\<lparr>ready := rest @ [(e, l)]\<rparr>"
    have core: "core_inv ?f" using core_rotate [OF Suc.prems(1), of "[(e, l)]" rest] r by simp
    have eq: "pumpPass (Suc n) f = pumpPass n ?f" by (rule pumpPass_blocked [OF Suc.prems(1,2) r True])
    have n: "n \<le> length rest" using Suc.prems(3) r by simp
    from Suc.prems(2) n have "activeTotal ?f < connectionLimit ?f" "n \<le> length (ready ?f)" by simp_all
    from Suc.IH [OF core this] show ?thesis
    proof (elim disjE exE conjE, goal_cases)
      case 1
      with r n True show ?thesis unfolding eq by (intro disjI1) simp
    next
      case (2 pre e' l' post q w ws)
      have "post \<noteq> []" using 2(1,3) True by auto
      then obtain post' where post: "post = post' @ [(e, l)]" using 2(1) by (cases post rule: rev_cases) auto
      show ?thesis
        using 2 r True post unfolding eq
        by (intro disjI2 exI [of _ "(e, l) # pre"] exI [of _ e'] exI [of _ l'] exI [of _ post']) auto
    qed
  qed
qed

subsection \<open>The pump as a sequence of grants\<close>

text \<open>
  One grant serves the first lane of the ready list that is below its limit, while the connection has
  credit. \<open>pumpLocked\<close> is a sequence of grants after which no lane with waiters can be served.
\<close>

inductive grants :: "flow_controller \<Rightarrow> flow_controller \<Rightarrow> bool" where
  grants_none: "grants f f"
| grants_one: "grants f g \<Longrightarrow> activeTotal g < connectionLimit g \<Longrightarrow> ready g = pre @ (e, l) # post \<Longrightarrow>
    \<forall>(e, l) \<in> set pre. laneLimit g \<le> activeIn g l \<Longrightarrow> activeIn g l < laneLimit g \<Longrightarrow>
    queues g l = Some q \<Longrightarrow> qready q = Some e \<Longrightarrow> qwaiters q = w # ws \<Longrightarrow>
    grants f (served e l (post @ pre) q w ws g)"

lemma grants_trans: "grants g h \<Longrightarrow> grants f g \<Longrightarrow> grants f h"
  by (induction rule: grants.induct) (auto intro: grants.intros)

lemma grants_core: "grants f g \<Longrightarrow> core_inv f \<Longrightarrow> core_inv g"
proof (induction rule: grants.induct)
  case (grants_one f g pre e l post q w ws)
  have "core_inv (g\<lparr>ready := (e, l) # post @ pre\<rparr>)"
    using core_rotate [of g pre "(e, l) # post"] grants_one by simp
  from served_core [OF this] grants_one.hyps show ?case by (simp add: served_def)
qed

lemma grants_same:
  "grants f g \<Longrightarrow> connectionLimit g = connectionLimit f \<and> laneLimit g = laneLimit f \<and>
     closedErr g = closedErr f \<and> nextID g = nextID f \<and> maxQueued g = maxQueued f \<and>
     laneWindowLimit g = laneWindowLimit f \<and> laneQueueLimit g = laneQueueLimit f"
  by (induction rule: grants.induct) (simp_all add: served_def)

lemma served_activeIn: "activeIn (served e l rest q w ws g) l' = activeIn g l' + (if l' = l then 1 else 0)"
  by (simp add: served_def activeIn_def)

lemma grants_active:
  "grants f g \<Longrightarrow> activeTotal f \<le> activeTotal g \<and> activeTotal g \<le> max (activeTotal f) (connectionLimit f) \<and>
     activeIn g l \<le> max (activeIn f l) (laneLimit f)"
proof (induction rule: grants.induct)
  case (grants_one f g pre e l' post q w ws)
  with grants_same [OF grants_one.hyps(1)] show ?case by (auto simp: served_activeIn) (auto simp: served_def)
qed simp

text \<open>Grants take waiters from the front of a lane's queue, and touch no other waiter.\<close>

definition grantedIn :: "flow_controller \<Rightarrow> nat \<Rightarrow> bool" where
  "grantedIn f w = (case waiters f w of None \<Rightarrow> False | Some x \<Rightarrow> wgranted x)"

lemma grants_fifo:
  "grants f g \<Longrightarrow> core_inv f \<Longrightarrow>
     \<exists>served. queueOf f l = served @ queueOf g l \<and> activeIn g l = activeIn f l + int (length served) \<and>
       (\<forall>w \<in> set served. grantedIn g w)"
proof (induction rule: grants.induct)
  case (grants_none f)
  then show ?case by simp
next
  case (grants_one f g pre e l' post q w ws)
  then obtain sv where sv: "queueOf f l = sv @ queueOf g l" "activeIn g l = activeIn f l + int (length sv)"
    "\<forall>w \<in> set sv. grantedIn g w" by blast
  have core: "core_inv g" using grants_core grants_one by blast
  have "pending_waiter g l' w" using queued_waiter [OF core grants_one.hyps(6)] grants_one.hyps(8) by simp
  then have w: "grantedIn (served e l' (post @ pre) q w ws g) w"
    by (auto simp: grantedIn_def served_def pending_waiter_def)
  have keep: "grantedIn (served e l' (post @ pre) q w ws g) v" if "grantedIn g v" for v
    using that by (auto simp: grantedIn_def served_def split: option.splits)
  show ?case
  proof (cases "l' = l")
    case True
    then have "queueOf g l = w # ws" using grants_one.hyps(6,8) by (simp add: queueOf_def)
    with sv w keep True show ?thesis by (intro exI [of _ "sv @ [w]"]) (simp add: served_activeIn)
  next
    case False
    with sv keep show ?thesis by (intro exI [of _ sv]) (simp add: served_activeIn)
  qed
qed

lemma pump_spec:
  "core_inv f \<Longrightarrow> grants f (pumpLocked f) \<and> (closedErr f = None \<longrightarrow> no_idle_credit (pumpLocked f))"
proof (induction f rule: pumpLocked.induct)
  case (1 f)
  note core = 1(2)
  show ?case
  proof (cases "closedErr f = None \<and> activeTotal f < connectionLimit f \<and> ready f \<noteq> []")
    case False
    then have "closedErr f = None \<Longrightarrow> no_idle_credit f"
      using ready_covers [OF core] by (fastforce simp: no_idle_credit_def canAcquireLocked_def)
    with False show ?thesis by (auto simp: pumpLocked.simps [of f] grants_none)
  next
    case True
    then have act: "activeTotal f < connectionLimit f" by simp
    from pumpPass_spec [OF core act order.refl] show ?thesis
    proof (elim disjE exE conjE, goal_cases)
      case 1
      then have "pumpLocked f = f" using True by (simp add: pumpLocked.simps [of f])
      moreover have "no_idle_credit f"
        unfolding no_idle_credit_def canAcquireLocked_def using 1 ready_covers [OF core] by fastforce
      ultimately show ?thesis by (simp add: grants_none)
    next
      case (2 pre e l post q w ws)
      let ?g = "served e l (post @ pre) q w ws f"
      have g: "grants f ?g" by (rule grants_one [OF grants_none]) (use 2 True in auto)
      have "pumpLocked f = pumpLocked ?g" using 2 True by (simp add: pumpLocked.simps [of f])
      moreover have "grants ?g (pumpLocked ?g) \<and> (closedErr ?g = None \<longrightarrow> no_idle_credit (pumpLocked ?g))"
        using "1.IH" True 2 grants_core [OF g core] by fastforce
      ultimately show ?thesis using grants_trans g grants_same [OF g] by fastforce
    qed
  qed
qed

lemma pump_inv:
  assumes "core_inv f" and "closedErr f = None"
  shows "flow_inv (pumpLocked f)"
  using pump_spec [OF assms(1)] grants_core [OF _ assms(1)] assms(2) by (auto simp: flow_inv_def)

lemma closed_inv: "core_inv f \<Longrightarrow> closedErr f \<noteq> None \<Longrightarrow> flow_inv f"
  using core_closed [of f] by (simp add: flow_inv_def no_idle_credit_def)

subsection \<open>Every operation keeps the invariant\<close>

text \<open>An update of the waiters that only marks settled calls as returned.\<close>

lemma core_mark_done:
  assumes f: "core_inv f" and x: "waiters f w = Some x" "wsettled x"
  shows "core_inv (f\<lparr>waiters := (waiters f)(w \<mapsto> x\<lparr>wdone := True\<rparr>)\<rparr>)"
proof -
  let ?f = "f\<lparr>waiters := (waiters f)(w \<mapsto> x\<lparr>wdone := True\<rparr>)\<rparr>"
  have p: "pending_waiter ?f l v \<longleftrightarrow> pending_waiter f l v" for l v
    using x by (auto simp: pending_waiter_def)
  show ?thesis
    using core_parts [OF f] x unfolding core_inv_def
    by (auto simp: active_ok_def queues_ok_def queue_ok_def p ready_ok_def limits_ok_def settled_ok_def queueOf_def)
qed

lemma core_activate:
  assumes f: "core_inv f"
  shows "core_inv (activateLocked l f)"
proof -
  have "active_ok (activateLocked l f)"
    using core_active [OF f] activeIn_nonneg [OF f, of l]
    by (auto simp: active_ok_def activateLocked_def map_total_upd activeIn_old)
  with core_parts [OF f] show ?thesis
    unfolding core_inv_def
    by (simp add: activateLocked_def queues_ok_def queue_ok_def ready_ok_def limits_ok_def settled_ok_def queueOf_def)
qed

lemma activateLocked_activeIn:
  "activeIn (activateLocked l f) l' = activeIn f l' + (if l' = l then 1 else 0)"
  by (simp add: activateLocked_def activeIn_def)

lemma activateLocked_sel [simp]:
  "queues (activateLocked l f) = queues f" "connectionLimit (activateLocked l f) = connectionLimit f"
  "laneLimit (activateLocked l f) = laneLimit f" "activeTotal (activateLocked l f) = activeTotal f + 1"
  by (simp_all add: activateLocked_def)

lemma no_idle_mono:
  assumes "no_idle_credit f" and "dom (queues g) \<subseteq> dom (queues f)" and "activeTotal f \<le> activeTotal g"
    and "connectionLimit g = connectionLimit f" and "laneLimit g = laneLimit f" and "\<And>l. activeIn f l \<le> activeIn g l"
  shows "no_idle_credit g"
  unfolding no_idle_credit_def
proof
  fix l assume "l \<in> dom (queues g)"
  with assms(1,2) have "\<not> canAcquireLocked f l" unfolding no_idle_credit_def by blast
  with assms(3-5) assms(6) [of l] show "\<not> canAcquireLocked g l" by (simp add: canAcquireLocked_def) linarith
qed

lemma no_idle_activate: "no_idle_credit f \<Longrightarrow> no_idle_credit (activateLocked l f)"
  by (erule no_idle_mono) (simp_all add: activateLocked_activeIn)

lemma core_deactivate:
  assumes f: "core_inv f" and "0 < activeIn f l"
  shows "core_inv (f\<lparr>activeTotal := activeTotal f - 1,
           activeByLane := (if activeIn f l = 1 then (activeByLane f)(l := None)
                            else (activeByLane f)(l \<mapsto> activeIn f l - 1))\<rparr>)"
    (is "core_inv ?f")
proof -
  have "active_ok ?f"
    using core_active [OF f] assms(2)
    by (auto simp: active_ok_def map_total_upd map_total_del activeIn_old)
  with core_parts [OF f] show ?thesis
    unfolding core_inv_def
    by (simp add: queues_ok_def queue_ok_def ready_ok_def limits_ok_def settled_ok_def queueOf_def)
qed

lemma release_inv:
  assumes "flow_inv f"
  shows "flow_inv (release l f)"
proof (cases "activeIn f l \<le> 0")
  case True
  with assms show ?thesis by (simp add: release_def)
next
  case False
  with assms have "core_inv (f\<lparr>activeTotal := activeTotal f - 1,
           activeByLane := (if activeIn f l = 1 then (activeByLane f)(l := None)
                            else (activeByLane f)(l \<mapsto> activeIn f l - 1))\<rparr>)"
    by (intro core_deactivate) (simp_all add: flow_inv_def)
  with False show ?thesis unfolding release_def Let_def by (auto intro: pump_inv closed_inv)
qed

text \<open>Queueing a new waiter behind those of its lane.\<close>

definition enqueued :: "lane \<Rightarrow> lane_queue \<Rightarrow> (nat \<times> lane) list \<Rightarrow> flow_controller \<Rightarrow> flow_controller" where
  "enqueued l q r f = f\<lparr>
     waiters := (waiters f)(nextID f \<mapsto> \<lparr>wlane = l, wsettled = False, wgranted = False, werr = None, wdone = False\<rparr>),
     queuedTotal := queuedTotal f + 1, nextID := nextID f + 2, queues := (queues f)(l \<mapsto> q), ready := r\<rparr>"

lemma enqueued_core:
  assumes f: "core_inv f" and room: "queuedTotal f < maxQueued f" and "closedErr f = None"
    and q: "qwaiters q = queueOf f l @ [nextID f]" "qwaiting q = old_value qwaiting (queues f l) + 1" "qready q = Some e"
    and r: "(e, l) \<in> set r" "ready_ok (enqueued l q r f)" "set (ready f) \<subseteq> set r"
  shows "core_inv (enqueued l q r f)"
proof -
  let ?g = "enqueued l q r f"
  have fresh: "waiters f (nextID f) = None"
    using core_settled [OF f] by (cases "waiters f (nextID f)") (auto simp: settled_ok_def)
  have keep: "v \<noteq> nextID f \<and> pending_waiter ?g l' v" if "pending_waiter f l' v" for l' v
    using that fresh by (auto simp: pending_waiter_def enqueued_def)
  have new: "pending_waiter ?g l (nextID f)" by (simp add: pending_waiter_def enqueued_def)
  have old: "queue_ok f l q0" if "queues f l = Some q0" for q0 using core_queue [OF f that] .
  have "queue_ok ?g l q"
    using q r(1) old keep new unfolding queue_ok_def queueOf_def
    by (cases "queues f l") (fastforce simp: enqueued_def)+
  moreover have "queue_ok ?g l' q'" if "queues f l' = Some q'" for l' q'
    using core_queue [OF f that] keep r(3) by (auto simp: queue_ok_def enqueued_def)
  ultimately have "queues_ok ?g"
    using core_queues [OF f] q(2) room
    by (auto simp: queues_ok_def enqueued_def map_total_upd split: if_splits)
  moreover have "settled_ok ?g"
    using core_settled [OF f] q(1) by (auto simp: settled_ok_def queueOf_def enqueued_def less_SucI split: if_splits)
  ultimately show ?thesis
    using core_parts [OF f] r(2) assms(3) unfolding core_inv_def
    by (simp add: active_ok_def limits_ok_def enqueued_def)
qed

lemma enqueued_no_idle:
  "no_idle_credit f \<Longrightarrow> \<not> canAcquireLocked f l \<Longrightarrow> no_idle_credit (enqueued l q r f)"
  by (simp add: no_idle_credit_def canAcquireLocked_def enqueued_def activeIn_def)

lemma acquire_inv:
  assumes inv: "flow_inv f"
  shows "flow_inv (fst (acquire d l f))"
proof (cases "d \<or> closedErr f \<noteq> None \<or> laneQueueLimit f = 0 \<or> connectionLimit f = 0 \<or> laneLimit f = 0 \<or>
    canAcquireLocked f l \<or> queuedTotal f \<ge> maxQueued f")
  case True
  then have "fst (acquire d l f) = f \<or> fst (acquire d l f) = activateLocked l f"
    by (cases "closedErr f") (auto simp: acquire_def)
  then show ?thesis using inv by (auto simp: flow_inv_def core_activate no_idle_activate)
next
  case False
  note core = inv [unfolded flow_inv_def, THEN conjunct1]
  have ids: "\<And>e l. (e, l) \<in> set (ready f) \<Longrightarrow> e < nextID f" using core_ready [OF core] by (simp add: ready_ok_def)
  show ?thesis
  proof (cases "queues f l")
    case None
    let ?q = "\<lparr>qwaiters = [nextID f], qwaiting = 1, qready = Some (nextID f + 1)\<rparr>"
    let ?r = "ready f @ [(nextID f + 1, l)]"
    have "fst (acquire d l f) = enqueued l ?q ?r f"
      using False None by (simp add: acquire_def enqueued_def Let_def)
    moreover have "ready_ok (enqueued l ?q ?r f)"
      using core_ready [OF core] None ids by (fastforce simp: ready_ok_def enqueued_def)
    ultimately show ?thesis
      using enqueued_core [OF core, of ?q l "nextID f + 1" ?r] enqueued_no_idle inv False None
      by (simp add: queueOf_def flow_inv_def subset_insertI)
  next
    case (Some q0)
    then obtain e where e: "qready q0 = Some e" "(e, l) \<in> set (ready f)"
      using core_queue [OF core Some] by (auto simp: queue_ok_def)
    let ?q = "q0\<lparr>qwaiters := qwaiters q0 @ [nextID f], qwaiting := qwaiting q0 + 1\<rparr>"
    have "fst (acquire d l f) = enqueued l ?q (ready f) f"
      using False Some e by (simp add: acquire_def enqueued_def Let_def)
    moreover have "ready_ok (enqueued l ?q (ready f) f)"
      using core_ready [OF core] Some e ids by (fastforce simp: ready_ok_def enqueued_def)
    ultimately show ?thesis
      using enqueued_core [OF core, of ?q l e "ready f"] enqueued_no_idle inv False Some e
      by (simp add: queueOf_def flow_inv_def)
  qed
qed

text \<open>Taking a cancelled waiter out of its lane's queue.\<close>

definition dequeued :: "lane \<Rightarrow> lane_queue \<Rightarrow> nat \<Rightarrow> (nat \<times> lane) list \<Rightarrow> flow_waiter \<Rightarrow> flow_controller \<Rightarrow> flow_controller" where
  "dequeued l q w r x f = f\<lparr>
     waiters := (waiters f)(w \<mapsto> x\<lparr>wsettled := True, wdone := True\<rparr>),
     queues := (queues f)(l := if remove1 w (qwaiters q) = [] then None
       else Some (q\<lparr>qwaiters := remove1 w (qwaiters q), qwaiting := qwaiting q - 1\<rparr>)),
     queuedTotal := queuedTotal f - 1, ready := r\<rparr>"

lemma int_length_remove1: "w \<in> set ws \<Longrightarrow> int (length (remove1 w ws)) = int (length ws) - 1"
  by (induction ws) auto

lemma dequeued_queue:
  assumes f: "core_inv f" and q: "queues f l = Some q" "w \<in> set (qwaiters q)"
    and r: "\<And>e l'. (e, l') \<in> set (ready f) \<Longrightarrow> l' \<noteq> l \<or> remove1 w (qwaiters q) \<noteq> [] \<Longrightarrow> (e, l') \<in> set r"
    and l': "queues (dequeued l q w r x f) l' = Some q'"
  shows "queue_ok (dequeued l q w r x f) l' q'"
proof -
  let ?g = "dequeued l q w r x f"
  have keep: "pending_waiter ?g l' v" if "pending_waiter f l' v" "v \<noteq> w" for l' v
    using that by (simp add: pending_waiter_def dequeued_def)
  note qok = core_queue [OF f q(1)]
  then have "0 < length (qwaiters q)" "distinct (qwaiters q)" by (auto simp: queue_ok_def)
  show ?thesis
  proof (cases "l' = l")
    case True
    then have ne: "remove1 w (qwaiters q) \<noteq> []"
      and q': "q' = q\<lparr>qwaiters := remove1 w (qwaiters q), qwaiting := qwaiting q - 1\<rparr>"
      using l' by (auto simp: dequeued_def split: if_splits)
    have "\<forall>v \<in> set (remove1 w (qwaiters q)). pending_waiter ?g l v"
      using qok keep by (auto simp: queue_ok_def)
    with qok ne q' q r True show ?thesis
      by (auto simp: queue_ok_def dequeued_def int_length_remove1)
  next
    case False
    then have q': "queues f l' = Some q'" using l' by (simp add: dequeued_def)
    have "w \<notin> set (qwaiters q')"
      using queued_waiter [OF f q', of w] queued_waiter [OF f q(1,2)] False by (auto simp: pending_waiter_def)
    then have "\<forall>v \<in> set (qwaiters q'). pending_waiter ?g l' v"
      using core_queue [OF f q'] keep by (auto simp: queue_ok_def)
    with core_queue [OF f q'] r False show ?thesis by (auto simp: queue_ok_def dequeued_def)
  qed
qed

lemma dequeued_core:
  assumes f: "core_inv f" and q: "queues f l = Some q" "w \<in> set (qwaiters q)" and x: "waiters f w = Some x"
    and e: "qready q = Some e"
  shows "core_inv (dequeued l q w (if remove1 w (qwaiters q) = [] then filter (\<lambda>y. fst y \<noteq> e) (ready f) else ready f) x f)"
    (is "core_inv (dequeued l q w ?r x f)")
proof -
  let ?g = "dequeued l q w ?r x f"
  have el: "(e, l) \<in> set (ready f)" using core_queue [OF f q(1)] e by (simp add: queue_ok_def)
  have uniq: "(e', l') \<in> set (ready f) \<Longrightarrow> e' = e \<longleftrightarrow> l' = l" for e' l'
    using ready_lane_unique [OF f el, of e'] core_ready [OF f] el by (auto simp: ready_ok_def dest: eq_key_imp_eq_value)
  have r: "(e', l') \<in> set ?r" if "(e', l') \<in> set (ready f)" "l' \<noteq> l \<or> remove1 w (qwaiters q) \<noteq> []" for e' l'
    using that uniq by auto
  note qok = core_queue [OF f q(1)]
  then have len: "qwaiting q = int (length (remove1 w (qwaiters q))) + 1"
    using q(2) by (auto simp: queue_ok_def int_length_remove1)
  have "queuedTotal ?g = map_total qwaiting (queues ?g)"
    using core_queues [OF f] q(1) len by (auto simp: dequeued_def queues_ok_def map_total_upd map_total_del)
  then have "queues_ok ?g"
    using core_queues [OF f] dequeued_queue [OF f q r] by (simp add: queues_ok_def dequeued_def)
  moreover have "ready_ok ?g"
    using core_ready [OF f] uniq q(1) e by (auto simp: ready_ok_def dequeued_def distinct_map_filter)
  moreover have "distinct (qwaiters q)" using qok by (simp add: queue_ok_def)
  have dq: "queueOf ?g l' = (if l' = l then remove1 w (qwaiters q) else queueOf f l')" for l'
    by (simp add: queueOf_def dequeued_def)
  have "queueOf f l = qwaiters q" using q(1) by (simp add: queueOf_def)
  moreover have "settled_ok ?g"
    using core_settled [OF f] \<open>distinct (qwaiters q)\<close> \<open>queueOf f l = qwaiters q\<close> x
    unfolding settled_ok_def dq by (force simp: dequeued_def split: if_splits)
  moreover have "closedErr ?g = None"
    using core_closed [OF f] q(1) by (cases "closedErr f") (simp_all add: dequeued_def)
  ultimately show ?thesis
    using core_parts [OF f] unfolding core_inv_def by (simp add: active_ok_def limits_ok_def dequeued_def)
qed

lemma cancel_queued_inv:
  assumes inv: "flow_inv f" and x: "waiters f w = Some x" and "\<not> wsettled x"
  shows "flow_inv (removeQueuedWaiterLocked (wlane x) w
              (f\<lparr>waiters := (waiters f)(w \<mapsto> x\<lparr>wsettled := True, wdone := True\<rparr>)\<rparr>))"
    (is "flow_inv ?g")
proof -
  have f: "core_inv f" using inv by (simp add: flow_inv_def)
  have "w \<in> set (queueOf f (wlane x))" using core_settled [OF f] x assms(3) by (simp add: settled_ok_def)
  then obtain q where q: "queues f (wlane x) = Some q" "w \<in> set (qwaiters q)"
    by (cases "queues f (wlane x)") (auto simp: queueOf_def)
  obtain e where e: "qready q = Some e" using core_queue [OF f q(1)] by (auto simp: queue_ok_def)
  have len: "qwaiting q = int (length (remove1 w (qwaiters q))) + 1"
    using q(2) core_queue [OF f q(1)] by (auto simp: queue_ok_def int_length_remove1)
  have "?g = dequeued (wlane x) q w (if remove1 w (qwaiters q) = [] then filter (\<lambda>y. fst y \<noteq> e) (ready f) else ready f) x f"
    using q e len by (simp add: removeQueuedWaiterLocked_def dequeued_def removeLaneQueueLocked_def Let_def)
  moreover have "no_idle_credit (dequeued (wlane x) q w r x f)" for r
  proof (rule no_idle_mono [of f])
    show "no_idle_credit f" using inv by (simp add: flow_inv_def)
    show "dom (queues (dequeued (wlane x) q w r x f)) \<subseteq> dom (queues f)"
      using domI [of "queues f" "wlane x" q] q(1) by (simp add: dequeued_def Diff_subset)
  qed (simp_all add: dequeued_def)
  ultimately show ?thesis using dequeued_core [OF f q x e] by (simp add: flow_inv_def)
qed

lemma close_inv:
  assumes "flow_inv f"
  shows "flow_inv (closeFlow e f)"
proof (cases "closedErr f = None")
  case True
  have core: "core_inv f" using assms by (simp add: flow_inv_def)
  have st: "w \<in> set (queueOf f (wlane x))" if "waiters f w = Some x" "\<not> wsettled x" for w x
    using core_settled [OF core] that by (simp add: settled_ok_def)
  have "core_inv (closeFlow e f)"
    using True core_parts [OF core] st unfolding core_inv_def
    by (auto simp: closeFlow_def Let_def active_ok_def queues_ok_def ready_ok_def limits_ok_def settled_ok_def
        dest: arg_cong [of _ _ wsettled])
  then show ?thesis using True by (intro closed_inv) (auto simp: closeFlow_def Let_def)
qed (use assms in \<open>simp add: closeFlow_def\<close>)

lemma wake_inv: "flow_inv f \<Longrightarrow> flow_inv (fst (wakeWaiter w f))"
  by (auto simp: wakeWaiter_def flow_inv_def no_idle_credit_def canAcquireLocked_def intro: core_mark_done
      split: option.splits)

lemma cancel_inv:
  assumes "flow_inv f"
  shows "flow_inv (cancelWaiter w f)"
proof (cases "waiters f w")
  case (Some x)
  have "flow_inv (f\<lparr>waiters := (waiters f)(w \<mapsto> x\<lparr>wdone := True\<rparr>)\<rparr>)" if "wsettled x"
    using assms core_mark_done [OF _ Some that] by (auto simp: flow_inv_def no_idle_credit_def canAcquireLocked_def)
  then show ?thesis
    using Some assms cancel_queued_inv [OF assms Some] release_inv
    by (simp add: cancelWaiter_def Let_def)
qed (use assms in \<open>simp add: cancelWaiter_def\<close>)

text \<open>What \<open>updateLimits\<close> does, whichever limits the server sent.\<close>

definition limited :: "int \<Rightarrow> int \<Rightarrow> flow_controller \<Rightarrow> flow_controller" where
  "limited a b f = f\<lparr>connectionLimit := a, laneWindowLimit := b, laneLimit := min b (laneQueueLimit f)\<rparr>"

lemma limited_sel [simp]:
  "connectionLimit (limited a b f) = a" "laneLimit (limited a b f) = min b (laneQueueLimit f)"
  "activeTotal (limited a b f) = activeTotal f" "activeIn (limited a b f) = activeIn f"
  "closedErr (limited a b f) = closedErr f" "queueOf (limited a b f) = queueOf f" "waiters (limited a b f) = waiters f"
  by (simp_all add: limited_def queueOf_def fun_eq_iff)

lemma update_shape:
  obtains a b where "updateLimits c l f = (if closedErr f = None then pumpLocked (limited a b f) else limited a b f)"
    and "limits_ok f \<Longrightarrow> 0 \<le> a" and "limits_ok f \<Longrightarrow> 0 \<le> b"
proof (rule that)
  let ?a = "case c of Some n \<Rightarrow> if n \<ge> 0 then n else connectionLimit f | None \<Rightarrow> connectionLimit f"
  let ?b = "case l of Some n \<Rightarrow> if n \<ge> 0 then n else laneWindowLimit f | None \<Rightarrow> laneWindowLimit f"
  show "updateLimits c l f = (if closedErr f = None then pumpLocked (limited ?a ?b f) else limited ?a ?b f)"
    by (cases c; cases l) (auto simp: updateLimits_def limited_def Let_def)
  show "limits_ok f \<Longrightarrow> 0 \<le> ?a" "limits_ok f \<Longrightarrow> 0 \<le> ?b" by (auto simp: limits_ok_def split: option.splits)
qed

lemma limited_core: "core_inv f \<Longrightarrow> 0 \<le> a \<Longrightarrow> 0 \<le> b \<Longrightarrow> core_inv (limited a b f)"
  using core_parts [of f] unfolding core_inv_def
  by (auto simp: limited_def active_ok_def queues_ok_def queue_ok_def ready_ok_def limits_ok_def settled_ok_def queueOf_def)

lemma update_inv:
  assumes "flow_inv f"
  shows "flow_inv (updateLimits c l f)"
proof -
  have core: "core_inv f" using assms by (simp add: flow_inv_def)
  obtain a b where up: "updateLimits c l f = (if closedErr f = None then pumpLocked (limited a b f) else limited a b f)"
    and "0 \<le> a" "0 \<le> b" using update_shape [of c l f] core_limits [OF core] by metis
  then have "core_inv (limited a b f)" using limited_core [OF core] by simp
  then show ?thesis unfolding up by (auto intro: pump_inv closed_inv)
qed

interpretation flow: event_machine flow_step flow_inv
proof
  show "flow_inv s \<Longrightarrow> flow_inv (flow_step ev s)" for s ev
    by (cases ev) (auto intro: acquire_inv wake_inv cancel_inv update_inv close_inv release_inv)
qed

end
