(* ===== verification/FlowProperties.thy ===== *)
theory FlowProperties
  imports FlowCorrect
begin

section \<open>Properties of the inflight-credit controller\<close>

text \<open>
  What the controller of \<open>src/native_limits.go\<close> guarantees in every reachable state: the accounting of
  credits and queued calls, the limits, work conservation, the order of service within a lane and
  between lanes, and that closing is final.
\<close>

subsection \<open>Totals over all lanes\<close>

lemma map_total_UNIV:
  fixes m :: "'k::finite \<rightharpoonup> 'v"
  shows "map_total h m = (\<Sum>k \<in> UNIV. old_value h (m k))"
proof -
  have "(\<Sum>k \<in> UNIV. old_value h (m k)) = (\<Sum>k \<in> dom m. old_value h (m k))"
    by (rule sum.mono_neutral_right) (auto simp: old_value_def split: option.splits)
  also have "\<dots> = map_total h m" unfolding map_total_def by (rule sum.cong) (auto simp: old_value_def)
  finally show ?thesis by simp
qed

lemma queued_length:
  assumes "core_inv f"
  shows "old_value qwaiting (queues f l) = int (length (queueOf f l))"
  using core_queue [OF assms, of l] by (cases "queues f l") (simp_all add: queueOf_def queue_ok_def)

lemma run_flow_inv: "flow_inv (fold flow_step evs (newNativeFlowController c l q m))"
  by (rule flow.run_inv) (rule new_flow_inv)

subsection \<open>Properties\<close>

text \<open>
  C15. After any sequence of calls, wakeups, cancellations, releases, limit updates and closes, the
  credits in use are exactly the per-lane credits summed over all lanes, the queued requests are
  exactly the waiters in the lanes' queues and never exceed the configured maximum, and a closed
  controller has none.
\<close>

theorem flow_accounting:
  "let f = fold flow_step evs (newNativeFlowController c n q m) in
     activeTotal f = (\<Sum>l \<in> UNIV. activeIn f l) \<and> queuedTotal f = (\<Sum>l \<in> UNIV. int (length (queueOf f l))) \<and>
     queuedTotal f \<le> maxQueued f \<and> (closedErr f = None \<or> queuedTotal f = 0)"
proof -
  let ?f = "fold flow_step evs (newNativeFlowController c n q m)"
  have core: "core_inv ?f" using run_flow_inv by (simp add: flow_inv_def)
  have "activeTotal ?f = (\<Sum>l \<in> UNIV. activeIn ?f l)"
    using core_active [OF core] unfolding active_ok_def map_total_UNIV activeIn_old by simp
  moreover have total: "queuedTotal ?f = (\<Sum>l \<in> UNIV. int (length (queueOf ?f l)))"
    using core_queues [OF core] unfolding queues_ok_def map_total_UNIV queued_length [OF core] by simp
  moreover have "queuedTotal ?f = 0" if "closedErr ?f \<noteq> None"
    unfolding total using core_closed [OF core that] by (simp add: queueOf_def)
  moreover have "queuedTotal ?f \<le> maxQueued ?f" using core_queues [OF core] by (simp add: queues_ok_def)
  ultimately show ?thesis by (metis (no_types))
qed

text \<open>
  C16. No wakeup is lost: in every reachable state of an open controller, a lane that has waiting calls
  is at its own limit or the connection is at its limit.
\<close>

theorem flow_no_lost_wakeup:
  "let f = fold flow_step evs (newNativeFlowController c n q m) in
     queueOf f l = [] \<or> activeTotal f \<ge> connectionLimit f \<or> activeIn f l \<ge> laneLimit f"
proof -
  let ?f = "fold flow_step evs (newNativeFlowController c n q m)"
  have "no_idle_credit ?f" using run_flow_inv by (simp add: flow_inv_def)
  then have "queues ?f l = None \<or> \<not> canAcquireLocked ?f l" unfolding no_idle_credit_def by blast
  then show ?thesis
    unfolding Let_def canAcquireLocked_def not_less [symmetric] by (auto simp: queueOf_def)
qed

lemma release_core:
  assumes "core_inv f"
  obtains "release l f = f" | g where "core_inv g" and "release l f = (if closedErr f = None then pumpLocked g else g)"
    and "closedErr g = closedErr f" and "queueOf g = queueOf f" and "waiters g = waiters f"
    and "connectionLimit g = connectionLimit f" and "laneLimit g = laneLimit f"
    and "activeTotal g < activeTotal f" and "\<And>k. activeIn g k \<le> activeIn f k"
proof (cases "activeIn f l \<le> 0")
  case True
  then show ?thesis using that(1) by (simp add: release_def)
next
  case False
  let ?g = "f\<lparr>activeTotal := activeTotal f - 1,
           activeByLane := (if activeIn f l = 1 then (activeByLane f)(l := None)
                            else (activeByLane f)(l \<mapsto> activeIn f l - 1))\<rparr>"
  have "core_inv ?g" using assms False by (intro core_deactivate) simp_all
  then show ?thesis
    using False by (intro that(2) [of ?g]) (auto simp: release_def Let_def queueOf_def activeIn_def fun_eq_iff)
qed

definition credits_within :: "flow_controller \<Rightarrow> flow_controller \<Rightarrow> bool" where
  "credits_within f g \<longleftrightarrow> activeTotal g \<le> max (activeTotal f) (connectionLimit g) \<and>
     (\<forall>l. activeIn g l \<le> max (activeIn f l) (laneLimit g))"

lemma credits_within_grants:
  assumes "grants g h" and "activeTotal g \<le> activeTotal f" and "\<And>k. activeIn g k \<le> activeIn f k"
  shows "credits_within f h"
  unfolding credits_within_def
proof (intro conjI allI)
  fix l show "activeIn h l \<le> max (activeIn f l) (laneLimit h)"
    using grants_active [OF assms(1), of l] grants_same [OF assms(1)] assms(3) [of l] by linarith
  show "activeTotal h \<le> max (activeTotal f) (connectionLimit h)"
    using grants_active [OF assms(1)] grants_same [OF assms(1)] assms(2) by fastforce
qed

lemma credits_within_same:
  "activeTotal g = activeTotal f \<Longrightarrow> activeIn g = activeIn f \<Longrightarrow> credits_within f g"
  by (simp add: credits_within_def)

lemma release_credits:
  assumes "core_inv f"
  shows "credits_within f (release l f)"
  using assms
proof (cases rule: release_core [of f l])
  case 1
  then show ?thesis by (simp add: credits_within_def)
next
  case (2 g)
  have "grants g (release l f)" using pump_spec [OF 2(1)] 2(2) by (simp add: grants_none)
  with 2 show ?thesis by (intro credits_within_grants) auto
qed

lemma acquire_credits: "credits_within f (fst (acquire d l f))"
  by (auto simp: acquire_def canAcquireLocked_def credits_within_def activateLocked_activeIn Let_def
      split: option.splits)

lemma remove_credits: "credits_within f (removeQueuedWaiterLocked l w (f\<lparr>waiters := ws\<rparr>))"
  by (auto simp: removeQueuedWaiterLocked_def removeLaneQueueLocked_def Let_def intro!: credits_within_same
      split: option.splits)

lemma cancel_credits:
  assumes "core_inv f"
  shows "credits_within f (cancelWaiter w f)"
proof (cases "waiters f w")
  case (Some x)
  have "credits_within f (release l (f\<lparr>waiters := (waiters f)(w \<mapsto> x\<lparr>wdone := True\<rparr>)\<rparr>))" if "wsettled x" for l
    using release_credits [OF core_mark_done [OF assms Some that], of l] by (simp add: credits_within_def)
  with Some show ?thesis
    by (auto simp: cancelWaiter_def Let_def remove_credits credits_within_same)
qed (simp add: cancelWaiter_def credits_within_same)

lemma update_credits:
  assumes "core_inv f"
  shows "credits_within f (updateLimits c l f)"
proof -
  obtain a b where up: "updateLimits c l f = (if closedErr f = None then pumpLocked (limited a b f) else limited a b f)"
    and "0 \<le> a" "0 \<le> b" using update_shape [of c l f] core_limits [OF assms] by metis
  then have "grants (limited a b f) (updateLimits c l f)"
    using pump_spec [OF limited_core [OF assms]] by (simp add: grants_none)
  then show ?thesis by (rule credits_within_grants) simp_all
qed

lemma step_credits: "core_inv f \<Longrightarrow> credits_within f (flow_step ev f)"
  by (cases ev)
    (simp_all add: acquire_credits release_credits cancel_credits update_credits wakeWaiter_def closeFlow_def Let_def
      credits_within_same split: option.splits)

text \<open>
  C17. No operation takes more credits than the limits in force: after any operation the credits in use,
  of the connection and of each lane, are within the limit or no more than they were before (the
  server may have lowered the limit below what is already in use).
\<close>

theorem flow_credit_limits:
  "let f = fold flow_step evs (newNativeFlowController c n q m); g = flow_step ev f in
     activeTotal g \<le> max (activeTotal f) (connectionLimit g) \<and> activeIn g l \<le> max (activeIn f l) (laneLimit g)"
proof -
  have "core_inv (fold flow_step evs (newNativeFlowController c n q m))"
    using run_flow_inv by (simp add: flow_inv_def)
  from step_credits [OF this] show ?thesis by (simp add: credits_within_def Let_def)
qed

subsection \<open>Order of service\<close>

definition fifo :: "flow_controller \<Rightarrow> flow_controller \<Rightarrow> bool" where
  "fifo f g \<longleftrightarrow> (\<forall>l pre w post. queueOf f l = pre @ w # post \<longrightarrow> grantedIn g w \<longrightarrow> (\<forall>v \<in> set pre. grantedIn g v))"

lemma queued_not_granted: "core_inv f \<Longrightarrow> w \<in> set (queueOf f l) \<Longrightarrow> \<not> grantedIn f w"
  using queued_waiter [of f l _ w] by (cases "queues f l") (auto simp: queueOf_def grantedIn_def pending_waiter_def)

lemma fifo_same: "core_inv f \<Longrightarrow> grantedIn g = grantedIn f \<Longrightarrow> fifo f g"
  using queued_not_granted [of f] unfolding fifo_def by (metis in_set_conv_decomp)

lemma fifo_grants:
  assumes gr: "grants g h" and core: "core_inv g" and q: "queueOf g = queueOf f"
  shows "fifo f h"
  unfolding fifo_def
proof (intro allI impI ballI)
  fix l pre w post v
  assume f: "queueOf f l = pre @ w # post" and w: "grantedIn h w" and v: "v \<in> set pre"
  obtain sv where sv: "queueOf g l = sv @ queueOf h l" "\<forall>w \<in> set sv. grantedIn h w"
    using grants_fifo [OF gr core, of l] by blast
  have "w \<notin> set (queueOf h l)" using queued_not_granted [OF grants_core [OF gr core]] w by blast
  moreover have "\<exists>us. xs = pre @ w # us" if "xs @ ys = pre @ w # post" "w \<notin> set ys" for xs ys
    using that by (auto simp: append_eq_append_conv2 Cons_eq_append_conv append_eq_Cons_conv)
  ultimately have "\<exists>us. sv = pre @ w # us" using sv(1) f q by metis
  with v sv(2) show "grantedIn h v" by auto
qed

lemma release_fifo:
  assumes "core_inv f"
  shows "fifo f (release l f)"
  using assms
proof (cases rule: release_core [of f l])
  case 1
  then show ?thesis using fifo_same [OF assms] by simp
next
  case (2 g)
  have "grants g (release l f)" using pump_spec [OF 2(1)] 2(2) by (simp add: grants_none)
  with 2(1,4) show ?thesis by (intro fifo_grants [of g])
qed

lemma cancel_fifo:
  assumes "core_inv f"
  shows "fifo f (cancelWaiter w f)"
proof (cases "waiters f w")
  case (Some x)
  have rel: "fifo f (release l (f\<lparr>waiters := (waiters f)(w \<mapsto> x\<lparr>wdone := True\<rparr>)\<rparr>))" if "wsettled x" for l
    using release_fifo [OF core_mark_done [OF assms Some that], of l] by (simp add: fifo_def queueOf_def)
  have "grantedIn (removeQueuedWaiterLocked l w (f\<lparr>waiters := (waiters f)(w \<mapsto> y)\<rparr>)) = grantedIn f"
    if "wgranted y = wgranted x" for l y
    using Some that
    by (auto simp: removeQueuedWaiterLocked_def removeLaneQueueLocked_def Let_def grantedIn_def fun_eq_iff split: option.splits)
  with Some rel show ?thesis
    by (auto simp: cancelWaiter_def Let_def intro!: fifo_same [OF assms] simp: grantedIn_def fun_eq_iff)
qed (use fifo_same [OF assms] in \<open>simp add: cancelWaiter_def\<close>)

lemma update_fifo:
  assumes "core_inv f"
  shows "fifo f (updateLimits c l f)"
proof -
  obtain a b where up: "updateLimits c l f = (if closedErr f = None then pumpLocked (limited a b f) else limited a b f)"
    and "0 \<le> a" "0 \<le> b" using update_shape [of c l f] core_limits [OF assms] by metis
  then have "grants (limited a b f) (updateLimits c l f)"
    using pump_spec [OF limited_core [OF assms]] by (simp add: grants_none)
  then show ?thesis using limited_core [OF assms \<open>0 \<le> a\<close> \<open>0 \<le> b\<close>] by (rule fifo_grants) simp
qed

lemma acquire_granted_same:
  assumes "core_inv f"
  shows "grantedIn (fst (acquire d l f)) = grantedIn f"
proof -
  have "waiters f (nextID f) = None"
    using core_settled [OF assms] by (cases "waiters f (nextID f)") (auto simp: settled_ok_def)
  then show ?thesis
    by (auto simp: acquire_def activateLocked_def Let_def grantedIn_def fun_eq_iff split: option.splits)
qed

lemma step_fifo:
  assumes "core_inv f"
  shows "fifo f (flow_step ev f)"
  using assms acquire_granted_same [OF assms]
  by (cases ev) (auto simp: release_fifo cancel_fifo update_fifo wakeWaiter_def closeFlow_def Let_def grantedIn_def
      fun_eq_iff intro!: fifo_same split: option.splits)

text \<open>
  C18. Service within a lane is first come, first served, whatever the operation: when a queued call is
  given a credit, every call queued before it on its lane has been given one; and while calls are
  queued on a lane, no new call of that lane is let through at once.
\<close>

theorem flow_first_come_first_served:
  assumes "f = fold flow_step evs (newNativeFlowController c n q m)"
    and "queueOf f l = pre @ w # post"
  shows "(grantedIn (flow_step ev f) w \<longrightarrow> (\<forall>v \<in> set pre. grantedIn (flow_step ev f) v)) \<and>
    snd (acquire d l f) \<noteq> Granted"
proof -
  have inv: "flow_inv f" unfolding assms(1) by (rule run_flow_inv)
  then have "fifo f (flow_step ev f)" by (intro step_fifo) (simp add: flow_inv_def)
  moreover have "\<not> canAcquireLocked f l"
    using inv assms(2) by (cases "queues f l") (auto simp: queueOf_def flow_inv_def no_idle_credit_def)
  then have "snd (acquire d l f) \<noteq> Granted" by (simp add: acquire_def Let_def split: option.splits)
  ultimately show ?thesis using assms(2) unfolding fifo_def by blast
qed

theorem flow_first_come_first_served_witness:
  "let f = fold flow_step [EAcquire False 1, EAcquire False 1, EAcquire False 1] (newNativeFlowController 1 5 5 None) in
     queueOf f 1 = [0, 2] \<and> grantedIn (flow_step (EUpdate (Some 5) None) f) 2 \<and>
     grantedIn (flow_step (EUpdate (Some 5) None) f) 0"
proof -
  let ?f = "fold flow_step [EAcquire False 1, EAcquire False 1, EAcquire False 1] (newNativeFlowController 1 5 5 None)"
  have q: "queueOf ?f 1 = [0] @ 2 # []" by code_simp
  have g: "grantedIn (flow_step (EUpdate (Some 5) None) ?f) 2" by code_simp
  from flow_first_come_first_served [OF refl q, of "EUpdate (Some 5) None" False] g q show ?thesis by (simp add: Let_def)
qed

text \<open>
  Lanes are served round-robin: a pass of the pump gives one credit to the first waiter of the first
  ready lane below its limit, and that lane goes to the back of the list behind the lanes that were
  passed over; a pass that gives none changes nothing, and every lane with waiters is at its limit.
\<close>

theorem pump_round_robin:
  assumes "core_inv f" and "activeTotal f < connectionLimit f" and "pumpPass (length (ready f)) f = (g, granted)"
  shows "if granted then
      \<exists>pre e l post w ws. ready f = pre @ (e, l) # post \<and> (\<forall>(e', k) \<in> set pre. laneLimit f \<le> activeIn f k) \<and>
        activeIn f l < laneLimit f \<and> queueOf f l = w # ws \<and> grantedIn g w \<and> queueOf g l = ws \<and>
        ready g = post @ pre @ (if ws = [] then [] else [(e, l)])
    else g = f \<and> (\<forall>l. queueOf f l = [] \<or> laneLimit f \<le> activeIn f l)"
  using pumpPass_spec [OF assms(1,2) order.refl]
proof (elim disjE exE conjE, goal_cases)
  case 1
  have "queueOf f l = [] \<or> laneLimit f \<le> activeIn f l" for l
    using 1(1) ready_covers [OF assms(1), of l] by (cases "queues f l") (auto simp: queueOf_def)
  with 1(2) assms(3) show ?case by simp
next
  case (2 pre e l post q w ws)
  have g: "g = served e l (post @ pre) q w ws f" and granted using 2(7) assms(3) by simp_all
  have "pending_waiter f l w" using queued_waiter [OF assms(1) 2(4)] 2(6) by simp
  then have "grantedIn g w" by (auto simp: g grantedIn_def served_def pending_waiter_def)
  moreover have "queueOf g l = ws" "queueOf f l = w # ws" using 2(4,6) by (simp_all add: g queueOf_def served_def)
  moreover have "ready g = post @ pre @ (if ws = [] then [] else [(e, l)])" by (simp add: g served_def)
  ultimately show ?case using 2(1-3) unfolding if_P [OF \<open>granted\<close>] by blast
qed

theorem pump_round_robin_witness:
  "let f = limited 2 5 (fold flow_step (map (EAcquire False) [1, 1, 2]) (newNativeFlowController 1 5 5 None)) in
     map snd (ready f) = [1, 2] \<and> (\<exists>g. pumpPass (length (ready f)) f = (g, True) \<and> map snd (ready g) = [2])"
proof -
  let ?start = "fold flow_step (map (EAcquire False) [1, 1, 2]) (newNativeFlowController 1 5 5 None)"
  let ?f = "limited 2 5 ?start"
  have "flow_inv ?start" by (rule run_flow_inv)
  then have core: "core_inv ?f" unfolding flow_inv_def by (intro limited_core) (elim conjE, simp_all)
  have act: "activeTotal ?f < connectionLimit ?f" by code_simp
  have r: "map snd (ready ?f) = [1, 2]" by code_simp
  have g: "snd (pumpPass (length (ready ?f)) ?f)" by code_simp
  have r': "map snd (ready (fst (pumpPass (length (ready ?f)) ?f))) = [2]" by code_simp
  obtain h where h: "pumpPass (length (ready ?f)) ?f = (h, True)" using g by (metis (full_types) prod.collapse)
  from pump_round_robin [OF core act h] r' h r show ?thesis by (simp add: Let_def)
qed

subsection \<open>Closing\<close>

text \<open>A call that a close found in the queue, from then on.\<close>

definition refused_call :: "flow_error \<Rightarrow> nat \<Rightarrow> flow_controller \<Rightarrow> bool" where
  "refused_call err w f \<longleftrightarrow> closedErr f = Some err \<and>
     (\<exists>x. waiters f w = Some x \<and> wsettled x \<and> \<not> wgranted x \<and> werr x = Some err)"

lemma refused_release: "refused_call err w f \<Longrightarrow> refused_call err w (release l f)"
  by (auto simp: refused_call_def release_def Let_def)

interpretation closed_call: event_machine flow_step "refused_call err w"
proof
  fix f ev assume r: "refused_call err w f"
  show "refused_call err w (flow_step ev f)"
  proof (cases ev)
    case (ECancel v)
    have "refused_call err w (f\<lparr>waiters := (waiters f)(v \<mapsto> x\<lparr>wdone := True\<rparr>)\<rparr>)" if "waiters f v = Some x" for x
      using r that by (auto simp: refused_call_def)
    moreover have "refused_call err w (removeQueuedWaiterLocked l v (f\<lparr>waiters := ws\<rparr>))"
      if "refused_call err w (f\<lparr>waiters := ws\<rparr>)" for l ws
      using that by (auto simp: refused_call_def removeQueuedWaiterLocked_def removeLaneQueueLocked_def Let_def split: option.splits)
    moreover have "refused_call err w (f\<lparr>waiters := (waiters f)(v \<mapsto> x\<lparr>wsettled := True, wdone := True\<rparr>)\<rparr>)"
      if "waiters f v = Some x" for x
      using r that by (auto simp: refused_call_def)
    ultimately show ?thesis using ECancel r refused_release
      by (cases "waiters f v") (simp_all add: cancelWaiter_def Let_def)
  next
    case (EUpdate c l)
    obtain a b where "updateLimits c l f = (if closedErr f = None then pumpLocked (limited a b f) else limited a b f)"
      by (rule update_shape)
    with EUpdate r show ?thesis by (simp add: refused_call_def)
  next
    case (ERelease l)
    then show ?thesis using refused_release [OF r] by simp
  qed (use r in \<open>auto simp: refused_call_def acquire_def wakeWaiter_def closeFlow_def split: option.splits\<close>)
qed

text \<open>
  C19. Closing is final: a call that was waiting when the controller is closed is never given a credit,
  whatever happens afterwards; it returns the close's error when it wakes, and so does every later
  call on every lane.
\<close>

theorem flow_close_final:
  assumes "f = fold flow_step evs (newNativeFlowController c n q m)" and "closedErr f = None"
    and "waiters f w = Some x" and "\<not> wsettled x"
  shows "let g = fold flow_step later (closeFlow (Some err) f) in
     \<not> grantedIn g w \<and> snd (wakeWaiter w g) \<in> {None, Some (Refused err)} \<and> snd (acquire False l g) = Refused err"
proof -
  have "core_inv f" using run_flow_inv by (simp add: assms(1) flow_inv_def)
  from core_settled [OF this] assms(3,4) have "w \<in> set (queueOf f (wlane x))" "\<not> wgranted x"
    by (auto simp: settled_ok_def)
  with assms have "refused_call err w (closeFlow (Some err) f)" by (simp add: closeFlow_def refused_call_def Let_def)
  then have "refused_call err w (fold flow_step later (closeFlow (Some err) f))" by (rule closed_call.run_inv)
  then show ?thesis by (auto simp: refused_call_def grantedIn_def wakeWaiter_def acquire_def Let_def split: if_splits)
qed

theorem flow_close_final_witness:
  "let f = fold flow_step (map (EAcquire False) [1, 1]) (newNativeFlowController 1 5 5 None);
       g = fold flow_step [ERelease 1] (closeFlow (Some (CloseCause 7)) f) in
     queueOf f 1 = [0] \<and> \<not> grantedIn g 0 \<and> snd (acquire False 3 g) = Refused (CloseCause 7)"
proof -
  let ?f = "fold flow_step (map (EAcquire False) [1, 1]) (newNativeFlowController 1 5 5 None)"
  have f: "closedErr ?f = None" "queueOf ?f 1 = [0]" by code_simp+
  have x: "waiters ?f 0 = Some \<lparr>wlane = 1, wsettled = False, wgranted = False, werr = None, wdone = False\<rparr>" by code_simp
  from flow_close_final [OF refl f(1) x, of "[ERelease 1]" "CloseCause 7" 3] f(2) show ?thesis by (simp add: Let_def)
qed

end
