(* ===== verification/GoText.thy ===== *)
theory GoText
  imports Prelude
begin

section \<open>Text functions of the Go standard library\<close>

text \<open>
  What the modelled code uses of \<open>strings\<close> and \<open>strconv\<close>, on byte strings.

  \<open>toUpper\<close> is \<open>strings.ToUpper\<close> as far as the result can be compared with an ASCII word. Two letters
  outside ASCII have an ASCII capital, the dotless i (bytes C4 B1) and the long s (C5 BF); every other
  character outside ASCII has a capital outside ASCII, and is left as it is. \<open>trimSpace\<close> knows every
  white-space character of Unicode by its UTF-8 bytes.
\<close>

subsection \<open>Case and white space\<close>

definition upperByte :: "byte \<Rightarrow> byte" where
  "upperByte b = (if 97 \<le> b \<and> b \<le> 122 then b - 32 else b)"

definition lowerByte :: "byte \<Rightarrow> byte" where
  "lowerByte b = (if 65 \<le> b \<and> b \<le> 90 then b + 32 else b)"

fun upperBytes :: "bytes \<Rightarrow> bytes" where
  "upperBytes [] = []"
| "upperBytes [b] = [upperByte b]"
| "upperBytes (b # c # bs) =
     (if b = 0xC4 \<and> c = 0xB1 then 73 # upperBytes bs
      else if b = 0xC5 \<and> c = 0xBF then 83 # upperBytes bs
      else upperByte b # upperBytes (c # bs))"

definition toUpper :: "string \<Rightarrow> string" where
  "toUpper s = string_of (upperBytes (bytes_of s))"

definition lowerAscii :: "string \<Rightarrow> string" where
  "lowerAscii s = string_of (map lowerByte (bytes_of s))"

text \<open>
  The white-space characters of \<open>unicode.IsSpace\<close>: the ASCII ones, U+0085, U+00A0, U+1680,
  U+2000 to U+200A, U+2028, U+2029, U+202F, U+205F and U+3000.
\<close>

definition spaceChars :: "bytes list" where
  "spaceChars = [[9], [10], [11], [12], [13], [32], [0xC2, 0x85], [0xC2, 0xA0], [0xE1, 0x9A, 0x80]] @
     map (\<lambda>b. [0xE2, 0x80, b]) [0x80, 0x81, 0x82, 0x83, 0x84, 0x85, 0x86, 0x87, 0x88, 0x89, 0x8A, 0xA8, 0xA9, 0xAF] @
     [[0xE2, 0x81, 0x9F], [0xE3, 0x80, 0x80]]"

definition hasPrefix :: "'a list \<Rightarrow> 'a list \<Rightarrow> bool" where
  "hasPrefix p s \<longleftrightarrow> take (length p) s = p"

lemma hasPrefix_iff: "hasPrefix p s \<longleftrightarrow> (\<exists>t. s = p @ t)"
proof
  assume "hasPrefix p s"
  then show "\<exists>t. s = p @ t" unfolding hasPrefix_def by (metis append_take_drop_id)
qed (auto simp: hasPrefix_def)

lemma hasPrefix_append [simp]: "hasPrefix p (p @ s)"
  by (simp add: hasPrefix_def)

lemma hasPrefix_Cons [simp]: "hasPrefix [] s" "hasPrefix (x # p) (y # s) \<longleftrightarrow> x = y \<and> hasPrefix p s" "\<not> hasPrefix (x # p) []"
  by (auto simp: hasPrefix_def)

definition cutPrefix :: "string \<Rightarrow> string \<Rightarrow> string option" where
  "cutPrefix p s = (if hasPrefix p s then Some (drop (length p) s) else None)"

function trimLeftWith :: "bytes list \<Rightarrow> bytes \<Rightarrow> bytes" where
  "trimLeftWith sp s =
     (case find (\<lambda>p. p \<noteq> [] \<and> hasPrefix p s) sp of None \<Rightarrow> s | Some p \<Rightarrow> trimLeftWith sp (drop (length p) s))"
  by pat_completeness auto
termination
proof (relation "measure (\<lambda>(sp, s). length s)", simp)
  fix sp :: "bytes list" and s :: bytes and p
  assume "find (\<lambda>p. p \<noteq> [] \<and> hasPrefix p s) sp = Some p"
  then have "p \<noteq> []" "hasPrefix p s" by (auto simp: find_Some_iff)
  then have "0 < length p" "length p \<le> length s" by (auto simp: hasPrefix_iff)
  then show "((sp, drop (length p) s), sp, s) \<in> measure (\<lambda>(sp, s). length s)"
    unfolding in_measure prod.case length_drop by linarith
qed

declare trimLeftWith.simps [simp del]

text \<open>Trimming from the right is trimming the reversal from the left, with the reversed characters.\<close>

definition trimSpace :: "string \<Rightarrow> string" where
  "trimSpace s =
     (let left = trimLeftWith spaceChars (bytes_of s) in
      string_of (rev (trimLeftWith (map rev spaceChars) (rev left))))"

definition indexByte :: "char \<Rightarrow> string \<Rightarrow> nat option" where
  "indexByte c s = (if c \<in> set s then Some (length (takeWhile (\<lambda>d. d \<noteq> c) s)) else None)"

lemma indexByte_Some:
  assumes "indexByte c s = Some n"
  shows "s = take n s @ c # drop (Suc n) s" "c \<notin> set (take n s)"
proof -
  have c: "c \<in> set s" and n: "n = length (takeWhile (\<lambda>d. d \<noteq> c) s)"
    using assms by (auto simp: indexByte_def split: if_splits)
  have tk: "take n s = takeWhile (\<lambda>d. d \<noteq> c) s" unfolding n by (rule takeWhile_eq_take [symmetric])
  have dr: "drop n s = dropWhile (\<lambda>d. d \<noteq> c) s" unfolding n by (rule dropWhile_eq_drop [symmetric])
  have "dropWhile (\<lambda>d. d \<noteq> c) s \<noteq> []" using c by (simp add: dropWhile_eq_Nil_conv)
  with dr have lt: "n < length s" by (metis drop_all not_le)
  have "s ! n = c" using hd_dropWhile [OF \<open>dropWhile (\<lambda>d. d \<noteq> c) s \<noteq> []\<close>] dr lt hd_drop_conv_nth [OF lt] by simp
  with id_take_nth_drop [OF lt] show "s = take n s @ c # drop (Suc n) s" by simp
  show "c \<notin> set (take n s)" unfolding tk by (auto dest: set_takeWhileD)
qed

lemma indexByte_append: "c \<notin> set a \<Longrightarrow> indexByte c (a @ c # b) = Some (length a)"
  by (simp add: indexByte_def takeWhile_append)

subsection \<open>Decimal numbers\<close>

definition digit :: "nat \<Rightarrow> char" where
  "digit n = char_of (48 + n)"

fun itoa_nat :: "nat \<Rightarrow> string" where
  "itoa_nat n = (if n < 10 then [digit n] else itoa_nat (n div 10) @ [digit (n mod 10)])"

declare itoa_nat.simps [simp del]

definition itoa :: "int \<Rightarrow> string" where
  "itoa n = (if n < 0 then ''-'' @ itoa_nat (nat (- n)) else itoa_nat (nat n))"

definition digitValue :: "char \<Rightarrow> nat option" where
  "digitValue c = (let n = of_char c in if 48 \<le> n \<and> n \<le> 57 then Some (n - 48) else None)"

fun digitsValue :: "nat \<Rightarrow> string \<Rightarrow> nat option" where
  "digitsValue acc [] = Some acc"
| "digitsValue acc (c # cs) = Option.bind (digitValue c) (\<lambda>d. digitsValue (10 * acc + d) cs)"

text \<open>\<open>strconv.ParseInt(s, 10, 64)\<close> on any length: \<open>None\<close> is a syntax error.\<close>

definition parseDecimal :: "string \<Rightarrow> int option" where
  "parseDecimal s =
     (let (neg, ds) = (case s of [] \<Rightarrow> (False, []) | c # cs \<Rightarrow>
                         if c = CHR ''+'' then (False, cs) else if c = CHR ''-'' then (True, cs) else (False, s)) in
      if ds = [] then None
      else map_option (\<lambda>n. if neg then - int n else int n) (digitsValue 0 ds))"

definition minInt64 :: int where "minInt64 = - (2 ^ 63)"
definition maxInt64 :: int where "maxInt64 = 2 ^ 63 - 1"

definition parseInt64 :: "string \<Rightarrow> int option" where
  "parseInt64 s = (case parseDecimal s of None \<Rightarrow> None
     | Some n \<Rightarrow> if minInt64 \<le> n \<and> n \<le> maxInt64 then Some n else None)"

text \<open>The value \<open>ParseInt\<close> returns beside its error: 0 for a syntax error, the nearest bound out of range.\<close>

definition parseInt64Value :: "string \<Rightarrow> int" where
  "parseInt64Value s = (case parseDecimal s of None \<Rightarrow> 0 | Some n \<Rightarrow> max minInt64 (min maxInt64 n))"

text \<open>A canonical decimal below a bound: \<open>Atoi\<close> succeeds and \<open>Itoa\<close> gives the same text back.\<close>

definition canonicalBelow :: "int \<Rightarrow> string \<Rightarrow> bool" where
  "canonicalBelow bound s = (case parseInt64 s of None \<Rightarrow> False | Some n \<Rightarrow> 0 \<le> n \<and> n < bound \<and> itoa n = s)"

lemma digitValue_digit: "n < 10 \<Longrightarrow> digitValue (digit n) = Some n"
  by (simp add: digitValue_def digit_def)

lemma digitsValue_append:
  "digitsValue acc (xs @ ys) = Option.bind (digitsValue acc xs) (\<lambda>a. digitsValue a ys)"
  by (induction xs arbitrary: acc) (simp_all add: Option.bind_assoc)

lemma digitsValue_itoa: "digitsValue 0 (itoa_nat n) = Some n"
proof (induction n rule: itoa_nat.induct)
  case (1 n)
  show ?case
  proof (cases "n < 10")
    case True
    then show ?thesis by (simp add: itoa_nat.simps [of n] digitValue_digit)
  next
    case False
    with 1 show ?thesis
      by (simp add: itoa_nat.simps [of n] digitsValue_append digitValue_digit)
  qed
qed

lemma itoa_nat_head: "\<exists>c cs. itoa_nat n = c # cs \<and> digitValue c \<noteq> None"
proof (induction n rule: itoa_nat.induct)
  case (1 n)
  then show ?case
    by (cases "n < 10") (auto simp: itoa_nat.simps [of n] digitValue_digit)
qed

lemma parseDecimal_itoa: "parseDecimal (itoa n) = Some n"
proof -
  obtain c cs where c: "itoa_nat (nat n) = c # cs" "digitValue c \<noteq> None" using itoa_nat_head by blast
  then have "c \<noteq> CHR ''+''" "c \<noteq> CHR ''-''" by (auto simp: digitValue_def)
  moreover have "itoa_nat (nat (- n)) \<noteq> []" using itoa_nat_head [of "nat (- n)"] by auto
  ultimately show ?thesis
    using c digitsValue_itoa [of "nat n"] digitsValue_itoa [of "nat (- n)"]
    by (auto simp: parseDecimal_def itoa_def)
qed

lemma parseInt64_itoa: "minInt64 \<le> n \<Longrightarrow> n \<le> maxInt64 \<Longrightarrow> parseInt64 (itoa n) = Some n"
  by (simp add: parseInt64_def parseDecimal_itoa)

lemma canonicalBelow_itoa:
  assumes "bound \<le> maxInt64"
  shows "canonicalBelow bound s \<longleftrightarrow> (\<exists>n. 0 \<le> n \<and> n < bound \<and> s = itoa n)"
proof
  assume "\<exists>n. 0 \<le> n \<and> n < bound \<and> s = itoa n"
  then obtain n where "0 \<le> n" "n < bound" "s = itoa n" by blast
  with assms show "canonicalBelow bound s" by (simp add: canonicalBelow_def parseInt64_itoa minInt64_def)
qed (auto simp: canonicalBelow_def split: option.splits)

end
