(* ===== verification/ResponseMap.thy ===== *)
theory ResponseMap
  imports WireDecode GoText
begin

section \<open>Reading response values\<close>

text \<open>
  \<open>src/response_map.go\<close> and the integer and text readers of \<open>src/topology_build.go\<close>,
  \<open>src/response.go\<close> and \<open>src/command_validation.go\<close>: turning a decoded value into a map with string
  keys, with its nested containers normalised under one item budget and depth limit.

  A Go map is the list of its entries in the order the iteration visits them. The order matters only
  for which error is reported when several entries are bad.
\<close>

datatype map_error =
    NormalizeDepth
  | NormalizeItems
  | NotAMap
  | MapKeyType
  | DuplicateMapKey string
  | OddMapArray nat

type_synonym entries = "(string \<times> goval) list"

definition consumeItems :: "nat \<Rightarrow> int \<Rightarrow> map_error + int" where
  "consumeItems cnt remaining =
     (if int cnt > remaining then Inl NormalizeItems else Inr (remaining - int cnt))"

fun nativeMapKey :: "goval \<Rightarrow> map_error + string" where
  "nativeMapKey (VString s) = Inr s"
| "nativeMapKey (VBytes b) = Inr (string_of b)"
| "nativeMapKey _ = Inl MapKeyType"

fun allPairs :: "goval list \<Rightarrow> bool" where
  "allPairs [] = True"
| "allPairs (VArray i [_, _] # rest) = allPairs rest"
| "allPairs (_ # _) = False"

text \<open>The two elements of a value that \<open>allPairs\<close> accepted.\<close>

fun pairItems :: "goval \<Rightarrow> goval \<times> goval" where
  "pairItems (VArray i [k, v]) = (k, v)"
| "pairItems _ = (VNil, VNil)"

text \<open>
  \<open>putEntry\<close> is the body of the loops that fill the result map: refuse a key that is there already,
  then store the normalised value. \<open>norm\<close> is the normalisation of the entry's value.
\<close>

definition putEntry ::
  "(goval \<Rightarrow> int \<Rightarrow> map_error + (goval \<times> int)) \<Rightarrow> map_error + string \<Rightarrow> goval \<Rightarrow> entries \<times> int \<Rightarrow>
   map_error + (entries \<times> int)"
where
  "putEntry norm key v acc =
     (case acc of (out, budget) \<Rightarrow>
       ebind key (\<lambda>name.
       if name \<in> fst ` set out then Inl (DuplicateMapKey name)
       else ebind (norm v budget) (\<lambda>(v', budget). Inr (out @ [(name, v')], budget))))"

lemma putEntry_cong [fundef_cong]:
  "key = key' \<Longrightarrow> v = v' \<Longrightarrow> acc = acc' \<Longrightarrow> (\<And>b. f v' b = g v' b) \<Longrightarrow> putEntry f key v acc = putEntry g key' v' acc'"
  by (cases acc') (simp add: putEntry_def cong: if_cong)

text \<open>
  \<open>nativeMapDepth\<close>, \<open>pairArrayMapDepth\<close> and \<open>normalizeNativeCheckedDepth\<close> call each other. In a map
  with string keys no two entries have the same key, so the duplicate check of the other two loops is
  harmless there. Each call on an element is one or two levels deeper, and the depth is bounded.
\<close>

function (sequential)
  normalizeNativeCheckedDepth :: "goval \<Rightarrow> int \<Rightarrow> nat \<Rightarrow> map_error + (goval \<times> int)" and
  nativeMapDepth :: "goval \<Rightarrow> int \<Rightarrow> nat \<Rightarrow> map_error + (entries \<times> int)"
where
  "normalizeNativeCheckedDepth v budget depth =
     (if depth > nativeMaxDecodeDepth then Inl NormalizeDepth
      else case v of
        VRMap _ _ \<Rightarrow> ebind (nativeMapDepth v budget depth) (\<lambda>(m, budget). Inr (VMap None m, budget))
      | VMap _ _ \<Rightarrow> ebind (nativeMapDepth v budget depth) (\<lambda>(m, budget). Inr (VMap None m, budget))
      | VArray _ xs \<Rightarrow>
          ebind (consumeItems (length xs) budget) (\<lambda>budget.
          ebind (for_each (\<lambda>item (out, budget).
              ebind (normalizeNativeCheckedDepth item budget (depth + 1)) (\<lambda>(item', budget).
              Inr (out @ [item'], budget))) xs ([], budget)) (\<lambda>(out, budget).
          Inr (VArray None out, budget)))
      | _ \<Rightarrow> Inr (v, budget))"
| "nativeMapDepth v budget depth =
     (if depth > nativeMaxDecodeDepth then Inl NormalizeDepth
      else case v of
        VRMap _ es \<Rightarrow>
          ebind (consumeItems (length es) budget) (\<lambda>budget.
          for_each (\<lambda>(key, val).
              putEntry (\<lambda>x b. normalizeNativeCheckedDepth x b (depth + 1))
                (case key of None \<Rightarrow> Inl MapKeyType | Some k \<Rightarrow> Inr k) val) es ([], budget))
      | VMap _ es \<Rightarrow>
          ebind (consumeItems (length es) budget) (\<lambda>budget.
          for_each (\<lambda>(key, val).
              putEntry (\<lambda>x b. normalizeNativeCheckedDepth x b (depth + 1)) (Inr key) val) es ([], budget))
      | VArray _ xs \<Rightarrow>
          ebind (consumeItems (length xs) budget) (\<lambda>budget.
          if xs = [] then Inr ([], budget)
          else if allPairs xs then
            for_each (\<lambda>p (out, budget).
              ebind (consumeItems 2 budget) (\<lambda>budget.
              putEntry (\<lambda>x b. normalizeNativeCheckedDepth x b (depth + 2))
                (nativeMapKey (fst (pairItems p))) (snd (pairItems p)) (out, budget))) xs ([], budget)
          else if length xs mod 2 \<noteq> 0 then Inl (OddMapArray (length xs))
          else
            for_each (\<lambda>(k, val).
              putEntry (\<lambda>x b. normalizeNativeCheckedDepth x b (depth + 1)) (nativeMapKey k) val)
              (pairs_of xs) ([], budget))
      | _ \<Rightarrow> Inl NotAMap)"
  by pat_completeness auto
termination
  by (relation "measures [\<lambda>x. case x of Inl (v, b, d) \<Rightarrow> Suc nativeMaxDecodeDepth - d | Inr (v, b, d) \<Rightarrow> Suc nativeMaxDecodeDepth - d,
      \<lambda>x. case x of Inl _ \<Rightarrow> 1 | Inr _ \<Rightarrow> 0]") (auto simp: nativeMaxDecodeDepth_def)

declare normalizeNativeCheckedDepth.simps [simp del] nativeMapDepth.simps [simp del]

definition nativeMap :: "goval \<Rightarrow> map_error + entries" where
  "nativeMap v = ebind (nativeMapDepth v (int nativeMaxContainerItems) 0) (\<lambda>(m, _). Inr m)"

subsection \<open>Numbers and text\<close>

text \<open>
  The integer a \<open>float64\<close> is exactly, as an \<open>int64\<close>. The mantissa of a normal number has its hidden
  bit added; the exponent is biased by 1075 over an integer mantissa. The largest value the code's
  bound \<open>v <= math.MaxInt64\<close> admits, 2 to the power 63, does not fit: what the conversion gives there is
  left to the platform, and the model takes the one of amd64, which fails the round-trip check.

  A \<open>float32\<close> is given by its \<open>float64\<close> value. The code checks no range for it, only the round trip, and
  outside the range what the conversion gives is left to the platform too: the model refuses it.
\<close>

definition floatExact :: "64 word \<Rightarrow> int option" where
  "floatExact bits =
     (let e = unat (drop_bit 52 bits AND mask 11);
          m = unat (bits AND mask 52) + (if e = 0 then 0 else 2 ^ 52);
          shift = max e 1;
          whole = (if shift \<ge> 1075 then m * 2 ^ (shift - 1075) else m div 2 ^ (1075 - shift));
          exact = (shift \<ge> 1075 \<or> m mod 2 ^ (1075 - shift) = 0);
          n = (if bit bits 63 then - int whole else int whole) in
      if e < 2047 \<and> exact \<and> minInt64 \<le> n \<and> n \<le> maxInt64 then Some n else None)"

fun topologyInteger :: "goval \<Rightarrow> int option" where
  "topologyInteger (VInt n) = Some (sint n)"
| "topologyInteger (VInt8 n) = Some (sint n)"
| "topologyInteger (VInt16 n) = Some (sint n)"
| "topologyInteger (VInt32 n) = Some (sint n)"
| "topologyInteger (VUint n) = (if uint n > maxInt64 then None else Some (uint n))"
| "topologyInteger (VUint8 n) = Some (uint n)"
| "topologyInteger (VUint16 n) = Some (uint n)"
| "topologyInteger (VUint32 n) = Some (uint n)"
| "topologyInteger (VFloat bits) = floatExact bits"
| "topologyInteger _ = None"

text \<open>A string is of type \<open>string\<close> or \<open>[]byte\<close>; \<open>responseString\<close> refuses anything else.\<close>

fun commandText :: "goval \<Rightarrow> string option" where
  "commandText (VString s) = Some s"
| "commandText (VBytes b) = Some (string_of b)"
| "commandText _ = None"

definition responseString :: "goval \<Rightarrow> string option" where
  "responseString v = commandText v"

fun optionalTopologyText :: "goval \<Rightarrow> string option" where
  "optionalTopologyText VNil = Some ''''"
| "optionalTopologyText v = map_option trimSpace (responseString v)"

text \<open>Indexing a map gives the zero value, here nil, for a missing key.\<close>

definition lookupOr :: "entries \<Rightarrow> string \<Rightarrow> goval" where
  "lookupOr m key = (case map_of m key of None \<Rightarrow> VNil | Some v \<Rightarrow> v)"

fun firstPresent :: "entries \<Rightarrow> string list \<Rightarrow> goval" where
  "firstPresent m [] = VNil"
| "firstPresent m (k # ks) = (case map_of m k of Some v \<Rightarrow> v | None \<Rightarrow> firstPresent m ks)"

subsection \<open>Normalising decoded values\<close>

text \<open>What every value costs beyond its own slot in the container that holds it.\<close>

lemma items_pos: "0 < items v"
  by (cases v) auto

lemma length_le_items: "length xs \<le> sum_list (map items xs)"
proof (induction xs)
  case (Cons v vs)
  with items_pos [of v] show ?case by simp
qed simp

lemma normalize_each:
  assumes "\<And>v b. v \<in> set vs \<Longrightarrow> int (items v) - 1 \<le> b \<Longrightarrow> norm v b = Inr (v, b - (int (items v) - 1))"
    and "int (sum_list (map items vs)) - int (length vs) \<le> b"
  shows "for_each (\<lambda>item (out, budget). ebind (norm item budget) (\<lambda>(item', budget). Inr (out @ [item'], budget)))
      vs (out, b) = Inr (out @ vs, b - (int (sum_list (map items vs)) - int (length vs)))"
  using assms
proof (induction vs arbitrary: out b)
  case (Cons v vs)
  have "0 \<le> int (sum_list (map items vs)) - int (length vs)" using length_le_items [of vs] by simp
  then have "norm v b = Inr (v, b - (int (items v) - 1))" using Cons.prems by (intro Cons.prems(1)) auto
  then show ?case using Cons.IH [of "b - (int (items v) - 1)" "out @ [v]"] Cons.prems by (simp add: algebra_simps)
qed simp

lemma normalize_entries:
  assumes "\<And>k v b. (k, v) \<in> set kvs \<Longrightarrow> int (items v) - 1 \<le> b \<Longrightarrow> norm v b = Inr (v, b - (int (items v) - 1))"
    and "int (sum_list (map (\<lambda>(k, v). items v) kvs)) - int (length kvs) \<le> b"
    and "distinct (map fst kvs)" and "fst ` set out \<inter> fst ` set kvs = {}"
  shows "for_each (\<lambda>(key, val). putEntry norm (Inr key) val) kvs (out, b) =
    Inr (out @ kvs, b - (int (sum_list (map (\<lambda>(k, v). items v) kvs)) - int (length kvs)))"
  using assms
proof (induction kvs arbitrary: out b)
  case (Cons kv kvs)
  obtain k v where kv: "kv = (k, v)" by force
  have "length kvs \<le> sum_list (map (\<lambda>(k, v). items v) kvs)"
    using length_le_items [of "map snd kvs"] by (simp add: o_def case_prod_unfold)
  then have "norm v b = Inr (v, b - (int (items v) - 1))" using Cons.prems(1,2) kv by (intro Cons.prems(1)) auto
  moreover have "k \<notin> fst ` set out" using Cons.prems(4) kv by auto
  ultimately have "putEntry norm (Inr k) v (out, b) = Inr (out @ [(k, v)], b - (int (items v) - 1))"
    by (simp add: putEntry_def)
  moreover have "for_each (\<lambda>(key, val). putEntry norm (Inr key) val) kvs (out @ [(k, v)], b - (int (items v) - 1)) =
      Inr ((out @ [(k, v)]) @ kvs,
        b - (int (items v) - 1) - (int (sum_list (map (\<lambda>(k, v). items v) kvs)) - int (length kvs)))"
    using Cons.prems kv by (intro Cons.IH) auto
  ultimately show ?case using kv by (simp add: algebra_simps)
qed simp

lemma normalize_canon:
  "canon v \<Longrightarrow> depth_ok nativeMaxDecodeDepth d v \<Longrightarrow> int (items v) - 1 \<le> b \<Longrightarrow>
    normalizeNativeCheckedDepth v b d = Inr (v, b - (int (items v) - 1))"
proof (induction v arbitrary: b d rule: canon.induct)
  case (7 i vs)
  have "\<not> nativeMaxDecodeDepth < d" using "7.prems"(2) by simp
  moreover have "int (length vs) \<le> b" using "7.prems"(3) length_le_items [of vs] by simp
  moreover have "for_each (\<lambda>item (out, budget).
      ebind (normalizeNativeCheckedDepth item budget (d + 1)) (\<lambda>(item', budget). Inr (out @ [item'], budget)))
      vs ([], b - int (length vs)) = Inr ([] @ vs, b - int (length vs) - (int (sum_list (map items vs)) - int (length vs)))"
    using "7.prems" "7.IH" by (intro normalize_each) auto
  ultimately show ?case
    using "7.prems" by (simp add: normalizeNativeCheckedDepth.simps [of _ b d] consumeItems_def)
next
  case (8 i kvs)
  have "\<not> nativeMaxDecodeDepth < d" using "8.prems"(2) by simp
  moreover have "int (length kvs) \<le> b"
    using "8.prems"(3) length_le_items [of "map snd kvs"] by (simp add: o_def case_prod_unfold)
  moreover have "for_each (\<lambda>(key, val). putEntry (\<lambda>x b. normalizeNativeCheckedDepth x b (d + 1)) (Inr key) val)
      kvs ([], b - int (length kvs)) =
      Inr ([] @ kvs, b - int (length kvs) - (int (sum_list (map (\<lambda>(k, v). items v) kvs)) - int (length kvs)))"
    using "8.prems" by (intro normalize_entries) (auto intro!: "8.IH")
  ultimately show ?case
    using "8.prems" by (simp add: normalizeNativeCheckedDepth.simps [of _ b d] nativeMapDepth.simps [of _ b d] consumeItems_def)
qed (simp_all add: normalizeNativeCheckedDepth.simps)

lemma nativeMap_canon:
  assumes "canon (VMap None kvs)" and "depth_ok nativeMaxDecodeDepth 0 (VMap None kvs)"
    and "items (VMap None kvs) \<le> nativeMaxContainerItems"
  shows "nativeMap (VMap None kvs) = Inr kvs"
proof -
  have "normalizeNativeCheckedDepth (VMap None kvs) (int nativeMaxContainerItems) 0 =
      Inr (VMap None kvs, int nativeMaxContainerItems - (int (items (VMap None kvs)) - 1))"
    using assms by (intro normalize_canon) auto
  then show ?thesis
    by (auto simp: normalizeNativeCheckedDepth.simps nativeMap_def ebind_Inr_iff nativeMaxDecodeDepth_def)
qed

end
