(* ===== verification/Hello.thy ===== *)
theory Hello
  imports FlowQueryCodec FlowControl Responses ResponseMap WireCodec
begin

section \<open>The HELLO contract\<close>

text \<open>
  \<open>src/native_server_contract.go\<close>, \<open>src/native_flow_query_contract.go\<close>, \<open>src/native_policy_contract.go\<close> and
  the capability readers of \<open>src/native_limits.go\<close>: what the client accepts as a server's announcement,
  the limits it takes from it, and the executor state the limits go into. A nil map and an empty map
  answer every lookup alike, so both are the empty list of entries.
\<close>

datatype hello_error =
    HelloNotMap map_error
  | UnsupportedProtocol
  | UnsupportedVersion
  | AuthRequiredNotBool
  | MissingCapability string
  | CapabilityNotMap string
  | CapabilityNotPositive string
  | ProtocolVersionsNotArray
  | ProtocolVersionMissing
  | FieldsNotArray
  | FieldsTooMany nat
  | FieldsNotText
  | FieldsDuplicate string
  | PolicyFieldMissing string
  | ContractMismatch string
  | StringSetNotArray string
  | StringSetSize string nat
  | StringSetNotText string
  | StringSetDuplicate string string
  | LanguageMissing
  | QueryCapabilityMissing string
  | QueryShapeMissing string
  | QueryFieldMissing string
  | QueryRequiredMissing string
  | QueryRequiredUnexpected
  | CodecsNotMap
  | TypedValueRequired
  | CodecTableTooLarge nat
  | CodecOpcodesNotArray string
  | CodecOpcodeInvalid string
  | CodecOpcodesTooMany
  | CodecOpcodeDuplicate "16 word" string string
  | EventsNotArray
  | EventsTooMany
  | EventNotText

subsection \<open>Capability maps\<close>

definition requiredNativeCapabilityMap :: "entries \<Rightarrow> string \<Rightarrow> hello_error + entries" where
  "requiredNativeCapabilityMap mapping key =
     (case map_of mapping key of
        None \<Rightarrow> Inl (MissingCapability key)
      | Some v \<Rightarrow> map_err (\<lambda>_. CapabilityNotMap key) (nativeMap v))"

definition optionalNativeCapabilityMap :: "entries \<Rightarrow> string \<Rightarrow> hello_error + entries" where
  "optionalNativeCapabilityMap mapping key =
     (case map_of mapping key of
        None \<Rightarrow> Inr []
      | Some v \<Rightarrow> if v = VNil then Inr [] else map_err (\<lambda>_. CapabilityNotMap key) (nativeMap v))"

definition requiredPositiveNativeCapability :: "entries \<Rightarrow> string \<Rightarrow> hello_error + int" where
  "requiredPositiveNativeCapability mapping key =
     (case map_of mapping key of
        None \<Rightarrow> Inl (MissingCapability key)
      | Some v \<Rightarrow> (case topologyInteger v of
          None \<Rightarrow> Inl (CapabilityNotPositive key)
        | Some n \<Rightarrow> if n \<le> 0 then Inl (CapabilityNotPositive key) else Inr n))"

definition optionalNativeCapabilityInteger :: "entries \<Rightarrow> string \<Rightarrow> bool \<Rightarrow> int option" where
  "optionalNativeCapabilityInteger mapping key positive =
     (case topologyInteger (lookupOr mapping key) of
        None \<Rightarrow> None
      | Some n \<Rightarrow> if \<not> positive \<and> n \<ge> 0 \<or> positive \<and> n > 0 then Some n else None)"

definition boundedNativePositiveInt :: "int \<Rightarrow> int" where
  "boundedNativePositiveInt v = (if v > maxInt64 then maxInt64 else v)"

definition boundedNativeFrameBytes :: "int \<Rightarrow> int" where
  "boundedNativeFrameBytes v = (if v > int nativeMaxFrameBytes then int nativeMaxFrameBytes else v)"

text \<open>
  \<open>nativeCapabilityInteger\<close> looks for the field breadth first, on three levels of nested maps. The inner
  loop either returns a number or collects the children for the next level.
\<close>

fun capabilityLevel :: "string \<Rightarrow> string list \<Rightarrow> bool \<Rightarrow> goval list \<Rightarrow> goval list \<Rightarrow> int + goval list" where
  "capabilityLevel field nestedKeys positive [] next = Inr next"
| "capabilityLevel field nestedKeys positive (candidate # level) next =
     (case nativeMap candidate of
        Inl _ \<Rightarrow> capabilityLevel field nestedKeys positive level next
      | Inr mapping \<Rightarrow>
          let found = Option.bind (map_of mapping field) topologyInteger;
              children = filter (\<lambda>v. v \<noteq> VNil) (List.map_filter (map_of mapping) nestedKeys) in
          (case found of
             Some n \<Rightarrow>
               if \<not> positive \<and> n \<ge> 0 \<or> positive \<and> n > 0 then Inl n
               else capabilityLevel field nestedKeys positive level (next @ children)
           | None \<Rightarrow> capabilityLevel field nestedKeys positive level (next @ children)))"

fun capabilitySearch :: "nat \<Rightarrow> string \<Rightarrow> string list \<Rightarrow> bool \<Rightarrow> goval list \<Rightarrow> int option" where
  "capabilitySearch 0 field nestedKeys positive level = None"
| "capabilitySearch (Suc d) field nestedKeys positive level =
     (if level = [] then None
      else case capabilityLevel field nestedKeys positive level [] of
        Inl n \<Rightarrow> Some n
      | Inr next \<Rightarrow> capabilitySearch d field nestedKeys positive next)"

definition nativeCapabilityInteger :: "goval \<Rightarrow> string \<Rightarrow> string list \<Rightarrow> bool \<Rightarrow> int option" where
  "nativeCapabilityInteger v field nestedKeys positive = capabilitySearch 3 field nestedKeys positive [v]"

definition nativeFlowControlLimits :: "goval \<Rightarrow> int option \<times> int option" where
  "nativeFlowControlLimits v =
     (let nested = [''flow_control'', ''limits'', ''payload''];
          limit = (\<lambda>field. case nativeCapabilityInteger v field nested False of
                     None \<Rightarrow> None | Some n \<Rightarrow> if n \<le> maxInt64 then Some n else None) in
      (limit ''max_inflight_per_connection'', limit ''max_inflight_per_lane''))"

subsection \<open>Text lists\<close>

definition nativeMaxSchemaFields :: nat where "nativeMaxSchemaFields = 256"

text \<open>A Go set of strings is the list of its members, without repetition.\<close>

definition nativeSchemaFields :: "goval \<Rightarrow> hello_error + string list" where
  "nativeSchemaFields v =
     (case v of
        VArray _ values \<Rightarrow>
          if length values > nativeMaxSchemaFields then Inl (FieldsTooMany (length values))
          else for_each (\<lambda>x out.
            (case commandText x of
               None \<Rightarrow> Inl FieldsNotText
             | Some field \<Rightarrow>
                 if field = '''' then Inl FieldsNotText
                 else if field \<in> set out then Inl (FieldsDuplicate field)
                 else Inr (out @ [field]))) values []
      | _ \<Rightarrow> Inl FieldsNotArray)"

definition nativeFlowQueryStringSet :: "goval \<Rightarrow> string \<Rightarrow> nat \<Rightarrow> hello_error + string list" where
  "nativeFlowQueryStringSet v field maximum =
     (case v of
        VArray _ values \<Rightarrow>
          if values = [] \<or> length values > maximum then Inl (StringSetSize field maximum)
          else for_each (\<lambda>x out.
            (case commandText x of
               None \<Rightarrow> Inl (StringSetNotText field)
             | Some text \<Rightarrow>
                 if text = '''' \<or> length text > 256 then Inl (StringSetNotText field)
                 else if text \<in> set out then Inl (StringSetDuplicate field text)
                 else Inr (out @ [text]))) values []
      | _ \<Rightarrow> Inl (StringSetNotArray field))"

definition requiredNativeFlowQueryString :: "entries \<Rightarrow> string \<Rightarrow> string option" where
  "requiredNativeFlowQueryString mapping key =
     (case Option.bind (map_of mapping key) commandText of
        None \<Rightarrow> None
      | Some text \<Rightarrow> if text = '''' \<or> length text > 256 then None else Some text)"

text \<open>The first of the required names that a set lacks.\<close>

definition requireAll :: "(string \<Rightarrow> hello_error) \<Rightarrow> string list \<Rightarrow> string list \<Rightarrow> hello_error + unit" where
  "requireAll err required have =
     (case find (\<lambda>n. n \<notin> set have) required of None \<Rightarrow> Inr () | Some n \<Rightarrow> Inl (err n))"

definition validateNativeFlowPolicyCapabilities :: "entries \<Rightarrow> hello_error + unit" where
  "validateNativeFlowPolicyCapabilities capabilities =
     ebind (requiredNativeCapabilityMap capabilities ''schemas'') (\<lambda>schemas.
     ebind (requiredNativeCapabilityMap schemas ''FLOW.POLICY.SET'') (\<lambda>policySchema.
     ebind (nativeSchemaFields (lookupOr policySchema ''fields'')) (\<lambda>fields.
     requireAll PolicyFieldMissing [''replace'', ''expected_generation''] fields)))"

definition validateNativeProtocolVersions :: "goval \<Rightarrow> hello_error + unit" where
  "validateNativeProtocolVersions v =
     (case v of
        VArray _ versions \<Rightarrow>
          guard (\<exists>raw \<in> set versions. topologyInteger raw = Some (uint nativeRequestVersion)) ProtocolVersionMissing
      | _ \<Rightarrow> Inl ProtocolVersionsNotArray)"

subsection \<open>The FLOW.QUERY contract\<close>

definition flowQueryLanguageVersion :: string where "flowQueryLanguageVersion = ''FQL1''"
definition flowQueryRequestContract :: string where "flowQueryRequestContract = ''ferric.flow.query.request/v1''"
definition flowExplainContract :: string where "flowExplainContract = ''ferric.flow.explain/v1''"
definition flowQueryIndexesContract :: string where "flowQueryIndexesContract = ''ferric.flow.query.indexes/v1''"

definition requiredNativeFlowQueryCapabilities :: "string list" where
  "requiredNativeFlowQueryCapabilities =
     [''flow_query_v1'', ''flow_query_result_projection_v1'', ''flow_explain_v1'', ''flow_explain_analyze_v1'',
      ''flow_composite_index_v1'', ''flow_query_index_status_v1'']"

definition requiredNativeFlowQueryShapes :: "string list" where
  "requiredNativeFlowQueryShapes =
     [''runs_by_run_id_record'',
      ''runs_by_partition_and_run_id_record'',
      ''runs_by_partition_predicates_ordered_records'',
      ''runs_by_partition_type_state_ordered_records'',
      ''runs_by_partition_type_terminals_ordered_records'',
      ''runs_by_partition_metadata_ordered_records'',
      ''runs_by_partition_type_running_lease_deadline_ordered_records'',
      ''runs_by_partition_parent_ordered_records'',
      ''runs_by_partition_root_ordered_records'',
      ''runs_by_partition_correlation_ordered_records'',
      ''runs_by_partition_predicates_count'',
      ''events_by_run_id_ordered_records'']"

record flow_query_contract =
  RequestContract :: string
  ResultContract :: string
  ExplainContract :: string
  IndexStatusContract :: string
  qcapabilities :: "string list"
  qlanguages :: "string list"
  qshapes :: "string list"

definition supportsCapability :: "flow_query_contract \<Rightarrow> string \<Rightarrow> bool" where
  "supportsCapability c name \<longleftrightarrow> name \<in> set (qcapabilities c)"

definition supportsShape :: "flow_query_contract \<Rightarrow> string \<Rightarrow> bool" where
  "supportsShape c name \<longleftrightarrow> name \<in> set (qshapes c)"

definition requireContract :: "entries \<Rightarrow> string \<Rightarrow> string \<Rightarrow> hello_error + string" where
  "requireContract manifest key expected =
     (case requiredNativeFlowQueryString manifest key of
        None \<Rightarrow> Inl (ContractMismatch key)
      | Some text \<Rightarrow> if text \<noteq> expected then Inl (ContractMismatch key) else Inr text)"

definition validateNativeFlowQuerySchema :: "entries \<Rightarrow> hello_error + unit" where
  "validateNativeFlowQuerySchema capabilities =
     ebind (requiredNativeCapabilityMap capabilities ''schemas'') (\<lambda>schemas.
     ebind (requiredNativeCapabilityMap schemas ''FLOW.QUERY'') (\<lambda>querySchema.
     ebind (nativeSchemaFields (lookupOr querySchema ''fields'')) (\<lambda>fields.
     ebind (requireAll QueryFieldMissing [''version'', ''query'', ''params'', ''deadline_ms''] fields) (\<lambda>_.
     ebind (nativeSchemaFields (lookupOr querySchema ''required'')) (\<lambda>required.
     ebind (requireAll QueryRequiredMissing [''version'', ''query''] required) (\<lambda>_.
     guard (length required = 2) QueryRequiredUnexpected))))))"

definition parseNativeFlowQueryContract :: "entries \<Rightarrow> hello_error + flow_query_contract" where
  "parseNativeFlowQueryContract capabilities =
     ebind (requiredNativeCapabilityMap capabilities ''flow_query'') (\<lambda>manifest.
     ebind (requireContract manifest ''request_contract'' flowQueryRequestContract) (\<lambda>requestContract.
     ebind (requireContract manifest ''result_contract'' flowQueryResultContract) (\<lambda>resultContract.
     ebind (requireContract manifest ''explain_contract'' flowExplainContract) (\<lambda>explainContract.
     ebind (requireContract manifest ''index_status_contract'' flowQueryIndexesContract) (\<lambda>indexStatusContract.
     ebind (nativeFlowQueryStringSet (lookupOr manifest ''capabilities'') ''capabilities'' 64) (\<lambda>queryCapabilities.
     ebind (nativeFlowQueryStringSet (lookupOr manifest ''language_versions'') ''language_versions'' 16) (\<lambda>languages.
     ebind (nativeFlowQueryStringSet (lookupOr manifest ''shapes'') ''shapes'' 128) (\<lambda>shapes.
     ebind (guard (flowQueryLanguageVersion \<in> set languages) LanguageMissing) (\<lambda>_.
     ebind (requireAll QueryCapabilityMissing requiredNativeFlowQueryCapabilities queryCapabilities) (\<lambda>_.
     ebind (requireAll QueryShapeMissing requiredNativeFlowQueryShapes shapes) (\<lambda>_.
     ebind (validateNativeFlowQuerySchema capabilities) (\<lambda>_.
     Inr \<lparr>RequestContract = requestContract, ResultContract = resultContract, ExplainContract = explainContract,
          IndexStatusContract = indexStatusContract, qcapabilities = queryCapabilities, qlanguages = languages,
          qshapes = shapes\<rparr>))))))))))))"

subsection \<open>Response codecs and events\<close>

definition nativeMaxResponseCodecs :: nat where "nativeMaxResponseCodecs = 32"
definition nativeMaxResponseOpcodes :: nat where "nativeMaxResponseOpcodes = 1024"

definition nativeCompactCodecByName :: "string \<Rightarrow> nativeCompactCodec option" where
  "nativeCompactCodecByName name =
     (if name = ''flow_claim_jobs_v1'' then Some nativeCodecFlowClaimJobs
      else if name = ''flow_record_v1'' then Some nativeCodecFlowRecord
      else if name = ''flow_record_list_v1'' then Some nativeCodecFlowRecordList
      else if name = ''kv_get_v1'' then Some nativeCodecKVGet
      else if name = ''kv_mget_v1'' then Some nativeCodecKVMGet
      else if name = ''ok_list_v1'' then Some nativeCodecOKList
      else if name = ''pipeline_v1'' then Some nativeCodecPipeline
      else if name = ''flow_query_result_v1'' then Some nativeCodecFlowQueryResult
      else None)"

text \<open>The state of the two loops over codecs and their opcodes: the table, who advertised what, the count.\<close>

record codec_table =
  cbyOpcode :: "16 word \<rightharpoonup> nativeCompactCodec"
  advertised :: "16 word \<rightharpoonup> string"
  ccount :: nat

definition addOpcode :: "string \<Rightarrow> goval \<Rightarrow> codec_table \<Rightarrow> hello_error + codec_table" where
  "addOpcode name rawOpcode t =
     (case topologyInteger rawOpcode of
        None \<Rightarrow> Inl (CodecOpcodeInvalid name)
      | Some opcode \<Rightarrow>
          if opcode < 0 \<or> opcode > 65535 then Inl (CodecOpcodeInvalid name)
          else
            let t = t\<lparr>ccount := ccount t + 1\<rparr> in
            if ccount t > nativeMaxResponseOpcodes then Inl CodecOpcodesTooMany
            else
              let key = word_of_int opcode in
              case advertised t key of
                Some previous \<Rightarrow> Inl (CodecOpcodeDuplicate key previous name)
              | None \<Rightarrow>
                  let t = t\<lparr>advertised := (advertised t)(key \<mapsto> name)\<rparr> in
                  Inr (case nativeCompactCodecByName name of
                         None \<Rightarrow> t | Some codec \<Rightarrow> t\<lparr>cbyOpcode := (cbyOpcode t)(key \<mapsto> codec)\<rparr>))"

definition addCodec :: "string \<times> goval \<Rightarrow> codec_table \<Rightarrow> hello_error + codec_table" where
  "addCodec entry t =
     (case snd entry of
        VArray _ opcodes \<Rightarrow> for_each (addOpcode (fst entry)) opcodes t
      | _ \<Rightarrow> Inl (CodecOpcodesNotArray (fst entry)))"

definition parseNativeResponseCodecs :: "goval \<Rightarrow> hello_error + nativeResponseCodecs" where
  "parseNativeResponseCodecs v =
     ebind (map_err (\<lambda>_. CodecsNotMap) (nativeMap v)) (\<lambda>codecs.
     ebind (guard (lookupOr codecs ''typed_value'' = VBool True) TypedValueRequired) (\<lambda>_.
     ebind (requiredNativeCapabilityMap codecs ''compact_response_opcodes'') (\<lambda>table.
     ebind (guard (length table \<le> nativeMaxResponseCodecs) (CodecTableTooLarge (length table))) (\<lambda>_.
     ebind (for_each addCodec table \<lparr>cbyOpcode = Map.empty, advertised = Map.empty, ccount = 0\<rparr>) (\<lambda>t.
     Inr \<lparr>byOpcode = cbyOpcode t, negotiated = True\<rparr>)))))"

definition parseNativeEventCapabilities :: "goval \<Rightarrow> hello_error + string list" where
  "parseNativeEventCapabilities v =
     (case v of
        VNil \<Rightarrow> Inr []
      | VArray _ evs \<Rightarrow>
          if length evs > 64 then Inl EventsTooMany
          else for_each (\<lambda>x out.
            (case commandText x of
               None \<Rightarrow> Inl EventNotText
             | Some name \<Rightarrow> if name = '''' then Inl EventNotText
                            else Inr (if name \<in> set out then out else out @ [name]))) evs []
      | _ \<Rightarrow> Inl EventsNotArray)"

subsection \<open>The whole contract\<close>

definition nativeDefaultRequestFrameBytes :: int where "nativeDefaultRequestFrameBytes = 16 * 1024 * 1024"
definition nativeDefaultPipelineCommands :: int where "nativeDefaultPipelineCommands = 1024"
definition nativeDefaultProtocolLanes :: nat where "nativeDefaultProtocolLanes = 8"
definition nativeDefaultResponseBytes :: int where "nativeDefaultResponseBytes = 64 * 1024 * 1024"
definition nativeUnauthenticatedFrameBytes :: int where "nativeUnauthenticatedFrameBytes = 64 * 1024"

record hello_contract =
  maxRequestFrameBytes :: int
  maxResponseBytes :: int
  maxPipelineCommands :: int
  maxDataLanes :: "32 word"
  connectionCredits :: int
  laneCredits :: int
  laneQueue :: int
  responseCodecs :: nativeResponseCodecs
  flowQuery :: "flow_query_contract option"
  compactPubSubPublish :: bool
  compactStreamXAdd :: bool
  hevents :: "string list"
  authRequired :: bool

definition defaultNativeHelloContract :: "int \<Rightarrow> hello_contract" where
  "defaultNativeHelloContract configured =
     \<lparr>maxRequestFrameBytes = nativeDefaultRequestFrameBytes,
      maxResponseBytes = (if configured \<le> 0 then nativeDefaultResponseBytes else configured),
      maxPipelineCommands = nativeDefaultPipelineCommands, maxDataLanes = 1,
      connectionCredits = nativeDefaultConnectionCredits, laneCredits = nativeDefaultLaneCredits,
      laneQueue = nativeDefaultLaneQueue, responseCodecs = \<lparr>byOpcode = Map.empty, negotiated = True\<rparr>,
      flowQuery = None, compactPubSubPublish = False, compactStreamXAdd = False, hevents = [], authRequired = False\<rparr>"

definition constrainNativeContractForAuthentication :: "hello_contract \<Rightarrow> bool \<Rightarrow> hello_contract" where
  "constrainNativeContractForAuthentication c authenticated =
     (if \<not> authenticated \<and>
         (maxRequestFrameBytes c \<le> 0 \<or> maxRequestFrameBytes c > nativeUnauthenticatedFrameBytes)
      then c\<lparr>maxRequestFrameBytes := nativeUnauthenticatedFrameBytes\<rparr> else c)"

definition supportsEvents :: "hello_contract \<Rightarrow> string list \<Rightarrow> bool" where
  "supportsEvents c names \<longleftrightarrow> (\<forall>n \<in> set names. n \<in> set (hevents c)) \<and> names \<noteq> []"

text \<open>The optional limits, in the order the code reads them.\<close>

definition readLimits :: "entries \<Rightarrow> hello_contract \<Rightarrow> hello_contract" where
  "readLimits limits c =
     (let c = (case optionalNativeCapabilityInteger limits ''max_frame_bytes'' True of
                 None \<Rightarrow> c | Some raw \<Rightarrow> c\<lparr>maxRequestFrameBytes := boundedNativeFrameBytes raw\<rparr>);
          c = (case optionalNativeCapabilityInteger limits ''max_pipeline_commands'' False of
                 None \<Rightarrow> c | Some raw \<Rightarrow> if raw \<le> maxInt64 then c\<lparr>maxPipelineCommands := raw\<rparr> else c);
          c = (case optionalNativeCapabilityInteger limits ''max_lane_queue'' False of
                 None \<Rightarrow> c | Some raw \<Rightarrow> if raw \<le> maxInt64 then c\<lparr>laneQueue := raw\<rparr> else c) in
      c)"

definition readMultiplexing :: "entries \<Rightarrow> hello_contract \<Rightarrow> hello_contract" where
  "readMultiplexing m c =
     (case optionalNativeCapabilityInteger m ''max_lanes_per_connection'' True of
        None \<Rightarrow> c | Some raw \<Rightarrow> if raw \<le> int maxUint32 then c\<lparr>maxDataLanes := word_of_int raw\<rparr> else c)"

definition readFlowControl :: "entries \<Rightarrow> hello_contract \<Rightarrow> hello_contract" where
  "readFlowControl m c =
     (let c = (case optionalNativeCapabilityInteger m ''max_inflight_per_connection'' False of
                 None \<Rightarrow> c | Some raw \<Rightarrow> if raw \<le> maxInt64 then c\<lparr>connectionCredits := raw\<rparr> else c);
          c = (case optionalNativeCapabilityInteger m ''max_inflight_per_lane'' False of
                 None \<Rightarrow> c | Some raw \<Rightarrow> if raw \<le> maxInt64 then c\<lparr>laneCredits := raw\<rparr> else c) in
      c)"

definition readPipelineModes :: "entries \<Rightarrow> hello_contract \<Rightarrow> hello_contract" where
  "readPipelineModes modes c =
     (let c = (case optionalNativeCapabilityInteger modes ''stream_xadd_auto'' True of
                 None \<Rightarrow> c | Some mode \<Rightarrow> c\<lparr>compactStreamXAdd := (mode = 34)\<rparr>);
          c = (case optionalNativeCapabilityInteger modes ''pubsub_publish'' True of
                 None \<Rightarrow> c | Some mode \<Rightarrow> c\<lparr>compactPubSubPublish := (mode = 35)\<rparr>) in
      c)"

text \<open>The identity of the server: its protocol, version and whether it wants authentication.\<close>

definition readIdentity :: "entries \<Rightarrow> hello_contract \<Rightarrow> hello_error + hello_contract" where
  "readIdentity hello c =
     ebind (guard (Option.bind (map_of hello ''protocol'') commandText = Some ''ferricstore-native'') UnsupportedProtocol) (\<lambda>_.
     ebind (guard (Option.bind (map_of hello ''version'') topologyInteger = Some (uint nativeRequestVersion)) UnsupportedVersion) (\<lambda>_.
     (case map_of hello ''auth_required'' of
        None \<Rightarrow> Inr c
      | Some (VBool b) \<Rightarrow> Inr (c\<lparr>authRequired := b\<rparr>)
      | Some _ \<Rightarrow> Inl AuthRequiredNotBool)))"

definition parseNativeHelloContract :: "goval \<Rightarrow> int \<Rightarrow> hello_error + hello_contract" where
  "parseNativeHelloContract v configuredMaxResponseBytes =
     ebind (map_err HelloNotMap (nativeMap v)) (\<lambda>hello.
     ebind (readIdentity hello (defaultNativeHelloContract configuredMaxResponseBytes)) (\<lambda>c.
     ebind (requiredNativeCapabilityMap hello ''capabilities'') (\<lambda>capabilities.
     ebind (validateNativeProtocolVersions (lookupOr capabilities ''protocol_versions'')) (\<lambda>_.
     ebind (validateNativeFlowPolicyCapabilities capabilities) (\<lambda>_.
     ebind (parseNativeFlowQueryContract capabilities) (\<lambda>fq.
     let c = c\<lparr>flowQuery := Some fq\<rparr> in
     ebind (optionalNativeCapabilityMap capabilities ''pipeline'') (\<lambda>pipeline.
     ebind (optionalNativeCapabilityMap pipeline ''modes'') (\<lambda>modes.
     let c = readPipelineModes modes c in
     ebind (requiredNativeCapabilityMap capabilities ''limits'') (\<lambda>limits.
     ebind (requiredPositiveNativeCapability limits ''max_response_bytes'') (\<lambda>serverResponseBytes.
     let c = readLimits limits (c\<lparr>maxResponseBytes := min (maxResponseBytes c) (boundedNativePositiveInt serverResponseBytes)\<rparr>) in
     ebind (optionalNativeCapabilityMap capabilities ''multiplexing'') (\<lambda>multiplexing.
     let c = readMultiplexing multiplexing c in
     ebind (optionalNativeCapabilityMap capabilities ''flow_control'') (\<lambda>flowControl.
     let c = readFlowControl flowControl c in
     ebind (requiredNativeCapabilityMap capabilities ''response_codecs'') (\<lambda>codecs.
     ebind (parseNativeResponseCodecs (VMap None codecs)) (\<lambda>rc.
     ebind (parseNativeEventCapabilities (lookupOr capabilities ''events'')) (\<lambda>evs.
     Inr (c\<lparr>responseCodecs := rc, hevents := evs\<rparr>))))))))))))))))"

subsection \<open>The executor's negotiated state\<close>

text \<open>
  The fields of \<open>NativeExecutor\<close> that \<open>applyHelloContractLocked\<close> writes and the request path reads.
  \<open>conn\<close> is the identity of the current connection; \<open>nextLane\<close> is the 32-bit atomic counter.
\<close>

record native_session =
  optProtocolLanes :: "32 word"
  optMaxQueued :: int
  sconn :: "nat option"
  smaxRequestFrameBytes :: int
  smaxResponseBytes :: int
  smaxPipelineCommands :: int
  smaxDataLanes :: "32 word"
  sresponseCodecs :: nativeResponseCodecs
  sflowQuery :: "flow_query_contract option"
  scompactPubSubPublish :: bool
  scompactStreamXAdd :: bool
  nextLane :: "32 word"
  sflow :: "flow_controller option"

definition applyHelloContractLocked :: "hello_contract \<Rightarrow> native_session \<Rightarrow> native_session" where
  "applyHelloContractLocked c e =
     (let configuredLanes = (if optProtocolLanes e = 0 then of_nat nativeDefaultProtocolLanes else optProtocolLanes e);
          lanes = (if maxDataLanes c = 0 \<or> maxDataLanes c > configuredLanes then configuredLanes else maxDataLanes c) in
      e\<lparr>smaxRequestFrameBytes := maxRequestFrameBytes c, smaxResponseBytes := maxResponseBytes c,
        smaxPipelineCommands := maxPipelineCommands c, smaxDataLanes := lanes,
        sresponseCodecs := responseCodecs c, sflowQuery := flowQuery c,
        scompactPubSubPublish := compactPubSubPublish c, scompactStreamXAdd := compactStreamXAdd c,
        nextLane := 0,
        sflow := Some (newNativeFlowController (connectionCredits c) (laneCredits c) (laneQueue c) (Some (optMaxQueued e)))\<rparr>)"

definition nextDataLane :: "native_session \<Rightarrow> native_session \<times> 32 word" where
  "nextDataLane e =
     (let lanes = (if smaxDataLanes e = 0 then 1 else smaxDataLanes e) in
      (e\<lparr>nextLane := nextLane e + 1\<rparr>, ((nextLane e + 1) - 1) mod lanes + 1))"

definition defaultFlow :: "native_session \<Rightarrow> flow_controller" where
  "defaultFlow e = newNativeFlowController nativeDefaultConnectionCredits nativeDefaultLaneCredits nativeDefaultLaneQueue
     (Some (optMaxQueued e))"

definition negotiatedPipelineLimits :: "native_session \<Rightarrow> native_session \<times> (int \<times> int)" where
  "negotiatedPipelineLimits e =
     (let frameBytes = (if smaxRequestFrameBytes e \<le> 0 then nativeDefaultRequestFrameBytes else smaxRequestFrameBytes e);
          pipelineCommands = (if smaxPipelineCommands e < 0 then nativeDefaultPipelineCommands else smaxPipelineCommands e) in
      (case sflow e of None \<Rightarrow> e\<lparr>sflow := Some (defaultFlow e)\<rparr> | Some _ \<Rightarrow> e, (frameBytes, pipelineCommands)))"

definition supportsCompactStreamXAdd :: "native_session \<Rightarrow> bool" where
  "supportsCompactStreamXAdd e = scompactStreamXAdd e"

definition supportsCompactPubSubPublish :: "native_session \<Rightarrow> bool" where
  "supportsCompactPubSubPublish e = scompactPubSubPublish e"

text \<open>
  A limit update from the server, and a request for a credit, take effect only while the connection
  they were meant for is the current one. A wait for a credit happens outside the executor's mutex.
\<close>

definition applyFlowControlLimits :: "nat option \<Rightarrow> goval \<Rightarrow> native_session \<Rightarrow> native_session" where
  "applyFlowControlLimits expected v e =
     (case nativeFlowControlLimits v of (connection, lane) \<Rightarrow>
       if connection = None \<and> lane = None then e
       else if sconn e \<noteq> expected then e
       else e\<lparr>sflow := map_option (updateLimits connection lane) (sflow e)\<rparr>)"

definition acquireFlowCredit :: "bool \<Rightarrow> nat option \<Rightarrow> lane \<Rightarrow> native_session \<Rightarrow> native_session \<times> acquire_result" where
  "acquireFlowCredit ctxDone expected l e =
     (if sconn e \<noteq> expected then (e, Refused errNativeConnectionUnavailable)
      else
        let flow = (case sflow e of None \<Rightarrow> defaultFlow e | Some f \<Rightarrow> f) in
        case acquire ctxDone l flow of (flow, r) \<Rightarrow> (e\<lparr>sflow := Some flow\<rparr>, r))"

end
