(* ===== verification/HelloSample.thy ===== *)
theory HelloSample
  imports Hello
begin

section \<open>A sample HELLO\<close>

text \<open>A HELLO that the parser accepts, for the witnesses.\<close>

definition plainText :: "string \<Rightarrow> goval" where "plainText s = VBytes (bytes_of s)"

definition plainTexts :: "string list \<Rightarrow> goval" where "plainTexts xs = VArray None (map plainText xs)"

lemma plainText_simps [simp]: "canon (plainText s) \<longleftrightarrow> length s \<le> maxUint32" "depth_ok D d (plainText s) \<longleftrightarrow> d \<le> D" "items (plainText s) = 1"
 "commandText (plainText s) = Some s" "plainText s \<noteq> VNil"
  by (simp_all add: plainText_def)

lemma plainTexts_simps [simp]: "canon (plainTexts ss) \<longleftrightarrow> length ss \<le> nativeMaxContainerItems \<and> (\<forall>s \<in> set ss. length s \<le> maxUint32)"
  "depth_ok D d (plainTexts ss) \<longleftrightarrow> d \<le> D \<and> (ss \<noteq> [] \<longrightarrow> Suc d \<le> D)" "items (plainTexts ss) = Suc (length ss)"
  by (cases ss; auto simp: plainTexts_def o_def sum_list_triv)+

definition sampleSchemas :: entries where
   "sampleSchemas = [(''FLOW.POLICY.SET'', VMap None [(''fields'', plainTexts [''replace'', ''expected_generation''])]),
            (''FLOW.QUERY'', VMap None [(''fields'', plainTexts [''version'', ''query'', ''params'', ''deadline_ms'']),
               (''required'', plainTexts [''version'', ''query''])])]"

definition sampleManifest :: entries where
   "sampleManifest = [(''request_contract'', plainText flowQueryRequestContract), (''result_contract'', plainText flowQueryResultContract),
            (''explain_contract'', plainText flowExplainContract), (''index_status_contract'', plainText flowQueryIndexesContract),
            (''capabilities'', plainTexts requiredNativeFlowQueryCapabilities), (''language_versions'', plainTexts [flowQueryLanguageVersion]),
            (''shapes'', plainTexts requiredNativeFlowQueryShapes)]"

definition sampleTable :: entries where
  "sampleTable = [(''kv_get_v1'', VArray None [VInt 257])]"

definition sampleCodecs :: entries where
  "sampleCodecs = [(''typed_value'', VBool True), (''compact_response_opcodes'', VMap None sampleTable)]"

definition sampleCapabilities :: entries where
   "sampleCapabilities = [(''protocol_versions'', VArray None [VInt 1]),
         (''schemas'', VMap None sampleSchemas),
         (''flow_query'', VMap None sampleManifest),
         (''limits'', VMap None [(''max_response_bytes'', VInt 1048576)]),
         (''multiplexing'', VMap None [(''max_lanes_per_connection'', VInt 4)]),
         (''response_codecs'', VMap None sampleCodecs)]"

definition sampleHello :: entries where
   "sampleHello = [(''protocol'', plainText ''ferricstore-native''), (''version'', VInt 1),
      (''capabilities'', VMap None sampleCapabilities)]"

lemmas sample_names = requiredNativeFlowQueryCapabilities_def requiredNativeFlowQueryShapes_def
  flowQueryRequestContract_def flowQueryResultContract_def flowExplainContract_def flowQueryIndexesContract_def
  flowQueryLanguageVersion_def

lemmas sample_limits = maxUint32_def nativeMaxContainerItems_def nativeMaxDecodeDepth_def

lemma sampleSchemas_map: "nativeMap (VMap None sampleSchemas) = Inr sampleSchemas"
  by (rule nativeMap_canon) (simp_all add: sampleSchemas_def sample_limits)

lemma sampleManifest_map: "nativeMap (VMap None sampleManifest) = Inr sampleManifest"
  by (rule nativeMap_canon) (simp_all add: sampleManifest_def sample_limits sample_names)

lemma sampleCapabilities_map: "nativeMap (VMap None sampleCapabilities) = Inr sampleCapabilities"
  by (rule nativeMap_canon) (simp_all add: sampleCapabilities_def sampleCodecs_def sampleTable_def sampleManifest_def sampleSchemas_def sample_limits sample_names)

lemma sampleHello_map: "nativeMap (VMap None sampleHello) = Inr sampleHello"
  by (rule nativeMap_canon) (simp_all add: sampleHello_def sampleCapabilities_def sampleCodecs_def sampleTable_def sampleManifest_def sampleSchemas_def sample_limits sample_names)

lemma sample_sets: "nativeFlowQueryStringSet (plainTexts requiredNativeFlowQueryCapabilities) x 64 = Inr requiredNativeFlowQueryCapabilities"
  "nativeFlowQueryStringSet (plainTexts requiredNativeFlowQueryShapes) x 128 = Inr requiredNativeFlowQueryShapes"
  "nativeFlowQueryStringSet (plainTexts [flowQueryLanguageVersion]) x 16 = Inr [flowQueryLanguageVersion]"
  by (simp_all add: nativeFlowQueryStringSet_def plainTexts_def requiredNativeFlowQueryCapabilities_def requiredNativeFlowQueryShapes_def flowQueryLanguageVersion_def)

lemmas sample_reads = requiredNativeCapabilityMap_def optionalNativeCapabilityMap_def requiredNativeFlowQueryString_def requireContract_def
  lookupOr_def requireAll_def

lemma sample_small_maps: "nativeMap (VMap None [(''max_response_bytes'', VInt 1048576)]) = Inr [(''max_response_bytes'', VInt 1048576)]"
  "nativeMap (VMap None [(''max_lanes_per_connection'', VInt 4)]) = Inr [(''max_lanes_per_connection'', VInt 4)]"
  by (rule nativeMap_canon; simp add: sample_limits)+

lemma sample_schemas_valid: "validateNativeFlowQuerySchema sampleCapabilities = Inr ()" "validateNativeFlowPolicyCapabilities sampleCapabilities = Inr ()"
proof -
  have 1: "nativeMap (VMap None [(''fields'', plainTexts [''version'', ''query'', ''params'', ''deadline_ms'']),
               (''required'', plainTexts [''version'', ''query''])]) = Inr [(''fields'', plainTexts [''version'', ''query'', ''params'', ''deadline_ms'']),
               (''required'', plainTexts [''version'', ''query''])]"
      "nativeMap (VMap None [(''fields'', plainTexts [''replace'', ''expected_generation''])]) = Inr [(''fields'', plainTexts [''replace'', ''expected_generation''])]"
    by (rule nativeMap_canon; simp add: sample_limits)+
  have 2: "map_of sampleCapabilities ''schemas'' = Some (VMap None sampleSchemas)" by (simp add: sampleCapabilities_def)
  show "validateNativeFlowQuerySchema sampleCapabilities = Inr ()"  "validateNativeFlowPolicyCapabilities sampleCapabilities = Inr ()"
    by (simp_all add: validateNativeFlowQuerySchema_def validateNativeFlowPolicyCapabilities_def sample_reads 2 sampleSchemas_map, simp_all add: sampleSchemas_def 1, simp_all add: nativeSchemaFields_def plainTexts_def nativeMaxSchemaFields_def)
qed

lemma sample_flow_query: "\<exists>fq. parseNativeFlowQueryContract sampleCapabilities = Inr fq"
proof -
  have 2: "map_of sampleCapabilities ''flow_query'' = Some (VMap None sampleManifest)" by (simp add: sampleCapabilities_def)
  have man: "requiredNativeCapabilityMap sampleCapabilities ''flow_query'' = Inr sampleManifest" by (simp add: sample_reads 2 sampleManifest_map)
  have cs: "requireContract sampleManifest ''request_contract'' flowQueryRequestContract = Inr flowQueryRequestContract"
    "requireContract sampleManifest ''result_contract'' flowQueryResultContract = Inr flowQueryResultContract"
    "requireContract sampleManifest ''explain_contract'' flowExplainContract = Inr flowExplainContract"
    "requireContract sampleManifest ''index_status_contract'' flowQueryIndexesContract = Inr flowQueryIndexesContract"
    by (simp_all add: sample_reads sampleManifest_def sample_names)
  have ss: "nativeFlowQueryStringSet (lookupOr sampleManifest ''capabilities'') ''capabilities'' 64 = Inr requiredNativeFlowQueryCapabilities"
    "nativeFlowQueryStringSet (lookupOr sampleManifest ''language_versions'') ''language_versions'' 16 = Inr [flowQueryLanguageVersion]"
    "nativeFlowQueryStringSet (lookupOr sampleManifest ''shapes'') ''shapes'' 128 = Inr requiredNativeFlowQueryShapes"
    by (simp_all add: lookupOr_def sampleManifest_def sample_sets)
  have ra: "requireAll e xs xs = Inr ()" for e xs by (auto simp: requireAll_def find_None_iff split: option.splits)
  show ?thesis unfolding parseNativeFlowQueryContract_def man cs ss ebind_simps sample_schemas_valid ra by simp
qed

lemma sampleCodecs_map: "nativeMap (VMap None sampleCodecs) = Inr sampleCodecs" "nativeMap (VMap None sampleTable) = Inr sampleTable"
  by (rule nativeMap_canon; simp add: sampleCodecs_def sampleTable_def sample_limits)+

lemma sampleTable_required: "requiredNativeCapabilityMap sampleCodecs ''compact_response_opcodes'' = Inr sampleTable"
  by (simp add: requiredNativeCapabilityMap_def sampleCodecs_map sampleCodecs_def [THEN arg_cong [of _ _ map_of]])

lemma sampleCodecs_accepted: "\<exists>rc. parseNativeResponseCodecs (VMap None sampleCodecs) = Inr rc"
proof -
  have typed: "lookupOr sampleCodecs ''typed_value'' = VBool True" by (simp add: lookupOr_def sampleCodecs_def)
  have "length sampleTable \<le> nativeMaxResponseCodecs" by (simp add: sampleTable_def nativeMaxResponseCodecs_def)
  moreover have "\<exists>t. for_each addCodec sampleTable \<lparr>cbyOpcode = Map.empty, advertised = Map.empty, ccount = 0\<rparr> = Inr t"
    by (simp add: sampleTable_def addCodec_def addOpcode_def nativeMaxResponseOpcodes_def Let_def)
  ultimately show ?thesis
    by (auto simp: parseNativeResponseCodecs_def sampleCodecs_map sampleTable_required typed)
qed

lemma sampleHello_accepted: "\<exists>c. parseNativeHelloContract (VMap None sampleHello) 0 = Inr c"
proof -
  obtain q where q: "parseNativeFlowQueryContract sampleCapabilities = Inr q" using sample_flow_query by blast
  obtain rc where rc: "parseNativeResponseCodecs (VMap None sampleCodecs) = Inr rc" using sampleCodecs_accepted by blast
  have "map_of sampleCapabilities ''response_codecs'' = Some (VMap None sampleCodecs)" by (simp add: sampleCapabilities_def)
  then have r: "requiredNativeCapabilityMap sampleCapabilities ''response_codecs'' = Inr sampleCodecs"
    by (simp add: requiredNativeCapabilityMap_def sampleCodecs_map)
  have i: "readIdentity sampleHello c = Inr c" for c by (simp add: readIdentity_def sampleHello_def nativeRequestVersion_def)
  have h: "map_of sampleHello ''capabilities'' = Some (VMap None sampleCapabilities)" by (simp add: sampleHello_def)
  have c: "map_of sampleCapabilities ''limits'' = Some (VMap None [(''max_response_bytes'', VInt 1048576)])"
     "map_of sampleCapabilities ''multiplexing'' = Some (VMap None [(''max_lanes_per_connection'', VInt 4)])"
     "map_of sampleCapabilities ''pipeline'' = None" "map_of sampleCapabilities ''flow_control'' = None" "map_of sampleCapabilities ''events'' = None"
    "map_of sampleCapabilities ''protocol_versions'' = Some (VArray None [VInt 1])"
    by (simp_all add: sampleCapabilities_def)
  have l: "requiredNativeCapabilityMap sampleHello ''capabilities'' = Inr sampleCapabilities" 
    "requiredNativeCapabilityMap sampleCapabilities ''limits'' = Inr [(''max_response_bytes'', VInt 1048576)]"
    "requiredPositiveNativeCapability [(''max_response_bytes'', VInt 1048576)] ''max_response_bytes'' = Inr 1048576"
    "validateNativeProtocolVersions (lookupOr sampleCapabilities ''protocol_versions'') = Inr ()"
    "optionalNativeCapabilityMap sampleCapabilities ''pipeline'' = Inr []" "optionalNativeCapabilityMap [] ''modes'' = Inr []"
    "optionalNativeCapabilityMap sampleCapabilities ''flow_control'' = Inr []"
    "optionalNativeCapabilityMap sampleCapabilities ''multiplexing'' = Inr [(''max_lanes_per_connection'', VInt 4)]"
    "parseNativeEventCapabilities (lookupOr sampleCapabilities ''events'') = Inr []"
    by (simp_all add: sample_reads requiredPositiveNativeCapability_def c h sampleCapabilities_map sample_small_maps validateNativeProtocolVersions_def parseNativeEventCapabilities_def nativeRequestVersion_def)
  show ?thesis unfolding parseNativeHelloContract_def Let_def sampleHello_map i l q r rc ebind_simps map_err_simps sample_schemas_valid by simp
qed

end
