(* ===== verification/HelloProperties.thy ===== *)
theory HelloProperties
  imports HelloSample FlowProperties
begin

section \<open>Properties of the HELLO contract\<close>

text \<open>
  The limits a session runs with after a HELLO are sane whatever the server sends, the codec table is
  the advertised one, and data lanes are handed out round-robin.
\<close>

subsection \<open>Decoded maps\<close>

text \<open>
  A map that the wire decoder returns is read by \<open>nativeMap\<close> unchanged: the depth and item limits
  of the two stages agree, so normalisation never refuses a decoded map.
\<close>

theorem decoded_map_reads_back:
  assumes "decodeNativeValue data = Inr (VMap i kvs, rest)"
  shows "nativeMap (VMap i kvs) = Inr kvs"
proof -
  have "canon (VMap i kvs)" "depth_ok nativeMaxDecodeDepth 0 (VMap i kvs)" "items (VMap i kvs) \<le> nativeMaxContainerItems"
    using assms decodeNativeValue_iff by blast+
  moreover from this have "i = None" by simp
  ultimately show ?thesis using nativeMap_canon by simp
qed

theorem decoded_map_reads_back_witness:
  "\<exists>kvs. decodeNativeValue [6, 0, 0, 0, 1, 0, 0, 0, 1, 97, 5, 0, 0, 0, 1, 1, 9] = Inr (VMap None kvs, [9]) \<and>
     nativeMap (VMap None kvs) = Inr kvs"
proof -
  have "decodeNativeValue [6, 0, 0, 0, 1, 0, 0, 0, 1, 97, 5, 0, 0, 0, 1, 1, 9] =
      Inr (VMap None [(''a'', VArray None [VBool True])], [9])"
    unfolding decodeNativeValue_iff
    by (simp add: wire_simps bytes_of_def nativeMaxDecodeDepth_def nativeMaxContainerItems_def maxUint32_def)
  from decoded_map_reads_back [OF this] this show ?thesis by blast
qed

subsection \<open>Limits\<close>

lemma positive_capability: "optionalNativeCapabilityInteger m k True = Some n \<Longrightarrow> 0 < n"
  by (auto simp: optionalNativeCapabilityInteger_def split: option.splits if_splits)

lemma nonneg_capability: "optionalNativeCapabilityInteger m k False = Some n \<Longrightarrow> 0 \<le> n"
  by (auto simp: optionalNativeCapabilityInteger_def split: option.splits if_splits)

definition limits_sane :: "hello_contract \<Rightarrow> bool" where
  "limits_sane c \<longleftrightarrow> 0 < maxRequestFrameBytes c \<and> maxRequestFrameBytes c \<le> int nativeMaxFrameBytes \<and>
     0 \<le> maxPipelineCommands c \<and> 0 < maxDataLanes c \<and> 0 \<le> connectionCredits c \<and> 0 \<le> laneCredits c \<and> 0 \<le> laneQueue c"

lemma default_sane: "limits_sane (defaultNativeHelloContract n)"
  by (simp add: limits_sane_def defaultNativeHelloContract_def nativeDefaultRequestFrameBytes_def nativeMaxFrameBytes_def
      nativeDefaultPipelineCommands_def nativeDefaultConnectionCredits_def nativeDefaultLaneCredits_def nativeDefaultLaneQueue_def)

lemma readLimits_sane: "limits_sane c \<Longrightarrow> limits_sane (readLimits m c)"
  by (auto simp: limits_sane_def readLimits_def Let_def boundedNativeFrameBytes_def nativeMaxFrameBytes_def
      dest: positive_capability nonneg_capability split: option.splits)

lemma readMultiplexing_sane:
  assumes "limits_sane c"
  shows "limits_sane (readMultiplexing m c)"
proof -
  have "0 < (word_of_int n :: 32 word)" if "0 < n" "n \<le> int maxUint32" for n
  proof -
    have "uint (word_of_int n :: 32 word) = n" using that by (simp add: uint_word_of_int maxUint32_def)
    with that show ?thesis by (simp add: word_less_def)
  qed
  with assms show ?thesis
    by (auto simp: limits_sane_def readMultiplexing_def dest: positive_capability split: option.splits)
qed

lemma readFlowControl_sane: "limits_sane c \<Longrightarrow> limits_sane (readFlowControl m c)"
  by (auto simp: limits_sane_def readFlowControl_def Let_def dest: nonneg_capability split: option.splits)

lemma readPipelineModes_sane: "limits_sane c \<Longrightarrow> limits_sane (readPipelineModes m c)"
  by (auto simp: limits_sane_def readPipelineModes_def Let_def split: option.splits)

lemma readIdentity_sane:
  "readIdentity m c = Inr c' \<Longrightarrow> c' = c \<or> (\<exists>b. c' = c\<lparr>authRequired := b\<rparr>)"
  by (auto simp: readIdentity_def ebind_Inr_iff split: option.splits goval.splits)

lemma reads_keep [simp]:
  "maxResponseBytes (readLimits m c) = maxResponseBytes c" "flowQuery (readLimits m c) = flowQuery c"
  "maxResponseBytes (readMultiplexing m c) = maxResponseBytes c" "flowQuery (readMultiplexing m c) = flowQuery c"
  "maxResponseBytes (readFlowControl m c) = maxResponseBytes c" "flowQuery (readFlowControl m c) = flowQuery c"
  "maxResponseBytes (readPipelineModes m c) = maxResponseBytes c" "flowQuery (readPipelineModes m c) = flowQuery c"
  by (simp_all add: readLimits_def readMultiplexing_def readFlowControl_def readPipelineModes_def Let_def split: option.splits)

lemma requireAll_Inr: "requireAll err req have = Inr u \<Longrightarrow> set req \<subseteq> set have"
  by (auto simp: requireAll_def find_None_iff split: option.splits)

lemma requireContract_Inr: "requireContract m k e = Inr t \<Longrightarrow> t = e"
  by (auto simp: requireContract_def split: option.splits if_splits)

lemma parse_flow_query:
  assumes "parseNativeFlowQueryContract m = Inr fq"
  shows "RequestContract fq = flowQueryRequestContract \<and> ResultContract fq = flowQueryResultContract \<and>
    flowQueryLanguageVersion \<in> set (qlanguages fq) \<and>
    (\<forall>n \<in> set requiredNativeFlowQueryCapabilities. supportsCapability fq n) \<and>
    (\<forall>n \<in> set requiredNativeFlowQueryShapes. supportsShape fq n)"
  using assms
  by (auto simp: parseNativeFlowQueryContract_def ebind_Inr_iff supportsCapability_def supportsShape_def
      dest!: requireAll_Inr requireContract_Inr)

lemma sane_updates [simp]:
  "limits_sane (c\<lparr>authRequired := b\<rparr>) = limits_sane c" "limits_sane (c\<lparr>flowQuery := q\<rparr>) = limits_sane c"
  "limits_sane (c\<lparr>maxResponseBytes := n\<rparr>) = limits_sane c" "limits_sane (c\<lparr>responseCodecs := r\<rparr>) = limits_sane c"
  "limits_sane (c\<lparr>hevents := e\<rparr>) = limits_sane c"
  by (simp_all add: limits_sane_def)

text \<open>
  C20. Whatever a server announces, an accepted HELLO gives sane limits: a positive frame limit within
  the protocol's maximum, a positive response limit no larger than the configured one, at least one
  data lane, non-negative credits; and a FLOW.QUERY contract of the supported version with every
  capability and query shape the client relies on.
\<close>

theorem hello_contract_sane:
  assumes "parseNativeHelloContract v configured = Inr c"
  shows "limits_sane c \<and> 0 < maxResponseBytes c \<and>
    maxResponseBytes c \<le> (if configured \<le> 0 then nativeDefaultResponseBytes else configured) \<and>
    (\<exists>fq. flowQuery c = Some fq \<and> flowQueryLanguageVersion \<in> set (qlanguages fq) \<and>
      (\<forall>n \<in> set requiredNativeFlowQueryCapabilities. supportsCapability fq n) \<and>
      (\<forall>n \<in> set requiredNativeFlowQueryShapes. supportsShape fq n))"
proof -
  from assms obtain hello c0 caps fq modes limits n mm fm rc evs where
    id: "readIdentity hello (defaultNativeHelloContract configured) = Inr c0"
    and fq: "parseNativeFlowQueryContract caps = Inr fq"
    and n: "requiredPositiveNativeCapability limits ''max_response_bytes'' = Inr n"
    and c: "c = readFlowControl fm (readMultiplexing mm (readLimits limits
      ((readPipelineModes modes (c0\<lparr>flowQuery := Some fq\<rparr>))\<lparr>maxResponseBytes := min (maxResponseBytes c0) (boundedNativePositiveInt n)\<rparr>)))
      \<lparr>responseCodecs := rc, hevents := evs\<rparr>"
    unfolding parseNativeHelloContract_def Let_def by (auto simp: ebind_Inr_iff)
  have c0: "limits_sane c0" "maxResponseBytes c0 = maxResponseBytes (defaultNativeHelloContract configured)"
    using readIdentity_sane [OF id] default_sane by auto
  then have "limits_sane c"
    unfolding c by (simp add: readFlowControl_sane readMultiplexing_sane readLimits_sane readPipelineModes_sane)
  moreover have "0 < n" using n by (auto simp: requiredPositiveNativeCapability_def split: option.splits if_splits)
  ultimately show ?thesis
    using parse_flow_query [OF fq] c0(2) unfolding c
    by (simp add: boundedNativePositiveInt_def maxInt64_def defaultNativeHelloContract_def nativeDefaultResponseBytes_def)
qed

subsection \<open>The codec table\<close>

definition coherent :: "codec_table \<Rightarrow> bool" where
  "coherent t \<longleftrightarrow> (\<forall>k. cbyOpcode t k = Option.bind (advertised t k) nativeCompactCodecByName)"

lemma addOpcode_spec:
  assumes "addOpcode name raw t = Inr t'" and "coherent t"
  shows "coherent t' \<and> (\<exists>op. topologyInteger raw = Some (uint op) \<and> advertised t op = None \<and>
    advertised t' = (advertised t)(op \<mapsto> name))"
proof -
  from assms(1) obtain n where n: "topologyInteger raw = Some n" "0 \<le> n" "n \<le> 65535"
    and free: "advertised t (word_of_int n) = None"
    and t': "t' = (case nativeCompactCodecByName name of
        None \<Rightarrow> t\<lparr>ccount := ccount t + 1, advertised := (advertised t)(word_of_int n \<mapsto> name)\<rparr>
      | Some codec \<Rightarrow> t\<lparr>ccount := ccount t + 1, advertised := (advertised t)(word_of_int n \<mapsto> name),
          cbyOpcode := (cbyOpcode t)(word_of_int n \<mapsto> codec)\<rparr>)"
    by (auto simp: addOpcode_def Let_def split: option.splits if_splits)
  have "uint (word_of_int n :: 16 word) = n" using n by (simp add: uint_word_of_int)
  moreover have "coherent t'"
    using assms(2) free unfolding t' coherent_def by (auto split: option.splits)
  moreover have "advertised t' = (advertised t)(word_of_int n \<mapsto> name)"
    unfolding t' by (simp split: option.splits)
  ultimately show ?thesis using n(1) free by metis
qed

definition has_opcode :: "goval list \<Rightarrow> 16 word \<Rightarrow> bool" where
  "has_opcode raws k \<longleftrightarrow> (\<exists>raw \<in> set raws. topologyInteger raw = Some (uint k))"

lemma addOpcodes_spec:
  assumes "for_each (addOpcode name) raws t = Inr t'" and "coherent t"
  shows "coherent t' \<and> (\<forall>k. (has_opcode raws k \<longrightarrow> advertised t k = None) \<and>
    advertised t' k = (if has_opcode raws k then Some name else advertised t k))"
  using assms
proof (induction raws arbitrary: t)
  case Nil
  then show ?case by (simp add: has_opcode_def)
next
  case (Cons raw raws)
  from Cons.prems(1) obtain s where s: "addOpcode name raw t = Inr s" "for_each (addOpcode name) raws s = Inr t'"
    by (auto simp: ebind_Inr_iff)
  from addOpcode_spec [OF s(1) Cons.prems(2)] obtain op where op: "coherent s" "topologyInteger raw = Some (uint op)"
    "advertised t op = None" "advertised s = (advertised t)(op \<mapsto> name)" by blast
  have has: "has_opcode (raw # raws) k \<longleftrightarrow> k = op \<or> has_opcode raws k" for k
    using op(2) by (auto simp: has_opcode_def dest: word_uint_eqI)
  from Cons.IH [OF s(2) op(1)] op(3,4) show ?case unfolding has by (auto split: if_splits)
qed

definition offers :: "entries \<Rightarrow> string \<Rightarrow> 16 word \<Rightarrow> bool" where
  "offers table name k \<longleftrightarrow> (\<exists>i raws. (name, VArray i raws) \<in> set table \<and> has_opcode raws k)"

lemma addCodecs_spec:
  assumes "for_each addCodec table t = Inr t'" and "coherent t"
  shows "coherent t' \<and> (\<forall>k name. advertised t' k = Some name \<longleftrightarrow> advertised t k = Some name \<or> offers table name k)"
  using assms
proof (induction table arbitrary: t)
  case Nil
  then show ?case by (simp add: offers_def)
next
  case (Cons entry table)
  from Cons.prems(1) obtain s where s: "addCodec entry t = Inr s" "for_each addCodec table s = Inr t'"
    by (auto simp: ebind_Inr_iff)
  from s(1) obtain i raws where raws: "snd entry = VArray i raws" "for_each (addOpcode (fst entry)) raws t = Inr s"
    by (cases "snd entry") (auto simp: addCodec_def)
  note sp = addOpcodes_spec [OF raws(2) Cons.prems(2)]
  have off: "offers (entry # table) name k \<longleftrightarrow> name = fst entry \<and> has_opcode raws k \<or> offers table name k" for name k
    using raws(1) by (cases entry) (auto simp: offers_def)
  from Cons.IH [OF s(2)] sp show ?case unfolding off by (auto split: if_splits)
qed

text \<open>
  The negotiated table is the advertised one: an opcode is decoded with a compact codec exactly when
  the server lists it under that codec's name; and no opcode is listed under two names.
\<close>

theorem codec_table_exact:
  assumes "parseNativeResponseCodecs v = Inr rc" and "nativeMap v = Inr m"
    and "requiredNativeCapabilityMap m ''compact_response_opcodes'' = Inr table"
  shows "(byOpcode rc k = Some codec \<longleftrightarrow> (\<exists>name. offers table name k \<and> nativeCompactCodecByName name = Some codec)) \<and>
    (offers table a k \<and> offers table b k \<longrightarrow> a = b)"
proof -
  let ?t = "\<lparr>cbyOpcode = Map.empty, advertised = Map.empty, ccount = 0\<rparr>"
  from assms obtain t where t: "for_each addCodec table ?t = Inr t" "byOpcode rc = cbyOpcode t"
    by (auto simp: parseNativeResponseCodecs_def ebind_Inr_iff)
  have "coherent ?t" by (simp add: coherent_def)
  from addCodecs_spec [OF t(1) this] have c: "coherent t" and a: "\<And>k name. advertised t k = Some name \<longleftrightarrow> offers table name k"
    by auto
  have "byOpcode rc k = Some codec \<longleftrightarrow> (\<exists>name. advertised t k = Some name \<and> nativeCompactCodecByName name = Some codec)"
    using c unfolding t(2) coherent_def by (simp add: bind_eq_Some_conv)
  then show ?thesis using a by (metis option.inject)
qed

subsection \<open>Data lanes\<close>

primrec takeLanes :: "nat \<Rightarrow> native_session \<Rightarrow> 32 word list" where
  "takeLanes 0 e = []"
| "takeLanes (Suc n) e = snd (nextDataLane e) # takeLanes n (fst (nextDataLane e))"

lemma nextDataLane_value:
  assumes "0 < smaxDataLanes e"
  shows "unat (snd (nextDataLane e)) = unat (nextLane e) mod unat (smaxDataLanes e) + 1"
proof -
  have pos: "smaxDataLanes e \<noteq> 0" "0 < unat (smaxDataLanes e)" using assms by (auto simp: word_less_nat_alt)
  have "unat (nextLane e) mod unat (smaxDataLanes e) + 1 \<le> unat (smaxDataLanes e)" using pos by (simp add: Suc_le_eq)
  also have "unat (smaxDataLanes e) < 2 ^ 32" using unsigned_less [of "smaxDataLanes e"] by simp
  finally have "unat (nextLane e mod smaxDataLanes e) + 1 < 2 ^ 32" by (simp add: unat_mod)
  then show ?thesis using pos by (simp add: nextDataLane_def Let_def unat_plus_if_size word_size unat_mod)
qed

lemma takeLanes_value:
  "0 < smaxDataLanes e \<Longrightarrow> unat (nextLane e) + n \<le> 2 ^ 32 \<Longrightarrow>
   map unat (takeLanes n e) = map (\<lambda>i. (unat (nextLane e) + i) mod unat (smaxDataLanes e) + 1) [0..<n]"
proof (induction n arbitrary: e)
  case (Suc n)
  let ?e = "fst (nextDataLane e)"
  have e: "smaxDataLanes ?e = smaxDataLanes e" "nextLane ?e = nextLane e + 1"
    by (simp_all add: nextDataLane_def Let_def)
  have "map unat (takeLanes n ?e) =
      map (\<lambda>i. (unat (nextLane e) + Suc i) mod unat (smaxDataLanes e) + 1) [0..<n]"
  proof (cases "n = 0")
    case False
    then have "unat (nextLane e + 1) = unat (nextLane e) + 1"
      using Suc.prems(2) by (simp add: unat_plus_if_size word_size)
    then show ?thesis using Suc.IH [of ?e] Suc.prems unfolding e by simp
  qed simp
  then show ?case
    unfolding upt_conv_Cons [OF zero_less_Suc] map_Suc_upt [symmetric] by (simp add: nextDataLane_value [OF Suc.prems(1)])
qed simp

lemma consecutive_mod:
  fixes a L :: nat
  assumes "0 < L"
  shows "(\<lambda>i. (a + i) mod L + 1) ` {..<L} = {1..L}"
proof (rule card_seteq)
  show "(\<lambda>i. (a + i) mod L + 1) ` {..<L} \<subseteq> {1..L}" using assms by (auto simp: Suc_le_eq)
  have "inj_on (\<lambda>i. (a + i) mod L + 1) {..<L}"
  proof (rule inj_onI)
    fix i j assume ij: "i \<in> {..<L}" "j \<in> {..<L}" "(a + i) mod L + 1 = (a + j) mod L + 1"
    then have "(a + i) mod L = (a + j) mod L" by simp
    then have "i mod L = j mod L" by (simp add: mod_add_cong nat_mod_eq_iff)
    with ij show "i = j" by simp
  qed
  then show "card {1..L} \<le> card ((\<lambda>i. (a + i) mod L + 1) ` {..<L})" by (simp add: card_image)
qed simp

text \<open>
  Requests are spread evenly over the data lanes: every lane handed out is one of the negotiated
  data lanes, never the control lane 0, and as many consecutive requests as there are lanes use each
  lane exactly once, until the 32-bit counter wraps.
\<close>

theorem data_lanes_round_robin:
  assumes "0 < smaxDataLanes e" and "unat (nextLane e) + unat (smaxDataLanes e) \<le> 2 ^ 32"
  shows "set (map unat (takeLanes (unat (smaxDataLanes e)) e)) = {1..unat (smaxDataLanes e)} \<and>
    distinct (takeLanes (unat (smaxDataLanes e)) e) \<and> 0 < snd (nextDataLane e) \<and> snd (nextDataLane e) \<le> smaxDataLanes e"
proof -
  let ?L = "unat (smaxDataLanes e)"
  have L: "0 < ?L" using assms(1) by (simp add: word_less_nat_alt)
  have s: "set (map unat (takeLanes ?L e)) = {1..?L}"
    unfolding takeLanes_value [OF assms] set_map set_upt lessThan_atLeast0 [symmetric] by (rule consecutive_mod [OF L])
  have "length (takeLanes n e) = n" for n e by (induction n arbitrary: e) simp_all
  then have "card (set (map unat (takeLanes ?L e))) = length (map unat (takeLanes ?L e))" unfolding s by simp
  then have "distinct (takeLanes ?L e)" using card_distinct distinct_map by blast
  moreover have "unat (snd (nextDataLane e)) \<le> ?L" using nextDataLane_value [OF assms(1)] L by (simp add: Suc_le_eq)
  moreover have "0 < unat (snd (nextDataLane e))" using nextDataLane_value [OF assms(1)] by simp
  ultimately show ?thesis using s by (simp add: word_less_nat_alt word_le_nat_alt)
qed

subsection \<open>Witnesses\<close>

theorem hello_contract_sane_witness:
  "\<exists>c. parseNativeHelloContract (VMap None sampleHello) 0 = Inr c \<and> limits_sane c \<and> maxResponseBytes c \<le> 67108864"
proof -
  obtain c where c: "parseNativeHelloContract (VMap None sampleHello) 0 = Inr c" using sampleHello_accepted by blast
  from hello_contract_sane [OF c] c show ?thesis by (auto simp: nativeDefaultResponseBytes_def)
qed

theorem codec_table_exact_witness:
  "\<exists>rc. parseNativeResponseCodecs (VMap None sampleCodecs) = Inr rc \<and> byOpcode rc 257 = Some nativeCodecKVGet"
proof -
  obtain rc where rc: "parseNativeResponseCodecs (VMap None sampleCodecs) = Inr rc" using sampleCodecs_accepted by blast
  have "has_opcode [VInt 257] 257" by (simp add: has_opcode_def)
  then have "offers sampleTable ''kv_get_v1'' 257" by (auto simp: offers_def sampleTable_def)
  moreover have "nativeCompactCodecByName ''kv_get_v1'' = Some nativeCodecKVGet" by (simp add: nativeCompactCodecByName_def)
  ultimately show ?thesis
    using codec_table_exact [OF rc sampleCodecs_map(1) sampleTable_required, of 257 nativeCodecKVGet] rc by blast
qed

theorem data_lanes_round_robin_witness:
  "\<exists>e. smaxDataLanes e = 4 \<and> set (map unat (takeLanes 4 e)) = {1..4}"
proof -
  let ?e = "\<lparr>optProtocolLanes = 0, optMaxQueued = 0, sconn = None, smaxRequestFrameBytes = 0, smaxResponseBytes = 0,
    smaxPipelineCommands = 0, smaxDataLanes = 4, sresponseCodecs = \<lparr>byOpcode = Map.empty, negotiated = True\<rparr>,
    sflowQuery = None, scompactPubSubPublish = False, scompactStreamXAdd = False, nextLane = 6, sflow = None\<rparr>"
  have "0 < smaxDataLanes ?e" "unat (nextLane ?e) + unat (smaxDataLanes ?e) \<le> 2 ^ 32" by simp_all
  from data_lanes_round_robin [OF this] show ?thesis by (intro exI [of _ ?e]) simp
qed

end
