(* ===== verification/Slots.thy ===== *)
theory Slots
  imports GoText
begin

section \<open>Routing slots and internal keys\<close>

text \<open>
  The slot of a key (\<open>src/topology_routing.go\<close>): the IEEE CRC-32 of its hash tag, or of the whole key,
  modulo 1024. And the keys a public command must not touch (\<open>src/internal_key.go\<close>).

  \<open>crc32.IEEETable\<close> and \<open>base64.RawURLEncoding\<close> are the standard library's; they are modelled from
  their definition: the reversed polynomial EDB88320, eight shifts per table entry; six bits per
  character, no padding.
\<close>

definition routeSlotCount :: nat where "routeSlotCount = 1024"
definition routeSlotMask :: "32 word" where "routeSlotMask = 1023"

subsection \<open>CRC-32\<close>

definition crcShift :: "32 word \<Rightarrow> 32 word" where
  "crcShift x = (if bit x 0 then drop_bit 1 x XOR 0xEDB88320 else drop_bit 1 x)"

definition ieeeTable :: "byte \<Rightarrow> 32 word" where
  "ieeeTable i = (crcShift ^^ 8) (ucast i)"

definition crcByte :: "32 word \<Rightarrow> byte \<Rightarrow> 32 word" where
  "crcByte crc b = ieeeTable (ucast crc XOR b) XOR drop_bit 8 crc"

definition routeCRC32 :: "string \<Rightarrow> 32 word" where
  "routeCRC32 s = NOT (foldl crcByte (NOT 0) (bytes_of s))"

subsection \<open>Hash tags\<close>

definition hashTagOrKey :: "string \<Rightarrow> string" where
  "hashTagOrKey key =
     (case indexByte CHR ''{'' key of
        None \<Rightarrow> key
      | Some start \<Rightarrow>
          (case indexByte CHR ''}'' (drop (start + 1) key) of
             None \<Rightarrow> key
           | Some end' \<Rightarrow> if end' = 0 then key else take end' (drop (start + 1) key)))"

definition flowHashTag :: "string \<Rightarrow> string \<Rightarrow> string" where
  "flowHashTag rest fallbackKey =
     (case indexByte CHR ''}'' rest of
        Some end' \<Rightarrow> if end' > 0 then take end' rest else hashTagOrKey fallbackKey
      | None \<Rightarrow> hashTagOrKey fallbackKey)"

definition slotOf :: "string \<Rightarrow> nat" where
  "slotOf hashInput = unat (routeCRC32 hashInput AND routeSlotMask)"

definition routeSlotForString :: "string \<Rightarrow> nat" where
  "routeSlotForString key =
     (let hashInput =
        (if hasPrefix ''f:{'' key then flowHashTag (drop 3 key) key
         else if hasPrefix ''X:f:{'' key then flowHashTag (drop 5 key) key
         else hashTagOrKey key) in
      slotOf hashInput)"

subsection \<open>Base64\<close>

definition base64Char :: "nat \<Rightarrow> char" where
  "base64Char n =
     (if n < 26 then char_of (65 + n) else if n < 52 then char_of (97 + (n - 26))
      else if n < 62 then char_of (48 + (n - 52)) else if n = 62 then CHR ''-'' else CHR ''_'')"

definition base64Value :: "char \<Rightarrow> nat option" where
  "base64Value c =
     (let n = of_char c in
      if 65 \<le> n \<and> n \<le> 90 then Some (n - 65) else if 97 \<le> n \<and> n \<le> 122 then Some (n - 97 + 26)
      else if 48 \<le> n \<and> n \<le> 57 then Some (n - 48 + 52) else if c = CHR ''-'' then Some 62
      else if c = CHR ''_'' then Some 63 else None)"

fun base64Encode :: "nat list \<Rightarrow> string" where
  "base64Encode (a # b # c # bs) =
     base64Char (a div 4) # base64Char (a mod 4 * 16 + b div 16) #
     base64Char (b mod 16 * 4 + c div 64) # base64Char (c mod 64) # base64Encode bs"
| "base64Encode [a, b] = [base64Char (a div 4), base64Char (a mod 4 * 16 + b div 16), base64Char (b mod 16 * 4)]"
| "base64Encode [a] = [base64Char (a div 4), base64Char (a mod 4 * 16)]"
| "base64Encode [] = []"

text \<open>Decoding skips line breaks and drops the unused low bits of the last character.\<close>

fun base64Groups :: "nat list \<Rightarrow> nat list option" where
  "base64Groups (a # b # c # d # vs) =
     map_option (\<lambda>bs. (a * 4 + b div 16) # (b mod 16 * 16 + c div 4) # (c mod 4 * 64 + d) # bs) (base64Groups vs)"
| "base64Groups [a, b, c] = Some [a * 4 + b div 16, b mod 16 * 16 + c div 4]"
| "base64Groups [a, b] = Some [a * 4 + b div 16]"
| "base64Groups [_] = None"
| "base64Groups [] = Some []"

definition base64Decode :: "string \<Rightarrow> nat list option" where
  "base64Decode s =
     (let vs = map base64Value (filter (\<lambda>c. c \<noteq> CHR 0x0A \<and> c \<noteq> CHR 0x0D) s) in
      if None \<in> set vs then None else base64Groups (map the vs))"

definition rawURLEncode :: "bytes \<Rightarrow> string" where
  "rawURLEncode b = base64Encode (map unat b)"

subsection \<open>Reserved keys\<close>

definition internalCompoundKeyPrefixes :: "string list" where
  "internalCompoundKeyPrefixes =
     [''H:'', ''L:'', ''S:'', ''Z:'', ''X:'', ''XM:'', ''XG:'', ''T:'', ''V:'', ''VM:'', ''PM:'', ''LM:'', ''FC:'']"

definition canonicalDigest :: "string \<Rightarrow> bool" where
  "canonicalDigest digest \<longleftrightarrow> length digest = 43 \<and>
     (case base64Decode digest of None \<Rightarrow> False | Some decoded \<Rightarrow> length decoded = 32 \<and> base64Encode decoded = digest)"

definition reservedFlowTag :: "string \<Rightarrow> bool" where
  "reservedFlowTag tag \<longleftrightarrow>
     tag = ''f'' \<or> tag = ''flow-governance'' \<or>
     (case cutPrefix ''fa:'' tag of
        Some bucketText \<Rightarrow> canonicalBelow 256 bucketText
      | None \<Rightarrow>
          (\<exists>prefix \<in> {''f:'', ''fgc:''}.
             case cutPrefix prefix tag of None \<Rightarrow> False | Some digest \<Rightarrow> canonicalDigest digest))"

definition reservedFlowInternalKey :: "string \<Rightarrow> bool" where
  "reservedFlowInternalKey key \<longleftrightarrow>
     hasPrefix ''f:{'' key \<and>
     (let rest = drop 3 key in
      case indexByte CHR ''}'' rest of
        None \<Rightarrow> False
      | Some end' \<Rightarrow>
          0 < end' \<and>
          (let suffix = drop (end' + 1) rest in (suffix = [] \<or> hasPrefix '':'' suffix) \<and> reservedFlowTag (take end' rest)))"

definition reservedInternalKeyString :: "string \<Rightarrow> bool" where
  "reservedInternalKeyString key \<longleftrightarrow>
     hasPrefix ''f:{__server__}:catalog:'' key \<or> reservedFlowInternalKey key \<or>
     (\<exists>prefix \<in> set internalCompoundKeyPrefixes. hasPrefix prefix key)"

datatype key_error = errReservedInternalKey | errEmptyStringKeyV080 | errStringKeyTooLargeV080

definition maxStringKeyBytesV080 :: nat where "maxStringKeyBytesV080 = 65535"

definition validateStringKeyV080 :: "string \<Rightarrow> key_error option" where
  "validateStringKeyV080 key =
     (if key = [] then Some errEmptyStringKeyV080
      else if length key > maxStringKeyBytesV080 then Some errStringKeyTooLargeV080 else None)"

definition validatePublicStringKey :: "string \<Rightarrow> key_error option" where
  "validatePublicStringKey key = (if reservedInternalKeyString key then Some errReservedInternalKey else None)"

definition validatePublicV080StringKey :: "string \<Rightarrow> key_error option" where
  "validatePublicV080StringKey key =
     (case validatePublicStringKey key of Some e \<Rightarrow> Some e | None \<Rightarrow> validateStringKeyV080 key)"

text \<open>The first error over a list of keys.\<close>

fun validateKeys :: "(string \<Rightarrow> key_error option) \<Rightarrow> string list \<Rightarrow> key_error option" where
  "validateKeys f [] = None"
| "validateKeys f (k # ks) = (case f k of Some e \<Rightarrow> Some e | None \<Rightarrow> validateKeys f ks)"

definition validatePublicStringKeys :: "string list \<Rightarrow> key_error option" where
  "validatePublicStringKeys = validateKeys validatePublicStringKey"

definition validatePublicV080StringKeys :: "string list \<Rightarrow> key_error option" where
  "validatePublicV080StringKeys = validateKeys validatePublicV080StringKey"

subsection \<open>The table-driven CRC is the bitwise one\<close>

lemma crcShift_alt: "crcShift x = drop_bit 1 x XOR (if bit x 0 then 0xEDB88320 else 0)"
  by (simp add: crcShift_def)

lemma crcShift_xor: "crcShift (x XOR y) = crcShift x XOR crcShift y"
  by (auto simp: crcShift_alt bit_xor_iff drop_bit_xor xor.assoc xor.left_commute xor.commute)

lemma crcShifts_xor: "(crcShift ^^ n) (x XOR y) = (crcShift ^^ n) x XOR (crcShift ^^ n) y"
  by (induction n) (simp_all add: crcShift_xor)

lemma crcShifts_high:
  "\<forall>i < n. \<not> bit x i \<Longrightarrow> (crcShift ^^ n) x = drop_bit n x"
proof (induction n arbitrary: x)
  case (Suc n)
  then have "\<not> bit x 0" by simp
  then have "crcShift x = drop_bit 1 x" by (simp add: crcShift_def)
  moreover have "(crcShift ^^ n) (drop_bit 1 x) = drop_bit n (drop_bit 1 x)"
    using Suc.prems by (intro Suc.IH) (simp add: bit_drop_bit_eq)
  ultimately show ?case by (simp only: funpow_Suc_right o_apply drop_bit_drop_bit) simp
qed simp

lemma crcByte_bitwise: "crcByte crc b = (crcShift ^^ 8) (crc XOR ucast b)"
proof -
  let ?low = "ucast (ucast crc XOR b :: byte) :: 32 word"
  let ?high = "push_bit 8 (drop_bit 8 crc)"
  have split: "crc XOR ucast b = ?low XOR ?high"
    by (rule bit_word_eqI) (auto simp: bit_xor_iff bit_ucast_iff bit_push_bit_iff bit_drop_bit_eq)
  have "(crcShift ^^ 8) ?high = drop_bit 8 ?high"
    by (rule crcShifts_high) (simp add: bit_push_bit_iff)
  also have "\<dots> = drop_bit 8 crc"
    by (rule bit_word_eqI) (auto simp: bit_push_bit_iff bit_drop_bit_eq dest: bit_imp_le_length)
  finally show ?thesis unfolding split crcShifts_xor by (simp add: crcByte_def ieeeTable_def)
qed

lemma slotOf_bound: "slotOf tag < routeSlotCount"
proof -
  have "unat (x AND routeSlotMask) < 1024" for x :: "32 word"
  proof -
    have "x AND routeSlotMask \<le> routeSlotMask" by (rule word_and_le1)
    then show ?thesis by (simp add: word_le_nat_alt routeSlotMask_def)
  qed
  then show ?thesis by (simp add: slotOf_def routeSlotCount_def Let_def)
qed

lemma slot_bound: "routeSlotForString key < routeSlotCount"
  by (simp add: routeSlotForString_def slotOf_bound Let_def)

end
