(* ===== verification/CommandKeys.thy ===== *)
theory CommandKeys
  imports Slots ResponseMap
begin

section \<open>The keys of a command\<close>

text \<open>
  \<open>src/topology_command_policy.go\<close>, the generic part of \<open>src/topology_routing.go\<close> and the key checks of
  \<open>src/internal_key.go\<close> and \<open>src/command_validation.go\<close>: the name of a command, which of its arguments
  are keys, and whether they live in one slot.

  An argument is a dynamic value, the typed marker that introduces a request context, or a routing slot
  that the client computed itself. A string argument is of type \<open>string\<close>.
\<close>

datatype arg =
    Val goval
  | Marker string     \<comment> \<open>nativeRequestContextMarker, a named string type\<close>
  | RouteSlot nat     \<comment> \<open>topologyRouteSlot\<close>

subsection \<open>Names\<close>

fun argText :: "arg \<Rightarrow> string option" where
  "argText (Val v) = commandText v"
| "argText (Marker s) = Some s"
| "argText (RouteSlot _) = None"

definition commandPart :: "arg \<Rightarrow> string" where
  "commandPart a = (case argText a of None \<Rightarrow> '''' | Some t \<Rightarrow> toUpper t)"

definition splitNativeRequestContext :: "arg list \<Rightarrow> arg list \<times> arg option" where
  "splitNativeRequestContext args =
     (if length args < 2 then (args, None)
      else if args ! (length args - 2) \<noteq> Marker ''REQUEST_CONTEXT'' then (args, None)
      else (take (length args - 2) args, Some (last args)))"

fun stripCommandExec :: "arg list \<Rightarrow> arg list" where
  "stripCommandExec (a # b # rest) =
     (if commandPart a = ''COMMAND_EXEC'' then stripCommandExec (b # rest) else a # b # rest)"
| "stripCommandExec args = args"

definition canonicalCommandArgs :: "arg list \<Rightarrow> arg list" where
  "canonicalCommandArgs args = fst (splitNativeRequestContext (stripCommandExec args))"

definition commandName :: "arg list \<Rightarrow> string" where
  "commandName args =
     (let first = commandPart (hd args) in
      if first = '''' then ''''
      else if length args > 1 \<and> (first = ''FLOW'' \<or> first = ''CLIENT'' \<or> first = ''CLUSTER'') \<and>
              commandPart (args ! 1) \<noteq> ''''
      then first @ ''.'' @ commandPart (args ! 1)
      else first)"

fun isRouteKey :: "arg \<Rightarrow> bool" where
  "isRouteKey (Val (VString _)) = True"
| "isRouteKey (Val (VBytes _)) = True"
| "isRouteKey _ = False"

subsection \<open>Counts\<close>

text \<open>
  \<open>asInt64\<close>: integers as they are (an unsigned 64-bit value is reinterpreted), text parsed as a decimal,
  and anything else through its printed form. A float prints as a plain integer below a million.
\<close>

fun asInt64Value :: "goval \<Rightarrow> int" where
  "asInt64Value (VInt n) = sint n"
| "asInt64Value (VInt8 n) = sint n"
| "asInt64Value (VInt16 n) = sint n"
| "asInt64Value (VInt32 n) = sint n"
| "asInt64Value (VUint n) = sint n"
| "asInt64Value (VUint8 n) = uint n"
| "asInt64Value (VUint16 n) = uint n"
| "asInt64Value (VUint32 n) = uint n"
| "asInt64Value (VFloat bits) =
     (case floatExact bits of None \<Rightarrow> 0 | Some n \<Rightarrow> if \<bar>n\<bar> < 1000000 then n else 0)"
| "asInt64Value (VString s) = parseInt64Value s"
| "asInt64Value (VBytes b) = parseInt64Value (string_of b)"
| "asInt64Value (VStringer _ s) = parseInt64Value s"
| "asInt64Value _ = 0"

fun asInt64 :: "arg \<Rightarrow> int" where
  "asInt64 (Val v) = asInt64Value v"
| "asInt64 (Marker s) = parseInt64Value s"
| "asInt64 (RouteSlot n) = int n"

definition boundedRoutingCount :: "arg \<Rightarrow> nat \<Rightarrow> bool \<Rightarrow> nat option" where
  "boundedRoutingCount v available allowZero =
     (let cnt = asInt64 v in
      if cnt < 0 \<or> \<not> allowZero \<and> cnt = 0 \<or> cnt > int available then None else Some (nat cnt))"

definition countedReadKeys :: "arg list \<Rightarrow> arg list option" where
  "countedReadKeys args =
     (if length args < 3 then None
      else map_option (\<lambda>cnt. take cnt (drop 2 args)) (boundedRoutingCount (args ! 1) (length args - 2) False))"

definition countedStoreKeys :: "arg list \<Rightarrow> arg list option" where
  "countedStoreKeys args =
     (if length args < 4 then None
      else map_option (\<lambda>cnt. args ! 1 # take cnt (drop 3 args)) (boundedRoutingCount (args ! 2) (length args - 3) False))"

subsection \<open>Key positions\<close>

datatype key_mode =
    KeysNone | KeysFirst | KeysAll | KeysAlternating | KeysFirstTwo | KeysBitOp | KeysCountedRead
  | KeysCountedStore | KeysBlockingCounted | KeysBlockingTrailing | KeysStreams | KeysSubcommandThird
  | KeysHelpAwareThird | KeysMemoryUsage | KeysSort

record command_policy =
  keyMode :: key_mode
  requireSameSlot :: bool
  scatter :: bool
  destructive :: bool

abbreviation plainPolicy :: "key_mode \<Rightarrow> command_policy" where
  "plainPolicy m \<equiv> \<lparr>keyMode = m, requireSameSlot = False, scatter = False, destructive = False\<rparr>"

abbreviation sameSlot :: "key_mode \<Rightarrow> command_policy" where
  "sameSlot m \<equiv> \<lparr>keyMode = m, requireSameSlot = True, scatter = False, destructive = False\<rparr>"

abbreviation scattered :: "key_mode \<Rightarrow> command_policy" where
  "scattered m \<equiv> \<lparr>keyMode = m, requireSameSlot = False, scatter = True, destructive = False\<rparr>"

abbreviation destructiveScatter :: "key_mode \<Rightarrow> command_policy" where
  "destructiveScatter m \<equiv> \<lparr>keyMode = m, requireSameSlot = False, scatter = True, destructive = True\<rparr>"

text \<open>The policy table: the commands with a policy of their own, then those whose first argument is the key.\<close>

definition specialCommandPolicies :: "(string \<times> command_policy) list" where
  "specialCommandPolicies =
     [(''MGET'', scattered KeysAll),
      (''DEL'', destructiveScatter KeysAll),
      (''EXISTS'', scattered KeysAll),
      (''UNLINK'', destructiveScatter KeysAll),
      (''TOUCH'', scattered KeysAll),
      (''MSET'', sameSlot KeysAlternating),
      (''MSETNX'', sameSlot KeysAlternating),
      (''BITOP'', sameSlot KeysBitOp),
      (''RENAME'', sameSlot KeysFirstTwo),
      (''RENAMENX'', sameSlot KeysFirstTwo),
      (''COPY'', sameSlot KeysFirstTwo),
      (''LMOVE'', sameSlot KeysFirstTwo),
      (''BLMOVE'', sameSlot KeysFirstTwo),
      (''RPOPLPUSH'', sameSlot KeysFirstTwo),
      (''BRPOPLPUSH'', sameSlot KeysFirstTwo),
      (''SMOVE'', sameSlot KeysFirstTwo),
      (''GEOSEARCHSTORE'', sameSlot KeysFirstTwo),
      (''ZRANGESTORE'', sameSlot KeysFirstTwo),
      (''BLMPOP'', sameSlot KeysBlockingCounted),
      (''BZMPOP'', sameSlot KeysBlockingCounted),
      (''BLPOP'', sameSlot KeysBlockingTrailing),
      (''BRPOP'', sameSlot KeysBlockingTrailing),
      (''BZPOPMIN'', sameSlot KeysBlockingTrailing),
      (''BZPOPMAX'', sameSlot KeysBlockingTrailing),
      (''SINTERCARD'', sameSlot KeysCountedRead),
      (''ZINTERCARD'', sameSlot KeysCountedRead),
      (''ZUNION'', sameSlot KeysCountedRead),
      (''ZINTER'', sameSlot KeysCountedRead),
      (''ZDIFF'', sameSlot KeysCountedRead),
      (''ZMPOP'', sameSlot KeysCountedRead),
      (''LMPOP'', sameSlot KeysCountedRead),
      (''LCS'', sameSlot KeysFirstTwo),
      (''SORT'', sameSlot KeysSort),
      (''PFCOUNT'', sameSlot KeysAll),
      (''SDIFF'', sameSlot KeysAll),
      (''SINTER'', sameSlot KeysAll),
      (''SUNION'', sameSlot KeysAll),
      (''PFMERGE'', sameSlot KeysAll),
      (''SDIFFSTORE'', sameSlot KeysAll),
      (''SINTERSTORE'', sameSlot KeysAll),
      (''SUNIONSTORE'', sameSlot KeysAll),
      (''ZDIFFSTORE'', sameSlot KeysCountedStore),
      (''ZINTERSTORE'', sameSlot KeysCountedStore),
      (''ZUNIONSTORE'', sameSlot KeysCountedStore),
      (''CMS.MERGE'', sameSlot KeysCountedStore),
      (''TDIGEST.MERGE'', sameSlot KeysCountedStore),
      (''XREAD'', sameSlot KeysStreams),
      (''XREADGROUP'', sameSlot KeysStreams),
      (''XGROUP'', plainPolicy KeysSubcommandThird),
      (''XINFO'', plainPolicy KeysHelpAwareThird),
      (''OBJECT'', plainPolicy KeysHelpAwareThird),
      (''MEMORY'', plainPolicy KeysMemoryUsage)]"

definition firstKeyCommands :: "string list" where
  "firstKeyCommands =
     [''APPEND'', ''BF.ADD'', ''BF.CARD'', ''BF.EXISTS'', ''BF.INFO'', ''BF.MADD'', ''BF.MEXISTS'',
      ''BF.RESERVE'', ''BITCOUNT'', ''BITFIELD'', ''BITPOS'', ''CAS'', ''CF.ADD'', ''CF.ADDNX'', ''CF.COUNT'',
      ''CF.DEL'', ''CF.EXISTS'', ''CF.INFO'', ''CF.MEXISTS'', ''CF.RESERVE'', ''CMS.INCRBY'', ''CMS.INFO'',
      ''CMS.INITBYDIM'', ''CMS.INITBYPROB'', ''CMS.QUERY'', ''DECR'', ''DECRBY'', ''EXPIRE'', ''EXPIREAT'',
      ''EXPIRETIME'', ''EXTEND'', ''FETCH_OR_COMPUTE'', ''FETCH_OR_COMPUTE_ERROR'',
      ''FETCH_OR_COMPUTE_RESULT'', ''FERRICSTORE.KEY_INFO'', ''GET'', ''GETBIT'', ''GETDEL'', ''GETEX'',
      ''GETRANGE'', ''GETSET'', ''GEOADD'', ''GEODIST'', ''GEOHASH'', ''GEOPOS'', ''GEOSEARCH'', ''HDEL'',
      ''HEXISTS'', ''HGET'', ''HGETALL'', ''HGETDEL'', ''HGETEX'', ''HINCRBY'', ''HINCRBYFLOAT'', ''HKEYS'',
      ''HLEN'', ''HMGET'', ''HMSET'', ''HSET'', ''HSETEX'', ''HSETNX'', ''HSTRLEN'', ''HTTL'', ''HEXPIRE'',
      ''HEXPIRETIME'', ''HPERSIST'', ''HPEXPIRE'', ''HPEXPIRETIME'', ''HPTTL'', ''HRANDFIELD'', ''HSCAN'',
      ''HVALS'', ''INCR'', ''INCRBY'', ''INCRBYFLOAT'', ''KEY_INFO'', ''LINDEX'', ''LINSERT'', ''LLEN'',
      ''LOCK'', ''LPOP'', ''LPUSH'', ''LPUSHX'', ''LRANGE'', ''LREM'', ''LSET'', ''LTRIM'', ''LPOS'',
      ''PFADD'', ''PEXPIRE'', ''PEXPIREAT'', ''PEXPIRETIME'', ''PERSIST'', ''PSETEX'', ''PTTL'',
      ''RATELIMIT.ADD'', ''RPOP'', ''RPUSH'', ''RPUSHX'', ''SADD'', ''SCARD'', ''SISMEMBER'', ''SMEMBERS'',
      ''SREM'', ''SET'', ''SETBIT'', ''SETEX'', ''SETNX'', ''SETRANGE'', ''SMISMEMBER'', ''SPOP'',
      ''SRANDMEMBER'', ''SSCAN'', ''STRLEN'', ''TDIGEST.ADD'', ''TDIGEST.BYRANK'', ''TDIGEST.BYREVRANK'',
      ''TDIGEST.CDF'', ''TDIGEST.CREATE'', ''TDIGEST.INFO'', ''TDIGEST.MAX'', ''TDIGEST.MIN'',
      ''TDIGEST.QUANTILE'', ''TDIGEST.RANK'', ''TDIGEST.RESET'', ''TDIGEST.REVRANK'',
      ''TDIGEST.TRIMMED_MEAN'', ''TOPK.ADD'', ''TOPK.COUNT'', ''TOPK.INCRBY'', ''TOPK.INFO'', ''TOPK.LIST'',
      ''TOPK.QUERY'', ''TOPK.RESERVE'', ''TTL'', ''TYPE'', ''UNLOCK'', ''BF.INSERT'', ''BITFIELD_RO'',
      ''CF.INSERT'', ''CF.INSERTNX'', ''HEXPIREAT'', ''HPEXPIREAT'', ''SORT_RO'', ''XADD'', ''XACK'',
      ''XAUTOCLAIM'', ''XCLAIM'', ''XDEL'', ''XLEN'', ''XPENDING'', ''XRANGE'', ''XREVRANGE'', ''XSETID'',
      ''XTRIM'', ''ZADD'', ''ZCARD'', ''ZCOUNT'', ''ZINCRBY'', ''ZLEXCOUNT'', ''ZRANGE'', ''ZRANGEBYLEX'',
      ''ZREMRANGEBYLEX'', ''ZREMRANGEBYRANK'', ''ZREMRANGEBYSCORE'', ''ZREVRANGEBYLEX'', ''ZRANGEBYSCORE'',
      ''ZRANDMEMBER'', ''ZREM'', ''ZREVRANGE'', ''ZREVRANGEBYSCORE'', ''ZMSCORE'', ''ZPOPMAX'', ''ZPOPMIN'',
      ''ZRANK'', ''ZSCAN'', ''ZSCORE'', ''ZREVRANK'']"

definition topologyCommandPolicies :: "string \<Rightarrow> command_policy option" where
  "topologyCommandPolicies name =
     (case map_of specialCommandPolicies name of
        Some p \<Rightarrow> Some p
      | None \<Rightarrow> if name \<in> set firstKeyCommands then Some (plainPolicy KeysFirst) else None)"

text \<open>\<open>SORT\<close>: the key and every \<open>STORE\<close> destination, skipping the values of the other options.\<close>

function sortOptionKeys :: "arg list \<Rightarrow> arg list" where
  "sortOptionKeys args =
     (case args of
        [] \<Rightarrow> []
      | a # rest \<Rightarrow>
          let token = commandPart a in
          if token = ''STORE'' then take 1 rest @ sortOptionKeys (drop 1 rest)
          else if token = ''BY'' \<or> token = ''GET'' then sortOptionKeys (drop 1 rest)
          else if token = ''LIMIT'' then sortOptionKeys (drop 2 rest)
          else sortOptionKeys rest)"
  by pat_completeness auto
termination by (relation "measure length") auto

declare sortOptionKeys.simps [simp del]

definition sortKeys :: "arg list \<Rightarrow> arg list option" where
  "sortKeys args = (if length args < 2 then None else Some (args ! 1 # sortOptionKeys (drop 2 args)))"

text \<open>\<open>XREAD\<close> and \<open>XREADGROUP\<close>: options up to \<open>STREAMS\<close>, then as many keys as identifiers.\<close>

function streamOptionKeys :: "bool \<Rightarrow> arg list \<Rightarrow> arg list option" where
  "streamOptionKeys grouped args =
     (case args of
        [] \<Rightarrow> None
      | a # rest \<Rightarrow>
          let token = commandPart a in
          if token = ''STREAMS'' then
            (if rest = [] \<or> length rest mod 2 \<noteq> 0 then None else Some (take (length rest div 2) rest))
          else if token = ''COUNT'' \<or> token = ''BLOCK'' then
            (if rest = [] then None else streamOptionKeys grouped (drop 1 rest))
          else if token = ''NOACK'' then (if \<not> grouped then None else streamOptionKeys grouped rest)
          else None)"
  by pat_completeness auto
termination by (relation "measure (\<lambda>(g, args). length args)") auto

declare streamOptionKeys.simps [simp del]

definition streamReadKeys :: "arg list \<Rightarrow> arg list option" where
  "streamReadKeys args =
     (if length args < 2 then None
      else if commandName args = ''XREADGROUP'' then
        (if length args < 5 \<or> commandPart (args ! 1) \<noteq> ''GROUP'' then None
         else streamOptionKeys True (drop 4 args))
      else streamOptionKeys False (drop 1 args))"

fun topologyKeysForMode :: "key_mode \<Rightarrow> arg list \<Rightarrow> arg list option" where
  "topologyKeysForMode KeysFirst args = (if length args > 1 then Some [args ! 1] else None)"
| "topologyKeysForMode KeysAll args = (if length args > 1 then Some (drop 1 args) else None)"
| "topologyKeysForMode KeysAlternating args =
     (if length args \<ge> 3 \<and> (length args - 1) mod 2 = 0 then Some (map fst (pairs_of (drop 1 args))) else None)"
| "topologyKeysForMode KeysFirstTwo args = (if length args \<ge> 3 then Some [args ! 1, args ! 2] else None)"
| "topologyKeysForMode KeysBitOp args = (if length args \<ge> 4 then Some (drop 2 args) else None)"
| "topologyKeysForMode KeysCountedRead args = countedReadKeys args"
| "topologyKeysForMode KeysCountedStore args = countedStoreKeys args"
| "topologyKeysForMode KeysBlockingCounted args =
     (if length args \<ge> 4
      then map_option (\<lambda>cnt. take cnt (drop 3 args)) (boundedRoutingCount (args ! 2) (length args - 3) False)
      else None)"
| "topologyKeysForMode KeysBlockingTrailing args = (if length args \<ge> 3 then Some (butlast (drop 1 args)) else None)"
| "topologyKeysForMode KeysStreams args = streamReadKeys args"
| "topologyKeysForMode KeysSubcommandThird args = (if length args > 2 then Some [args ! 2] else None)"
| "topologyKeysForMode KeysHelpAwareThird args =
     (if length args > 2 \<and> commandPart (args ! 1) \<noteq> ''HELP'' then Some [args ! 2] else None)"
| "topologyKeysForMode KeysMemoryUsage args =
     (if length args > 2 \<and> commandPart (args ! 1) = ''USAGE'' then Some [args ! 2] else None)"
| "topologyKeysForMode KeysSort args = sortKeys args"
| "topologyKeysForMode KeysNone args = None"

definition topologyPolicyKeys :: "string \<Rightarrow> arg list \<Rightarrow> (arg list \<times> command_policy) option" where
  "topologyPolicyKeys name args =
     (case topologyCommandPolicies name of
        None \<Rightarrow> None
      | Some policy \<Rightarrow> map_option (\<lambda>keys. (keys, policy)) (topologyKeysForMode (keyMode policy) args))"

subsection \<open>Slots of keys\<close>

definition keyText :: "arg \<Rightarrow> string" where
  "keyText a = (case argText a of None \<Rightarrow> '''' | Some t \<Rightarrow> t)"

fun routingTargetSlot :: "arg \<Rightarrow> nat option" where
  "routingTargetSlot (RouteSlot n) = (if n < routeSlotCount then Some n else None)"
| "routingTargetSlot a = (if isRouteKey a then Some (routeSlotForString (keyText a)) else None)"

text \<open>The loop of \<open>singleShardKey\<close>, after the first key has been found.\<close>

fun sameSlotAs :: "nat \<Rightarrow> arg list \<Rightarrow> bool" where
  "sameSlotAs slot [] = True"
| "sameSlotAs slot (k # ks) =
     (case routingTargetSlot k of None \<Rightarrow> False | Some s \<Rightarrow> if s \<noteq> slot then False else sameSlotAs slot ks)"

fun singleShardKey :: "arg list \<Rightarrow> arg option" where
  "singleShardKey [] = None"
| "singleShardKey (k # ks) =
     (case routingTargetSlot k of None \<Rightarrow> None | Some slot \<Rightarrow> if sameSlotAs slot ks then Some k else None)"

definition sameSlotCommandKeys :: "arg list \<Rightarrow> arg list option" where
  "sameSlotCommandKeys args =
     (let args = canonicalCommandArgs args in
      if args = [] then None
      else case topologyPolicyKeys (commandName args) args of
        None \<Rightarrow> None
      | Some (keys, policy) \<Rightarrow> if requireSameSlot policy then Some keys else None)"

definition safeScatterCommand :: "arg list \<Rightarrow> (string \<times> arg list) option" where
  "safeScatterCommand args =
     (let args = canonicalCommandArgs args in
      if args = [] then None
      else let name = commandName args in
        case topologyPolicyKeys name args of
        None \<Rightarrow> None
      | Some (keys, policy) \<Rightarrow> if scatter policy then Some (name, keys) else None)"

definition destructiveScatterCommand :: "string \<Rightarrow> bool" where
  "destructiveScatterCommand name =
     (case topologyCommandPolicies name of None \<Rightarrow> False | Some p \<Rightarrow> destructive p)"

subsection \<open>Checks before a command is sent\<close>

datatype command_error =
    KeyError key_error
  | SlotsDiffer string
  | SignalUsage
  | SignalOptionValue string
  | SignalOptionUnsupported string

definition validateAtomicMSetSlots :: "arg list \<Rightarrow> command_error option" where
  "validateAtomicMSetSlots args =
     (let args = canonicalCommandArgs args in
      if args = [] then None
      else let name = commandName args in
        if name \<noteq> ''MSET'' \<and> name \<noteq> ''MSETNX'' then None
        else case topologyPolicyKeys name args of
          None \<Rightarrow> None
        | Some (keys, _) \<Rightarrow> if singleShardKey keys = None then Some (SlotsDiffer name) else None)"

lemma canonical_shorter: "length (canonicalCommandArgs args) \<le> length args"
proof -
  have "length (stripCommandExec args) \<le> length args"
    by (induction args rule: stripCommandExec.induct) auto
  moreover have "length (fst (splitNativeRequestContext xs)) \<le> length xs" for xs
    by (simp add: splitNativeRequestContext_def)
  ultimately show ?thesis unfolding canonicalCommandArgs_def by (meson le_trans)
qed

text \<open>\<open>COMMAND GETKEYS\<close> is looked through; then the introspection commands name their keys.\<close>

definition introspectionKeys :: "string \<Rightarrow> arg list \<Rightarrow> arg list option" where
  "introspectionKeys name args =
     (if (name = ''CLUSTER.KEYSLOT'' \<or> name = ''ROUTE'') \<and> length args > 1 then Some [args ! 1]
      else if name = ''ROUTE_BATCH'' \<and> length args > 1 then Some (drop 1 args)
      else None)"

function publicIntrospectionKeys :: "string \<Rightarrow> arg list \<Rightarrow> arg list option" where
  "publicIntrospectionKeys name args =
     (if name = ''COMMAND'' \<and> length args > 2 \<and> commandPart (args ! 1) = ''GETKEYS'' then
        (let args = canonicalCommandArgs (drop 2 args) in
         if args = [] then None
         else let name = commandName args in
           case topologyPolicyKeys name args of
             Some (keys, _) \<Rightarrow> Some keys
           | None \<Rightarrow> publicIntrospectionKeys name args)
      else introspectionKeys name args)"
  by pat_completeness auto
termination
proof (relation "measure (\<lambda>(name, args). length args)")
  show "wf (measure (\<lambda>(name, args :: arg list). length args))" by simp
next
  fix name args x xa
  assume a: "name = ''COMMAND'' \<and> 2 < length args \<and> commandPart (args ! 1) = ''GETKEYS''"
    and x: "x = canonicalCommandArgs (drop 2 args)"
  have "length x \<le> length args - 2" using canonical_shorter [of "drop 2 args"] by (simp add: x)
  with a show "((xa, x), name, args) \<in> measure (\<lambda>(name, args). length args)" by auto
qed

declare publicIntrospectionKeys.simps [simp del]

definition v080ValidatesStringCommandKeys :: "string \<Rightarrow> bool" where
  "v080ValidatesStringCommandKeys name \<longleftrightarrow> name \<in> {''GET'', ''SET'', ''MSET'', ''MSETNX''}"

fun checkKeys :: "bool \<Rightarrow> arg list \<Rightarrow> command_error option" where
  "checkKeys validateString [] = None"
| "checkKeys validateString (k # ks) =
     (case argText k of
        None \<Rightarrow> checkKeys validateString ks
      | Some t \<Rightarrow>
          if reservedInternalKeyString t then Some (KeyError errReservedInternalKey)
          else if validateString then
            (case validateStringKeyV080 t of Some e \<Rightarrow> Some (KeyError e) | None \<Rightarrow> checkKeys validateString ks)
          else checkKeys validateString ks)"

definition validatePublicCommandKeys :: "arg list \<Rightarrow> command_error option" where
  "validatePublicCommandKeys args =
     (let args = canonicalCommandArgs args in
      if args = [] then None
      else let name = commandName args in
        if hasPrefix ''FLOW.'' name then None
        else case topologyPolicyKeys name args of
          Some (keys, _) \<Rightarrow> checkKeys (v080ValidatesStringCommandKeys name) keys
        | None \<Rightarrow>
            (case publicIntrospectionKeys name args of
               None \<Rightarrow> None
             | Some keys \<Rightarrow> checkKeys False keys))"

fun validateSignalOptions :: "arg list \<Rightarrow> command_error option" where
  "validateSignalOptions [] = None"
| "validateSignalOptions (a # rest) =
     (let token = commandPart a in
      if token = ''VALUE'' \<or> token = ''VALUE_REF'' then
        (case rest of _ # _ # rest' \<Rightarrow> validateSignalOptions rest' | _ \<Rightarrow> Some (SignalOptionValue token))
      else if token \<in> {''DROP_VALUE'', ''OVERRIDE_VALUE'', ''PARTITION'', ''SIGNAL'', ''IDEMPOTENCY'', ''IDEMPOTENCY_KEY'',
                       ''IF_STATE'', ''TRANSITION_TO'', ''RUN_AT'', ''NOW''} then
        (case rest of _ # rest' \<Rightarrow> validateSignalOptions rest' | [] \<Rightarrow> Some (SignalOptionValue token))
      else Some (SignalOptionUnsupported token))"

definition validateV080FlowSignalArgs :: "arg list \<Rightarrow> command_error option" where
  "validateV080FlowSignalArgs args =
     (let args = canonicalCommandArgs args in
      if args = [] \<or> commandName args \<noteq> ''FLOW.SIGNAL'' then None
      else if length args < 2 then Some SignalUsage
      else validateSignalOptions (drop 2 args))"

text \<open>The keys of a single shard.\<close>

lemma sameSlotAs_iff: "sameSlotAs slot ks \<longleftrightarrow> (\<forall>k \<in> set ks. routingTargetSlot k = Some slot)"
  by (induction ks) (auto split: option.splits)

lemma singleShardKey_iff:
  "singleShardKey keys = Some k \<longleftrightarrow>
     keys \<noteq> [] \<and> k = hd keys \<and> (\<exists>slot. \<forall>k' \<in> set keys. routingTargetSlot k' = Some slot)"
  by (cases keys) (auto simp: sameSlotAs_iff split: option.splits)

end
