(* ===== verification/FlowRouting.thy ===== *)
theory FlowRouting
  imports CommandKeys
begin

section \<open>Routing of Flow commands\<close>

text \<open>
  \<open>src/topology_flow_routing.go\<close> and the tables of \<open>src/topology_routing.go\<close>: a Flow command is routed by
  the tag under which the server stores its records: the digest of a partition key, one of 256 buckets
  for an automatic identifier, or the global tag. \<open>crypto/sha256\<close> is modelled from FIPS 180-4.
\<close>

subsection \<open>SHA-256\<close>

text \<open>
  The constants are the first 32 fractional bits of the cube roots of the first 64 primes, and of the
  square roots of the first eight for the start value: roots of \<open>p * 2 ^ (32 * k)\<close>, found bit by bit.
\<close>

definition smallPrimes :: "int list" where
  "smallPrimes =
     [2, 3, 5, 7, 11, 13, 17, 19, 23, 29, 31, 37, 41, 43, 47, 53, 59, 61, 67, 71, 73, 79, 83, 89, 97, 101, 103, 107, 109,
      113, 127, 131, 137, 139, 149, 151, 157, 163, 167, 173, 179, 181, 191, 193, 197, 199, 211, 223, 227, 229, 233,
      239, 241, 251, 257, 263, 269, 271, 277, 281, 283, 293, 307, 311]"

definition integerRoot :: "nat \<Rightarrow> int \<Rightarrow> int" where
  "integerRoot k n = foldl (\<lambda>r b. let r' = r + 2 ^ b in if r' ^ k \<le> n then r' else r) 0 (rev [0..<40])"

definition rootFraction :: "nat \<Rightarrow> int \<Rightarrow> 32 word" where
  "rootFraction k p = word_of_int (integerRoot k (p * 2 ^ (32 * k)))"

definition shaConstants :: "32 word list" where
  "shaConstants = map (rootFraction 3) smallPrimes"

definition shaStart :: "32 word list" where
  "shaStart = map (rootFraction 2) (take 8 smallPrimes)"

definition rotr :: "nat \<Rightarrow> 32 word \<Rightarrow> 32 word" where
  "rotr n x = drop_bit n x OR push_bit (32 - n) x"

text \<open>The message schedule is grown from the right end of the list of words so far.\<close>

primrec shaSchedule :: "nat \<Rightarrow> 32 word list \<Rightarrow> 32 word list" where
  "shaSchedule 0 ws = ws"
| "shaSchedule (Suc n) ws =
     (let k = length ws; a = ws ! (k - 15); b = ws ! (k - 2) in
      shaSchedule n (ws @
        [(rotr 17 b XOR rotr 19 b XOR drop_bit 10 b) + ws ! (k - 7) +
         (rotr 7 a XOR rotr 18 a XOR drop_bit 3 a) + ws ! (k - 16)]))"

fun shaRound :: "32 word list \<Rightarrow> 32 word \<times> 32 word \<Rightarrow> 32 word list" where
  "shaRound [a, b, c, d, e, f, g, h] (k, w) =
     (let t1 = h + (rotr 6 e XOR rotr 11 e XOR rotr 25 e) + ((e AND f) XOR (NOT e AND g)) + k + w;
          t2 = (rotr 2 a XOR rotr 13 a XOR rotr 22 a) + ((a AND b) XOR (a AND c) XOR (b AND c)) in
      [t1 + t2, a, b, c, d + t1, e, f, g])"
| "shaRound st _ = st"

definition shaBlock :: "32 word list \<Rightarrow> 32 word list \<Rightarrow> 32 word list" where
  "shaBlock st block = map2 (+) st (foldl shaRound st (zip shaConstants (shaSchedule 48 block)))"

fun groupsOf :: "nat \<Rightarrow> nat \<Rightarrow> 'a list \<Rightarrow> 'a list list" where
  "groupsOf 0 n xs = []"
| "groupsOf (Suc k) n xs = take n xs # groupsOf k n (drop n xs)"

definition wordBytes :: "nat \<Rightarrow> 'a::len word \<Rightarrow> bytes" where
  "wordBytes k w = map (\<lambda>i. ucast (drop_bit (8 * i) w)) (rev [0..<k])"

definition bytesWord :: "bytes \<Rightarrow> 32 word" where
  "bytesWord bs = foldl (\<lambda>acc b. push_bit 8 acc OR ucast b) 0 bs"

definition shaPad :: "bytes \<Rightarrow> bytes" where
  "shaPad m = m @ 0x80 # replicate ((119 - length m mod 64) mod 64) 0 @ wordBytes 8 (of_nat (8 * length m) :: 64 word)"

definition sha256 :: "bytes \<Rightarrow> bytes" where
  "sha256 m =
     (let padded = shaPad m;
          blocks = map (map bytesWord \<circ> groupsOf 16 4) (groupsOf (length padded div 64) 64 padded) in
      concat (map (wordBytes 4) (foldl shaBlock shaStart blocks)))"

lemma length_shaRound: "length (shaRound st kw) = length st"
  by (cases "(st, kw)" rule: shaRound.cases) (simp_all add: Let_def)

lemma length_shaRounds: "length (foldl shaRound st kws) = length st"
  by (induction kws arbitrary: st) (simp_all add: length_shaRound)

lemma length_shaBlocks: "length (foldl shaBlock st blocks) = length st"
  by (induction blocks arbitrary: st) (simp_all add: shaBlock_def length_shaRounds)

lemma length_sha256: "length (sha256 m) = 32"
proof -
  have "length (concat (map (wordBytes 4) ws)) = 4 * length ws" for ws :: "32 word list"
    by (induction ws) (simp_all add: wordBytes_def)
  then show ?thesis by (simp add: sha256_def Let_def length_shaBlocks) (simp add: shaStart_def smallPrimes_def)
qed

subsection \<open>Tags\<close>

definition flowTagRoutingSlot :: "string \<Rightarrow> arg" where
  "flowTagRoutingSlot tag = RouteSlot (slotOf tag)"

definition flowLogicalPartitionRoutingKey :: "arg \<Rightarrow> arg option" where
  "flowLogicalPartitionRoutingKey v =
     (if \<not> isRouteKey v then None
      else
        let t = keyText v;
            digestSlot = Some (flowTagRoutingSlot (''f:'' @ rawURLEncode (sha256 (bytes_of t)))) in
        case cutPrefix ''__flow_auto__:'' t of
          Some bucketText \<Rightarrow>
            if canonicalBelow 256 bucketText then Some (flowTagRoutingSlot (''fa:'' @ bucketText)) else digestSlot
        | None \<Rightarrow> digestSlot)"

definition flowAutoIDRoutingKey :: "arg \<Rightarrow> arg option" where
  "flowAutoIDRoutingKey v =
     (if \<not> isRouteKey v then None
      else Some (flowTagRoutingSlot (''fa:'' @ itoa (uint (routeCRC32 (keyText v) AND 0xff)))))"

definition flowClaimPartitionRoutingKey :: "arg \<Rightarrow> arg option" where
  "flowClaimPartitionRoutingKey v =
     (if \<not> isRouteKey v then None
      else if commandPart v = ''AUTO'' \<or> commandPart v = ''ANY'' then None
      else if commandPart v = ''GLOBAL'' then Some (flowTagRoutingSlot ''f'')
      else flowLogicalPartitionRoutingKey v)"

subsection \<open>Command tables\<close>

definition typeScopedFlowCommands :: "string list" where
  "typeScopedFlowCommands =
     [''FLOW.APPROVAL.LIST'', ''FLOW.ATTRIBUTE_VALUES'', ''FLOW.ATTRIBUTES'', ''FLOW.BUDGET.LIST'',
      ''FLOW.GOVERNANCE.OVERVIEW'', ''FLOW.INFO'', ''FLOW.LIMIT.LIST'', ''FLOW.POLICY.GET'', ''FLOW.POLICY.SET'',
      ''FLOW.RETENTION_CLEANUP'', ''FLOW.SCHEDULE.FIRE_DUE'', ''FLOW.SCHEDULE.LIST'', ''FLOW.STATS'']"

definition flowScheduleCommands :: "string list" where
  "flowScheduleCommands =
     [''FLOW.SCHEDULE.CREATE'', ''FLOW.SCHEDULE.DELETE'', ''FLOW.SCHEDULE.FIRE'', ''FLOW.SCHEDULE.FIRE_DUE'',
      ''FLOW.SCHEDULE.GET'', ''FLOW.SCHEDULE.LIST'', ''FLOW.SCHEDULE.PAUSE'', ''FLOW.SCHEDULE.RESUME'']"

definition flowApprovalIDCommands :: "string list" where
  "flowApprovalIDCommands =
     [''FLOW.APPROVAL.APPROVE'', ''FLOW.APPROVAL.GET'', ''FLOW.APPROVAL.REJECT'', ''FLOW.APPROVAL.REQUEST'']"

definition flowGovernanceScopeCommands :: "string list" where
  "flowGovernanceScopeCommands =
     [''FLOW.BUDGET.COMMIT'', ''FLOW.BUDGET.GET'', ''FLOW.BUDGET.RELEASE'', ''FLOW.BUDGET.RESERVE'',
      ''FLOW.CIRCUIT.CLOSE'', ''FLOW.CIRCUIT.GET'', ''FLOW.CIRCUIT.OPEN'', ''FLOW.LIMIT.GET'', ''FLOW.LIMIT.LEASE'',
      ''FLOW.LIMIT.RELEASE'', ''FLOW.LIMIT.SPEND'']"

definition flowStateIDCommands :: "string list" where
  "flowStateIDCommands =
     [''FLOW.CANCEL'', ''FLOW.COMPLETE'', ''FLOW.CREATE'', ''FLOW.EFFECT.COMPENSATE'', ''FLOW.EFFECT.CONFIRM'',
      ''FLOW.EFFECT.FAIL'', ''FLOW.EFFECT.GET'', ''FLOW.EFFECT.RESERVE'', ''FLOW.EXTEND_LEASE'', ''FLOW.FAIL'',
      ''FLOW.GET'', ''FLOW.GOVERNANCE.LEDGER'', ''FLOW.HISTORY'', ''FLOW.RETRY'', ''FLOW.REWIND'', ''FLOW.SIGNAL'',
      ''FLOW.SPAWN_CHILDREN'', ''FLOW.START_AND_CLAIM'', ''FLOW.STEP_CONTINUE'', ''FLOW.TRANSITION'']"

definition flowValueReturnCommands :: "string list" where
  "flowValueReturnCommands = [''FLOW.CLAIM_DUE'', ''FLOW.GET'', ''FLOW.RECLAIM'']"

definition flowManyCommands :: "string list" where
  "flowManyCommands =
     [''FLOW.CREATE_MANY'', ''FLOW.COMPLETE_MANY'', ''FLOW.TRANSITION_MANY'', ''FLOW.RETRY_MANY'', ''FLOW.FAIL_MANY'',
      ''FLOW.CANCEL_MANY'']"

subsection \<open>Options\<close>

text \<open>An index into the arguments is the suffix that starts there; past the end it is empty.\<close>

definition flowOptionStart :: "string \<Rightarrow> nat" where
  "flowOptionStart name =
     (if name \<in> {''FLOW.APPROVAL.LIST'', ''FLOW.GOVERNANCE.OVERVIEW'', ''FLOW.BUDGET.LIST'', ''FLOW.LIMIT.LIST''} then 0
      else if name = ''FLOW.ATTRIBUTE_VALUES'' then 2
      else if name \<in> {''FLOW.EXTEND_LEASE'', ''FLOW.COMPLETE'', ''FLOW.RETRY'', ''FLOW.FAIL''} then 2
      else if name = ''FLOW.TRANSITION'' then 3
      else if name = ''FLOW.STEP_CONTINUE'' then 4
      else 1)"

definition nextFlowOption :: "string \<Rightarrow> arg list \<Rightarrow> arg list" where
  "nextFlowOption name args =
     (case args of
        [] \<Rightarrow> []
      | a # rest \<Rightarrow>
          let token = commandPart a in
          if token = ''ATTRIBUTE'' \<or> token = ''ATTRIBUTE_MERGE'' \<or> token = ''VALUE_REF'' then drop 3 args
          else if token = ''STATE_META'' then drop 3 args
          else if token = ''VALUE'' then (if name \<in> set flowValueReturnCommands then drop 2 args else drop 3 args)
          else if token = ''ITEMS'' \<or> token = ''ITEMS_EXT'' \<or> token = ''ITEMS_MAPS'' then []
          else if token = ''PARTITIONS'' then
            (case rest of
               [] \<Rightarrow> []
             | n # rest' \<Rightarrow>
                 (case boundedRoutingCount n (length rest') True of
                    None \<Rightarrow> [] | Some cnt \<Rightarrow> drop cnt rest'))
          else drop 2 args)"

lemma nextFlowOption_shorter [simp]: "length (nextFlowOption name (a # rest)) < Suc (length rest)"
  by (auto simp: nextFlowOption_def Let_def split: list.splits option.splits)

lemma nextFlowOption_shorter2 [simp]: "length (nextFlowOption name (a # b # rest)) < Suc (Suc (length rest))"
  using nextFlowOption_shorter [of name a "b # rest"] by simp

text \<open>The outcome of looking for a partition option: not there, or there with the key it gives, if any.\<close>

fun mapAll :: "('a \<Rightarrow> 'b option) \<Rightarrow> 'a list \<Rightarrow> 'b list option" where
  "mapAll f [] = Some []"
| "mapAll f (x # xs) = Option.bind (f x) (\<lambda>y. map_option ((#) y) (mapAll f xs))"

definition partitionKey :: "bool \<Rightarrow> arg \<Rightarrow> arg option" where
  "partitionKey claim v = (if claim then flowClaimPartitionRoutingKey v else flowLogicalPartitionRoutingKey v)"

function flowPartitionRoutingKey :: "string \<Rightarrow> arg list \<Rightarrow> bool \<Rightarrow> arg option" where
  "flowPartitionRoutingKey name args claim =
     (case args of
        [] \<Rightarrow> None
      | a # rest \<Rightarrow>
          let token = commandPart a in
          if token = ''PARTITION'' then
            (case rest of [] \<Rightarrow> None | v # _ \<Rightarrow> if isRouteKey v then partitionKey claim v else None)
          else if token = ''PARTITIONS'' then
            (case rest of
               [] \<Rightarrow> None
             | n # rest' \<Rightarrow>
                 let cnt = asInt64 n in
                 if cnt < 0 \<or> cnt > int (length rest') then None
                 else Option.bind (mapAll (partitionKey claim) (take (nat cnt) rest')) singleShardKey)
          else flowPartitionRoutingKey name (nextFlowOption name args) claim)"
  by pat_completeness auto
termination
  by (relation "measure (\<lambda>(name, args, claim). length args)") auto

function flowHasPartitionOption :: "string \<Rightarrow> arg list \<Rightarrow> bool" where
  "flowHasPartitionOption name args =
     (case args of
        [] \<Rightarrow> False
      | a # rest \<Rightarrow>
          if commandPart a = ''PARTITION'' \<or> commandPart a = ''PARTITIONS'' then True
          else flowHasPartitionOption name (nextFlowOption name args))"
  by pat_completeness auto
termination
  by (relation "measure (\<lambda>(name, args). length args)") auto

function flowNamedOption :: "string \<Rightarrow> arg list \<Rightarrow> string \<Rightarrow> arg option" where
  "flowNamedOption name args wanted =
     (case args of
        a # v # rest \<Rightarrow>
          if commandPart a = wanted then (if isRouteKey v then Some v else None)
          else flowNamedOption name (nextFlowOption name args) wanted
      | _ \<Rightarrow> None)"
  by pat_completeness auto
termination
  by (relation "measure (\<lambda>(name, args, wanted). length args)") auto

declare flowPartitionRoutingKey.simps [simp del] flowHasPartitionOption.simps [simp del] flowNamedOption.simps [simp del]

definition flowValueMGetRoutingRefs :: "arg list \<Rightarrow> arg list" where
  "flowValueMGetRoutingRefs args =
     (if length args < 2 then args
      else
        let option = length args - 2; token = commandPart (args ! option) in
        if token \<noteq> ''MAX_BYTES'' \<and> token \<noteq> ''MAXBYTES'' then args
        else case args ! (option + 1) of
          Val v \<Rightarrow> (case topologyInteger v of
                     Some maximum \<Rightarrow> if maximum < 0 then args else take option args
                   | None \<Rightarrow> args)
        | RouteSlot n \<Rightarrow> take option args
        | Marker _ \<Rightarrow> args)"

subsection \<open>The routing key of a Flow command\<close>

definition flowRoutingKey :: "string \<Rightarrow> arg list \<Rightarrow> arg option" where
  "flowRoutingKey name args =
     (if name = ''FLOW.QUERY'' \<or> name = ''FLOW.QUERY.INDEXES'' then None
      else case drop 1 args of
        [] \<Rightarrow> None
      | first # rest \<Rightarrow>
          let flowArgs = first # rest in
          if name = ''FLOW.VALUE.MGET'' then singleShardKey (flowValueMGetRoutingRefs flowArgs)
          else if name \<in> set flowScheduleCommands then None
          else if name \<in> set flowApprovalIDCommands then flowLogicalPartitionRoutingKey first
          else if name \<in> set flowGovernanceScopeCommands then flowLogicalPartitionRoutingKey first
          else if name \<in> set flowManyCommands then
            (if \<not> isRouteKey first then None
             else if commandPart first = ''AUTO'' \<or> commandPart first = ''MIXED'' then None
             else flowLogicalPartitionRoutingKey first)
          else
            let claim = (name = ''FLOW.CLAIM_DUE'' \<or> name = ''FLOW.RECLAIM'');
                options = drop (flowOptionStart name) flowArgs in
            case flowPartitionRoutingKey name options claim of
              Some key \<Rightarrow> Some key
            | None \<Rightarrow>
                if flowHasPartitionOption name options then None
                else if name = ''FLOW.VALUE.PUT'' then
                  (case flowNamedOption name options ''OWNER_FLOW_ID'' of
                     Some owner \<Rightarrow>
                       if flowNamedOption name options ''NAME'' \<noteq> None then flowAutoIDRoutingKey owner else None
                   | None \<Rightarrow> None)
                else if name \<in> set typeScopedFlowCommands then None
                else if name \<in> set flowStateIDCommands then flowAutoIDRoutingKey first
                else None)"

definition routingKeyFromArgs :: "string \<Rightarrow> arg list \<Rightarrow> arg option" where
  "routingKeyFromArgs name args =
     (if hasPrefix ''FLOW.'' name then flowRoutingKey name args
      else case topologyPolicyKeys name args of None \<Rightarrow> None | Some (keys, _) \<Rightarrow> singleShardKey keys)"

end
