(* ===== verification/RoutingProperties.thy ===== *)
theory RoutingProperties
  imports FlowRouting
begin

section \<open>Properties of command routing\<close>

text \<open>
  The slot function against its definitions, that a routed command's keys share the slot it is sent to,
  and that Flow commands go to the slot of the storage keys, which public commands cannot touch.
\<close>

subsection \<open>The checksum\<close>

text \<open>
  The table-driven checksum is the bitwise CRC-32: the same value as shifting every bit of the text
  through the reversed polynomial.
\<close>

theorem crc_table_is_bitwise:
  "routeCRC32 s = NOT (foldl (\<lambda>crc b. (crcShift ^^ 8) (crc XOR ucast b)) (NOT 0) (bytes_of s))"
proof -
  have "crcByte = (\<lambda>crc b. (crcShift ^^ 8) (crc XOR ucast b))" by (simp add: fun_eq_iff crcByte_bitwise)
  then show ?thesis by (simp add: routeCRC32_def)
qed

subsection \<open>Hash tags\<close>

lemma hashTag_tagged:
  assumes "CHR ''{'' \<notin> set a" and "tag \<noteq> []" and "CHR ''}'' \<notin> set tag"
  shows "hashTagOrKey (a @ CHR ''{'' # tag @ CHR ''}'' # b) = tag"
  using assms by (simp add: hashTagOrKey_def indexByte_append)

text \<open>The two special cases for Flow keys choose what the general rule chooses.\<close>

lemma flow_special_cases:
  assumes "key = pre @ CHR ''{'' # rest" and "CHR ''{'' \<notin> set pre"
  shows "flowHashTag rest key = hashTagOrKey key"
proof (cases "indexByte CHR ''}'' rest")
  case (Some n)
  have "indexByte CHR ''{'' key = Some (length pre)" using assms by (simp add: indexByte_append)
  with Some assms(1) show ?thesis by (simp add: flowHashTag_def hashTagOrKey_def)
qed (simp add: flowHashTag_def)

lemma slot_is_tag_slot: "routeSlotForString key = slotOf (hashTagOrKey key)"
proof -
  have "flowHashTag (drop 3 key) key = hashTagOrKey key" if p: "hasPrefix ''f:{'' key"
  proof -
    obtain t where "key = ''f:'' @ CHR ''{'' # t" using p by (auto simp: hasPrefix_iff)
    with flow_special_cases [of key "''f:''" t] show ?thesis by simp
  qed
  moreover have "flowHashTag (drop 5 key) key = hashTagOrKey key" if p: "hasPrefix ''X:f:{'' key"
  proof -
    obtain t where "key = ''X:f:'' @ CHR ''{'' # t" using p by (auto simp: hasPrefix_iff)
    with flow_special_cases [of key "''X:f:''" t] show ?thesis by simp
  qed
  ultimately show ?thesis by (simp add: routeSlotForString_def Let_def)
qed

text \<open>
  Keys with the same hash tag live in the same slot, wherever the tag stands in the key and
  whatever follows it, Flow storage keys included; and a slot is always below 1024.
\<close>

theorem hash_tag_colocation:
  assumes "CHR ''{'' \<notin> set a" and "CHR ''{'' \<notin> set c" and "tag \<noteq> []" and "CHR ''}'' \<notin> set tag"
  shows "routeSlotForString (a @ ''{'' @ tag @ ''}'' @ b) = routeSlotForString (c @ ''{'' @ tag @ ''}'' @ d) \<and>
    routeSlotForString key < 1024"
  using hashTag_tagged [OF assms(1,3,4), of b] hashTag_tagged [OF assms(2,3,4), of d] slot_bound [of key]
  by (simp add: slot_is_tag_slot routeSlotCount_def)

theorem hash_tag_colocation_witness:
  "routeSlotForString (''user:{42}:profile'') = routeSlotForString (''X:f:{42}'') \<and> routeSlotForString ''{42}'' < 1024"
  using hash_tag_colocation [of "''user:''" "''X:f:''" "''42''" "'':profile''" "''''" "''{42}''"] by simp

subsection \<open>Keys of a command\<close>

lemma routingTargetSlot_bound: "routingTargetSlot k = Some slot \<Longrightarrow> slot < routeSlotCount"
  by (cases k rule: routingTargetSlot.cases) (auto simp: slot_bound split: if_splits)

lemma sortOptionKeys_args: "set (sortOptionKeys args) \<subseteq> set args"
proof (induction args rule: sortOptionKeys.induct)
  case (1 args)
  have d: "set (drop n xs) \<subseteq> set xs" and t: "set (take n xs) \<subseteq> set xs" for n and xs :: "arg list"
    by (simp_all add: set_drop_subset set_take_subset)
  show ?case
  proof (cases args)
    case Nil
    then show ?thesis by (simp add: sortOptionKeys.simps)
  next
    case (Cons a rest)
    note IH = 1 [OF Cons refl]
    from Cons IH d [of 1 rest] d [of 2 rest] t [of 1 rest] show ?thesis
      unfolding sortOptionKeys.simps [of args] Let_def list.case by (auto split: if_splits; blast)
  qed
qed

lemma streamOptionKeys_args: "streamOptionKeys g args = Some keys \<Longrightarrow> set keys \<subseteq> set args"
proof (induction g args rule: streamOptionKeys.induct)
  case (1 g args)
  have d: "set (drop n xs) \<subseteq> set xs" and t: "set (take n xs) \<subseteq> set xs" for n and xs :: "arg list"
    by (simp_all add: set_drop_subset set_take_subset)
  show ?case
  proof (cases args)
    case Nil
    with 1 show ?thesis by (simp add: streamOptionKeys.simps)
  next
    case (Cons a rest)
    note IH = "1.IH" [OF Cons refl]
    from Cons IH "1.prems" d [of 1 rest] t [of "length rest div 2" rest] show ?thesis
      unfolding streamOptionKeys.simps [of g args] by (auto simp: Let_def split: if_splits)
  qed
qed

lemma nth_drop_mem: "n < length args \<Longrightarrow> 0 < n \<Longrightarrow> args ! n \<in> set (drop 1 args)"
  by (cases args) (auto simp: nth_Cons')

lemma keys_are_args:
  assumes "topologyKeysForMode mode args = Some keys"
  shows "set keys \<subseteq> set (drop 1 args)"
proof -
  have d: "set (drop n args) \<subseteq> set (drop 1 args)" if "1 \<le> n" for n
    using that by (metis add_diff_cancel_left' drop_drop le_iff_add set_drop_subset add.commute)
  have t: "set (take n xs) \<subseteq> set xs" for n and xs :: "arg list" by (rule set_take_subset)
  have b: "set (butlast xs) \<subseteq> set xs" for xs :: "arg list" by (auto dest: in_set_butlastD)
  have p: "set (map fst (pairs_of xs)) \<subseteq> set xs" for xs :: "arg list" using pairs_of_mem by fastforce
  note n = nth_drop_mem [of 1 args] nth_drop_mem [of 2 args]
  show ?thesis
  proof (cases mode)
    case KeysStreams
    with assms show ?thesis
      using d [of 4] streamOptionKeys_args by (fastforce simp: streamReadKeys_def split: if_splits)
  next
    case KeysSort
    with assms show ?thesis
      using d [of 2] n sortOptionKeys_args [of "drop 2 args"] by (force simp: sortKeys_def split: if_splits)
  next
    case KeysCountedStore
    with assms show ?thesis
      using d [of 3] n t by (fastforce simp: countedStoreKeys_def split: if_splits)
  next
    case KeysCountedRead
    with assms show ?thesis using d [of 2] t by (fastforce simp: countedReadKeys_def split: if_splits)
  next
    case KeysBlockingCounted
    with assms show ?thesis using d [of 3] t by (fastforce split: if_splits)
  next
    case KeysBlockingTrailing
    with assms show ?thesis using b [of "drop 1 args"] by (simp split: if_splits)
  next
    case KeysAlternating
    with assms show ?thesis using p [of "drop 1 args"] by (auto split: if_splits)
  next
    case KeysBitOp
    with assms show ?thesis using d [of 2] by (simp split: if_splits)
  qed (use assms n in \<open>auto split: if_splits\<close>)
qed

text \<open>
  C21. A routed command touches one slot: when a command outside FLOW has a routing key, that key is the
  first of its keys, every key is one of its arguments, and all of them live in the key's slot.
\<close>

theorem routed_command_single_slot:
  assumes "routingKeyFromArgs name args = Some key" and "\<not> hasPrefix ''FLOW.'' name"
  shows "\<exists>keys policy slot. topologyPolicyKeys name args = Some (keys, policy) \<and> keys \<noteq> [] \<and> key = hd keys \<and>
    set keys \<subseteq> set (drop 1 args) \<and> (\<forall>k \<in> set keys. routingTargetSlot k = Some slot) \<and> slot < 1024"
proof -
  from assms obtain keys policy where k: "topologyPolicyKeys name args = Some (keys, policy)" "singleShardKey keys = Some key"
    by (auto simp: routingKeyFromArgs_def split: option.splits)
  then obtain slot where s: "keys \<noteq> []" "key = hd keys" "\<forall>k \<in> set keys. routingTargetSlot k = Some slot"
    by (auto simp: singleShardKey_iff)
  from k(1) have "set keys \<subseteq> set (drop 1 args)"
    by (auto simp: topologyPolicyKeys_def simp del: drop_Suc split: option.splits dest!: keys_are_args)
  moreover have "slot < routeSlotCount" using s routingTargetSlot_bound by (metis hd_in_set)
  ultimately show ?thesis using k(1) s by (auto simp: routeSlotCount_def)
qed

theorem routed_command_single_slot_witness:
  "routingKeyFromArgs ''MGET'' [Val (VString ''MGET''), Val (VString ''a{t}''), Val (VBytes (bytes_of ''{t}''))] = Some (Val (VString ''a{t}'')) \<and>
   routingTargetSlot (Val (VBytes (bytes_of ''{t}''))) = routingTargetSlot (Val (VString ''a{t}''))"
proof -
  let ?args = "[Val (VString ''MGET''), Val (VString ''a{t}''), Val (VBytes (bytes_of ''{t}''))]"
  have p: "topologyCommandPolicies ''MGET'' = Some (scattered KeysAll)"
    by (simp add: topologyCommandPolicies_def specialCommandPolicies_def)
  have r: "routingKeyFromArgs ''MGET'' ?args = Some (Val (VString ''a{t}''))"
    by (simp add: routingKeyFromArgs_def topologyPolicyKeys_def p keyText_def slot_is_tag_slot hashTagOrKey_def indexByte_def)
  from routed_command_single_slot [OF r] r p show ?thesis by (auto simp: topologyPolicyKeys_def)
qed

text \<open>
  The multi-key writes are atomic per slot: an \<open>MSET\<close> or \<open>MSETNX\<close> with at least one key/value pair is
  only accepted when all of its keys live in one slot.
\<close>

theorem mset_keys_one_slot:
  assumes "validateAtomicMSetSlots args = None" and "canonicalCommandArgs args \<noteq> []"
    and "commandName (canonicalCommandArgs args) \<in> {''MSET'', ''MSETNX''}"
    and "topologyPolicyKeys (commandName (canonicalCommandArgs args)) (canonicalCommandArgs args) = Some (keys, policy)"
  shows "\<exists>slot. \<forall>k \<in> set keys. routingTargetSlot k = Some slot"
proof -
  have "singleShardKey keys \<noteq> None"
    using assms by (auto simp: validateAtomicMSetSlots_def Let_def split: if_splits)
  then show ?thesis by (auto simp: singleShardKey_iff)
qed

theorem mset_keys_one_slot_witness:
  "let args = map (Val \<circ> VString) [''mset'', ''{t}a'', ''1'', ''{t}b'', ''2''] in
     validateAtomicMSetSlots args = None \<and> routingTargetSlot (args ! 1) = routingTargetSlot (args ! 3)"
proof -
  let ?args = "map (Val \<circ> VString) [''mset'', ''{t}a'', ''1'', ''{t}b'', ''2'']"
  have c: "canonicalCommandArgs ?args = ?args" by code_simp
  have n: "commandName ?args = ''MSET''" by code_simp
  have p: "topologyPolicyKeys ''MSET'' ?args = Some ([?args ! 1, ?args ! 3], sameSlot KeysAlternating)"
    by (simp add: topologyPolicyKeys_def topologyCommandPolicies_def specialCommandPolicies_def)
  have v: "validateAtomicMSetSlots ?args = None"
    by (simp only: validateAtomicMSetSlots_def Let_def c n p)
      (simp add: keyText_def slot_is_tag_slot hashTagOrKey_def indexByte_def)
  from mset_keys_one_slot [OF v, unfolded c n, OF _ _ p] v show ?thesis by auto
qed

subsection \<open>Flow storage keys\<close>

text \<open>The six-bit groups of a byte string, which the encoder prints one character each.\<close>

fun sextets :: "nat list \<Rightarrow> nat list" where
  "sextets (a # b # c # bs) = [a div 4, a mod 4 * 16 + b div 16, b mod 16 * 4 + c div 64, c mod 64] @ sextets bs"
| "sextets [a, b] = [a div 4, a mod 4 * 16 + b div 16, b mod 16 * 4]"
| "sextets [a] = [a div 4, a mod 4 * 16]"
| "sextets [] = []"

lemma base64Encode_sextets: "base64Encode bs = map base64Char (sextets bs)"
  by (induction bs rule: sextets.induct) simp_all

lemma sextets_small: "\<forall>b \<in> set bs. b < 256 \<Longrightarrow> \<forall>v \<in> set (sextets bs). v < 64"
proof -
  have q: "a div 4 < 64" "b div 16 < 16" "b div 64 < 4" if "a < 256" "b < 256" for a b :: nat
    using that by (simp_all add: less_mult_imp_div_less)
  have m: "a mod 4 * 16 + x < 64" if "x < 16" for a x :: nat
  proof -
    have "a mod 4 < 4" by simp
    with that show ?thesis by linarith
  qed
  have k: "b mod 16 * 4 + x < 64" if "x < 4" for b x :: nat
  proof -
    have "b mod 16 < 16" by simp
    with that show ?thesis by linarith
  qed
  show "\<forall>b \<in> set bs. b < 256 \<Longrightarrow> \<forall>v \<in> set (sextets bs). v < 64"
    by (induction bs rule: sextets.induct) (use q m [of 0] k [of 0] in \<open>auto intro: m k\<close>)
qed

lemma base_digits:
  fixes x :: nat
  assumes "x < n"
  shows "(a * n + x) div n = a" "(a * n + x) mod n = x"
  using assms by simp_all

lemma base64Groups_sextets: "\<forall>b \<in> set bs. b < 256 \<Longrightarrow> base64Groups (sextets bs) = Some bs"
proof (induction bs rule: sextets.induct)
  case (1 a b c bs)
  then have "b < 256" "c < 256" by simp_all
  then have "(a mod 4 * 16 + b div 16) div 16 = a mod 4" "(a mod 4 * 16 + b div 16) mod 16 = b div 16"
    "(b mod 16 * 4 + c div 64) div 4 = b mod 16" "(b mod 16 * 4 + c div 64) mod 4 = c div 64"
    by (simp_all add: base_digits)
  with 1 show ?case by simp
next
  case (2 a b)
  then have "b < 256" by simp
  then have "(a mod 4 * 16 + b div 16) div 16 = a mod 4" "(a mod 4 * 16 + b div 16) mod 16 = b div 16"
    by (simp_all add: base_digits)
  then show ?case by simp
next
  case (3 a)
  show ?case by simp
qed simp

lemma base64Char_code:
  "n < 64 \<Longrightarrow> of_char (base64Char n) =
     (if n < 26 then 65 + n else if n < 52 then 71 + n else if n < 62 then n - 4 else if n = 62 then 45 else 95 :: nat)"
  by (auto simp: base64Char_def)

lemma base64Char_value:
  assumes "n < 64"
  shows "base64Value (base64Char n) = Some n" and "base64Char n \<noteq> CHR ''}''"
    and "base64Char n \<noteq> CHR 0x0A" and "base64Char n \<noteq> CHR 0x0D"
proof -
  show "base64Value (base64Char n) = Some n"
  proof (cases "n < 62")
    case True
    then consider "n < 26" | "26 \<le> n" "n < 52" | "52 \<le> n" "n < 62" by arith
    then show ?thesis by cases (auto simp: base64Value_def base64Char_code Let_def)
  next
    case False
    with assms have "n = 62 \<or> n = 63" by arith
    then show ?thesis by (auto simp: base64Value_def base64Char_def)
  qed
  have "of_char (base64Char n) \<noteq> (125 :: nat) \<and> of_char (base64Char n) \<noteq> (10 :: nat) \<and> of_char (base64Char n) \<noteq> (13 :: nat)"
    using assms by (simp add: base64Char_code) linarith
  then show "base64Char n \<noteq> CHR ''}''" "base64Char n \<noteq> CHR 0x0A" "base64Char n \<noteq> CHR 0x0D" by auto
qed

lemma base64_decode_encode:
  assumes "\<forall>b \<in> set bs. b < 256"
  shows "base64Decode (base64Encode bs) = Some bs" and "CHR ''}'' \<notin> set (base64Encode bs)"
proof -
  have small: "\<forall>v \<in> set (sextets bs). v < 64" by (rule sextets_small [OF assms])
  then have f: "filter (\<lambda>c. c \<noteq> CHR 0x0A \<and> c \<noteq> CHR 0x0D) (map base64Char (sextets bs)) = map base64Char (sextets bs)"
    using base64Char_value(3,4) by (intro filter_True) fastforce
  have m: "map base64Value (map base64Char (sextets bs)) = map Some (sextets bs)"
    using small by (simp add: base64Char_value)
  have "None \<notin> set (map Some (sextets bs))" "map the (map Some (sextets bs)) = sextets bs" by (auto simp: o_def)
  then show "base64Decode (base64Encode bs) = Some bs"
    unfolding base64Decode_def base64Encode_sextets f Let_def m by (simp only: if_False base64Groups_sextets [OF assms])
  show "CHR ''}'' \<notin> set (base64Encode bs)" unfolding base64Encode_sextets using small base64Char_value(2) by fastforce
qed

lemma byte_small: "unat (b :: byte) < 256"
  using unsigned_less [of b] by simp

lemma digit_not_brace: "digitsValue acc s \<noteq> None \<Longrightarrow> CHR ''}'' \<notin> set s"
  by (induction s arbitrary: acc) (auto simp: digitValue_def bind_eq_None_conv split: if_splits)

lemma itoa_not_brace: "CHR ''}'' \<notin> set (itoa n)"
proof -
  have "CHR ''}'' \<notin> set (itoa_nat m)" for m using digit_not_brace [of 0 "itoa_nat m"] by (simp add: digitsValue_itoa)
  then show ?thesis by (auto simp: itoa_def)
qed

lemma canonicalDigest_sha: "canonicalDigest (rawURLEncode (sha256 m))"
proof -
  have b: "\<forall>x \<in> set (map unat (sha256 m)). x < 256" by (auto intro!: byte_small)
  have len: "length (base64Encode bs) = 43" if "length bs = 32" for bs
  proof -
    have "length (base64Encode xs) = (4 * length xs + 2) div 3" for xs by (induction xs rule: base64Encode.induct) simp_all
    with that show ?thesis by simp
  qed
  show ?thesis
    unfolding canonicalDigest_def rawURLEncode_def base64_decode_encode(1) [OF b]
    by (simp add: len length_sha256)
qed

lemma digest_not_brace: "CHR ''}'' \<notin> set (rawURLEncode bs)"
  unfolding rawURLEncode_def by (rule base64_decode_encode) (auto intro!: byte_small)

text \<open>A tag the server keeps Flow records under: its keys are in its slot, and reserved.\<close>

definition storage_tag :: "string \<Rightarrow> bool" where
  "storage_tag tag \<longleftrightarrow> reservedFlowTag tag \<and> tag \<noteq> [] \<and> CHR ''}'' \<notin> set tag"

lemma storage_tag_key:
  assumes "storage_tag tag"
  shows "routeSlotForString (''f:{'' @ tag @ ''}'' @ suffix) = slotOf tag"
    and "suffix = [] \<or> hasPrefix '':'' suffix \<Longrightarrow> reservedInternalKeyString (''f:{'' @ tag @ ''}'' @ suffix)"
proof -
  have i: "indexByte CHR ''}'' (tag @ CHR ''}'' # suffix) = Some (length tag)" "0 < length tag"
    using assms by (simp_all add: storage_tag_def indexByte_append)
  show "routeSlotForString (''f:{'' @ tag @ ''}'' @ suffix) = slotOf tag"
    using i by (simp add: routeSlotForString_def flowHashTag_def)
  assume "suffix = [] \<or> hasPrefix '':'' suffix"
  with assms i show "reservedInternalKeyString (''f:{'' @ tag @ ''}'' @ suffix)"
    by (simp add: reservedInternalKeyString_def reservedFlowInternalKey_def storage_tag_def Let_def)
qed

lemma bucket_tag: "canonicalBelow 256 n \<Longrightarrow> storage_tag (''fa:'' @ n)"
  using itoa_not_brace
  by (auto simp: storage_tag_def reservedFlowTag_def cutPrefix_def canonicalBelow_itoa maxInt64_def)

lemma digest_tag: "storage_tag (''f:'' @ rawURLEncode (sha256 m))"
  using digest_not_brace canonicalDigest_sha by (auto simp: storage_tag_def reservedFlowTag_def cutPrefix_def)

lemma global_tag: "storage_tag ''f''"
  by (simp add: storage_tag_def reservedFlowTag_def)

lemma auto_bucket: "canonicalBelow 256 (itoa (uint (x AND 0xff :: 32 word)))"
proof -
  have "x AND 0xff \<le> 0xff" by (rule word_and_le1)
  then have "uint (x AND 0xff) < 256" by (simp add: word_le_def)
  then show ?thesis by (auto simp: canonicalBelow_itoa maxInt64_def)
qed

text \<open>
  The tag of a partition is its digest, or the bucket an automatic partition names; an identifier has one of
  256 buckets; and a claim of the global partition has the global tag.
\<close>

definition partitionTag :: "arg \<Rightarrow> string" where
  "partitionTag v =
     (if \<exists>n. 0 \<le> n \<and> n < 256 \<and> keyText v = ''__flow_auto__:'' @ itoa n then ''fa:'' @ drop 14 (keyText v)
      else ''f:'' @ rawURLEncode (sha256 (bytes_of (keyText v))))"

definition bucketTag :: "arg \<Rightarrow> string" where
  "bucketTag v = ''fa:'' @ itoa (uint (routeCRC32 (keyText v)) mod 256)"

definition claims :: "string \<Rightarrow> bool" where
  "claims name \<longleftrightarrow> name = ''FLOW.CLAIM_DUE'' \<or> name = ''FLOW.RECLAIM''"

definition optionTag :: "string \<Rightarrow> arg \<Rightarrow> string" where
  "optionTag name v = (if claims name \<and> commandPart v = ''GLOBAL'' then ''f'' else partitionTag v)"

text \<open>The options of a command from the \<open>k\<close>-th on.\<close>

definition optionsFrom :: "string \<Rightarrow> arg list \<Rightarrow> nat \<Rightarrow> arg list" where
  "optionsFrom name args k = (nextFlowOption name ^^ k) (drop (flowOptionStart name) (drop 1 args))"

text \<open>
  The arguments of a command that say where its records are kept, and the tag of each: a command that takes
  a partition first; a \<open>PARTITION\<close> or \<open>PARTITIONS\<close> option; and without one, the identifier of the flow, or
  the owner of the value that is put.
\<close>

inductive keptUnder :: "string \<Rightarrow> arg list \<Rightarrow> arg list \<Rightarrow> (arg \<Rightarrow> string) \<Rightarrow> bool" for name args where
  first_partition:
    "name \<in> set flowApprovalIDCommands \<union> set flowGovernanceScopeCommands \<union> set flowManyCommands \<Longrightarrow>
     args = command # v # rest \<Longrightarrow> keptUnder name args [v] partitionTag"
| partition:
    "optionsFrom name args k = token # v # rest \<Longrightarrow> commandPart token = ''PARTITION'' \<Longrightarrow>
     keptUnder name args [v] (optionTag name)"
| partitions:
    "optionsFrom name args k = token # n # rest \<Longrightarrow> commandPart token = ''PARTITIONS'' \<Longrightarrow>
     0 \<le> asInt64 n \<Longrightarrow> asInt64 n \<le> int (length rest) \<Longrightarrow> keptUnder name args (take (nat (asInt64 n)) rest) (optionTag name)"
| flow_id:
    "\<not> flowHasPartitionOption name (optionsFrom name args 0) \<Longrightarrow> name \<in> set flowStateIDCommands \<Longrightarrow>
     args = command # v # rest \<Longrightarrow> keptUnder name args [v] bucketTag"
| owner_id:
    "\<not> flowHasPartitionOption name (optionsFrom name args 0) \<Longrightarrow> name = ''FLOW.VALUE.PUT'' \<Longrightarrow>
     optionsFrom name args k = token # v # rest \<Longrightarrow> commandPart token = ''OWNER_FLOW_ID'' \<Longrightarrow>
     keptUnder name args [v] bucketTag"

lemma cutPrefix_iff: "cutPrefix p s = Some b \<longleftrightarrow> s = p @ b"
proof
  assume "cutPrefix p s = Some b"
  then have "take (length p) s = p" "b = drop (length p) s" by (simp_all add: cutPrefix_def hasPrefix_def split: if_splits)
  then show "s = p @ b" by (metis append_take_drop_id)
qed (simp add: cutPrefix_def hasPrefix_def)

lemma partitionTag_code:
  "partitionTag v =
     (case cutPrefix ''__flow_auto__:'' (keyText v) of
        None \<Rightarrow> ''f:'' @ rawURLEncode (sha256 (bytes_of (keyText v)))
      | Some b \<Rightarrow> if canonicalBelow 256 b then ''fa:'' @ b else ''f:'' @ rawURLEncode (sha256 (bytes_of (keyText v))))"
proof -
  define p where "p = ''__flow_auto__:''"
  have len: "length p = 14" by (simp add: p_def)
  have below: "canonicalBelow 256 b \<longleftrightarrow> (\<exists>n. 0 \<le> n \<and> n < 256 \<and> b = itoa n)" for b
    by (auto simp: canonicalBelow_itoa maxInt64_def)
  show ?thesis
  proof (cases "cutPrefix p (keyText v)")
    case None
    then have "keyText v \<noteq> p @ b" for b by (metis cutPrefix_iff option.distinct(1))
    with None show ?thesis unfolding partitionTag_def p_def [symmetric] by simp
  next
    case (Some b)
    then have "keyText v = p @ b" by (simp add: cutPrefix_iff)
    then show ?thesis unfolding partitionTag_def p_def [symmetric] Some by (auto simp: below len)
  qed
qed

lemma partition_key:
  assumes "flowLogicalPartitionRoutingKey v = Some key"
  shows "isRouteKey v" and "key = RouteSlot (slotOf (partitionTag v))" and "storage_tag (partitionTag v)"
proof -
  let ?t = "keyText v"
  show r: "isRouteKey v" using assms by (auto simp: flowLogicalPartitionRoutingKey_def split: if_splits)
  have "key = RouteSlot (slotOf (partitionTag v)) \<and> storage_tag (partitionTag v)"
    using assms r digest_tag bucket_tag unfolding partitionTag_code
    by (auto simp: flowLogicalPartitionRoutingKey_def flowTagRoutingSlot_def Let_def split: if_splits option.splits)
  then show "key = RouteSlot (slotOf (partitionTag v))" "storage_tag (partitionTag v)" by simp_all
qed

lemma low_byte: "uint (x AND 0xff :: 32 word) = uint x mod 256"
proof -
  have "uint (x AND 0xff) = and (uint x) (mask 8)" by (simp add: unsigned_and_eq mask_eq_exp_minus_1)
  also have "\<dots> = take_bit 8 (uint x)" by (simp add: take_bit_eq_mask)
  finally show ?thesis by (simp add: take_bit_eq_mod)
qed

lemma bucket_key:
  assumes "flowAutoIDRoutingKey v = Some key"
  shows "isRouteKey v" and "key = RouteSlot (slotOf (bucketTag v))" and "storage_tag (bucketTag v)"
  using assms bucket_tag [OF auto_bucket, of "routeCRC32 (keyText v)"]
  by (auto simp: flowAutoIDRoutingKey_def bucketTag_def flowTagRoutingSlot_def low_byte split: if_splits)

lemma option_key:
  assumes "partitionKey (claims name) v = Some key"
  shows "isRouteKey v" and "key = RouteSlot (slotOf (optionTag name v))" and "storage_tag (optionTag name v)"
  using assms partition_key [of v key] global_tag
  by (auto simp: partitionKey_def flowClaimPartitionRoutingKey_def optionTag_def flowTagRoutingSlot_def split: if_splits)

lemma mapAll_Some: "mapAll f xs = Some ys \<longleftrightarrow> map f xs = map Some ys"
  by (induction xs arbitrary: ys) (auto simp: bind_eq_Some_conv)

text \<open>The walk over the options.\<close>

lemma partition_walk:
  "flowPartitionRoutingKey name xs claim = Some key \<Longrightarrow>
   \<exists>k token v rest. (nextFlowOption name ^^ k) xs = token # v # rest \<and>
     ((commandPart token = ''PARTITION'' \<and> partitionKey claim v = Some key) \<or>
      (commandPart token = ''PARTITIONS'' \<and> 0 \<le> asInt64 v \<and> asInt64 v \<le> int (length rest) \<and>
       Option.bind (mapAll (partitionKey claim) (take (nat (asInt64 v)) rest)) singleShardKey = Some key))"
proof (induction name xs claim rule: flowPartitionRoutingKey.induct)
  case (1 name args claim)
  then obtain a rest where args: "args = a # rest" by (cases args) (simp_all add: flowPartitionRoutingKey.simps)
  consider "commandPart a = ''PARTITION''" | "commandPart a = ''PARTITIONS''"
    | "commandPart a \<noteq> ''PARTITION''" "commandPart a \<noteq> ''PARTITIONS''" by blast
  then show ?case
  proof cases
    case 3
    with 1 args have "flowPartitionRoutingKey name (nextFlowOption name args) claim = Some key"
      by (simp add: flowPartitionRoutingKey.simps [of name "a # rest"])
    from 1(1) [OF args refl 3 this] obtain k token v rest'
      where "(nextFlowOption name ^^ k) (nextFlowOption name args) = token # v # rest'"
        "(commandPart token = ''PARTITION'' \<and> partitionKey claim v = Some key) \<or>
         (commandPart token = ''PARTITIONS'' \<and> 0 \<le> asInt64 v \<and> asInt64 v \<le> int (length rest') \<and>
          Option.bind (mapAll (partitionKey claim) (take (nat (asInt64 v)) rest')) singleShardKey = Some key)" by blast
    then show ?thesis by (intro exI [of _ "Suc k"] exI [of _ token] exI [of _ v] exI [of _ rest']) (simp add: funpow_swap1)
  next
    case c: 1
    with 1(2) args obtain v rest' where "rest = v # rest'" "partitionKey claim v = Some key"
      by (auto simp: flowPartitionRoutingKey.simps [of name "a # rest"] split: list.splits if_splits)
    with c args show ?thesis by (intro exI [of _ 0] exI [of _ a] exI [of _ v] exI [of _ rest']) simp
  next
    case c: 2
    with 1(2) args obtain n rest' where "rest = n # rest'" "0 \<le> asInt64 n" "asInt64 n \<le> int (length rest')"
      "Option.bind (mapAll (partitionKey claim) (take (nat (asInt64 n)) rest')) singleShardKey = Some key"
      by (auto simp: flowPartitionRoutingKey.simps [of name "a # rest"] Let_def split: list.splits if_splits)
    with c args show ?thesis by (intro exI [of _ 0] exI [of _ a] exI [of _ n] exI [of _ rest']) simp
  qed
qed

lemma named_walk:
  "flowNamedOption name xs wanted = Some v \<Longrightarrow>
   \<exists>k token rest. (nextFlowOption name ^^ k) xs = token # v # rest \<and> commandPart token = wanted"
proof (induction name xs wanted rule: flowNamedOption.induct)
  case (1 name args wanted)
  then obtain a x rest where args: "args = a # x # rest"
    by (auto simp: flowNamedOption.simps [of name args] split: list.splits)
  show ?case
  proof (cases "commandPart a = wanted")
    case True
    with 1(2) args show ?thesis
      by (intro exI [of _ 0]) (auto simp: flowNamedOption.simps [of name "a # x # rest"] split: if_splits)
  next
    case False
    with 1(2) args have "flowNamedOption name (nextFlowOption name args) wanted = Some v"
      by (simp add: flowNamedOption.simps [of name "a # x # rest"])
    with 1(1) args False obtain k token rest' where
      "(nextFlowOption name ^^ k) (nextFlowOption name args) = token # v # rest'" "commandPart token = wanted" by blast
    then show ?thesis by (intro exI [of _ "Suc k"]) (auto simp: funpow_swap1)
  qed
qed

definition keeps :: "(arg \<Rightarrow> string) \<Rightarrow> arg list \<Rightarrow> arg \<Rightarrow> bool" where
  "keeps tag vs key \<longleftrightarrow> vs \<noteq> [] \<and> (\<forall>v \<in> set vs. isRouteKey v \<and> key = RouteSlot (slotOf (tag v)) \<and> storage_tag (tag v))"

lemma keepsI: "isRouteKey v \<Longrightarrow> key = RouteSlot (slotOf (tag v)) \<Longrightarrow> storage_tag (tag v) \<Longrightarrow> keeps tag [v] key"
  by (simp add: keeps_def)

lemma option_keeps:
  assumes "flowPartitionRoutingKey name (optionsFrom name args 0) (claims name) = Some key"
  shows "\<exists>vs. keptUnder name args vs (optionTag name) \<and> keeps (optionTag name) vs key"
proof -
  from partition_walk [OF assms] obtain k token v rest where o: "optionsFrom name args k = token # v # rest"
    and c: "(commandPart token = ''PARTITION'' \<and> partitionKey (claims name) v = Some key) \<or>
      (commandPart token = ''PARTITIONS'' \<and> 0 \<le> asInt64 v \<and> asInt64 v \<le> int (length rest) \<and>
       Option.bind (mapAll (partitionKey (claims name)) (take (nat (asInt64 v)) rest)) singleShardKey = Some key)"
    by (auto simp: optionsFrom_def)
  from c show ?thesis
  proof (elim disjE conjE)
    assume p: "commandPart token = ''PARTITION''" "partitionKey (claims name) v = Some key"
    from keptUnder.partition [OF o p(1)] keepsI [where tag = "optionTag name", OF option_key [OF p(2)]] show ?thesis by blast
  next
    assume p: "commandPart token = ''PARTITIONS''" "0 \<le> asInt64 v" "asInt64 v \<le> int (length rest)"
      and b: "Option.bind (mapAll (partitionKey (claims name)) (take (nat (asInt64 v)) rest)) singleShardKey = Some key"
    let ?vs = "take (nat (asInt64 v)) rest"
    from b obtain keys where k: "map (partitionKey (claims name)) ?vs = map Some keys" "singleShardKey keys = Some key"
      by (auto simp: bind_eq_Some_conv mapAll_Some)
    from k(2) obtain slot where slot: "keys \<noteq> []" "key = hd keys" "\<forall>x \<in> set keys. routingTargetSlot x = Some slot"
      by (auto simp: singleShardKey_iff)
    have one: "isRouteKey x \<and> key = RouteSlot (slotOf (optionTag name x)) \<and> storage_tag (optionTag name x)" if "x \<in> set ?vs" for x
    proof -
      from that k(1) obtain y where y: "partitionKey (claims name) x = Some y" "y \<in> set keys"
        by (metis (no_types, lifting) image_iff image_set list.set_map)
      have ry: "y = RouteSlot (slotOf (optionTag name x))" by (rule option_key [OF y(1)])
      obtain z where "partitionKey (claims name) z = Some key"
        using k(1) slot(1,2) by (cases ?vs; cases keys) auto
      then have rk: "key = RouteSlot (slotOf (optionTag name z))" by (rule option_key)
      have "routingTargetSlot y = routingTargetSlot key" using slot y(2) by (metis hd_in_set)
      moreover have "slotOf t < routeSlotCount" for t by (simp add: slotOf_bound)
      ultimately have "y = key" unfolding ry rk by simp
      with option_key [OF y(1)] show ?thesis by auto
    qed
    have "?vs \<noteq> []" using k(1) slot(1) by auto
    with one keptUnder.partitions [OF o p] show ?thesis by (auto simp: keeps_def)
  qed
qed

lemma routing_keeps:
  assumes "flowRoutingKey name args = Some key" and "name \<noteq> ''FLOW.VALUE.MGET''"
  shows "\<exists>vs tag. keptUnder name args vs tag \<and> keeps tag vs key"
proof -
  from assms(1) obtain c first rest where args: "args = c # first # rest"
    by (cases args; cases "tl args") (auto simp: flowRoutingKey_def split: if_splits)
  let ?opts = "optionsFrom name args 0"
  have d: "drop 1 args = first # rest" by (simp add: args)
  have opts: "drop (flowOptionStart name) (first # rest) = ?opts" by (simp add: optionsFrom_def d [simplified])
  have "name \<noteq> ''FLOW.QUERY'' \<and> name \<noteq> ''FLOW.QUERY.INDEXES''" using assms(1) by (auto simp: flowRoutingKey_def)
  moreover have "name \<notin> set flowScheduleCommands"
    using assms unfolding flowRoutingKey_def Let_def d list.case by (metis option.distinct(1))
  ultimately have other: "name \<noteq> ''FLOW.QUERY''" "name \<noteq> ''FLOW.QUERY.INDEXES''" "name \<notin> set flowScheduleCommands"
    by simp_all
  have firstKey: "\<exists>vs tag. keptUnder name args vs tag \<and> keeps tag vs key"
    if "name \<in> set flowApprovalIDCommands \<union> set flowGovernanceScopeCommands \<union> set flowManyCommands"
      "flowLogicalPartitionRoutingKey first = Some key"
    using keptUnder.first_partition [OF that(1) args] keepsI [where tag = partitionTag, OF partition_key [OF that(2)]] by blast
  show ?thesis
  proof (cases "name \<in> set flowApprovalIDCommands \<union> set flowGovernanceScopeCommands \<union> set flowManyCommands")
    case True
    with assms firstKey show ?thesis by (auto simp: flowRoutingKey_def args Let_def split: if_splits)
  next
    case False
    with assms have key: "(case flowPartitionRoutingKey name ?opts (claims name) of
        Some key \<Rightarrow> Some key
      | None \<Rightarrow>
          if flowHasPartitionOption name ?opts then None
          else if name = ''FLOW.VALUE.PUT'' then
            (case flowNamedOption name ?opts ''OWNER_FLOW_ID'' of
               Some owner \<Rightarrow> if flowNamedOption name ?opts ''NAME'' \<noteq> None then flowAutoIDRoutingKey owner else None
             | None \<Rightarrow> None)
          else if name \<in> set typeScopedFlowCommands then None
          else if name \<in> set flowStateIDCommands then flowAutoIDRoutingKey first
          else None) = Some key"
      using other unfolding flowRoutingKey_def Let_def d list.case opts claims_def by simp
    show ?thesis
    proof (cases "flowPartitionRoutingKey name ?opts (claims name)")
      case (Some k)
      with key have "flowPartitionRoutingKey name ?opts (claims name) = Some key" by simp
      from option_keeps [OF this] show ?thesis by blast
    next
      case None
      with key have no: "\<not> flowHasPartitionOption name ?opts" by (auto split: if_splits)
      show ?thesis
      proof (cases "name = ''FLOW.VALUE.PUT''")
        case True
        with None key no obtain owner where ow: "flowNamedOption name ?opts ''OWNER_FLOW_ID'' = Some owner"
          "flowAutoIDRoutingKey owner = Some key" by (auto split: option.splits if_splits)
        from named_walk [OF ow(1)] obtain k token rest' where
          "optionsFrom name args k = token # owner # rest'" "commandPart token = ''OWNER_FLOW_ID''" by (auto simp: optionsFrom_def)
        from keptUnder.owner_id [OF no True this] keepsI [where tag = bucketTag, OF bucket_key [OF ow(2)]] show ?thesis by blast
      next
        case False
        with None key no have "name \<in> set flowStateIDCommands" "flowAutoIDRoutingKey first = Some key"
          by (auto split: if_splits)
        from keptUnder.flow_id [OF no this(1) args] keepsI [where tag = bucketTag, OF bucket_key [OF this(2)]] show ?thesis by blast
      qed
    qed
  qed
qed

text \<open>
  C22. Flow commands go where the server keeps their records. If a Flow command is routed by its arguments,
  it names them in its first argument, in a partition option, or by the identifier of the flow or of the
  owner (\<open>keptUnder\<close>), and the slot it goes to is that of every storage key \<open>f:{tag}...\<close> of each of them,
  where the tag is the digest of the partition, the bucket of the identifier (its CRC modulo 256), the bucket
  an automatic partition names, or the global tag; those storage keys are reserved, so no public command can
  reach them. \<open>FLOW.VALUE.MGET\<close>, which names storage keys, is routed by those keys themselves.
\<close>

theorem flow_routes_to_storage:
  assumes "flowRoutingKey name args = Some key" and "name \<noteq> ''FLOW.VALUE.MGET''" and "suffix = [] \<or> hasPrefix '':'' suffix"
  shows "\<exists>vs tag. keptUnder name args vs tag \<and> vs \<noteq> [] \<and>
    list_all (\<lambda>v. isRouteKey v \<and> key = RouteSlot (routeSlotForString (''f:{'' @ tag v @ ''}'' @ suffix)) \<and>
      validatePublicStringKey (''f:{'' @ tag v @ ''}'' @ suffix) = Some errReservedInternalKey) vs"
proof -
  from routing_keeps [OF assms(1,2)] obtain vs tag where k: "keptUnder name args vs tag" "keeps tag vs key" by blast
  have "key = RouteSlot (routeSlotForString (''f:{'' @ tag v @ ''}'' @ suffix)) \<and>
      validatePublicStringKey (''f:{'' @ tag v @ ''}'' @ suffix) = Some errReservedInternalKey" if "v \<in> set vs" for v
    using k(2) that storage_tag_key [of "tag v" suffix] assms(3) by (auto simp: keeps_def validatePublicStringKey_def)
  with k show ?thesis by (intro exI [of _ vs] exI [of _ tag]) (auto simp: keeps_def list_all_iff)
qed

text \<open>A claim from the global partition.\<close>

definition sampleClaim :: "arg list" where
  "sampleClaim = [Val (VString ''FLOW.CLAIM_DUE''), Val (VString ''t''), Val (VString ''PARTITION''), Val (VString ''global'')]"

lemma sample_claim: "flowRoutingKey ''FLOW.CLAIM_DUE'' sampleClaim = Some (RouteSlot (slotOf ''f''))"
proof -
  have parts: "commandPart (Val (VString ''PARTITION'')) = ''PARTITION''" "commandPart (Val (VString ''global'')) = ''GLOBAL''"
    by code_simp+
  show ?thesis
    by (simp add: flowRoutingKey_def sampleClaim_def flowScheduleCommands_def flowApprovalIDCommands_def
        flowGovernanceScopeCommands_def flowManyCommands_def flowOptionStart_def flowPartitionRoutingKey.simps parts
        partitionKey_def flowClaimPartitionRoutingKey_def flowTagRoutingSlot_def)
qed

theorem flow_routes_to_storage_witness:
  "\<exists>vs tag. keptUnder ''FLOW.CLAIM_DUE'' sampleClaim vs tag \<and> vs \<noteq> [] \<and>
    list_all (\<lambda>v. isRouteKey v \<and> RouteSlot (slotOf ''f'') = RouteSlot (routeSlotForString (''f:{'' @ tag v @ ''}'' @ '':due'')) \<and>
      validatePublicStringKey (''f:{'' @ tag v @ ''}'' @ '':due'') = Some errReservedInternalKey) vs"
  by (rule flow_routes_to_storage [OF sample_claim]) simp_all

end
