(* ===== verification/Topology.thy ===== *)
theory Topology
  imports Slots CommandKeys "HOL-Library.AList"
begin

section \<open>The routing topology\<close>

text \<open>
  \<open>src/topology_build.go\<close>, \<open>src/admin_response.go\<close>, \<open>src/topology_equal.go\<close> and the topology record and
  endpoint keys of \<open>src/topology.go\<close>, \<open>src/topology_url.go\<close> and \<open>src/topology_kv_route.go\<close>: the table that
  sends each of the 1024 slots to a shard, a lane and an endpoint, built from a SHARDS reply.

  \<open>strings.ToLower\<close> on a host name is Unicode's lower-casing, which is left open: \<open>lower\<close> is any
  function, and what is proved holds for each. A Go map is an association list with distinct keys.
\<close>

subsection \<open>Admin responses\<close>

function normalizeAdminResponseDepth :: "goval \<Rightarrow> int \<Rightarrow> nat \<Rightarrow> map_error + (goval \<times> int)" where
  "normalizeAdminResponseDepth v budget depth =
     (if depth > nativeMaxDecodeDepth then Inl NormalizeDepth
      else case v of
        VBytes b \<Rightarrow> Inr (VString (string_of b), budget)
      | VArray _ xs \<Rightarrow>
          ebind (consumeItems (length xs) budget) (\<lambda>budget.
          ebind (for_each (\<lambda>item (out, budget).
              ebind (normalizeAdminResponseDepth item budget (depth + 1)) (\<lambda>(item', budget).
              Inr (out @ [item'], budget))) xs ([], budget)) (\<lambda>(out, budget).
          Inr (VArray None out, budget)))
      | VMap _ es \<Rightarrow>
          ebind (consumeItems (length es) budget) (\<lambda>budget.
          ebind (for_each (\<lambda>(key, val).
              putEntry (\<lambda>x b. normalizeAdminResponseDepth x b (depth + 1)) (Inr key) val) es ([], budget)) (\<lambda>(m, budget).
          Inr (VMap None m, budget)))
      | VRMap _ es \<Rightarrow>
          ebind (consumeItems (length es) budget) (\<lambda>budget.
          ebind (for_each (\<lambda>(key, val).
              putEntry (\<lambda>x b. normalizeAdminResponseDepth x b (depth + 1))
                (case key of None \<Rightarrow> Inl MapKeyType | Some k \<Rightarrow> Inr k) val) es ([], budget)) (\<lambda>(m, budget).
          Inr (VMap None m, budget)))
      | _ \<Rightarrow> Inr (v, budget))"
  by pat_completeness auto
termination
  by (relation "measure (\<lambda>(v, b, d). Suc nativeMaxDecodeDepth - d)") (auto simp: nativeMaxDecodeDepth_def)

declare normalizeAdminResponseDepth.simps [simp del]

definition normalizeAdminResponse :: "goval \<Rightarrow> map_error + goval" where
  "normalizeAdminResponse v =
     ebind (normalizeAdminResponseDepth v (int nativeMaxContainerItems) 0) (\<lambda>(v', _). Inr v')"

definition normalizedAdminMap :: "goval \<Rightarrow> map_error + entries" where
  "normalizedAdminMap v = ebind (normalizeAdminResponse v) nativeMap"

subsection \<open>Endpoints\<close>

record routing_endpoint =
  epNode :: string
  epHost :: string
  epNativePort :: int
  epNativeTLSPort :: int

definition endpointKey :: "(string \<Rightarrow> string) \<Rightarrow> routing_endpoint \<Rightarrow> string" where
  "endpointKey lower e =
     (if epNativeTLSPort e > 0
      then lower (epHost e) @ '':'' @ itoa (epNativePort e) @ '':'' @ itoa (epNativeTLSPort e)
      else lower (epHost e) @ '':'' @ itoa (epNativePort e))"

definition endpointPort :: "routing_endpoint \<Rightarrow> bool \<Rightarrow> int" where
  "endpointPort e useTLS = (if useTLS \<and> epNativeTLSPort e > 0 then epNativeTLSPort e else epNativePort e)"

definition endpointScheme :: "bool \<Rightarrow> string" where
  "endpointScheme useTLS = (if useTLS then ''ferrics'' else ''ferric'')"

definition connectionKeyForEndpoint :: "(string \<Rightarrow> string) \<Rightarrow> routing_endpoint \<Rightarrow> bool \<Rightarrow> string" where
  "connectionKeyForEndpoint lower e useTLS =
     endpointScheme useTLS @ ''://'' @ lower (epHost e) @ '':'' @ itoa (endpointPort e useTLS)"

definition urlFromEndpoint :: "routing_endpoint \<Rightarrow> bool \<Rightarrow> string" where
  "urlFromEndpoint e useTLS =
     (let host = (if CHR '':'' \<in> set (epHost e) \<and> \<not> hasPrefix ''['' (epHost e) then ''['' @ epHost e @ '']'' else epHost e) in
      endpointScheme useTLS @ ''://'' @ host @ '':'' @ itoa (endpointPort e useTLS))"

datatype topology_error =
    TopologyMap map_error
  | RouteEpochInvalid
  | ShardCountInvalid
  | SlotsInvalid
  | RangesInvalid map_error
  | RangesMissing
  | RangeNoLeader
  | RangeMetadata
  | EndpointInvalid
  | RangeInvalid
  | InconsistentShard nat
  | InconsistentEndpoint string
  | OverlappingSlot nat
  | ShardsDescribed nat
  | MissingShard nat
  | MissingSlot nat
  | TopologyEmpty
  | KeyUnsupported
  | KeyReserved
  | InvalidSlot nat
  | NoRouteForSlot nat

text \<open>A port is read, and must be between 1 and 65535.\<close>

definition endpointPortValue :: "goval \<Rightarrow> int option" where
  "endpointPortValue v =
     (case topologyInteger v of None \<Rightarrow> None | Some n \<Rightarrow> if n \<le> 0 \<or> n > 65535 then None else Some n)"

definition nodeNames :: "string list" where
  "nodeNames = [''node'', ''leader_node'', ''owner_node'']"

definition tlsPortValue :: "goval \<Rightarrow> int option" where
  "tlsPortValue v = (if v = VNil then Some 0 else endpointPortValue v)"

definition hostValue :: "goval \<Rightarrow> string option" where
  "hostValue v =
     (case responseString v of None \<Rightarrow> None | Some t \<Rightarrow> if trimSpace t = [] then None else Some (trimSpace t))"

definition endpointNode :: "entries \<Rightarrow> entries \<Rightarrow> bool \<Rightarrow> string option" where
  "endpointNode item raw nestedEndpoint =
     (case optionalTopologyText (firstPresent raw nodeNames) of
        None \<Rightarrow> None
      | Some node \<Rightarrow>
          if node = [] \<and> nestedEndpoint then optionalTopologyText (firstPresent item nodeNames) else Some node)"

definition endpointFromRange :: "entries \<Rightarrow> topology_error + routing_endpoint" where
  "endpointFromRange item =
     ebind (if lookupOr item ''endpoint'' = VNil then Inr (item, False)
            else ebind (map_err TopologyMap (nativeMap (lookupOr item ''endpoint''))) (\<lambda>m. Inr (m, True)))
       (\<lambda>(raw, nestedEndpoint).
     case (hostValue (firstPresent raw [''host'', ''native_host'']),
           endpointPortValue (firstPresent raw [''native_port'']),
           tlsPortValue (firstPresent raw [''native_tls_port'']),
           endpointNode item raw nestedEndpoint) of
       (Some host, Some port, Some tlsPort, Some node) \<Rightarrow>
         Inr \<lparr>epNode = (if node = [] then host else node), epHost = host,
              epNativePort = port, epNativeTLSPort = tlsPort\<rparr>
     | _ \<Rightarrow> Inl EndpointInvalid)"

subsection \<open>Building\<close>

record routing_route =
  rtShard :: nat
  rtLaneID :: "32 word"
  rtEndpointKey :: string
  rtEndpoint :: routing_endpoint
  rtLeaderNode :: string
  rtSlot :: nat

record routing_topology =
  tpRouteEpoch :: int
  tpShardCount :: nat
  tpSlots :: "nat \<rightharpoonup> routing_route"
  tpEndpoints :: "(string \<times> routing_endpoint) list"

definition emptyRoutingTopology :: routing_topology where
  "emptyRoutingTopology = \<lparr>tpRouteEpoch = 0, tpShardCount = 0, tpSlots = Map.empty, tpEndpoints = []\<rparr>"

record shard_route =
  shLane :: "32 word"
  shEndpoint :: string
  shLeader :: string

type_synonym build_state = "routing_topology \<times> (nat \<times> shard_route) list"

definition fillSlots :: "routing_route \<Rightarrow> nat list \<Rightarrow> (nat \<rightharpoonup> routing_route) \<Rightarrow> topology_error + (nat \<rightharpoonup> routing_route)" where
  "fillSlots route =
     for_each (\<lambda>slot slots.
       if slots slot \<noteq> None then Inl (OverlappingSlot slot)
       else Inr (slots(slot \<mapsto> route\<lparr>rtSlot := slot\<rparr>)))"

text \<open>
  \<open>strings.EqualFold\<close> against an ASCII word: the Kelvin sign U+212A folds to k and the long s U+017F to s.
\<close>

fun foldBytes :: "bytes \<Rightarrow> bytes" where
  "foldBytes (a # b # c # bs) =
     (if a = 0xE2 \<and> b = 0x84 \<and> c = 0xAA then 107 # foldBytes bs
      else if a = 0xC5 \<and> b = 0xBF then 115 # foldBytes (c # bs)
      else lowerByte a # foldBytes (b # c # bs))"
| "foldBytes [a, b] = (if a = 0xC5 \<and> b = 0xBF then [115] else [lowerByte a, lowerByte b])"
| "foldBytes [a] = [lowerByte a]"
| "foldBytes [] = []"

definition equalFoldAscii :: "string \<Rightarrow> string \<Rightarrow> bool" where
  "equalFoldAscii s word \<longleftrightarrow> foldBytes (bytes_of s) = foldBytes (bytes_of word)"

text \<open>Reading the four integers of a range, and checking them.\<close>

definition rangeIntegers :: "entries \<Rightarrow> topology_error + (int \<times> int \<times> int \<times> int)" where
  "rangeIntegers item =
     (case (topologyInteger (lookupOr item ''first_slot''), topologyInteger (lookupOr item ''last_slot''),
            topologyInteger (lookupOr item ''shard''), topologyInteger (lookupOr item ''lane_id'')) of
        (Some first, Some final, Some shard, Some lane) \<Rightarrow> Inr (first, final, shard, lane)
      | _ \<Rightarrow> Inl RangeMetadata)"

definition rangeInBounds :: "nat \<Rightarrow> int \<times> int \<times> int \<times> int \<Rightarrow> bool" where
  "rangeInBounds shardCount r \<longleftrightarrow>
     (case r of (first, final, shard, lane) \<Rightarrow>
        \<not> (first < 0 \<or> final < first \<or> final \<ge> int routeSlotCount \<or> shard < 0 \<or> shard \<ge> int shardCount \<or>
           lane \<le> 0 \<or> lane \<ge> 2 ^ 32 - 1))"

text \<open>The part of the loop body that changes the topology: one range, with its endpoint.\<close>

definition installRange ::
  "(string \<Rightarrow> string) \<Rightarrow> int \<times> int \<times> int \<times> int \<Rightarrow> routing_endpoint \<Rightarrow> build_state \<Rightarrow> topology_error + build_state"
where
  "installRange lower r endpoint st =
     (case (r, st) of ((first, final, shard64, lane64), (topology, shardRoutes)) \<Rightarrow>
       let shard = nat shard64;
           laneID = word_of_int lane64;
           key = endpointKey lower endpoint;
           identity = \<lparr>shLane = laneID, shEndpoint = key, shLeader = epNode endpoint\<rparr> in
       if map_of shardRoutes shard \<notin> {None, Some identity} then Inl (InconsistentShard shard)
       else if map_of (tpEndpoints topology) key \<notin> {None, Some endpoint} then Inl (InconsistentEndpoint key)
       else
         ebind (fillSlots \<lparr>rtShard = shard, rtLaneID = laneID, rtEndpointKey = key, rtEndpoint = endpoint,
                           rtLeaderNode = epNode endpoint, rtSlot = 0\<rparr>
                  [nat first..<Suc (nat final)] (tpSlots topology)) (\<lambda>slots.
         Inr (topology\<lparr>tpEndpoints := AList.update key endpoint (tpEndpoints topology), tpSlots := slots\<rparr>,
              AList.update shard identity shardRoutes)))"

text \<open>The hint of a range is text or does not print as the word it is compared with.\<close>

definition addRange ::
  "(string \<Rightarrow> string) \<Rightarrow> nat \<Rightarrow> goval \<Rightarrow> build_state \<Rightarrow> topology_error + build_state"
where
  "addRange lower shardCount rawRange st =
     ebind (map_err TopologyMap (nativeMap rawRange)) (\<lambda>item.
     ebind (guard (\<not> (case commandText (lookupOr item ''hint'') of
                         None \<Rightarrow> False | Some t \<Rightarrow> equalFoldAscii t ''leader_unknown'')) RangeNoLeader) (\<lambda>_.
     ebind (rangeIntegers item) (\<lambda>r.
     ebind (endpointFromRange item) (\<lambda>endpoint.
     ebind (guard (rangeInBounds shardCount r) RangeInvalid) (\<lambda>_.
     installRange lower r endpoint st)))))"

fun firstMissing :: "(nat \<Rightarrow> bool) \<Rightarrow> (nat \<Rightarrow> topology_error) \<Rightarrow> nat list \<Rightarrow> topology_error + unit" where
  "firstMissing present err [] = Inr ()"
| "firstMissing present err (n # ns) = (if present n then firstMissing present err ns else Inl (err n))"

definition readShardCounts :: "entries \<Rightarrow> topology_error + (int \<times> nat)" where
  "readShardCounts payload =
     ebind (case topologyInteger (lookupOr payload ''route_epoch'') of
              None \<Rightarrow> Inl RouteEpochInvalid | Some n \<Rightarrow> if n < 0 then Inl RouteEpochInvalid else Inr n) (\<lambda>routeEpoch.
     ebind (case topologyInteger (lookupOr payload ''shard_count'') of
              None \<Rightarrow> Inl ShardCountInvalid
            | Some n \<Rightarrow> if n \<le> 0 \<or> n > int routeSlotCount then Inl ShardCountInvalid else Inr (nat n)) (\<lambda>shardCount.
     ebind (guard (case map_of payload ''slots'' of
                     None \<Rightarrow> True | Some v \<Rightarrow> topologyInteger v = Some (int routeSlotCount)) SlotsInvalid) (\<lambda>_.
     Inr (routeEpoch, shardCount))))"

definition buildRoutingTopology :: "(string \<Rightarrow> string) \<Rightarrow> goval \<Rightarrow> topology_error + routing_topology" where
  "buildRoutingTopology lower v =
     ebind (map_err TopologyMap (nativeMap v)) (\<lambda>payload.
     ebind (readShardCounts payload) (\<lambda>(routeEpoch, shardCount).
     ebind (map_err RangesInvalid (normalizeAdminResponse (lookupOr payload ''ranges''))) (\<lambda>ranges.
     ebind (case ranges of
              VArray _ xs \<Rightarrow> if xs = [] \<or> length xs > routeSlotCount then Inl RangesMissing else Inr xs
            | _ \<Rightarrow> Inl RangesMissing) (\<lambda>rawRanges.
     ebind (for_each (addRange lower shardCount) rawRanges
              (emptyRoutingTopology\<lparr>tpRouteEpoch := routeEpoch, tpShardCount := shardCount\<rparr>, [])) (\<lambda>(topology, shardRoutes).
     ebind (guard (length shardRoutes = shardCount) (ShardsDescribed (length shardRoutes))) (\<lambda>_.
     ebind (firstMissing (\<lambda>shard. map_of shardRoutes shard \<noteq> None) MissingShard [0..<shardCount]) (\<lambda>_.
     ebind (firstMissing (\<lambda>slot. tpSlots topology slot \<noteq> None) MissingSlot [0..<routeSlotCount]) (\<lambda>_.
     Inr topology))))))))"

subsection \<open>Looking up a route\<close>

text \<open>A nil topology is \<open>None\<close>.\<close>

definition routeSlot :: "routing_topology \<Rightarrow> nat \<Rightarrow> topology_error + routing_route" where
  "routeSlot t slot =
     (if slot \<ge> routeSlotCount then Inl (InvalidSlot slot)
      else case tpSlots t slot of None \<Rightarrow> Inl (NoRouteForSlot slot) | Some route \<Rightarrow> Inr (route\<lparr>rtSlot := slot\<rparr>))"

definition RouteKey :: "routing_topology option \<Rightarrow> arg \<Rightarrow> topology_error + routing_route" where
  "RouteKey t key =
     (case t of
        None \<Rightarrow> Inl TopologyEmpty
      | Some t \<Rightarrow>
          if \<not> isRouteKey key then Inl KeyUnsupported
          else if reservedInternalKeyString (keyText key) then Inl KeyReserved
          else routeSlot t (routeSlotForString (keyText key)))"

definition routeStringKeyInTopology :: "routing_topology option \<Rightarrow> string \<Rightarrow> topology_error + routing_route" where
  "routeStringKeyInTopology t key =
     (case t of
        None \<Rightarrow> Inl TopologyEmpty
      | Some t \<Rightarrow>
          let slot = routeSlotForString key in
          (case tpSlots t slot of None \<Rightarrow> Inl (NoRouteForSlot slot) | Some route \<Rightarrow> Inr (route\<lparr>rtSlot := slot\<rparr>)))"

subsection \<open>Equality\<close>

definition routingTopologiesEqual :: "routing_topology \<Rightarrow> routing_topology \<Rightarrow> bool" where
  "routingTopologiesEqual left right \<longleftrightarrow>
     tpRouteEpoch left = tpRouteEpoch right \<and> tpShardCount left = tpShardCount right \<and>
     length (tpEndpoints left) = length (tpEndpoints right) \<and>
     list_all (\<lambda>(key, endpoint). map_of (tpEndpoints right) key = Some endpoint) (tpEndpoints left) \<and>
     list_all (\<lambda>slot. tpSlots left slot = tpSlots right slot) [0..<routeSlotCount]"

end
