(* ===== verification/TopologyCorrect.thy ===== *)
theory TopologyCorrect
  imports Topology
begin

section \<open>A built topology routes every key\<close>

text \<open>
  The invariant of the loop over the ranges of a SHARDS reply, what an accepted reply gives, and that
  the equality of \<open>src/topology_equal.go\<close> is equality of everything routing depends on.
\<close>

subsection \<open>What is promised of a topology\<close>

definition endpoint_ok :: "routing_endpoint \<Rightarrow> bool" where
  "endpoint_ok e \<longleftrightarrow> epHost e \<noteq> [] \<and> epNode e \<noteq> [] \<and> 0 < epNativePort e \<and> epNativePort e \<le> 65535 \<and>
     0 \<le> epNativeTLSPort e \<and> epNativeTLSPort e \<le> 65535"

definition route_ok :: "(string \<Rightarrow> string) \<Rightarrow> routing_topology \<Rightarrow> nat \<Rightarrow> routing_route \<Rightarrow> bool" where
  "route_ok lower t slot r \<longleftrightarrow>
     rtSlot r = slot \<and> rtShard r < tpShardCount t \<and> 0 < rtLaneID r \<and> endpoint_ok (rtEndpoint r) \<and>
     rtLeaderNode r = epNode (rtEndpoint r) \<and> rtEndpointKey r = endpointKey lower (rtEndpoint r) \<and>
     map_of (tpEndpoints t) (rtEndpointKey r) = Some (rtEndpoint r)"

definition shard_identity :: "routing_route \<Rightarrow> shard_route" where
  "shard_identity r = \<lparr>shLane = rtLaneID r, shEndpoint = rtEndpointKey r, shLeader = rtLeaderNode r\<rparr>"

definition valid_topology :: "(string \<Rightarrow> string) \<Rightarrow> routing_topology \<Rightarrow> bool" where
  "valid_topology lower t \<longleftrightarrow>
     0 < tpShardCount t \<and> 0 \<le> tpRouteEpoch t \<and> distinct (map fst (tpEndpoints t)) \<and>
     (\<forall>slot. slot < routeSlotCount \<longleftrightarrow> tpSlots t slot \<noteq> None) \<and>
     (\<forall>slot r. tpSlots t slot = Some r \<longrightarrow> route_ok lower t slot r) \<and>
     (\<forall>slot r slot' r'. tpSlots t slot = Some r \<longrightarrow> tpSlots t slot' = Some r' \<longrightarrow> rtShard r = rtShard r' \<longrightarrow>
        shard_identity r = shard_identity r') \<and>
     (\<forall>shard < tpShardCount t. \<exists>slot r. tpSlots t slot = Some r \<and> rtShard r = shard) \<and>
     (\<forall>(key, e) \<in> set (tpEndpoints t). \<exists>slot r. tpSlots t slot = Some r \<and> rtEndpointKey r = key \<and> rtEndpoint r = e)"

subsection \<open>The pieces of the loop\<close>

lemma fillSlots_Inr:
  "fillSlots route ss slots = Inr slots' \<Longrightarrow>
     slots' = (\<lambda>s. if s \<in> set ss then Some (route\<lparr>rtSlot := s\<rparr>) else slots s) \<and> (\<forall>s \<in> set ss. slots s = None)"
proof (induction ss arbitrary: slots)
  case (Cons s ss)
  then have free: "slots s = None" and rest: "fillSlots route ss (slots(s \<mapsto> route\<lparr>rtSlot := s\<rparr>)) = Inr slots'"
    by (auto simp: fillSlots_def split: if_splits)
  from Cons.IH [OF rest] free show ?case by (auto simp: fun_eq_iff split: if_splits)
qed (simp add: fillSlots_def)

lemma fillSlots_fresh:
  "distinct ss \<Longrightarrow> \<forall>s \<in> set ss. slots s = None \<Longrightarrow>
     fillSlots route ss slots = Inr (\<lambda>s. if s \<in> set ss then Some (route\<lparr>rtSlot := s\<rparr>) else slots s)"
proof (induction ss arbitrary: slots)
  case (Cons s ss)
  then have "fillSlots route ss (slots(s \<mapsto> route\<lparr>rtSlot := s\<rparr>)) =
      Inr (\<lambda>s'. if s' \<in> set ss then Some (route\<lparr>rtSlot := s'\<rparr>) else (slots(s \<mapsto> route\<lparr>rtSlot := s\<rparr>)) s')"
    by (intro Cons.IH) auto
  with Cons.prems show ?case by (auto simp: fillSlots_def fun_eq_iff)
qed (simp add: fillSlots_def)

lemma firstMissing_Inr [simp]: "firstMissing present err ns = Inr u \<longleftrightarrow> (\<forall>n \<in> set ns. present n)"
  by (induction ns) auto

lemma endpointPortValue_bounds: "endpointPortValue v = Some n \<Longrightarrow> 0 < n \<and> n \<le> 65535"
  by (auto simp: endpointPortValue_def split: option.splits if_splits)

lemma tlsPortValue_bounds: "tlsPortValue v = Some n \<Longrightarrow> 0 \<le> n \<and> n \<le> 65535"
  by (auto simp: tlsPortValue_def dest!: endpointPortValue_bounds split: if_splits)

lemma hostValue_nonempty: "hostValue v = Some h \<Longrightarrow> h \<noteq> []"
  by (auto simp: hostValue_def split: option.splits if_splits)

lemma endpointFromRange_ok:
  assumes "endpointFromRange item = Inr e"
  shows "endpoint_ok e"
proof -
  from assms obtain raw nested where
    f: "(case (hostValue (firstPresent raw [''host'', ''native_host'']),
           endpointPortValue (firstPresent raw [''native_port'']),
           tlsPortValue (firstPresent raw [''native_tls_port'']),
           endpointNode item raw nested) of
       (Some host, Some port, Some tlsPort, Some node) \<Rightarrow>
         Inr \<lparr>epNode = (if node = [] then host else node), epHost = host,
              epNativePort = port, epNativeTLSPort = tlsPort\<rparr>
     | _ \<Rightarrow> Inl EndpointInvalid) = Inr e"
    unfolding endpointFromRange_def ebind_Inr_iff by (elim exE conjE) (auto simp only: split: prod.splits)
  obtain host port tls node where
    "hostValue (firstPresent raw [''host'', ''native_host'']) = Some host"
    "endpointPortValue (firstPresent raw [''native_port'']) = Some port"
    "tlsPortValue (firstPresent raw [''native_tls_port'']) = Some tls"
    "e = \<lparr>epNode = (if node = [] then host else node), epHost = host, epNativePort = port, epNativeTLSPort = tls\<rparr>"
    using f by (auto simp del: firstPresent.simps split: option.splits)
  then show ?thesis
    using hostValue_nonempty endpointPortValue_bounds tlsPortValue_bounds by (auto simp: endpoint_ok_def)
qed

subsection \<open>The invariant of the loop\<close>

definition build_inv :: "(string \<Rightarrow> string) \<Rightarrow> nat \<Rightarrow> build_state \<Rightarrow> bool" where
  "build_inv lower n st \<longleftrightarrow>
     (case st of (t, shards) \<Rightarrow>
       tpShardCount t = n \<and> distinct (map fst (tpEndpoints t)) \<and>
       (\<forall>slot r. tpSlots t slot = Some r \<longrightarrow>
          slot < routeSlotCount \<and> route_ok lower t slot r \<and> map_of shards (rtShard r) = Some (shard_identity r)) \<and>
       (\<forall>shard i. map_of shards shard = Some i \<longrightarrow> (\<exists>slot r. tpSlots t slot = Some r \<and> rtShard r = shard)) \<and>
       (\<forall>key e. map_of (tpEndpoints t) key = Some e \<longrightarrow>
          (\<exists>slot r. tpSlots t slot = Some r \<and> rtEndpointKey r = key \<and> rtEndpoint r = e)))"

lemma installRange_inv:
  assumes inv: "build_inv lower n (t, shards)" and bounds: "rangeInBounds n r" and ok: "endpoint_ok e"
    and step: "installRange lower r e (t, shards) = Inr st'"
  shows "build_inv lower n st'"
proof -
  obtain first final shard lane where r: "r = (first, final, shard, lane)" by (cases r)
  define slots' where "slots' = [nat first..<Suc (nat final)]"
  define key where "key = endpointKey lower e"
  define route where "route = \<lparr>rtShard = nat shard, rtLaneID = word_of_int lane, rtEndpointKey = key,
    rtEndpoint = e, rtLeaderNode = epNode e, rtSlot = 0\<rparr>"
  define new where "new = (\<lambda>s. if s \<in> set slots' then Some (route\<lparr>rtSlot := s\<rparr>) else tpSlots t s)"
  have b: "0 \<le> first" "first \<le> final" "final < 1024" "0 \<le> shard" "shard < int n" "0 < lane" "lane < 2 ^ 32 - 1"
    using bounds by (auto simp: rangeInBounds_def r routeSlotCount_def)
  have lane: "0 < (word_of_int lane :: 32 word)"
    using b by (simp add: word_less_def uint_word_of_int mod_pos_pos_trivial)
  have install: "installRange lower r e (t, shards) =
      (if map_of shards (nat shard) \<notin> {None, Some (shard_identity route)} then Inl (InconsistentShard (nat shard))
       else if map_of (tpEndpoints t) key \<notin> {None, Some e} then Inl (InconsistentEndpoint key)
       else ebind (fillSlots route slots' (tpSlots t)) (\<lambda>slots.
         Inr (t\<lparr>tpEndpoints := AList.update key e (tpEndpoints t), tpSlots := slots\<rparr>,
              AList.update (nat shard) (shard_identity route) shards)))"
    by (simp add: installRange_def r Let_def shard_identity_def route_def key_def slots'_def del: upt_Suc cong: if_cong)
  from step obtain filled where fill: "fillSlots route slots' (tpSlots t) = Inr filled"
    and s: "map_of shards (nat shard) \<in> {None, Some (shard_identity route)}" "map_of (tpEndpoints t) key \<in> {None, Some e}"
    and out: "st' = (t\<lparr>tpEndpoints := AList.update key e (tpEndpoints t), tpSlots := filled\<rparr>,
      AList.update (nat shard) (shard_identity route) shards)"
    unfolding install by (auto simp: ebind_Inr_iff split: if_splits)
  from fillSlots_Inr [OF fill] have free: "\<forall>s \<in> set slots'. tpSlots t s = None" and filled: "filled = new"
    by (simp_all add: new_def)
  note st' = out [unfolded filled]
  have first: "nat first \<in> set slots'" and small: "\<forall>s \<in> set slots'. s < 1024"
    using b by (auto simp: slots'_def)
  have old: "tpShardCount t = n" "distinct (map fst (tpEndpoints t))"
    and slots: "\<And>slot r. tpSlots t slot = Some r \<Longrightarrow>
      slot < 1024 \<and> route_ok lower t slot r \<and> map_of shards (rtShard r) = Some (shard_identity r)"
    and shards: "\<And>shard i. map_of shards shard = Some i \<Longrightarrow> \<exists>slot r. tpSlots t slot = Some r \<and> rtShard r = shard"
    and endpoints: "\<And>key e. map_of (tpEndpoints t) key = Some e \<Longrightarrow>
      \<exists>slot r. tpSlots t slot = Some r \<and> rtEndpointKey r = key \<and> rtEndpoint r = e"
    using inv by (auto simp: build_inv_def routeSlotCount_def)
  define t' where "t' = t\<lparr>tpEndpoints := AList.update key e (tpEndpoints t), tpSlots := new\<rparr>"
  have new: "new s = (if s \<in> set slots' then Some (route\<lparr>rtSlot := s\<rparr>) else tpSlots t s)" for s
    by (simp add: new_def)
  have kept: "new s = Some r" if "tpSlots t s = Some r" for s r using that free by (auto simp: new)
  have at_first: "new (nat first) = Some (route\<lparr>rtSlot := nat first\<rparr>)" using first by (simp add: new)
  have keys: "map_of (tpEndpoints t') k = (if k = key then Some e else map_of (tpEndpoints t) k)" for k
    by (simp add: t'_def update_conv')
  have ok_new: "route_ok lower t' s (route\<lparr>rtSlot := s\<rparr>)" for s
    using b ok lane old by (simp add: route_ok_def keys) (simp add: route_def key_def t'_def)
  have ok_old: "route_ok lower t' s r" if "tpSlots t s = Some r" for s r
    using slots [OF that] s(2) by (auto simp: route_ok_def keys) (auto simp: t'_def)
  have "build_inv lower n (t', AList.update (nat shard) (shard_identity route) shards)"
    unfolding build_inv_def case_prod_conv
  proof (intro conjI allI impI)
    show "tpShardCount t' = n" "distinct (map fst (tpEndpoints t'))"
      using old by (simp_all add: t'_def distinct_update)
  next
    fix slot r assume "tpSlots t' slot = Some r"
    then have "new slot = Some r" by (simp add: t'_def)
    then have "slot \<in> set slots' \<and> r = route\<lparr>rtSlot := slot\<rparr> \<or> tpSlots t slot = Some r"
      unfolding new by (cases "slot \<in> set slots'") simp_all
    then consider "slot \<in> set slots'" "r = route\<lparr>rtSlot := slot\<rparr>" | "tpSlots t slot = Some r" by blast
    then have "slot < 1024 \<and> route_ok lower t' slot r \<and>
      map_of (AList.update (nat shard) (shard_identity route) shards) (rtShard r) = Some (shard_identity r)"
    proof cases
      case 1
      with small ok_new show ?thesis by (simp add: update_conv' shard_identity_def route_def)
    next
      case 2
      from slots [OF 2] s(1) ok_old [OF 2] show ?thesis by (auto simp: update_conv')
    qed
    then show "slot < routeSlotCount" "route_ok lower t' slot r"
      "map_of (AList.update (nat shard) (shard_identity route) shards) (rtShard r) = Some (shard_identity r)"
      by (simp_all add: routeSlotCount_def)
  next
    fix sh i assume "map_of (AList.update (nat shard) (shard_identity route) shards) sh = Some i"
    then consider "sh = nat shard" | "map_of shards sh = Some i"
      unfolding update_conv' by (cases "sh = nat shard") simp_all
    then show "\<exists>slot r. tpSlots t' slot = Some r \<and> rtShard r = sh"
    proof cases
      case 1
      then show ?thesis
        by (intro exI [of _ "nat first"] exI [of _ "route\<lparr>rtSlot := nat first\<rparr>"])
          (simp add: t'_def at_first, simp add: route_def)
    next
      case 2
      from shards [OF 2] obtain slot r where "tpSlots t slot = Some r" "rtShard r = sh" by blast
      with kept show ?thesis by (intro exI [of _ slot] exI [of _ r]) (simp add: t'_def)
    qed
  next
    fix k e' assume "map_of (tpEndpoints t') k = Some e'"
    then consider "k = key" "e' = e" | "map_of (tpEndpoints t) k = Some e'"
      unfolding keys by (cases "k = key") simp_all
    then show "\<exists>slot r. tpSlots t' slot = Some r \<and> rtEndpointKey r = k \<and> rtEndpoint r = e'"
    proof cases
      case 1
      then show ?thesis
        by (intro exI [of _ "nat first"] exI [of _ "route\<lparr>rtSlot := nat first\<rparr>"])
          (simp add: t'_def at_first, simp add: route_def)
    next
      case 2
      from endpoints [OF 2] obtain slot r where "tpSlots t slot = Some r" "rtEndpointKey r = k" "rtEndpoint r = e'"
        by blast
      with kept show ?thesis by (intro exI [of _ slot] exI [of _ r]) (simp add: t'_def)
    qed
  qed
  then show ?thesis by (simp add: st' t'_def)
qed

lemma addRange_inv: "build_inv lower n st \<Longrightarrow> addRange lower n v st = Inr st' \<Longrightarrow> build_inv lower n st'"
  by (cases st) (auto simp: addRange_def ebind_Inr_iff intro: installRange_inv endpointFromRange_ok)

lemma addRanges_inv: "build_inv lower n st \<Longrightarrow> for_each (addRange lower n) vs st = Inr st' \<Longrightarrow> build_inv lower n st'"
  by (induction vs arbitrary: st) (auto simp: ebind_Inr_iff intro: addRange_inv)

lemma addRange_header: "addRange lower n v (t, sh) = Inr (t', sh') \<Longrightarrow> tpRouteEpoch t' = tpRouteEpoch t"
  by (auto simp: addRange_def installRange_def Let_def ebind_Inr_iff split: if_splits prod.splits)

lemma addRanges_header:
  "for_each (addRange lower n) vs st = Inr st' \<Longrightarrow> tpRouteEpoch (fst st') = tpRouteEpoch (fst st)"
proof (induction vs arbitrary: st)
  case (Cons v vs)
  then obtain mid where "addRange lower n v st = Inr mid" "for_each (addRange lower n) vs mid = Inr st'"
    by (auto simp: ebind_Inr_iff)
  with Cons.IH [of mid] show ?case by (cases st; cases mid) (auto dest: addRange_header)
qed simp

lemma built_valid:
  assumes "buildRoutingTopology lower v = Inr t"
  shows "valid_topology lower t"
proof -
  from assms obtain epoch n ranges shards where
    counts: "\<exists>payload. readShardCounts payload = Inr (epoch, n)"
    and run: "for_each (addRange lower n) ranges
      (emptyRoutingTopology\<lparr>tpRouteEpoch := epoch, tpShardCount := n\<rparr>, []) = Inr (t, shards)"
    and full: "\<forall>shard < n. map_of shards shard \<noteq> None" "\<forall>slot < routeSlotCount. tpSlots t slot \<noteq> None"
    by (force simp: buildRoutingTopology_def ebind_Inr_iff split: prod.splits)
  have "build_inv lower n (t, shards)"
    by (rule addRanges_inv [OF _ run]) (simp add: build_inv_def emptyRoutingTopology_def)
  then have inv: "tpShardCount t = n" "distinct (map fst (tpEndpoints t))"
    and slots: "\<And>slot r. tpSlots t slot = Some r \<Longrightarrow>
      slot < routeSlotCount \<and> route_ok lower t slot r \<and> map_of shards (rtShard r) = Some (shard_identity r)"
    and shards: "\<And>shard i. map_of shards shard = Some i \<Longrightarrow> \<exists>slot r. tpSlots t slot = Some r \<and> rtShard r = shard"
    and endpoints: "\<And>key e. map_of (tpEndpoints t) key = Some e \<Longrightarrow>
      \<exists>slot r. tpSlots t slot = Some r \<and> rtEndpointKey r = key \<and> rtEndpoint r = e"
    by (auto simp: build_inv_def)
  have n: "0 < n" "0 \<le> epoch" using counts
    by (auto simp: readShardCounts_def ebind_Inr_iff split: option.splits if_splits)
  have "tpRouteEpoch t = epoch" using addRanges_header [OF run] by simp
  moreover have "\<exists>slot r. tpSlots t slot = Some r \<and> rtShard r = shard" if "shard < n" for shard
    using full(1) that shards by blast
  moreover have "\<exists>slot r. tpSlots t slot = Some r \<and> rtEndpointKey r = key \<and> rtEndpoint r = e"
    if "(key, e) \<in> set (tpEndpoints t)" for key e
    using that inv endpoints by simp
  moreover have "slot < routeSlotCount \<longleftrightarrow> tpSlots t slot \<noteq> None" for slot using full(2) slots by fastforce
  moreover have "shard_identity r = shard_identity r'"
    if "tpSlots t slot = Some r" "tpSlots t slot' = Some r'" "rtShard r = rtShard r'" for slot r slot' r'
    using slots [OF that(1)] slots [OF that(2)] that(3) by simp
  ultimately show ?thesis using n inv slots unfolding valid_topology_def by (intro conjI) blast+
qed

subsection \<open>A SHARDS reply\<close>

definition sampleRange :: entries where
  "sampleRange =
     [(''first_slot'', VInt 0), (''last_slot'', VInt 1023), (''shard'', VInt 0), (''lane_id'', VInt 1),
      (''host'', VString ''db''), (''native_port'', VInt 6388)]"

definition sampleShards :: entries where
  "sampleShards = [(''route_epoch'', VInt 7), (''shard_count'', VInt 1), (''ranges'', VArray None [VMap None sampleRange])]"

definition sampleEndpoint :: routing_endpoint where
  "sampleEndpoint = \<lparr>epNode = ''db'', epHost = ''db'', epNativePort = 6388, epNativeTLSPort = 0\<rparr>"

definition sampleRoute :: routing_route where
  "sampleRoute = \<lparr>rtShard = 0, rtLaneID = 1, rtEndpointKey = ''db:6388'', rtEndpoint = sampleEndpoint,
     rtLeaderNode = ''db'', rtSlot = 0\<rparr>"

definition sampleTopology :: routing_topology where
  "sampleTopology = \<lparr>tpRouteEpoch = 7, tpShardCount = 1,
     tpSlots = (\<lambda>slot. if slot < 1024 then Some (sampleRoute\<lparr>rtSlot := slot\<rparr>) else None),
     tpEndpoints = [(''db:6388'', sampleEndpoint)]\<rparr>"

lemma sample_maps:
  "nativeMap (VMap None sampleShards) = Inr sampleShards"
  "nativeMap (VMap None sampleRange) = Inr sampleRange"
  "normalizeAdminResponse (VArray None [VMap None sampleRange]) = Inr (VArray None [VMap None sampleRange])"
  by (simp_all add: nativeMap_def nativeMapDepth.simps normalizeNativeCheckedDepth.simps putEntry_def consumeItems_def
      sampleShards_def sampleRange_def nativeMaxDecodeDepth_def nativeMaxContainerItems_def
      normalizeAdminResponse_def normalizeAdminResponseDepth.simps)

lemma sample_endpoint: "endpointFromRange sampleRange = Inr sampleEndpoint"
proof -
  have "trimSpace ''db'' = ''db''" by code_simp
  then show ?thesis
    by (simp add: endpointFromRange_def sampleRange_def lookupOr_def hostValue_def responseString_def
        endpointPortValue_def tlsPortValue_def endpointNode_def nodeNames_def sampleEndpoint_def)
qed

lemma sample_key: "endpointKey lowerAscii sampleEndpoint = ''db:6388''"
proof -
  have "lowerAscii ''db'' = ''db''" by code_simp
  moreover have "itoa 6388 = ''6388''" by (simp add: itoa_def itoa_nat.simps digit_def) code_simp
  ultimately show ?thesis by (simp add: endpointKey_def sampleEndpoint_def)
qed

lemma sample_add:
  "addRange lowerAscii 1 (VMap None sampleRange)
     (emptyRoutingTopology\<lparr>tpRouteEpoch := 7, tpShardCount := 1\<rparr>, []) =
   Inr (sampleTopology, [(0, \<lparr>shLane = 1, shEndpoint = ''db:6388'', shLeader = ''db''\<rparr>)])"
proof -
  have ints: "rangeIntegers sampleRange = Inr (0, 1023, 0, 1)" and hint: "lookupOr sampleRange ''hint'' = VNil"
    by (simp_all add: rangeIntegers_def sampleRange_def lookupOr_def)
  have fill: "fillSlots sampleRoute [0..<1024] Map.empty = Inr (tpSlots sampleTopology)"
    by (subst fillSlots_fresh) (simp_all add: sampleTopology_def fun_eq_iff del: upt_rec_numeral)
  have "installRange lowerAscii (0, 1023, 0, 1) sampleEndpoint
     (emptyRoutingTopology\<lparr>tpRouteEpoch := 7, tpShardCount := 1\<rparr>, []) =
   Inr (sampleTopology, [(0, \<lparr>shLane = 1, shEndpoint = ''db:6388'', shLeader = ''db''\<rparr>)])"
    using fill
    by (simp add: installRange_def Let_def sample_key emptyRoutingTopology_def sampleRoute_def del: upt_rec_numeral)
      (simp add: sampleTopology_def sampleEndpoint_def sampleRoute_def)
  then show ?thesis
    by (simp add: addRange_def sample_maps ints hint sample_endpoint rangeInBounds_def routeSlotCount_def)
qed

lemma sample_topology: "buildRoutingTopology lowerAscii (VMap None sampleShards) = Inr sampleTopology"
proof -
  have counts: "readShardCounts sampleShards = Inr (7, 1)"
    and ranges: "lookupOr sampleShards ''ranges'' = VArray None [VMap None sampleRange]"
    by (simp_all add: readShardCounts_def sampleShards_def lookupOr_def routeSlotCount_def)
  have slots: "firstMissing (\<lambda>slot. \<exists>y. tpSlots sampleTopology slot = Some y) MissingSlot [0..<1024] = Inr ()"
    by (simp add: sampleTopology_def del: upt_rec_numeral)
  show ?thesis
    unfolding buildRoutingTopology_def
    using sample_add
    by (simp add: slots sample_maps counts ranges routeSlotCount_def del: upt_rec_numeral)
qed

subsection \<open>Properties\<close>

text \<open>
  C29. An accepted SHARDS reply gives a complete, consistent topology: each of the 1024 slots has a route,
  to a declared shard, with a positive lane and a usable endpoint registered under its key; a shard has
  one lane, endpoint and leader wherever it appears; every declared shard owns a slot; and so every
  public key is routed, to the slot of its hash tag.
\<close>

theorem built_topology_routes_every_key:
  assumes "buildRoutingTopology lower v = Inr t"
  shows "valid_topology lower t \<and>
    (isRouteKey key \<longrightarrow> \<not> reservedInternalKeyString (keyText key) \<longrightarrow>
      (\<exists>r. RouteKey (Some t) key = Inr r \<and> route_ok lower t (routeSlotForString (keyText key)) r))"
proof -
  note v = built_valid [OF assms]
  then obtain r where r: "tpSlots t (routeSlotForString (keyText key)) = Some r"
    using slot_bound [of "keyText key"] by (fastforce simp: valid_topology_def)
  then have ok: "route_ok lower t (routeSlotForString (keyText key)) r" using v by (simp add: valid_topology_def)
  then have "rtSlot r = routeSlotForString (keyText key)" by (simp add: route_ok_def)
  then have "r\<lparr>rtSlot := routeSlotForString (keyText key)\<rparr> = r" by simp
  with v r ok slot_bound [of "keyText key"] show ?thesis by (simp add: RouteKey_def routeSlot_def)
qed

theorem built_topology_routes_every_key_witness:
  "\<exists>r. RouteKey (Some sampleTopology) (Val (VString ''user'')) = Inr r \<and> rtShard r = 0"
proof -
  have "isRouteKey (Val (VString ''user''))" "\<not> reservedInternalKeyString (keyText (Val (VString ''user'')))"
    by code_simp+
  with built_topology_routes_every_key [OF sample_topology, of "Val (VString ''user'')"]
  obtain r where "RouteKey (Some sampleTopology) (Val (VString ''user'')) = Inr r" "rtShard r < tpShardCount sampleTopology"
    by (auto simp: route_ok_def)
  then show ?thesis by (simp add: sampleTopology_def)
qed

lemma valid_slots:
  assumes "valid_topology lower t"
  shows "distinct (map fst (tpEndpoints t))" and "\<And>slot. slot < routeSlotCount \<longleftrightarrow> tpSlots t slot \<noteq> None"
    and "\<And>slot r. tpSlots t slot = Some r \<Longrightarrow> route_ok lower t slot r"
  using assms unfolding valid_topology_def by simp_all

text \<open>
  C30. The comparison that decides whether a refreshed topology is new sees everything routing depends
  on: for topologies built from replies it holds exactly when the epochs, the shard counts, every slot's
  route and the endpoints under every key are the same.
\<close>

theorem topology_equality_exact:
  assumes "buildRoutingTopology lower v = Inr l" and "buildRoutingTopology lower' v' = Inr r"
  shows "routingTopologiesEqual l r \<longleftrightarrow>
    tpRouteEpoch l = tpRouteEpoch r \<and> tpShardCount l = tpShardCount r \<and> tpSlots l = tpSlots r \<and>
    map_of (tpEndpoints l) = map_of (tpEndpoints r)"
proof -
  note l = valid_slots [OF built_valid [OF assms(1)]] and r = valid_slots [OF built_valid [OF assms(2)]]
  note d = l(1) r(1)
  have dom: "tpSlots l slot = None \<and> tpSlots r slot = None" if "\<not> slot < routeSlotCount" for slot
    using l(2) r(2) that by blast
  have slots: "list_all (\<lambda>slot. tpSlots l slot = tpSlots r slot) [0..<routeSlotCount] \<longleftrightarrow> tpSlots l = tpSlots r"
    using dom by (auto simp: list_all_iff fun_eq_iff)
  have le: "length (tpEndpoints l) = length (tpEndpoints r) \<and>
      list_all (\<lambda>(key, endpoint). map_of (tpEndpoints r) key = Some endpoint) (tpEndpoints l) \<longleftrightarrow>
      map_of (tpEndpoints l) = map_of (tpEndpoints r)" (is "?len \<and> ?sub \<longleftrightarrow> ?eq")
  proof
    assume eq: ?eq
    then have "set (tpEndpoints l) = set (tpEndpoints r)" using d map_of_inject_set by blast
    moreover have "distinct (tpEndpoints l)" "distinct (tpEndpoints r)" using d by (auto simp: distinct_map)
    ultimately have ?len by (metis distinct_card)
    moreover have ?sub unfolding eq [symmetric] using d by (auto simp: list_all_iff)
    ultimately show "?len \<and> ?sub" by blast
  next
    assume a: "?len \<and> ?sub"
    have "set (tpEndpoints l) \<subseteq> set (tpEndpoints r)" using a by (auto simp: list_all_iff dest: map_of_SomeD)
    moreover have "card (set (tpEndpoints l)) = card (set (tpEndpoints r))"
      using a d by (metis distinct_card distinct_map)
    ultimately have "set (tpEndpoints l) = set (tpEndpoints r)" by (simp add: card_subset_eq)
    with d show ?eq using map_of_inject_set by blast
  qed
  show ?thesis unfolding routingTopologiesEqual_def slots using le by blast
qed

theorem topology_equality_exact_witness:
  "routingTopologiesEqual sampleTopology sampleTopology"
  using topology_equality_exact [OF sample_topology sample_topology] by simp

end
