(* ===== verification/Retry.thy ===== *)
theory Retry
  imports Topology "HOL-Library.Monad_Syntax"
begin

section \<open>Retries and replays\<close>

text \<open>
  When a failed command may be sent again. \<open>src/native_retry.go\<close>: what a server error permits;
  \<open>src/native_request.go\<close>: the loop that repeats a request on one connection; \<open>src/topology_errors.go\<close> and
  the reroute loop of \<open>src/topology_reroute.go\<close>, which also runs in \<open>src/topology.go\<close>.

  What an attempt meets (the reply, the state of the context, the outcome of waiting or of a topology
  refresh) is the environment: a sequence of observations, one per attempt.
\<close>

subsection \<open>Errors\<close>

text \<open>
  An error is what \<open>errors.Is\<close> and \<open>errors.As\<close> find in its chain; wrapping with more text does not
  change it.
\<close>

datatype exec_error =
    ErrCanceled
  | ErrDeadline
  | ErrNetClosed
  | ErrConnectionUnavailable
  | ErrGoAway
  | ErrNative "16 word" string goval
  | ErrTopology topology_error
  | ErrTopologyClosed
  | ErrStaleRoute
  | ErrUnsafeEndpoint routing_endpoint
  | ErrOther string

definition nativeStatusBusy :: "16 word" where "nativeStatusBusy = 4"
definition nativeStatusReroute :: "16 word" where "nativeStatusReroute = 5"
definition nativeMaxServerRetries :: nat where "nativeMaxServerRetries = 1"

fun nativeErrorField :: "goval \<Rightarrow> string \<Rightarrow> goval" where
  "nativeErrorField (VMap i es) name = lookupOr es name"
| "nativeErrorField (VRMap i es) name = (case map_of es (Some name) of None \<Rightarrow> VNil | Some v \<Rightarrow> v)"
| "nativeErrorField _ name = VNil"

definition nativeErrorHasKind :: "16 word \<Rightarrow> string \<Rightarrow> goval \<Rightarrow> 16 word \<Rightarrow> string \<Rightarrow> bool" where
  "nativeErrorHasKind errStatus errKind errValue status kind \<longleftrightarrow>
     errStatus = status \<or> equalFoldAscii errKind kind \<or>
     (case commandText (nativeErrorField errValue ''code'') of None \<Rightarrow> False | Some code \<Rightarrow> equalFoldAscii code kind)"

fun nativeRetryAfterMilliseconds :: "goval \<Rightarrow> int option" where
  "nativeRetryAfterMilliseconds (VInt n) = Some (sint n)"
| "nativeRetryAfterMilliseconds (VInt8 n) = Some (sint n)"
| "nativeRetryAfterMilliseconds (VInt16 n) = Some (sint n)"
| "nativeRetryAfterMilliseconds (VInt32 n) = Some (sint n)"
| "nativeRetryAfterMilliseconds (VUint n) = (if uint n \<le> maxInt64 then Some (uint n) else None)"
| "nativeRetryAfterMilliseconds (VUint8 n) = Some (uint n)"
| "nativeRetryAfterMilliseconds (VUint16 n) = Some (uint n)"
| "nativeRetryAfterMilliseconds (VUint32 n) = Some (uint n)"
| "nativeRetryAfterMilliseconds _ = None"

definition millisecond :: int where "millisecond = 1000000"

definition nativeRetryAfter :: "goval \<Rightarrow> int" where
  "nativeRetryAfter v =
     (case nativeRetryAfterMilliseconds v of
        None \<Rightarrow> 0
      | Some ms \<Rightarrow> if ms \<le> 0 then 0 else if ms > maxInt64 div millisecond then maxInt64 else ms * millisecond)"

record retry_disposition =
  rdBusy :: bool
  rdReroute :: bool
  rdRetryable :: bool
  rdRetryAfter :: int

definition noDisposition :: retry_disposition where
  "noDisposition = \<lparr>rdBusy = False, rdReroute = False, rdRetryable = False, rdRetryAfter = 0\<rparr>"

fun nativeServerRetryDisposition :: "exec_error \<Rightarrow> retry_disposition" where
  "nativeServerRetryDisposition (ErrNative status kind v) =
     (let busy = nativeErrorHasKind status kind v nativeStatusBusy ''busy'';
          reroute = nativeErrorHasKind status kind v nativeStatusReroute ''reroute'' in
      if \<not> busy \<and> \<not> reroute then noDisposition
      else \<lparr>rdBusy = busy, rdReroute = reroute,
            rdRetryable = (nativeErrorField v ''retryable'' = VBool True \<and> nativeErrorField v ''safe_to_retry'' = VBool True),
            rdRetryAfter = nativeRetryAfter (nativeErrorField v ''retry_after_ms'')\<rparr>)"
| "nativeServerRetryDisposition _ = noDisposition"

text \<open>The server said, in so many words, that repeating the command is safe.\<close>

definition server_permits :: "exec_error \<Rightarrow> bool" where
  "server_permits err \<longleftrightarrow>
     (\<exists>status kind v. err = ErrNative status kind v \<and>
        nativeErrorField v ''retryable'' = VBool True \<and> nativeErrorField v ''safe_to_retry'' = VBool True)"

lemma disposition_permits: "rdRetryable (nativeServerRetryDisposition err) \<Longrightarrow> server_permits err"
  by (cases err) (auto simp: server_permits_def noDisposition_def Let_def split: if_splits)

lemma retryAfter_bounds: "0 \<le> nativeRetryAfter v \<and> nativeRetryAfter v \<le> maxInt64"
proof -
  have "ms * millisecond \<le> maxInt64" if "ms \<le> maxInt64 div millisecond" for ms
  proof -
    have "ms * millisecond \<le> maxInt64 div millisecond * millisecond"
      using that by (simp add: millisecond_def)
    also have "\<dots> \<le> maxInt64" by (simp add: millisecond_def maxInt64_def)
    finally show ?thesis .
  qed
  moreover have "0 \<le> maxInt64" "0 < millisecond" by (simp_all add: maxInt64_def millisecond_def)
  ultimately show ?thesis by (auto simp: nativeRetryAfter_def split: option.split)
qed

text \<open>The delay before a pipeline whose items were all refused as busy is sent again.\<close>

fun busyDelay :: "exec_error option list \<Rightarrow> int \<Rightarrow> int option" where
  "busyDelay [] delay = Some delay"
| "busyDelay (item # rest) delay =
     (case item of
        None \<Rightarrow> None
      | Some err \<Rightarrow>
          let disposition = nativeServerRetryDisposition err in
          if \<not> rdBusy disposition \<or> \<not> rdRetryable disposition then None
          else busyDelay rest (max delay (rdRetryAfter disposition)))"

definition retryableBusyPipeline :: "exec_error option list \<Rightarrow> int option" where
  "retryableBusyPipeline results = (if results = [] then None else busyDelay results 0)"

subsection \<open>Route errors\<close>

definition topologyRouteErrorDisposition :: "exec_error option \<Rightarrow> bool \<times> bool" where
  "topologyRouteErrorDisposition err =
     (case err of
        None \<Rightarrow> (False, False)
      | Some err \<Rightarrow>
          if err = ErrCanceled \<or> err = ErrDeadline then (False, False)
          else if err = ErrNetClosed \<or> err = ErrConnectionUnavailable then (True, False)
          else
            let disposition = nativeServerRetryDisposition err in
            if \<not> rdReroute disposition then (False, False) else (True, rdRetryable disposition))"

definition isRetryableRouteError :: "exec_error option \<Rightarrow> bool" where
  "isRetryableRouteError err = fst (topologyRouteErrorDisposition err)"

text \<open>
  What a refresh attempt meets, in the order of the checks: the context before, the wait, the context
  after it, the refresh, and the context if the refresh failed.
\<close>

record refresh_obs =
  roContext :: "exec_error option"
  roWait :: "exec_error option"
  roContextAfter :: "exec_error option"
  roRefresh :: "exec_error option"
  roContextFailed :: "exec_error option"

definition refreshAndCanRetrySafeReroute :: "refresh_obs \<Rightarrow> exec_error \<Rightarrow> nat \<Rightarrow> exec_error + bool" where
  "refreshAndCanRetrySafeReroute obs err attempt =
     (let (refresh, safeToRetry) = topologyRouteErrorDisposition (Some err) in
      if \<not> refresh \<or> attempt \<noteq> 0 then Inr False
      else case roContext obs of
        Some e \<Rightarrow> Inl e
      | None \<Rightarrow>
          (case (if safeToRetry then roWait obs else None) of
             Some e \<Rightarrow> Inl e
           | None \<Rightarrow>
               (case roContextAfter obs of
                  Some e \<Rightarrow> Inl e
                | None \<Rightarrow>
                    (case roRefresh obs of
                       Some _ \<Rightarrow> (case roContextFailed obs of Some e \<Rightarrow> Inl e | None \<Rightarrow> Inr False)
                     | None \<Rightarrow> Inr safeToRetry))))"

lemma reroute_permitted:
  "refreshAndCanRetrySafeReroute obs err attempt = Inr True \<Longrightarrow>
     attempt = 0 \<and> server_permits err \<and> rdReroute (nativeServerRetryDisposition err)"
  by (auto simp: refreshAndCanRetrySafeReroute_def topologyRouteErrorDisposition_def Let_def
      dest: disposition_permits split: if_splits option.splits)

text \<open>
  The pipeline form: the error with the longest delay among those that make the topology suspect, and
  whether every item was refused with leave to retry.
\<close>

definition pipelineRouteItem :: "exec_error option \<Rightarrow> exec_error option \<times> bool \<times> int \<Rightarrow> exec_error option \<times> bool \<times> int" where
  "pipelineRouteItem item acc =
     (case acc of (routeErr, safeToRetryAll, retryAfter) \<Rightarrow>
       let (refresh, safeToRetry) = topologyRouteErrorDisposition item;
           delay = (case item of None \<Rightarrow> 0 | Some e \<Rightarrow> rdRetryAfter (nativeServerRetryDisposition e));
           (routeErr, retryAfter) =
             (if refresh \<and> (routeErr = None \<or> delay > retryAfter) then (item, delay) else (routeErr, retryAfter)) in
       (routeErr, (if \<not> refresh \<or> \<not> safeToRetry then False else safeToRetryAll), retryAfter))"

definition topologyPipelineRouteDisposition :: "exec_error option list \<Rightarrow> exec_error option \<times> bool" where
  "topologyPipelineRouteDisposition results =
     (case fold pipelineRouteItem results (None, results \<noteq> [], 0) of (routeErr, safe, _) \<Rightarrow> (routeErr, safe))"

subsection \<open>The reroute loop\<close>

datatype replay_policy = nativeReplayDefault | nativeReplayNever

text \<open>
  One attempt: the adapter of the route, the reply, the refresh it may lead to, and the route found
  after that. The result comes with the routes the command was sent to, the latest first.
\<close>

record 'r attempt_obs =
  aoAdapter :: "exec_error option"
  aoReply :: "exec_error + goval"
  aoRefresh :: refresh_obs
  aoRoute :: "exec_error + 'r"

function rerouteLoop ::
  "(nat \<Rightarrow> 'r attempt_obs) \<Rightarrow> replay_policy \<Rightarrow> nat \<Rightarrow> 'r \<Rightarrow> 'r list \<Rightarrow> (exec_error + goval) \<times> 'r list"
where
  "rerouteLoop obs policy attempt route sent =
     (case aoAdapter (obs attempt) of
        Some e \<Rightarrow> (Inl e, sent)
      | None \<Rightarrow>
          (case aoReply (obs attempt) of
             Inr v \<Rightarrow> (Inr v, route # sent)
           | Inl err \<Rightarrow>
               if policy = nativeReplayNever then (Inl err, route # sent)
               else
                 (case refreshAndCanRetrySafeReroute (aoRefresh (obs attempt)) err attempt of
                    Inl e \<Rightarrow> (Inl e, route # sent)
                  | Inr retry \<Rightarrow>
                      if \<not> retry then (Inl err, route # sent)
                      else
                        (case aoRoute (obs attempt) of
                           Inl e \<Rightarrow> (Inl e, route # sent)
                         | Inr route' \<Rightarrow> rerouteLoop obs policy (attempt + 1) route' (route # sent)))))"
  by pat_completeness auto
termination
  by (relation "measure (\<lambda>(obs, policy, attempt, route, sent). 1 - attempt)") (auto dest: reroute_permitted)

declare rerouteLoop.simps [simp del]

definition doNativeCommandWithSafeReroute ::
  "(nat \<Rightarrow> 'r attempt_obs) \<Rightarrow> replay_policy \<Rightarrow> 'r \<Rightarrow> (exec_error + goval) \<times> 'r list"
where
  "doNativeCommandWithSafeReroute obs policy route = rerouteLoop obs policy 0 route []"

text \<open>The reroute loop sends a command at most twice, and again only with the server's leave.\<close>

lemma rerouteLoop_last:
  "0 < attempt \<Longrightarrow> rerouteLoop obs policy attempt route sent = (res, out) \<Longrightarrow> out = sent \<or> out = route # sent"
  unfolding rerouteLoop.simps [of obs policy attempt route sent]
  by (auto dest: reroute_permitted split: option.splits sum.splits if_splits)

lemma rerouteLoop_first:
  assumes "rerouteLoop obs policy 0 route [] = (res, out)"
  shows "out = [] \<or> out = [route] \<or>
    (\<exists>route' err. out = [route', route] \<and> policy \<noteq> nativeReplayNever \<and> aoReply (obs 0) = Inl err \<and>
      server_permits err \<and> rdReroute (nativeServerRetryDisposition err) \<and> aoRoute (obs 0) = Inr route')"
  using assms unfolding rerouteLoop.simps [of obs policy 0 route "[]"]
  by (fastforce dest: reroute_permitted rerouteLoop_last [rotated] split: option.splits sum.splits if_splits)

subsection \<open>The request loop of one connection\<close>

text \<open>
  One attempt: the context before it, what \<open>requestOnce\<close> returned (an error comes with its
  \<open>retryable\<close> flag), the context as each branch checks it, the wait for a busy server, and whether the
  executor has been closed.
\<close>

record request_obs =
  qoContext :: "exec_error option"
  qoResult :: "(exec_error \<times> bool) + goval"
  qoContextGoAway :: "exec_error option"
  qoContextBusy :: "exec_error option"
  qoWait :: "exec_error option"
  qoContextTransport :: "exec_error option"
  qoClosed :: bool

text \<open>
  The loop of \<open>requestWithoutSessionGateWithReplayPolicy\<close>. The result comes with the number of attempts
  made. A server that answers every attempt with GOAWAY keeps it going until the context ends.
\<close>

partial_function (option) requestLoop ::
  "(nat \<Rightarrow> request_obs) \<Rightarrow> replay_policy \<Rightarrow> nat \<Rightarrow> nat \<Rightarrow> nat \<Rightarrow> nat \<Rightarrow> ((exec_error + goval) \<times> nat) option"
where
  [code]: "requestLoop obs policy maxRetries n transportAttempts serverRetries =
     (case qoContext (obs n) of
        Some e \<Rightarrow> Some (Inl e, n)
      | None \<Rightarrow>
          (case qoResult (obs n) of
             Inr v \<Rightarrow> Some (Inr v, n + 1)
           | Inl (err, retryable) \<Rightarrow>
               if policy \<noteq> nativeReplayNever \<and> err = ErrGoAway \<and> qoContextGoAway (obs n) = None
               then requestLoop obs policy maxRetries (n + 1) transportAttempts serverRetries
               else if policy \<noteq> nativeReplayNever \<and> rdBusy (nativeServerRetryDisposition err) \<and>
                 rdRetryable (nativeServerRetryDisposition err) \<and> serverRetries < nativeMaxServerRetries \<and>
                 qoContextBusy (obs n) = None
               then
                 (case qoWait (obs n) of
                    Some e \<Rightarrow> Some (Inl e, n + 1)
                  | None \<Rightarrow> requestLoop obs policy maxRetries (n + 1) transportAttempts (serverRetries + 1))
               else if policy = nativeReplayNever \<or> \<not> retryable \<or> transportAttempts \<ge> maxRetries \<or>
                 qoContextTransport (obs n) \<noteq> None
               then Some (Inl err, n + 1)
               else if qoClosed (obs n) then Some (Inl err, n + 1)
               else requestLoop obs policy maxRetries (n + 1) (transportAttempts + 1) serverRetries))"

lemma requestLoop_returns:
  assumes "\<And>i r. N \<le> i \<Longrightarrow> qoContext (obs i) = None \<Longrightarrow> qoResult (obs i) \<noteq> Inl (ErrGoAway, r)"
  shows "\<exists>res m. requestLoop obs policy maxRetries n t s = Some (res, m) \<and>
    m \<le> max N n + (maxRetries - t) + (1 - s) + 1"
proof (induction "(N - n) + (maxRetries - t) + (1 - s)" arbitrary: n t s rule: less_induct)
  case less
  have goaway: "n < N" if "qoContext (obs n) = None" "qoResult (obs n) = Inl (ErrGoAway, r)" for r
    using assms that by (meson not_le)
  have bound: "m \<le> max N n + (maxRetries - t) + (1 - s) + 1" if "m \<le> n + 1" for m using that by simp
  consider (ctx) e where "qoContext (obs n) = Some e"
    | (ok) v where "qoContext (obs n) = None" "qoResult (obs n) = Inr v"
    | (err) e r where "qoContext (obs n) = None" "qoResult (obs n) = Inl (e, r)"
    by (metis option.exhaust surj_pair sum.exhaust)
  then show ?case
  proof cases
    case ctx
    then show ?thesis by (simp add: requestLoop.simps)
  next
    case ok
    then show ?thesis by (simp add: requestLoop.simps)
  next
    case err
    let ?d = "nativeServerRetryDisposition e"
    let ?go = "policy \<noteq> nativeReplayNever \<and> e = ErrGoAway \<and> qoContextGoAway (obs n) = None"
    let ?busy = "policy \<noteq> nativeReplayNever \<and> rdBusy ?d \<and> rdRetryable ?d \<and> s < nativeMaxServerRetries \<and>
      qoContextBusy (obs n) = None"
    let ?stop = "policy = nativeReplayNever \<or> \<not> r \<or> t \<ge> maxRetries \<or> qoContextTransport (obs n) \<noteq> None"
    note step = requestLoop.simps [of obs policy maxRetries n t s]
    show ?thesis
    proof (cases ?go)
      case True
      then have "n < N" using goaway err by blast
      then have "\<exists>res m. requestLoop obs policy maxRetries (n + 1) t s = Some (res, m) \<and>
          m \<le> max N (n + 1) + (maxRetries - t) + (1 - s) + 1"
        by (intro less) simp
      moreover have "max N (n + 1) = max N n" using \<open>n < N\<close> by simp
      ultimately show ?thesis using True err by (simp add: step)
    next
      case not_go: False
      show ?thesis
      proof (cases ?busy)
        case True
        then have s: "s < 1" by (simp add: nativeMaxServerRetries_def)
        then have "\<exists>res m. requestLoop obs policy maxRetries (n + 1) t (s + 1) = Some (res, m) \<and>
            m \<le> max N (n + 1) + (maxRetries - t) + (1 - (s + 1)) + 1"
          by (intro less) simp
        moreover have "max N (n + 1) + (maxRetries - t) + (1 - (s + 1)) + 1 \<le> max N n + (maxRetries - t) + (1 - s) + 1"
          using s by simp
        ultimately have "\<exists>res m. requestLoop obs policy maxRetries (n + 1) t (s + 1) = Some (res, m) \<and>
            m \<le> max N n + (maxRetries - t) + (1 - s) + 1" by (meson le_trans)
        then show ?thesis using True not_go err
          by (cases "qoWait (obs n)") (auto simp: step)
      next
        case not_busy: False
        show ?thesis
        proof (cases "?stop \<or> qoClosed (obs n)")
          case True
          then have "requestLoop obs policy maxRetries n t s = Some (Inl e, n + 1)"
            unfolding step err sum.case prod.case option.case if_not_P [OF not_go] if_not_P [OF not_busy]
            by (cases ?stop) simp_all
          then show ?thesis by simp
        next
          case False
          then have "\<exists>res m. requestLoop obs policy maxRetries (n + 1) (t + 1) s = Some (res, m) \<and>
              m \<le> max N (n + 1) + (maxRetries - (t + 1)) + (1 - s) + 1"
            by (intro less) (simp, linarith)
          moreover have "max N (n + 1) + (maxRetries - (t + 1)) + (1 - s) + 1 \<le> max N n + (maxRetries - t) + (1 - s) + 1"
            using False by simp
          ultimately have "\<exists>res m. requestLoop obs policy maxRetries (n + 1) (t + 1) s = Some (res, m) \<and>
              m \<le> max N n + (maxRetries - t) + (1 - s) + 1" by (meson le_trans)
          moreover have "requestLoop obs policy maxRetries n t s = requestLoop obs policy maxRetries (n + 1) (t + 1) s"
            unfolding step err sum.case prod.case option.case if_not_P [OF not_go] if_not_P [OF not_busy]
            using False by simp
          ultimately show ?thesis by simp
        qed
      qed
    qed
  qed
qed

lemma requestLoop_never:
  "\<exists>res m. requestLoop obs nativeReplayNever maxRetries n t s = Some (res, m) \<and> m \<le> n + 1"
  by (simp add: requestLoop.simps split: option.split sum.split prod.split)

subsection \<open>Properties\<close>

text \<open>
  C23. A command is never replayed on the client's own judgement: the reroute loop writes it at most twice,
  at most once when its policy forbids replay, and the second time only because the server rerouted it
  with both \<open>retryable\<close> and \<open>safe_to_retry\<close> set, to the route looked up afterwards.
\<close>

theorem replay_only_with_leave:
  assumes "doNativeCommandWithSafeReroute obs policy route = (res, sent)"
  shows "length sent \<le> 2 \<and> (sent \<noteq> [] \<longrightarrow> last sent = route) \<and> (policy = nativeReplayNever \<longrightarrow> length sent \<le> 1) \<and>
    (length sent = 2 \<longrightarrow> (\<exists>err. aoReply (obs 0) = Inl err \<and> server_permits err \<and>
       rdReroute (nativeServerRetryDisposition err) \<and> aoRoute (obs 0) = Inr (hd sent)))"
  using rerouteLoop_first [of obs policy route res sent] assms
  by (auto simp: doNativeCommandWithSafeReroute_def)

definition reroutedError :: exec_error where
  "reroutedError = ErrNative 5 ''reroute'' (VMap None [(''retryable'', VBool True), (''safe_to_retry'', VBool True)])"

definition calmRefresh :: refresh_obs where
  "calmRefresh = \<lparr>roContext = None, roWait = None, roContextAfter = None, roRefresh = None, roContextFailed = None\<rparr>"

definition reroutedOnce :: "nat \<Rightarrow> nat attempt_obs" where
  "reroutedOnce n = \<lparr>aoAdapter = None, aoReply = (if n = 0 then Inl reroutedError else Inr (VInt 1)),
     aoRefresh = calmRefresh, aoRoute = Inr 7\<rparr>"

theorem replay_only_with_leave_witness:
  "doNativeCommandWithSafeReroute reroutedOnce nativeReplayDefault 3 = (Inr (VInt 1), [7, 3]) \<and> server_permits reroutedError"
proof -
  have d: "nativeServerRetryDisposition reroutedError =
      \<lparr>rdBusy = False, rdReroute = True, rdRetryable = True, rdRetryAfter = 0\<rparr>"
  proof -
    have "\<not> equalFoldAscii ''reroute'' ''busy''" by code_simp
    then show ?thesis
      by (simp add: reroutedError_def nativeErrorHasKind_def nativeStatusBusy_def nativeStatusReroute_def lookupOr_def
          nativeRetryAfter_def Let_def)
  qed
  have "refreshAndCanRetrySafeReroute calmRefresh reroutedError 0 = Inr True"
    using d by (simp add: refreshAndCanRetrySafeReroute_def topologyRouteErrorDisposition_def calmRefresh_def)
      (simp add: reroutedError_def)
  then have run: "doNativeCommandWithSafeReroute reroutedOnce nativeReplayDefault 3 = (Inr (VInt 1), [7, 3])"
    by (simp add: doNativeCommandWithSafeReroute_def rerouteLoop.simps reroutedOnce_def)
  from replay_only_with_leave [OF run] run show ?thesis by (auto simp: reroutedOnce_def)
qed

text \<open>
  C24. The request loop of a connection ends: if from some attempt on the server no longer answers with
  GOAWAY (or the context has ended), the loop returns, after at most the configured transport retries,
  one busy retry and the GOAWAY refusals; and it makes a single attempt when replay is forbidden.
\<close>

theorem request_retries_bounded:
  assumes "\<forall>i \<ge> N. \<forall>r. qoContext (obs i) = None \<longrightarrow> qoResult (obs i) \<noteq> Inl (ErrGoAway, r)"
  shows "\<exists>res attempts. requestLoop obs policy maxRetries 0 0 0 = Some (res, attempts) \<and>
    attempts \<le> N + maxRetries + 2 \<and> (policy = nativeReplayNever \<longrightarrow> attempts \<le> 1)"
proof -
  from assms obtain res m where "requestLoop obs policy maxRetries 0 0 0 = Some (res, m)" "m \<le> N + maxRetries + 2"
    using requestLoop_returns [of N obs policy maxRetries 0 0 0] by auto
  moreover have "m \<le> 1" if "policy = nativeReplayNever"
    using requestLoop_never [of obs maxRetries 0 0 0] calculation that by auto
  ultimately show ?thesis by blast
qed

definition goAwayOnce :: "nat \<Rightarrow> request_obs" where
  "goAwayOnce n = \<lparr>qoContext = None, qoResult = (if n = 0 then Inl (ErrGoAway, False) else Inr VNil),
     qoContextGoAway = None, qoContextBusy = None, qoWait = None, qoContextTransport = None, qoClosed = False\<rparr>"

theorem request_retries_bounded_witness:
  "requestLoop goAwayOnce nativeReplayDefault 2 0 0 0 = Some (Inr VNil, 2)"
proof -
  have "\<forall>i \<ge> 1. \<forall>r. qoContext (goAwayOnce i) = None \<longrightarrow> qoResult (goAwayOnce i) \<noteq> Inl (ErrGoAway, r)"
    by (simp add: goAwayOnce_def)
  from request_retries_bounded [OF this, of nativeReplayDefault 2]
  obtain res attempts where "requestLoop goAwayOnce nativeReplayDefault 2 0 0 0 = Some (res, attempts)" by blast
  moreover have "requestLoop goAwayOnce nativeReplayDefault 2 0 0 0 = Some (Inr VNil, 2)"
    by (simp add: requestLoop.simps goAwayOnce_def)
  ultimately show ?thesis by simp
qed

end
