(* ===== verification/Executor.thy ===== *)
theory Executor
  imports TopologyCorrect Retry Interfaces
begin

section \<open>The topology executor\<close>

text \<open>
  The state of \<open>TopologyNativeExecutor\<close> (\<open>src/topology.go\<close>) that its mutex guards, with the operations on
  it in \<open>src/topology_adapter.go\<close>, \<open>src/topology_snapshot.go\<close> and \<open>Close\<close>: which endpoints may be used,
  installing a topology, and the registry of connections (adapters), which are identified by numbers.
  A pointer to a topology is a number with the value it points to; a new topology has a new number.
\<close>

record topology_executor =
  txClosed :: bool
  txTopology :: "nat \<times> routing_topology"
  txVersion :: nat
  txAdapters :: "(string \<times> nat) list"
  txRetiring :: "nat list"
  txEndpointPolicy :: string
  txSeedEndpointKeys :: "string list"
  txSeedURLByKey :: "(string \<times> string) list"
  txTrustedHosts :: "string list"
  txValidator :: "(routing_endpoint \<Rightarrow> bool) option"
  txTLS :: bool
  txPerShardWrites :: bool

subsection \<open>Endpoints that may be used\<close>

definition validateEndpoint :: "(string \<Rightarrow> string) \<Rightarrow> topology_executor \<Rightarrow> routing_endpoint \<Rightarrow> bool" where
  "validateEndpoint lower e endpoint =
     (let host = lower (epHost endpoint);
          seed = (connectionKeyForEndpoint lower endpoint (txTLS e) \<in> set (txSeedEndpointKeys e)) in
      if host = [] \<or> epNativePort endpoint \<le> 0 then False
      else
        let allowed =
          (if txEndpointPolicy e = '''' \<or> txEndpointPolicy e = ''seed_hosts'' then seed \<or> host \<in> set (txTrustedHosts e)
           else if txEndpointPolicy e = ''none'' then seed
           else txEndpointPolicy e = ''any'') in
        allowed \<and> (case txValidator e of None \<Rightarrow> True | Some f \<Rightarrow> f endpoint))"

subsection \<open>Snapshots\<close>

type_synonym snapshot = "(nat \<times> routing_topology) \<times> nat"

definition captureRoutingTopology :: "topology_executor \<Rightarrow> exec_error + snapshot" where
  "captureRoutingTopology e = (if txClosed e then Inl ErrTopologyClosed else Inr (txTopology e, txVersion e))"

definition routingSnapshotCurrent :: "topology_executor \<Rightarrow> snapshot \<Rightarrow> bool" where
  "routingSnapshotCurrent e s \<longleftrightarrow> \<not> txClosed e \<and> fst (txTopology e) = fst (fst s) \<and> txVersion e = snd s"

text \<open>A snapshot without a topology (\<open>None\<close>) is never stale.\<close>

definition routingSnapshotError :: "topology_executor \<Rightarrow> snapshot option \<Rightarrow> exec_error option" where
  "routingSnapshotError e s =
     (if txClosed e then Some ErrTopologyClosed
      else case s of
        None \<Rightarrow> None
      | Some s \<Rightarrow> if fst (txTopology e) \<noteq> fst (fst s) \<or> txVersion e \<noteq> snd s then Some ErrStaleRoute else None)"

text \<open>The key of a route is a slot or a key; the endpoint of the route must be allowed.\<close>

fun routeOfKey :: "routing_topology \<Rightarrow> arg \<Rightarrow> topology_error + routing_route" where
  "routeOfKey t (RouteSlot slot) = routeSlot t slot"
| "routeOfKey t key = RouteKey (Some t) key"

definition routeInSnapshot :: "(string \<Rightarrow> string) \<Rightarrow> topology_executor \<Rightarrow> snapshot \<Rightarrow> arg \<Rightarrow> exec_error + routing_route" where
  "routeInSnapshot lower e s key =
     ebind (map_err ErrTopology (routeOfKey (snd (fst s)) key)) (\<lambda>route.
     if validateEndpoint lower e (rtEndpoint route) then Inr route else Inl (ErrUnsafeEndpoint (rtEndpoint route)))"

subsection \<open>Connections\<close>

text \<open>
  \<open>adapterForEndpointAtSnapshot\<close> and \<open>adapterForURL\<close> take the lock several times and others run in between:
  each section under the lock is a definition. A new adapter is made outside the lock, and registered when
  the lock is taken again; then a concurrent call may have been faster, and its adapter is used.

  \<open>parse\<close> is \<open>parseFerricURL\<close>, which rests on \<open>net/url\<close>: the endpoint of a URL, and whether it asks for TLS.
\<close>

text \<open>The first section: the endpoint must be allowed; the seed URL of its key, if it has one.\<close>

definition seedURLAtSnapshot ::
  "(string \<Rightarrow> string) \<Rightarrow> snapshot option \<Rightarrow> routing_endpoint \<Rightarrow> topology_executor \<Rightarrow> exec_error + string option"
where
  "seedURLAtSnapshot lower s endpoint e =
     (if \<not> validateEndpoint lower e endpoint then Inl (ErrUnsafeEndpoint endpoint)
      else case routingSnapshotError e s of
        Some err \<Rightarrow> Inl err
      | None \<Rightarrow>
          (case map_of (txSeedURLByKey e) (connectionKeyForEndpoint lower endpoint (txTLS e)) of
             None \<Rightarrow> Inr None
           | Some url \<Rightarrow> Inr (if url = [] then None else Some url)))"

definition lookupAdapter ::
  "(string \<Rightarrow> string) \<Rightarrow> snapshot option \<Rightarrow> routing_endpoint \<Rightarrow> topology_executor \<Rightarrow> exec_error + nat option"
where
  "lookupAdapter lower s endpoint e =
     (case routingSnapshotError e s of
        Some err \<Rightarrow> Inl err
      | None \<Rightarrow> Inr (map_of (txAdapters e) (connectionKeyForEndpoint lower endpoint (txTLS e))))"

text \<open>Registering an adapter under a key; the result is the adapter to use.\<close>

definition registerAdapter :: "string \<Rightarrow> nat \<Rightarrow> topology_executor \<Rightarrow> topology_executor \<times> (exec_error + nat)" where
  "registerAdapter key adapter e =
     (case map_of (txAdapters e) key of
        Some existing \<Rightarrow> (e, Inr existing)
      | None \<Rightarrow> (e\<lparr>txAdapters := AList.update key adapter (txAdapters e)\<rparr>, Inr adapter))"

definition storeAdapter ::
  "(string \<Rightarrow> string) \<Rightarrow> snapshot option \<Rightarrow> routing_endpoint \<Rightarrow> nat \<Rightarrow> topology_executor \<Rightarrow>
   topology_executor \<times> (exec_error + nat)"
where
  "storeAdapter lower s endpoint adapter e =
     (case routingSnapshotError e s of
        Some err \<Rightarrow> (e, Inl err)
      | None \<Rightarrow> registerAdapter (connectionKeyForEndpoint lower endpoint (txTLS e)) adapter e)"

text \<open>\<open>adapterForURL\<close>: the key of the URL and the adapter registered under it.\<close>

definition lookupURL ::
  "(string \<Rightarrow> string) \<Rightarrow> (string \<Rightarrow> (routing_endpoint \<times> bool) option) \<Rightarrow> string \<Rightarrow> topology_executor \<Rightarrow>
   exec_error + (string \<times> nat option)"
where
  "lookupURL lower parse url e =
     (case parse url of
        None \<Rightarrow> Inl (ErrOther ''invalid URL'')
      | Some (endpoint, tls) \<Rightarrow>
          let key = connectionKeyForEndpoint lower endpoint tls in
          if key \<notin> set (txSeedEndpointKeys e) \<and> \<not> validateEndpoint lower e endpoint
          then Inl (ErrUnsafeEndpoint endpoint)
          else if txClosed e then Inl ErrTopologyClosed
          else Inr (key, map_of (txAdapters e) key))"

definition storeURL :: "string \<Rightarrow> bool \<Rightarrow> nat \<Rightarrow> topology_executor \<Rightarrow> topology_executor \<times> (exec_error + nat)" where
  "storeURL key tls adapter e =
     (if tls \<noteq> txTLS e then (e, Inl (ErrOther ''transport conflict''))
      else if txClosed e then (e, Inl ErrTopologyClosed)
      else registerAdapter key adapter e)"

text \<open>
  A call in progress: what it does when it next has the lock. \<open>recheck\<close> is the snapshot that
  \<open>adapterForEndpointAtSnapshot\<close> checks again after \<open>adapterForURL\<close>; a caller of \<open>adapterForURL\<close> has none.
\<close>

datatype adapter_call =
    AtEndpoint "snapshot option" routing_endpoint
  | MakeEndpoint "snapshot option" routing_endpoint
  | AtURL "snapshot option option" string
  | MakeURL "snapshot option option" string string
  | Recheck "snapshot option" nat
  | Returned "exec_error + nat"

definition startEndpoint ::
  "(string \<Rightarrow> string) \<Rightarrow> snapshot option \<Rightarrow> routing_endpoint \<Rightarrow> topology_executor \<Rightarrow> adapter_call"
where
  "startEndpoint lower s endpoint e =
     (case seedURLAtSnapshot lower s endpoint e of
        Inl err \<Rightarrow> Returned (Inl err)
      | Inr None \<Rightarrow> AtEndpoint s endpoint
      | Inr (Some url) \<Rightarrow> AtURL (Some s) url)"

fun urlReturned :: "snapshot option option \<Rightarrow> exec_error + nat \<Rightarrow> adapter_call" where
  "urlReturned (Some s) (Inr adapter) = Recheck s adapter"
| "urlReturned recheck r = Returned r"

text \<open>
  \<open>made\<close> is what making an adapter gives: an error, or the \<open>opts.TLS\<close> of the adapter, whose number is \<open>fresh\<close>.
\<close>

fun continueCall ::
  "(string \<Rightarrow> string) \<Rightarrow> (string \<Rightarrow> (routing_endpoint \<times> bool) option) \<Rightarrow> exec_error + bool \<Rightarrow> nat \<Rightarrow> adapter_call \<Rightarrow>
   topology_executor \<Rightarrow> topology_executor \<times> adapter_call"
where
  "continueCall lower parse made fresh (AtEndpoint s endpoint) e =
     (e, case lookupAdapter lower s endpoint e of
           Inl err \<Rightarrow> Returned (Inl err)
         | Inr (Some adapter) \<Rightarrow> Returned (Inr adapter)
         | Inr None \<Rightarrow> MakeEndpoint s endpoint)"
| "continueCall lower parse made fresh (MakeEndpoint s endpoint) e =
     (case made of
        Inl err \<Rightarrow> (e, Returned (Inl err))
      | Inr _ \<Rightarrow> (case storeAdapter lower s endpoint fresh e of (e, r) \<Rightarrow> (e, Returned r)))"
| "continueCall lower parse made fresh (AtURL recheck url) e =
     (e, case lookupURL lower parse url e of
           Inl err \<Rightarrow> Returned (Inl err)
         | Inr (key, Some adapter) \<Rightarrow> urlReturned recheck (Inr adapter)
         | Inr (key, None) \<Rightarrow> MakeURL recheck url key)"
| "continueCall lower parse made fresh (MakeURL recheck url key) e =
     (case made of
        Inl err \<Rightarrow> (e, Returned (Inl err))
      | Inr tls \<Rightarrow> (case storeURL key tls fresh e of (e, r) \<Rightarrow> (e, urlReturned recheck r)))"
| "continueCall lower parse made fresh (Recheck s adapter) e =
     (e, Returned (case routingSnapshotError e s of Some err \<Rightarrow> Inl err | None \<Rightarrow> Inr adapter))"
| "continueCall lower parse made fresh (Returned r) e = (e, Returned r)"

subsection \<open>Installing a topology\<close>

text \<open>The adapters of endpoints that are gone are retired: returned, and kept until they are closed.\<close>

definition installTopology ::
  "(string \<Rightarrow> string) \<Rightarrow> nat \<Rightarrow> routing_topology \<Rightarrow> topology_executor \<Rightarrow> topology_executor \<times> (exec_error + nat list)"
where
  "installTopology lower pointer topology e =
     (case List.find (\<lambda>endpoint. \<not> validateEndpoint lower e endpoint) (map snd (tpEndpoints topology)) of
        Some endpoint \<Rightarrow> (e, Inl (ErrUnsafeEndpoint endpoint))
      | None \<Rightarrow>
          if txClosed e then (e, Inl ErrTopologyClosed)
          else
            let active = txSeedEndpointKeys e @
                  map (\<lambda>endpoint. connectionKeyForEndpoint lower endpoint (txTLS e)) (map snd (tpEndpoints topology));
                retired = map snd (filter (\<lambda>(key, _). key \<notin> set active) (txAdapters e));
                e = e\<lparr>txAdapters := filter (\<lambda>(key, _). key \<in> set active) (txAdapters e),
                      txRetiring := txRetiring e @ retired\<rparr>;
                e = (if routingTopologiesEqual (snd (txTopology e)) topology then e
                     else e\<lparr>txTopology := (pointer, topology), txVersion := txVersion e + 1\<rparr>) in
            (e, Inr retired))"

definition forgetRetiredWhenClosed :: "nat \<Rightarrow> topology_executor \<Rightarrow> topology_executor" where
  "forgetRetiredWhenClosed adapter e = e\<lparr>txRetiring := filter (\<lambda>a. a \<noteq> adapter) (txRetiring e)\<rparr>"

text \<open>\<open>Close\<close> returns the adapters it goes on to close.\<close>

definition closeExecutor :: "topology_executor \<Rightarrow> topology_executor \<times> nat list" where
  "closeExecutor e =
     (if txClosed e then (e, [])
      else (e\<lparr>txClosed := True, txAdapters := [], txRetiring := []\<rparr>, map snd (txAdapters e) @ txRetiring e))"

subsection \<open>Runs\<close>

text \<open>
  The steps other goroutines see, in any order. Pointers and adapters get numbers from one counter. The
  ghost lists record the adapters ever registered, with what each was made from, and those whose closing
  has been taken care of: a retired adapter that has closed itself, or one that \<open>Close\<close> goes on to close.
\<close>

datatype executor_event =
    EvInstall routing_topology
  | EvEndpoint "snapshot option" routing_endpoint
  | EvURL string
  | EvContinue nat "exec_error + bool"
  | EvForget nat
  | EvClose

datatype adapter_source = FromEndpoint routing_endpoint | FromURL string

fun sourceOf :: "adapter_call \<Rightarrow> adapter_source option" where
  "sourceOf (MakeEndpoint s endpoint) = Some (FromEndpoint endpoint)"
| "sourceOf (MakeURL recheck url key) = Some (FromURL url)"
| "sourceOf _ = None"

record executor_run =
  xrExec :: topology_executor
  xrNext :: nat
  xrCalls :: "adapter_call list"
  xrRegistered :: "(nat \<times> adapter_source) list"
  xrClosing :: "nat list"

definition newlyRegistered :: "topology_executor \<Rightarrow> topology_executor \<Rightarrow> nat \<Rightarrow> adapter_call \<Rightarrow> (nat \<times> adapter_source) list" where
  "newlyRegistered e e' adapter call =
     (if txAdapters e' = txAdapters e then []
      else case sourceOf call of None \<Rightarrow> [] | Some source \<Rightarrow> [(adapter, source)])"

fun executor_step ::
  "(string \<Rightarrow> string) \<Rightarrow> (string \<Rightarrow> (routing_endpoint \<times> bool) option) \<Rightarrow> executor_event \<Rightarrow> executor_run \<Rightarrow> executor_run"
where
  "executor_step lower parse (EvInstall topology) s =
     s\<lparr>xrExec := fst (installTopology lower (xrNext s) topology (xrExec s)), xrNext := xrNext s + 1\<rparr>"
| "executor_step lower parse (EvEndpoint snap endpoint) s =
     s\<lparr>xrCalls := xrCalls s @ [startEndpoint lower snap endpoint (xrExec s)]\<rparr>"
| "executor_step lower parse (EvURL url) s = s\<lparr>xrCalls := xrCalls s @ [AtURL None url]\<rparr>"
| "executor_step lower parse (EvContinue n made) s =
     (if n < length (xrCalls s)
      then (case continueCall lower parse made (xrNext s) (xrCalls s ! n) (xrExec s) of
              (e, call) \<Rightarrow>
                s\<lparr>xrExec := e, xrNext := xrNext s + 1, xrCalls := (xrCalls s)[n := call],
                  xrRegistered := newlyRegistered (xrExec s) e (xrNext s) (xrCalls s ! n) @ xrRegistered s\<rparr>)
      else s)"
| "executor_step lower parse (EvForget adapter) s =
     (if adapter \<in> set (txRetiring (xrExec s))
      then s\<lparr>xrExec := forgetRetiredWhenClosed adapter (xrExec s), xrClosing := adapter # xrClosing s\<rparr> else s)"
| "executor_step lower parse EvClose s =
     (case closeExecutor (xrExec s) of (e, handed) \<Rightarrow> s\<lparr>xrExec := e, xrClosing := handed @ xrClosing s\<rparr>)"

subsection \<open>The invariant\<close>

text \<open>
  What an adapter under a key may have been made from: an allowed endpoint with that key, which is not the
  key of a seed URL; or a URL with that key, which is a seed's or whose endpoint is allowed.
\<close>

definition urlKey ::
  "(string \<Rightarrow> string) \<Rightarrow> (string \<Rightarrow> (routing_endpoint \<times> bool) option) \<Rightarrow> topology_executor \<Rightarrow> string \<Rightarrow> string \<Rightarrow> bool"
where
  "urlKey lower parse e url key \<longleftrightarrow>
     (case parse url of
        None \<Rightarrow> False
      | Some (endpoint, tls) \<Rightarrow>
          key = connectionKeyForEndpoint lower endpoint tls \<and>
          (key \<in> set (txSeedEndpointKeys e) \<or> validateEndpoint lower e endpoint))"

definition endpointKeyAllowed :: "(string \<Rightarrow> string) \<Rightarrow> topology_executor \<Rightarrow> routing_endpoint \<Rightarrow> string \<Rightarrow> bool" where
  "endpointKeyAllowed lower e endpoint key \<longleftrightarrow>
     validateEndpoint lower e endpoint \<and> key = connectionKeyForEndpoint lower endpoint (txTLS e) \<and>
     (case map_of (txSeedURLByKey e) key of None \<Rightarrow> True | Some url \<Rightarrow> url = [])"

fun sourceAllowed ::
  "(string \<Rightarrow> string) \<Rightarrow> (string \<Rightarrow> (routing_endpoint \<times> bool) option) \<Rightarrow> topology_executor \<Rightarrow> string \<Rightarrow> adapter_source \<Rightarrow> bool"
where
  "sourceAllowed lower parse e key (FromEndpoint endpoint) = endpointKeyAllowed lower e endpoint key"
| "sourceAllowed lower parse e key (FromURL url) = urlKey lower parse e url key"

fun call_ok ::
  "(string \<Rightarrow> string) \<Rightarrow> (string \<Rightarrow> (routing_endpoint \<times> bool) option) \<Rightarrow> topology_executor \<Rightarrow> nat set \<Rightarrow> adapter_call \<Rightarrow> bool"
where
  "call_ok lower parse e known (AtEndpoint s endpoint) =
     endpointKeyAllowed lower e endpoint (connectionKeyForEndpoint lower endpoint (txTLS e))"
| "call_ok lower parse e known (MakeEndpoint s endpoint) =
     endpointKeyAllowed lower e endpoint (connectionKeyForEndpoint lower endpoint (txTLS e))"
| "call_ok lower parse e known (AtURL recheck url) = True"
| "call_ok lower parse e known (MakeURL recheck url key) = urlKey lower parse e url key"
| "call_ok lower parse e known (Recheck s adapter) = (adapter \<in> known)"
| "call_ok lower parse e known (Returned (Inr adapter)) = (adapter \<in> known)"
| "call_ok lower parse e known (Returned (Inl err)) = True"

definition registered :: "executor_run \<Rightarrow> nat set" where "registered s = fst ` set (xrRegistered s)"

definition executor_inv ::
  "(string \<Rightarrow> string) \<Rightarrow> (string \<Rightarrow> (routing_endpoint \<times> bool) option) \<Rightarrow> executor_run \<Rightarrow> bool"
where
  "executor_inv lower parse s \<longleftrightarrow>
     (let e = xrExec s; live = map snd (txAdapters e) @ txRetiring e in
      fst (txTopology e) < xrNext s \<and>
      (\<forall>endpoint \<in> snd ` set (tpEndpoints (snd (txTopology e))). validateEndpoint lower e endpoint) \<and>
      distinct (map fst (txAdapters e)) \<and> distinct (live @ xrClosing s) \<and>
      registered s = set live \<union> set (xrClosing s) \<and> (\<forall>a \<in> registered s. a < xrNext s) \<and>
      (txClosed e \<longrightarrow> live = []) \<and>
      (\<forall>(key, adapter) \<in> set (txAdapters e).
         \<exists>source. (adapter, source) \<in> set (xrRegistered s) \<and> sourceAllowed lower parse e key source) \<and>
      (\<forall>call \<in> set (xrCalls s). call_ok lower parse e (registered s) call))"

definition sameConfig :: "topology_executor \<Rightarrow> topology_executor \<Rightarrow> bool" where
  "sameConfig e e' \<longleftrightarrow>
     txEndpointPolicy e' = txEndpointPolicy e \<and> txSeedEndpointKeys e' = txSeedEndpointKeys e \<and>
     txSeedURLByKey e' = txSeedURLByKey e \<and> txTrustedHosts e' = txTrustedHosts e \<and>
     txValidator e' = txValidator e \<and> txTLS e' = txTLS e"

lemma config:
  assumes "sameConfig e e'"
  shows "validateEndpoint lower e' = validateEndpoint lower e" and "urlKey lower parse e' = urlKey lower parse e"
    and "endpointKeyAllowed lower e' = endpointKeyAllowed lower e"
    and "sourceAllowed lower parse e' = sourceAllowed lower parse e"
    and "call_ok lower parse e' = call_ok lower parse e"
proof -
  show v: "validateEndpoint lower e' = validateEndpoint lower e"
    by (rule ext) (use assms in \<open>simp add: validateEndpoint_def sameConfig_def cong: if_cong\<close>)
  show u: "urlKey lower parse e' = urlKey lower parse e"
    by (intro ext) (use assms in \<open>simp add: urlKey_def v sameConfig_def split: option.split prod.split\<close>)
  show a: "endpointKeyAllowed lower e' = endpointKeyAllowed lower e"
    by (intro ext) (use assms in \<open>simp add: endpointKeyAllowed_def v sameConfig_def\<close>)
  show "sourceAllowed lower parse e' = sourceAllowed lower parse e"
  proof (intro ext)
    show "sourceAllowed lower parse e' key source = sourceAllowed lower parse e key source" for key source
      by (cases source) (simp_all add: u a)
  qed
  show "call_ok lower parse e' = call_ok lower parse e"
  proof (intro ext)
    show "call_ok lower parse e' known call = call_ok lower parse e known call" for known call
      using assms by (cases "(lower, parse, e, known, call)" rule: call_ok.cases) (simp_all add: u a sameConfig_def)
  qed
qed

lemma sameConfig_updates [simp]:
  "sameConfig e e" "sameConfig e (e\<lparr>txAdapters := a\<rparr>)" "sameConfig e (e\<lparr>txAdapters := a, txRetiring := r\<rparr>)"
  "sameConfig e (e\<lparr>txRetiring := r\<rparr>)" "sameConfig e (e\<lparr>txClosed := c, txAdapters := a, txRetiring := r\<rparr>)"
  by (simp_all add: sameConfig_def)

lemma sameConfig_trans: "sameConfig e f \<Longrightarrow> sameConfig f g \<Longrightarrow> sameConfig e g"
  by (simp add: sameConfig_def)

lemma install_config: "sameConfig e (fst (installTopology lower pointer t e))"
  by (simp add: installTopology_def sameConfig_def Let_def split: option.split)

lemma call_ok_mono: "call_ok lower parse e known call \<Longrightarrow> known \<subseteq> known' \<Longrightarrow> call_ok lower parse e known' call"
  by (cases "(lower, parse, e, known, call)" rule: call_ok.cases) auto

text \<open>Splitting the adapters by their keys loses none and repeats none.\<close>

lemma retire_split:
  fixes xs :: "('a \<times> 'b) list"
  shows "set (map snd xs) = set (map snd (filter (\<lambda>(k, _). P k) xs)) \<union> set (map snd (filter (\<lambda>(k, _). \<not> P k) xs))"
    and "distinct (map snd xs) \<Longrightarrow>
      distinct (map snd (filter (\<lambda>(k, _). P k) xs) @ map snd (filter (\<lambda>(k, _). \<not> P k) xs))"
proof -
  show "set (map snd xs) = set (map snd (filter (\<lambda>(k, _). P k) xs)) \<union> set (map snd (filter (\<lambda>(k, _). \<not> P k) xs))"
    by force
  show "distinct (map snd (filter (\<lambda>(k, _). P k) xs) @ map snd (filter (\<lambda>(k, _). \<not> P k) xs))"
    if "distinct (map snd xs)"
    using that by (induction xs) (auto simp: image_iff)
qed

lemma find_None_all: "List.find P xs = None \<longleftrightarrow> (\<forall>x \<in> set xs. \<not> P x)"
  by (induction xs) auto

text \<open>Installing keeps every adapter: under its key, or retiring.\<close>

lemma install_split:
  assumes "fst (installTopology lower pointer t e) = e'"
  shows "e' = e \<or>
    (\<not> txClosed e \<and> \<not> txClosed e' \<and> set (txAdapters e') \<subseteq> set (txAdapters e) \<and>
     (distinct (map fst (txAdapters e)) \<longrightarrow> distinct (map fst (txAdapters e'))) \<and>
     (\<exists>gone. txRetiring e' = txRetiring e @ gone \<and> set (map snd (txAdapters e)) = set (map snd (txAdapters e')) \<union> set gone \<and>
        (distinct (map snd (txAdapters e)) \<longrightarrow> distinct (map snd (txAdapters e') @ gone))) \<and>
     (txTopology e' = txTopology e \<or>
        (txTopology e' = (pointer, t) \<and> (\<forall>endpoint \<in> snd ` set (tpEndpoints t). validateEndpoint lower e endpoint))))"
proof (cases "(\<exists>endpoint \<in> snd ` set (tpEndpoints t). \<not> validateEndpoint lower e endpoint) \<or> txClosed e")
  case True
  with assms have "e' = e" by (auto simp: installTopology_def find_None_all split: option.splits)
  then show ?thesis ..
next
  case False
  then have ok: "\<forall>endpoint \<in> snd ` set (tpEndpoints t). validateEndpoint lower e endpoint" and open': "\<not> txClosed e" by auto
  then have found: "List.find (\<lambda>endpoint. \<not> validateEndpoint lower e endpoint) (map snd (tpEndpoints t)) = None"
    by (simp add: find_None_all)
  define active where "active = set (txSeedEndpointKeys e @
    map (\<lambda>endpoint. connectionKeyForEndpoint lower endpoint (txTLS e)) (map snd (tpEndpoints t)))"
  define kept where "kept = filter (\<lambda>(key, _). key \<in> active) (txAdapters e)"
  define gone where "gone = map snd (filter (\<lambda>(key, _). key \<notin> active) (txAdapters e))"
  have e': "txAdapters e' = kept" "txRetiring e' = txRetiring e @ gone" "\<not> txClosed e'"
    "txTopology e' = (if routingTopologiesEqual (snd (txTopology e)) t then txTopology e else (pointer, t))"
    unfolding assms [symmetric] installTopology_def found option.case Let_def active_def [symmetric]
    using open' by (simp_all add: kept_def gone_def)
  have "set (map snd (txAdapters e)) = set (map snd kept) \<union> set gone"
    "distinct (map snd (txAdapters e)) \<longrightarrow> distinct (map snd kept @ gone)"
    unfolding kept_def gone_def by (rule retire_split, intro impI, rule retire_split(2))
  moreover have "distinct (map fst (txAdapters e)) \<longrightarrow> distinct (map fst kept)"
    unfolding kept_def by (simp add: distinct_map_filter)
  moreover have "set kept \<subseteq> set (txAdapters e)" by (auto simp: kept_def)
  ultimately show ?thesis using ok open' e' by auto
qed

lemma executor_invD:
  assumes "executor_inv lower parse s"
  shows "fst (txTopology (xrExec s)) < xrNext s"
    and "\<And>endpoint. endpoint \<in> snd ` set (tpEndpoints (snd (txTopology (xrExec s)))) \<Longrightarrow> validateEndpoint lower (xrExec s) endpoint"
    and "distinct (map fst (txAdapters (xrExec s)))"
    and "distinct ((map snd (txAdapters (xrExec s)) @ txRetiring (xrExec s)) @ xrClosing s)"
    and "registered s = set (map snd (txAdapters (xrExec s)) @ txRetiring (xrExec s)) \<union> set (xrClosing s)"
    and "\<And>a. a \<in> registered s \<Longrightarrow> a < xrNext s"
    and "txClosed (xrExec s) \<Longrightarrow> txAdapters (xrExec s) = [] \<and> txRetiring (xrExec s) = []"
    and "\<And>key adapter. (key, adapter) \<in> set (txAdapters (xrExec s)) \<Longrightarrow>
      \<exists>source. (adapter, source) \<in> set (xrRegistered s) \<and> sourceAllowed lower parse (xrExec s) key source"
    and "\<And>call. call \<in> set (xrCalls s) \<Longrightarrow> call_ok lower parse (xrExec s) (registered s) call"
  using assms unfolding executor_inv_def Let_def by auto

lemma executor_invI:
  assumes "sameConfig (xrExec s) e" and "xrExec s' = e" and "registered s' = known"
    and "fst (txTopology e) < xrNext s'"
    and "\<And>endpoint. endpoint \<in> snd ` set (tpEndpoints (snd (txTopology e))) \<Longrightarrow> validateEndpoint lower (xrExec s) endpoint"
    and "distinct (map fst (txAdapters e))" and "distinct ((map snd (txAdapters e) @ txRetiring e) @ xrClosing s')"
    and "known = set (map snd (txAdapters e) @ txRetiring e) \<union> set (xrClosing s')" and "\<And>a. a \<in> known \<Longrightarrow> a < xrNext s'"
    and "txClosed e \<Longrightarrow> txAdapters e = [] \<and> txRetiring e = []"
    and "\<And>key adapter. (key, adapter) \<in> set (txAdapters e) \<Longrightarrow>
      \<exists>source. (adapter, source) \<in> set (xrRegistered s') \<and> sourceAllowed lower parse (xrExec s) key source"
    and "\<And>call. call \<in> set (xrCalls s') \<Longrightarrow> call_ok lower parse (xrExec s) known call"
  shows "executor_inv lower parse s'"
  using assms(4-) unfolding executor_inv_def Let_def assms(2,3) config [OF assms(1)] by auto

text \<open>A step that leaves the executor alone.\<close>

lemma executor_inv_same:
  assumes "executor_inv lower parse s" and "xrExec s' = xrExec s" and "xrRegistered s' = xrRegistered s"
    and "xrClosing s' = xrClosing s" and "xrNext s \<le> xrNext s'"
    and "\<And>call. call \<in> set (xrCalls s') \<Longrightarrow> call \<in> set (xrCalls s) \<or> call_ok lower parse (xrExec s) (registered s) call"
  shows "executor_inv lower parse s'"
proof -
  note inv = executor_invD [OF assms(1)]
  have reg: "registered s' = registered s" by (simp add: registered_def assms(3))
  show ?thesis
  proof (rule executor_invI [OF sameConfig_updates(1) assms(2) reg])
    show "call_ok lower parse (xrExec s) (registered s) call" if "call \<in> set (xrCalls s')" for call
      using assms(6) [OF that] inv(9) by blast
    show "a < xrNext s'" if "a \<in> registered s" for a using inv(6) [OF that] assms(5) by simp
    show "fst (txTopology (xrExec s)) < xrNext s'" using inv(1) assms(5) by simp
    show "\<exists>source. (adapter, source) \<in> set (xrRegistered s') \<and> sourceAllowed lower parse (xrExec s) key source"
      if "(key, adapter) \<in> set (txAdapters (xrExec s))" for key adapter
      using inv(8) [OF that] by (simp add: assms(3))
  qed (use inv(2-5,7) in \<open>simp_all add: assms(4)\<close>)
qed

lemma install_inv:
  assumes "executor_inv lower parse s"
  shows "executor_inv lower parse (executor_step lower parse (EvInstall t) s)"
proof -
  note inv = executor_invD [OF assms]
  define e' where "e' = fst (installTopology lower (xrNext s) t (xrExec s))"
  let ?s = "s\<lparr>xrExec := e', xrNext := xrNext s + 1\<rparr>"
  have cfg: "sameConfig (xrExec s) e'" unfolding e'_def by (rule install_config)
  have step: "executor_step lower parse (EvInstall t) s = ?s" by (simp add: e'_def)
  have reg: "registered ?s = registered s" by (simp add: registered_def)
  show ?thesis
  proof (cases "e' = xrExec s")
    case True
    show ?thesis unfolding step by (rule executor_inv_same [OF assms]) (simp_all add: True)
  next
    case False
    note split = install_split [of lower "xrNext s" t "xrExec s" e', OF e'_def [symmetric], simplified False simp_thms]
    then obtain gone where gone: "txRetiring e' = txRetiring (xrExec s) @ gone"
      "set (map snd (txAdapters (xrExec s))) = set (map snd (txAdapters e')) \<union> set gone"
      "distinct (map snd (txAdapters (xrExec s))) \<longrightarrow> distinct (map snd (txAdapters e') @ gone)" by blast
    show ?thesis
      unfolding step
    proof (rule executor_invI [OF cfg _ reg])
      show "distinct ((map snd (txAdapters e') @ txRetiring e') @ xrClosing ?s)"
        using inv(4) gone by auto
      show "registered s = set (map snd (txAdapters e') @ txRetiring e') \<union> set (xrClosing ?s)"
        unfolding inv(5) using gone(1,2) by auto
      show "\<exists>source. (adapter, source) \<in> set (xrRegistered ?s) \<and> sourceAllowed lower parse (xrExec s) key source"
        if "(key, adapter) \<in> set (txAdapters e')" for key adapter
        using inv(8) [of key adapter] that split by auto
      show "validateEndpoint lower (xrExec s) endpoint" if "endpoint \<in> snd ` set (tpEndpoints (snd (txTopology e')))" for endpoint
        using inv(2) [of endpoint] that split by (metis snd_conv)
      show "call_ok lower parse (xrExec s) (registered s) call" if "call \<in> set (xrCalls ?s)" for call
        using inv(9) that by simp
      show "a < xrNext ?s" if "a \<in> registered s" for a using inv(6) [OF that] by simp
      show "distinct (map fst (txAdapters e'))" using inv(3) split by blast
      show "fst (txTopology e') < xrNext ?s" using inv(1) split by auto
    qed (use split in auto)
  qed
qed

text \<open>A call changes the registry only by adding the adapter it made, and that under a key it may have.\<close>

lemma register_cases:
  assumes "registerAdapter key fresh e = (e', r)"
  shows "(e' = e \<and> (\<exists>a. r = Inr a \<and> a \<in> snd ` set (txAdapters e))) \<or>
    (map_of (txAdapters e) key = None \<and> e' = e\<lparr>txAdapters := txAdapters e @ [(key, fresh)]\<rparr> \<and> r = Inr fresh)"
proof -
  have "AList.update k v xs = xs @ [(k, v)]" if "map_of xs k = None" for k v and xs :: "(string \<times> nat) list"
    using that by (induction xs) (auto split: if_splits)
  moreover have "a \<in> snd ` set (txAdapters e)" if "map_of (txAdapters e) key = Some a" for a
    using map_of_SomeD [OF that] by force
  ultimately show ?thesis using assms by (cases "map_of (txAdapters e) key") (auto simp: registerAdapter_def)
qed

definition grows ::
  "(string \<Rightarrow> string) \<Rightarrow> (string \<Rightarrow> (routing_endpoint \<times> bool) option) \<Rightarrow> nat \<Rightarrow> adapter_call \<Rightarrow> topology_executor \<Rightarrow> topology_executor \<Rightarrow> bool"
where
  "grows lower parse fresh call e e' \<longleftrightarrow>
     \<not> txClosed e \<and>
     (\<exists>key source. sourceOf call = Some source \<and> sourceAllowed lower parse e key source \<and>
        map_of (txAdapters e) key = None \<and> e' = e\<lparr>txAdapters := txAdapters e @ [(key, fresh)]\<rparr>)"

lemma returned_ok:
  "call_ok lower parse e known (urlReturned recheck (Inr a)) \<longleftrightarrow> a \<in> known"
  "call_ok lower parse e known (urlReturned recheck (Inl err))"
  by (cases recheck; simp)+

lemma continue_cases:
  assumes "continueCall lower parse made fresh call e = (e', call')"
    and "call_ok lower parse e known call" and "snd ` set (txAdapters e) \<subseteq> known"
  shows "(e' = e \<and> call_ok lower parse e known call') \<or>
    (grows lower parse fresh call e e' \<and> call_ok lower parse e (insert fresh known) call')"
proof (cases call)
  case (AtEndpoint s endpoint)
  with assms show ?thesis
    by (auto simp: lookupAdapter_def image_subset_iff split: sum.splits option.splits dest!: map_of_SomeD) force?
next
  case (MakeEndpoint s endpoint)
  show ?thesis
  proof (cases "(\<exists>err. made = Inl err) \<or> routingSnapshotError e s \<noteq> None")
    case True
    with assms(1) MakeEndpoint show ?thesis by (auto simp: storeAdapter_def split: option.splits sum.splits)
  next
    case False
    obtain e1 r where r: "registerAdapter (connectionKeyForEndpoint lower endpoint (txTLS e)) fresh e = (e1, r)"
      by (cases "registerAdapter (connectionKeyForEndpoint lower endpoint (txTLS e)) fresh e")
    have "\<not> txClosed e" using False by (auto simp: routingSnapshotError_def)
    moreover have "e' = e1 \<and> call' = Returned r"
      using False assms(1) MakeEndpoint r by (cases made) (auto simp: storeAdapter_def)
    ultimately show ?thesis using register_cases [OF r] assms(2,3) MakeEndpoint by (auto simp: grows_def)
  qed
next
  case (AtURL recheck url)
  show ?thesis
  proof (cases "lookupURL lower parse url e")
    case (Inl err)
    with assms(1) AtURL show ?thesis by auto
  next
    case (Inr ka)
    obtain key a where ka: "ka = (key, a)" by (cases ka)
    have key: "urlKey lower parse e url key" "a = map_of (txAdapters e) key"
      using Inr by (auto simp: ka lookupURL_def urlKey_def Let_def split: option.splits if_splits)
    show ?thesis
    proof (cases a)
      case None
      with assms(1) AtURL Inr ka key show ?thesis by auto
    next
      case (Some b)
      then have "b \<in> known" using key(2) assms(3) by (force dest!: map_of_SomeD [OF sym])
      with Some assms(1) AtURL Inr ka show ?thesis by (auto simp: returned_ok)
    qed
  qed
next
  case (MakeURL recheck url key)
  show ?thesis
  proof (cases "made = Inr (txTLS e) \<and> \<not> txClosed e")
    case False
    with assms(1) MakeURL show ?thesis by (auto simp: storeURL_def returned_ok split: sum.splits if_splits)
  next
    case True
    obtain e1 r where r: "registerAdapter key fresh e = (e1, r)" by (cases "registerAdapter key fresh e")
    with True assms(1) MakeURL have "e' = e1 \<and> call' = urlReturned recheck r" by (auto simp: storeURL_def)
    then show ?thesis using register_cases [OF r] assms(2,3) MakeURL True by (auto simp: grows_def returned_ok)
  qed
next
  case (Recheck s a)
  with assms show ?thesis by (auto split: option.splits)
next
  case (Returned r)
  with assms show ?thesis by simp
qed

lemma start_ok: "call_ok lower parse e known (startEndpoint lower s endpoint e)"
  by (auto simp: startEndpoint_def seedURLAtSnapshot_def endpointKeyAllowed_def split: sum.split option.split)

lemma start_call_inv:
  assumes "executor_inv lower parse s"
  shows "executor_inv lower parse (executor_step lower parse (EvEndpoint snap endpoint) s)"
    and "executor_inv lower parse (executor_step lower parse (EvURL url) s)"
proof -
  show "executor_inv lower parse (executor_step lower parse (EvEndpoint snap endpoint) s)"
    by (rule executor_inv_same [OF assms]) (auto simp del: call_ok.simps simp: start_ok)
  show "executor_inv lower parse (executor_step lower parse (EvURL url) s)"
    by (rule executor_inv_same [OF assms]) auto
qed

lemma continue_inv:
  assumes inv: "executor_inv lower parse s"
  shows "executor_inv lower parse (executor_step lower parse (EvContinue n made) s)"
proof (cases "n < length (xrCalls s)")
  case False
  with inv show ?thesis by simp
next
  case n: True
  note i = executor_invD [OF inv]
  let ?e = "xrExec s" and ?call = "xrCalls s ! n"
  obtain e' call' where c: "continueCall lower parse made (xrNext s) ?call ?e = (e', call')"
    by (cases "continueCall lower parse made (xrNext s) ?call ?e")
  have known: "snd ` set (txAdapters ?e) \<subseteq> registered s" using i(5) by auto
  have ok: "call_ok lower parse ?e (registered s) ?call" using i(9) n by simp
  have calls: "call \<in> set ((xrCalls s)[n := call']) \<Longrightarrow> call = call' \<or> call \<in> set (xrCalls s)" for call
    using set_update_subset_insert [of "xrCalls s" n call'] by blast
  from continue_cases [OF c ok known] show ?thesis
  proof
    assume "e' = ?e \<and> call_ok lower parse ?e (registered s) call'"
    with n c calls show ?thesis
      by (intro executor_inv_same [OF inv]) (auto simp: newlyRegistered_def)
  next
    assume g: "grows lower parse (xrNext s) ?call ?e e' \<and> call_ok lower parse ?e (insert (xrNext s) (registered s)) call'"
    then obtain key source where k: "sourceOf ?call = Some source" "sourceAllowed lower parse ?e key source"
      "map_of (txAdapters ?e) key = None" "e' = ?e\<lparr>txAdapters := txAdapters ?e @ [(key, xrNext s)]\<rparr>" "\<not> txClosed ?e"
      by (auto simp: grows_def)
    have cfg: "sameConfig ?e e'" using k(4) by simp
    have new: "xrNext s \<notin> registered s" using i(6) by blast
    let ?s = "s\<lparr>xrExec := e', xrNext := xrNext s + 1, xrCalls := (xrCalls s)[n := call'],
        xrRegistered := (xrNext s, source) # xrRegistered s\<rparr>"
    have step: "executor_step lower parse (EvContinue n made) s = ?s"
      using n c k by (simp add: newlyRegistered_def)
    have reg: "registered ?s = insert (xrNext s) (registered s)" by (simp add: registered_def)
    have mono: "call_ok lower parse ?e (insert (xrNext s) (registered s)) call" if "call \<in> set (xrCalls s)" for call
      using call_ok_mono [OF i(9) [OF that]] by blast
    show ?thesis
      unfolding step
    proof (rule executor_invI [OF cfg _ reg])
      show "distinct ((map snd (txAdapters e') @ txRetiring e') @ xrClosing ?s)"
        using i(4,5) new k(4) by auto
      show "insert (xrNext s) (registered s) = set (map snd (txAdapters e') @ txRetiring e') \<union> set (xrClosing ?s)"
        unfolding i(5) using k(4) by auto
      show "distinct (map fst (txAdapters e'))"
        using i(3) k(3,4) by (force simp: map_of_eq_None_iff)
      show "\<exists>so. (a, so) \<in> set (xrRegistered ?s) \<and> sourceAllowed lower parse ?e ky so"
        if "(ky, a) \<in> set (txAdapters e')" for ky a
        using i(8) [of ky a] that k(2,4) by auto
      show "call_ok lower parse ?e (insert (xrNext s) (registered s)) call" if "call \<in> set (xrCalls ?s)" for call
        using calls [of call] that g mono by auto
      show "validateEndpoint lower ?e endpoint" if "endpoint \<in> snd ` set (tpEndpoints (snd (txTopology e')))" for endpoint
        using i(2) [of endpoint] that k(4) by auto
      show "a < xrNext ?s" if "a \<in> insert (xrNext s) (registered s)" for a using i(6) [of a] that by auto
      show "fst (txTopology e') < xrNext ?s" using i(1) k(4) by simp
      show "txAdapters e' = [] \<and> txRetiring e' = []" if "txClosed e'" using that k(4,5) by simp
    qed simp
  qed
qed

lemma forget_inv:
  assumes "executor_inv lower parse s"
  shows "executor_inv lower parse (executor_step lower parse (EvForget a) s)"
proof -
  have "sameConfig (xrExec s) (forgetRetiredWhenClosed a (xrExec s))" by (simp add: forgetRetiredWhenClosed_def)
  from config [OF this] assms show ?thesis
    by (auto simp: executor_inv_def Let_def forgetRetiredWhenClosed_def registered_def)
qed

lemma closeExecutor_inv:
  assumes "executor_inv lower parse s"
  shows "executor_inv lower parse (executor_step lower parse EvClose s)"
proof -
  have "sameConfig (xrExec s) (fst (closeExecutor (xrExec s)))" by (simp add: closeExecutor_def)
  from config [OF this] assms show ?thesis
    by (auto simp: executor_inv_def Let_def closeExecutor_def registered_def)
qed

lemma executor_step_inv: "executor_inv lower parse s \<Longrightarrow> executor_inv lower parse (executor_step lower parse ev s)"
  by (cases ev) (auto simp only: install_inv start_call_inv continue_inv forget_inv closeExecutor_inv)

interpretation registry: event_machine "executor_step lower parse" "executor_inv lower parse" for lower parse
  by unfold_locales (rule executor_step_inv)

text \<open>The configuration never changes, and a pointer that comes back points to the same topology.\<close>

lemma register_config: "sameConfig e (fst (registerAdapter key a e))"
  by (simp add: registerAdapter_def split: option.split)

lemma continue_config: "sameConfig e (fst (continueCall lower parse made fresh call e))"
proof (cases call)
  case (MakeEndpoint s endpoint)
  then show ?thesis
    using register_config by (auto simp: storeAdapter_def split: sum.split option.split prod.split)
      (metis fst_conv)
next
  case (MakeURL recheck url key)
  then show ?thesis
    using register_config by (auto simp: storeURL_def split: sum.split option.split prod.split)
      (metis fst_conv)
qed simp_all

lemma step_config: "sameConfig (xrExec s) (xrExec (executor_step lower parse ev s))"
proof (cases ev)
  case (EvContinue n made)
  then show ?thesis using continue_config [of "xrExec s" lower parse made "xrNext s" "xrCalls s ! n"]
    by (auto split: prod.split)
qed (simp_all add: install_config forgetRetiredWhenClosed_def closeExecutor_def)

lemma run_config: "sameConfig (xrExec s) (xrExec (fold (executor_step lower parse) evs s))"
  by (induction evs arbitrary: s) (auto intro: sameConfig_trans [OF step_config])

lemma register_topology: "txTopology (fst (registerAdapter key a e)) = txTopology e"
  by (simp add: registerAdapter_def split: option.split)

lemma continue_topology: "txTopology (fst (continueCall lower parse made fresh call e)) = txTopology e"
proof (cases call)
  case (MakeEndpoint s endpoint)
  then show ?thesis
    using register_topology by (auto simp: storeAdapter_def split: sum.split option.split prod.split)
      (metis fst_conv)
next
  case (MakeURL recheck url key)
  then show ?thesis
    using register_topology by (auto simp: storeURL_def split: sum.split option.split prod.split)
      (metis fst_conv)
qed simp_all

lemma step_pointer:
  "txTopology (xrExec (executor_step lower parse ev s)) = txTopology (xrExec s) \<or>
   (fst (txTopology (xrExec (executor_step lower parse ev s))) = xrNext s \<and>
    xrNext (executor_step lower parse ev s) = xrNext s + 1)"
proof (cases ev)
  case (EvContinue n made)
  then show ?thesis using continue_topology [of lower parse made "xrNext s" "xrCalls s ! n" "xrExec s"]
    by (auto split: prod.split)
qed (auto simp: installTopology_def forgetRetiredWhenClosed_def closeExecutor_def Let_def split: option.split)

lemma step_next: "xrNext s \<le> xrNext (executor_step lower parse ev s)"
  by (cases ev) (auto split: prod.split)

lemma run_pointer:
  "fst (txTopology (xrExec s)) < xrNext s \<Longrightarrow>
   txTopology (xrExec (fold (executor_step lower parse) evs s)) = txTopology (xrExec s) \<or>
   xrNext s \<le> fst (txTopology (xrExec (fold (executor_step lower parse) evs s)))"
proof (induction evs arbitrary: s)
  case (Cons ev evs)
  let ?s = "executor_step lower parse ev s"
  have "fst (txTopology (xrExec ?s)) < xrNext ?s"
    using step_pointer [of lower parse ev s] step_next [of s lower parse ev] Cons.prems by auto
  from Cons.IH [OF this] step_pointer [of lower parse ev s] step_next [of s lower parse ev] show ?case by auto
qed simp

subsection \<open>Properties\<close>

text \<open>
  C25. However installs, calls for an adapter, retirements and \<open>Close\<close> interleave, the registry of
  connections is sound. Every endpoint of the current topology is one the policy allows. Every adapter is
  registered under the key of what it was made from: an endpoint the policy allows, and then no seed URL
  has that key; or a URL, whose key is a seed's or whose endpoint the policy allows. A key has one adapter,
  and an adapter is registered, retiring or closed, never two of these; what a call returns was registered
  by it or by a faster one; and after \<open>Close\<close> every adapter ever registered has been closed or handed over
  to be closed.
\<close>

theorem executor_registry_sound:
  assumes "txAdapters e0 = []" and "txRetiring e0 = []" and "txTopology e0 = (0, emptyRoutingTopology)"
    and "s = fold (executor_step lower parse) evs
           \<lparr>xrExec = e0, xrNext = 1, xrCalls = [], xrRegistered = [], xrClosing = []\<rparr>"
  shows "(\<forall>endpoint \<in> snd ` set (tpEndpoints (snd (txTopology (xrExec s)))). validateEndpoint lower e0 endpoint) \<and>
    (\<forall>(key, adapter) \<in> set (txAdapters (xrExec s)).
       \<exists>source. (adapter, source) \<in> set (xrRegistered s) \<and> sourceAllowed lower parse e0 key source) \<and>
    distinct (map fst (txAdapters (xrExec s))) \<and>
    distinct (map snd (txAdapters (xrExec s)) @ txRetiring (xrExec s) @ xrClosing s) \<and>
    registered s = set (map snd (txAdapters (xrExec s)) @ txRetiring (xrExec s) @ xrClosing s) \<and>
    (\<forall>adapter. Returned (Inr adapter) \<in> set (xrCalls s) \<longrightarrow> adapter \<in> registered s) \<and>
    (txClosed (xrExec s) \<longrightarrow> registered s = set (xrClosing s))"
proof -
  let ?s0 = "\<lparr>xrExec = e0, xrNext = 1, xrCalls = [], xrRegistered = [], xrClosing = []\<rparr>"
  have "executor_inv lower parse ?s0"
    using assms(1-3) by (simp add: executor_inv_def emptyRoutingTopology_def registered_def)
  from registry.run_inv [OF this, of evs] have "executor_inv lower parse s" by (simp add: assms(4))
  note inv = executor_invD [OF this]
  have "sameConfig e0 (xrExec s)" using run_config [of ?s0 lower parse evs] by (simp add: assms(4))
  note c = config [OF this]
  have "(\<forall>(key, adapter) \<in> set (txAdapters (xrExec s)).
       \<exists>source. (adapter, source) \<in> set (xrRegistered s) \<and> sourceAllowed lower parse e0 key source)"
    using inv(8) by (auto simp: c)
  moreover have "adapter \<in> registered s" if "Returned (Inr adapter) \<in> set (xrCalls s)" for adapter
    using inv(9) [OF that] by simp
  ultimately show ?thesis using inv(2-5,7) by (auto simp: c)
qed

definition sampleExecutor :: topology_executor where
  "sampleExecutor = \<lparr>txClosed = False, txTopology = (0, emptyRoutingTopology), txVersion = 0, txAdapters = [],
     txRetiring = [], txEndpointPolicy = ''any'', txSeedEndpointKeys = [], txSeedURLByKey = [], txTrustedHosts = [],
     txValidator = None, txTLS = False, txPerShardWrites = False\<rparr>"

text \<open>Two calls for one endpoint race: the second one to make its adapter is given the first one's.\<close>

definition sampleEvents :: "executor_event list" where
  "sampleEvents = [EvEndpoint None sampleEndpoint, EvEndpoint None sampleEndpoint,
     EvContinue 0 (Inr False), EvContinue 1 (Inr False), EvContinue 1 (Inr False), EvContinue 0 (Inr False)]"

lemma sample_endpoint_allowed: "validateEndpoint lowerAscii sampleExecutor sampleEndpoint"
proof -
  have "lowerAscii ''db'' = ''db''" by code_simp
  then show ?thesis by (simp add: validateEndpoint_def sampleExecutor_def sampleEndpoint_def)
qed

lemma sample_race:
  "fold (executor_step lowerAscii parse) sampleEvents
     \<lparr>xrExec = sampleExecutor, xrNext = 1, xrCalls = [], xrRegistered = [], xrClosing = []\<rparr> =
   \<lparr>xrExec = sampleExecutor\<lparr>txAdapters := [(connectionKeyForEndpoint lowerAscii sampleEndpoint False, 3)]\<rparr>, xrNext = 5,
     xrCalls = [Returned (Inr 3), Returned (Inr 3)], xrRegistered = [(3, FromEndpoint sampleEndpoint)], xrClosing = []\<rparr>"
proof -
  have e: "txClosed sampleExecutor = False" "txAdapters sampleExecutor = []" "txTLS sampleExecutor = False"
    "txSeedURLByKey sampleExecutor = []" by (simp_all add: sampleExecutor_def)
  have start: "startEndpoint lowerAscii None sampleEndpoint sampleExecutor = AtEndpoint None sampleEndpoint"
    by (simp add: startEndpoint_def seedURLAtSnapshot_def sample_endpoint_allowed routingSnapshotError_def e)
  show ?thesis
    by (simp add: sampleEvents_def start lookupAdapter_def storeAdapter_def registerAdapter_def newlyRegistered_def
        routingSnapshotError_def e nth_append)
qed

theorem executor_registry_sound_witness:
  "\<exists>source. (3, source) \<in> set [(3, FromEndpoint sampleEndpoint)] \<and>
     sourceAllowed lowerAscii (\<lambda>_. None) sampleExecutor (connectionKeyForEndpoint lowerAscii sampleEndpoint False) source"
proof -
  have init: "txAdapters sampleExecutor = []" "txRetiring sampleExecutor = []"
    "txTopology sampleExecutor = (0, emptyRoutingTopology)"
    by (simp_all add: sampleExecutor_def)
  show ?thesis
    using executor_registry_sound [OF init refl, of lowerAscii "\<lambda>_. None" sampleEvents, unfolded sample_race] by simp
qed

text \<open>
  The check before a plan is used has no ABA problem: if the snapshot a plan was made from is still
  current after any interleaving, the executor is open and its topology is the one planned with, even when
  topologies were installed in between.
\<close>

theorem current_snapshot_is_same_topology:
  assumes "fst (txTopology (xrExec s)) < xrNext s" and "captureRoutingTopology (xrExec s) = Inr snap"
    and "routingSnapshotCurrent (xrExec (fold (executor_step lower parse) evs s)) snap"
  shows "\<not> txClosed (xrExec (fold (executor_step lower parse) evs s)) \<and>
    txTopology (xrExec (fold (executor_step lower parse) evs s)) = fst snap"
  using run_pointer [OF assms(1), of lower parse evs] assms
  by (auto simp: captureRoutingTopology_def routingSnapshotCurrent_def split: if_splits)

end
