(* ===== verification/Planning.thy ===== *)
theory Planning
  imports Executor
begin

section \<open>Planning a multi-key command\<close>

text \<open>
  \<open>src/topology_snapshot.go\<close>, \<open>src/topology_kv_route.go\<close> and \<open>src/topology_scatter.go\<close>: grouping the keys of a
  command by the route that serves them, under a snapshot of the topology that must still be current
  when the plan is used.
\<close>

type_synonym route_identity = "string \<times> 32 word"

definition routeIdentity :: "(string \<Rightarrow> string) \<Rightarrow> routing_route \<Rightarrow> route_identity" where
  "routeIdentity lower r =
     (if rtEndpointKey r = [] then endpointKey lower (rtEndpoint r) else rtEndpointKey r, rtLaneID r)"

record 'k route_group =
  grRoute :: routing_route
  grKeys :: "'k list"
  grPositions :: "nat list"

type_synonym 'k route_groups = "(route_identity \<times> 'k route_group) list"

definition addToGroup ::
  "(string \<Rightarrow> string) \<Rightarrow> bool \<Rightarrow> routing_route \<Rightarrow> 'k \<Rightarrow> nat \<Rightarrow> 'k route_groups \<Rightarrow> 'k route_groups"
where
  "addToGroup lower includePositions route key position groups =
     (let identity = routeIdentity lower route;
          g = (case map_of groups identity of
                 None \<Rightarrow> \<lparr>grRoute = route, grKeys = [], grPositions = []\<rparr> | Some g \<Rightarrow> g) in
      AList.update identity
        (g\<lparr>grKeys := grKeys g @ [key],
           grPositions := (if includePositions then grPositions g @ [position] else grPositions g)\<rparr>) groups)"

subsection \<open>Keys of any kind\<close>

text \<open>The loop of \<open>planScatterRoutes\<close>; \<open>route\<close> is \<open>routeInSnapshot\<close>.\<close>

definition groupKeys ::
  "(string \<Rightarrow> string) \<Rightarrow> ('k \<Rightarrow> exec_error + routing_route) \<Rightarrow> 'k list \<Rightarrow> exec_error + 'k route_groups"
where
  "groupKeys lower route keys =
     for_each (\<lambda>(position, key) groups.
       ebind (route key) (\<lambda>r. Inr (addToGroup lower True r key position groups))) (List.enumerate 0 keys) []"

subsection \<open>String keys\<close>

fun firstDivergence ::
  "(string \<Rightarrow> string) \<Rightarrow> routing_topology \<Rightarrow> route_identity \<Rightarrow> nat \<Rightarrow> string list \<Rightarrow> exec_error + nat option"
where
  "firstDivergence lower t identity position [] = Inr None"
| "firstDivergence lower t identity position (key # keys) =
     ebind (map_err ErrTopology (routeStringKeyInTopology (Some t) key)) (\<lambda>route.
     if routeIdentity lower route \<noteq> identity then Inr (Some position)
     else firstDivergence lower t identity (position + 1) keys)"

definition checkedRoute ::
  "(string \<Rightarrow> string) \<Rightarrow> topology_executor \<Rightarrow> routing_topology \<Rightarrow> string \<Rightarrow> exec_error + routing_route"
where
  "checkedRoute lower e t key =
     ebind (map_err ErrTopology (routeStringKeyInTopology (Some t) key)) (\<lambda>route.
     if validateEndpoint lower e (rtEndpoint route) then Inr route else Inl (ErrUnsafeEndpoint (rtEndpoint route)))"

text \<open>The position of the first key with another route, if there is one. Callers have at least one key.\<close>

definition singleRouteInTopology ::
  "(string \<Rightarrow> string) \<Rightarrow> topology_executor \<Rightarrow> routing_topology \<Rightarrow> string list \<Rightarrow>
   exec_error + (routing_route \<times> nat option)"
where
  "singleRouteInTopology lower e t keys =
     ebind (checkedRoute lower e t (hd keys)) (\<lambda>first.
     ebind (firstDivergence lower t (routeIdentity lower first) 1 (tl keys)) (\<lambda>divergence. Inr (first, divergence)))"

text \<open>
  A key joins the group of its route; the endpoint is validated when the group is made. \<open>None\<close> stands for
  the nil map of the code: all keys have one route.
\<close>

definition joinGroup ::
  "(string \<Rightarrow> string) \<Rightarrow> topology_executor \<Rightarrow> routing_topology \<Rightarrow> bool \<Rightarrow> nat \<times> string \<Rightarrow> string route_groups \<Rightarrow>
   exec_error + string route_groups"
where
  "joinGroup lower e t includePositions = (\<lambda>(position, key) groups.
     ebind (map_err ErrTopology (routeStringKeyInTopology (Some t) key)) (\<lambda>route.
     if map_of groups (routeIdentity lower route) = None \<and> \<not> validateEndpoint lower e (rtEndpoint route)
     then Inl (ErrUnsafeEndpoint (rtEndpoint route))
     else Inr (addToGroup lower includePositions route key position groups)))"

definition planStringKeyRoutesInTopology ::
  "(string \<Rightarrow> string) \<Rightarrow> topology_executor \<Rightarrow> routing_topology \<Rightarrow> string list \<Rightarrow> bool \<Rightarrow>
   exec_error + (routing_route \<times> string route_groups option)"
where
  "planStringKeyRoutesInTopology lower e t keys includePositions =
     ebind (singleRouteInTopology lower e t keys) (\<lambda>(first, divergence).
     case divergence of
       None \<Rightarrow> Inr (first, None)
     | Some d \<Rightarrow>
         ebind (checkedRoute lower e t (keys ! d)) (\<lambda>divergent.
         let firstGroup = \<lparr>grRoute = first, grKeys = take d keys,
                           grPositions = (if includePositions then [0..<d] else [])\<rparr>;
             divergentGroup = \<lparr>grRoute = divergent, grKeys = [keys ! d],
                               grPositions = (if includePositions then [d] else [])\<rparr> in
         ebind (for_each (joinGroup lower e t includePositions) (List.enumerate (d + 1) (drop (d + 1) keys))
                  [(routeIdentity lower first, firstGroup), (routeIdentity lower divergent, divergentGroup)])
           (\<lambda>groups. Inr (first, Some groups))))"

subsection \<open>Planning attempts\<close>

text \<open>
  One attempt of a planning loop: the executor when the snapshot is captured, the executor when it is
  checked again (others have run in between), and the outcome of refreshing the topology. There are at
  most \<open>maxTopologyPlanningAttempts\<close>.
\<close>

definition maxTopologyPlanningAttempts :: nat where "maxTopologyPlanningAttempts = 8"

type_synonym plan_obs = "topology_executor \<times> topology_executor \<times> exec_error option"

text \<open>
  The loop of \<open>planStringKeyRoutesSnapshot\<close> and \<open>planScatterRoutes\<close>: a plan made on a snapshot that is no
  longer current is dropped, failed or not.
\<close>

fun planLoop ::
  "(topology_executor \<Rightarrow> snapshot \<Rightarrow> exec_error + 'p) \<Rightarrow> plan_obs list \<Rightarrow> bool \<Rightarrow> exec_error + (snapshot \<times> 'p)"
where
  "planLoop plan [] refreshed = Inl ErrStaleRoute"
| "planLoop plan ((captured, seen, refresh) # rest) refreshed =
     ebind (captureRoutingTopology captured) (\<lambda>snap.
     if \<not> routingSnapshotCurrent seen snap then planLoop plan rest refreshed
     else
       (case plan captured snap of
          Inr p \<Rightarrow> Inr (snap, p)
        | Inl err \<Rightarrow>
            if refreshed then Inl err
            else (case refresh of Some e \<Rightarrow> Inl e | None \<Rightarrow> planLoop plan rest True)))"

text \<open>
  The loop of \<open>routeWithRefreshSnapshot\<close>: a failed lookup asks for a refresh at once, whether the
  snapshot is current or not.
\<close>

fun routeLoop ::
  "(topology_executor \<Rightarrow> snapshot \<Rightarrow> exec_error + 'p) \<Rightarrow> plan_obs list \<Rightarrow> bool \<Rightarrow> exec_error + (snapshot \<times> 'p)"
where
  "routeLoop plan [] refreshed = Inl ErrStaleRoute"
| "routeLoop plan ((captured, seen, refresh) # rest) refreshed =
     ebind (captureRoutingTopology captured) (\<lambda>snap.
     case plan captured snap of
       Inl err \<Rightarrow>
         if refreshed then Inl err
         else (case refresh of Some e \<Rightarrow> Inl e | None \<Rightarrow> routeLoop plan rest True)
     | Inr p \<Rightarrow> if routingSnapshotCurrent seen snap then Inr (snap, p) else routeLoop plan rest refreshed)"

definition routeWithRefreshSnapshot ::
  "(string \<Rightarrow> string) \<Rightarrow> plan_obs list \<Rightarrow> arg \<Rightarrow> exec_error + (snapshot \<times> routing_route)"
where
  "routeWithRefreshSnapshot lower obs key =
     routeLoop (\<lambda>e snap. routeInSnapshot lower e snap key) (take maxTopologyPlanningAttempts obs) False"

definition planScatterRoutes ::
  "(string \<Rightarrow> string) \<Rightarrow> plan_obs list \<Rightarrow> arg list \<Rightarrow> exec_error + (snapshot \<times> arg route_groups)"
where
  "planScatterRoutes lower obs keys =
     (if \<not> list_all isRouteKey keys then Inl (ErrTopology KeyUnsupported)
      else planLoop (\<lambda>e snap. groupKeys lower (routeInSnapshot lower e snap) keys)
             (take maxTopologyPlanningAttempts obs) False)"

definition planStringKeyRoutesSnapshot ::
  "(string \<Rightarrow> string) \<Rightarrow> plan_obs list \<Rightarrow> string list \<Rightarrow> bool \<Rightarrow>
   exec_error + (snapshot \<times> routing_route \<times> string route_groups option)"
where
  "planStringKeyRoutesSnapshot lower obs keys includePositions =
     planLoop (\<lambda>e snap. planStringKeyRoutesInTopology lower e (snd (fst snap)) keys includePositions)
       (take maxTopologyPlanningAttempts obs) False"

end
