(* ===== verification/PlanningCorrect.thy ===== *)
theory PlanningCorrect
  imports Planning
begin

section \<open>A plan partitions the keys by route\<close>

text \<open>
  What a plan must be, for keys whose routes are \<open>rts\<close>: one group per route identity, with the positions
  of its keys in increasing order. Both planners make such plans, and the same one.
\<close>

subsection \<open>Partitions\<close>

definition partitions :: "(string \<Rightarrow> string) \<Rightarrow> routing_route list \<Rightarrow> 'k list \<Rightarrow> 'k route_groups \<Rightarrow> bool" where
  "partitions lower rts keys groups \<longleftrightarrow>
     length rts = length keys \<and> distinct (map fst groups) \<and>
     fst ` set groups = routeIdentity lower ` set rts \<and>
     (\<forall>(identity, g) \<in> set groups.
        grRoute g \<in> set rts \<and> routeIdentity lower (grRoute g) = identity \<and>
        grPositions g = filter (\<lambda>i. routeIdentity lower (rts ! i) = identity) [0..<length keys] \<and>
        grKeys g = map ((!) keys) (grPositions g))"

lemma partitions_Nil: "partitions lower [] [] []"
  by (simp add: partitions_def)

lemma filter_upt_snoc:
  "filter (\<lambda>i. P ((xs @ [x]) ! i)) [0..<Suc (length xs)] =
     filter (\<lambda>i. P (xs ! i)) [0..<length xs] @ (if P x then [length xs] else [])"
  by (auto simp: nth_append intro: filter_cong)

lemma update_members:
  assumes "distinct (map fst al)" and "(k', v') \<in> set (AList.update k v al)"
  shows "(k' = k \<and> v' = v) \<or> (k' \<noteq> k \<and> (k', v') \<in> set al)"
  using assms by (metis distinct_update map_of_eq_Some_iff map_of_SomeD update_Some_unfold)

lemma partitions_add:
  assumes p: "partitions lower rts keys groups"
  shows "partitions lower (rts @ [r]) (keys @ [k]) (addToGroup lower True r k (length keys) groups)"
proof -
  let ?id = "routeIdentity lower r"
  have len: "length rts = length keys" and d: "distinct (map fst groups)"
    and dom: "fst ` set groups = routeIdentity lower ` set rts"
    and each: "\<And>identity g. (identity, g) \<in> set groups \<Longrightarrow>
      grRoute g \<in> set rts \<and> routeIdentity lower (grRoute g) = identity \<and>
      grPositions g = filter (\<lambda>i. routeIdentity lower (rts ! i) = identity) [0..<length keys] \<and>
      grKeys g = map ((!) keys) (grPositions g)"
    using p unfolding partitions_def by (fast, fast, fast, blast)
  define old where "old = (case map_of groups ?id of
    None \<Rightarrow> \<lparr>grRoute = r, grKeys = [], grPositions = []\<rparr> | Some g \<Rightarrow> g)"
  define new where "new = old\<lparr>grKeys := grKeys old @ [k], grPositions := grPositions old @ [length keys]\<rparr>"
  have groups': "addToGroup lower True r k (length keys) groups = AList.update ?id new groups"
    by (simp add: addToGroup_def Let_def old_def new_def)
  have pos: "filter (\<lambda>i. routeIdentity lower ((rts @ [r]) ! i) = identity) [0..<Suc (length keys)] =
      filter (\<lambda>i. routeIdentity lower (rts ! i) = identity) [0..<length keys] @ (if ?id = identity then [length keys] else [])"
    for identity
    using filter_upt_snoc [of "\<lambda>x. routeIdentity lower x = identity" rts r] len by simp
  have keys: "map ((!) (keys @ [k])) ps = map ((!) keys) ps" if "set ps \<subseteq> {0..<length keys}" for ps
    using that by (auto simp: nth_append)
  have old: "grRoute old \<in> set (rts @ [r])" "routeIdentity lower (grRoute old) = ?id"
    "grPositions old = filter (\<lambda>i. routeIdentity lower (rts ! i) = ?id) [0..<length keys]"
    "grKeys old = map ((!) keys) (grPositions old)"
  proof -
    have "grRoute old \<in> set (rts @ [r]) \<and> routeIdentity lower (grRoute old) = ?id \<and>
      grPositions old = filter (\<lambda>i. routeIdentity lower (rts ! i) = ?id) [0..<length keys] \<and>
      grKeys old = map ((!) keys) (grPositions old)"
    proof (cases "map_of groups ?id")
      case None
      then have "?id \<notin> routeIdentity lower ` set rts" using dom by (simp add: map_of_eq_None_iff)
      then have "filter (\<lambda>i. routeIdentity lower (rts ! i) = ?id) [0..<length keys] = []"
        using len by (auto simp: filter_empty_conv) (metis image_eqI nth_mem)
      with None show ?thesis by (simp add: old_def)
    next
      case (Some g)
      with each [OF map_of_SomeD [OF Some]] show ?thesis by (simp add: old_def)
    qed
    then show "grRoute old \<in> set (rts @ [r])" "routeIdentity lower (grRoute old) = ?id"
      "grPositions old = filter (\<lambda>i. routeIdentity lower (rts ! i) = ?id) [0..<length keys]"
      "grKeys old = map ((!) keys) (grPositions old)" by blast+
  qed
  have sub: "set (filter P [0..<length keys]) \<subseteq> {0..<length keys}" for P by auto
  have new_ok: "grRoute new \<in> set (rts @ [r])" "routeIdentity lower (grRoute new) = ?id"
    "grPositions new = filter (\<lambda>i. routeIdentity lower ((rts @ [r]) ! i) = ?id) [0..<length (keys @ [k])]"
    "grKeys new = map ((!) (keys @ [k])) (grPositions new)"
    using old len pos [of ?id] keys [OF sub] by (simp_all add: new_def)
  have "grRoute g \<in> set (rts @ [r]) \<and> routeIdentity lower (grRoute g) = identity \<and>
      grPositions g = filter (\<lambda>i. routeIdentity lower ((rts @ [r]) ! i) = identity) [0..<length (keys @ [k])] \<and>
      grKeys g = map ((!) (keys @ [k])) (grPositions g)"
    if "(identity, g) \<in> set (AList.update ?id new groups)" for identity g
    using update_members [OF d that]
  proof
    assume "identity = ?id \<and> g = new"
    with new_ok show ?thesis by blast
  next
    assume "identity \<noteq> ?id \<and> (identity, g) \<in> set groups"
    with each [of identity g] pos [of identity] keys [OF sub] len show ?thesis by auto
  qed
  then show ?thesis
    using len d dom by (auto simp: partitions_def groups' distinct_update dom_update)
qed

lemma enumerate_snoc: "List.enumerate n (xs @ [x]) = List.enumerate n xs @ [(n + length xs, x)]"
  by (simp add: enumerate_append_eq)

lemma groupKeys_snoc:
  "groupKeys lower route (keys @ [k]) =
     ebind (groupKeys lower route keys) (\<lambda>groups.
     ebind (route k) (\<lambda>r. Inr (addToGroup lower True r k (length keys) groups)))"
  unfolding groupKeys_def enumerate_snoc for_each_append
  by (intro ebind_cong refl) (simp add: ebind_assoc)

lemma groupKeys_partitions:
  "groupKeys lower route keys = Inr groups \<Longrightarrow> \<exists>rts. map route keys = map Inr rts \<and> partitions lower rts keys groups"
proof (induction keys arbitrary: groups rule: rev_induct)
  case Nil
  then show ?case by (simp add: groupKeys_def partitions_Nil)
next
  case (snoc k keys)
  then obtain gs r where gs: "groupKeys lower route keys = Inr gs" and r: "route k = Inr r"
    and g: "groups = addToGroup lower True r k (length keys) gs"
    by (auto simp: groupKeys_snoc ebind_Inr_iff)
  from snoc.IH [OF gs] obtain rts where "map route keys = map Inr rts" "partitions lower rts keys gs" by blast
  with r partitions_add show ?case by (intro exI [of _ "rts @ [r]"]) (auto simp: g)
qed

subsection \<open>String keys\<close>

definition validated :: "(string \<Rightarrow> string) \<Rightarrow> topology_executor \<Rightarrow> 'k route_groups \<Rightarrow> bool" where
  "validated lower e groups \<longleftrightarrow> (\<forall>g \<in> snd ` set groups. validateEndpoint lower e (rtEndpoint (grRoute g)))"

abbreviation stringRoute :: "routing_topology \<Rightarrow> string \<Rightarrow> exec_error + routing_route" where
  "stringRoute t key \<equiv> map_err ErrTopology (routeStringKeyInTopology (Some t) key)"

lemma addToGroup_validated:
  assumes "validated lower e groups" and "distinct (map fst groups)"
    and "map_of groups (routeIdentity lower r) = None \<longrightarrow> validateEndpoint lower e (rtEndpoint r)"
  shows "validated lower e (addToGroup lower inc r k position groups)"
proof -
  define old where "old = (case map_of groups (routeIdentity lower r) of
    None \<Rightarrow> \<lparr>grRoute = r, grKeys = [], grPositions = []\<rparr> | Some g \<Rightarrow> g)"
  have "validateEndpoint lower e (rtEndpoint (grRoute old))"
  proof (cases "map_of groups (routeIdentity lower r)")
    case None
    with assms(3) show ?thesis by (simp add: old_def)
  next
    case (Some g)
    with assms(1) map_of_SomeD [OF Some] show ?thesis by (auto simp: old_def validated_def)
  qed
  note old = this
  let ?new = "old\<lparr>grKeys := grKeys old @ [k], grPositions := (if inc then grPositions old @ [position] else grPositions old)\<rparr>"
  show ?thesis unfolding validated_def
  proof
    fix g assume "g \<in> snd ` set (addToGroup lower inc r k position groups)"
    then obtain identity where "(identity, g) \<in> set (AList.update (routeIdentity lower r) ?new groups)"
      unfolding addToGroup_def Let_def old_def [symmetric] by force
    from update_members [OF assms(2) this] have "g = ?new \<or> g \<in> snd ` set groups" by force
    then show "validateEndpoint lower e (rtEndpoint (grRoute g))"
      using old assms(1) unfolding validated_def by (elim disjE) (simp, blast)
  qed
qed

lemma joinGroups_partitions:
  assumes "for_each (joinGroup lower e t True) (List.enumerate (length keys) rest) groups = Inr groups'"
    and "partitions lower rts keys groups" and "validated lower e groups"
  shows "\<exists>rts'. map (stringRoute t) rest = map Inr rts' \<and> partitions lower (rts @ rts') (keys @ rest) groups' \<and>
    validated lower e groups'"
  using assms
proof (induction rest arbitrary: keys rts groups)
  case Nil
  then show ?case by simp
next
  case (Cons k rest)
  then obtain mid where step: "joinGroup lower e t True (length keys, k) groups = Inr mid"
    and run: "for_each (joinGroup lower e t True) (List.enumerate (Suc (length keys)) rest) mid = Inr groups'"
    by (auto simp: ebind_Inr_iff)
  from step obtain r where r: "stringRoute t k = Inr r"
    and mid: "mid = addToGroup lower True r k (length keys) groups"
    and ok: "map_of groups (routeIdentity lower r) = None \<longrightarrow> validateEndpoint lower e (rtEndpoint r)"
    by (auto simp: joinGroup_def ebind_Inr_iff split: if_splits)
  have p: "partitions lower (rts @ [r]) (keys @ [k]) mid" unfolding mid by (rule partitions_add [OF Cons.prems(2)])
  have "distinct (map fst groups)" using Cons.prems(2) by (simp add: partitions_def)
  from addToGroup_validated [OF Cons.prems(3) this ok] have v: "validated lower e mid" by (simp add: mid)
  from Cons.IH [of "keys @ [k]" mid "rts @ [r]"] run p v obtain rts' where
    "map (stringRoute t) rest = map Inr rts'" "partitions lower (rts @ [r] @ rts') (keys @ k # rest) groups'"
    "validated lower e groups'" by auto
  with r show ?case by (intro exI [of _ "r # rts'"]) simp
qed

lemma firstDivergence_None:
  "firstDivergence lower t identity p keys = Inr None \<Longrightarrow>
     \<exists>rts. map (stringRoute t) keys = map Inr rts \<and> (\<forall>r \<in> set rts. routeIdentity lower r = identity)"
proof (induction keys arbitrary: p)
  case (Cons k keys)
  then obtain r where "stringRoute t k = Inr r" "routeIdentity lower r = identity"
    "firstDivergence lower t identity (p + 1) keys = Inr None"
    by (auto simp: ebind_Inr_iff split: if_splits)
  with Cons.IH [of "p + 1"] obtain rts where
    "map (stringRoute t) keys = map Inr rts" "\<forall>r \<in> set rts. routeIdentity lower r = identity" by blast
  with \<open>stringRoute t k = Inr r\<close> \<open>routeIdentity lower r = identity\<close> show ?case
    by (intro exI [of _ "r # rts"]) simp
qed simp

lemma firstDivergence_Some:
  "firstDivergence lower t identity p keys = Inr (Some d) \<Longrightarrow>
     \<exists>rts. p \<le> d \<and> d - p < length keys \<and> map (stringRoute t) (take (d - p) keys) = map Inr rts \<and>
       (\<forall>r \<in> set rts. routeIdentity lower r = identity) \<and>
       (\<forall>r. stringRoute t (keys ! (d - p)) = Inr r \<longrightarrow> routeIdentity lower r \<noteq> identity)"
proof (induction keys arbitrary: p)
  case (Cons k keys)
  then obtain r where r: "stringRoute t k = Inr r"
    and rest: "(if routeIdentity lower r \<noteq> identity then Inr (Some p)
      else firstDivergence lower t identity (p + 1) keys) = Inr (Some d)"
    by (auto simp: ebind_Inr_iff)
  show ?case
  proof (cases "routeIdentity lower r = identity")
    case False
    with rest r show ?thesis by auto
  next
    case True
    with rest Cons.IH [of "p + 1"] obtain rts where
      ih: "p + 1 \<le> d" "d - (p + 1) < length keys" "map (stringRoute t) (take (d - (p + 1)) keys) = map Inr rts"
        "\<forall>r \<in> set rts. routeIdentity lower r = identity"
        "\<forall>r. stringRoute t (keys ! (d - (p + 1))) = Inr r \<longrightarrow> routeIdentity lower r \<noteq> identity" by auto
    then have "d - p = Suc (d - (p + 1))" by simp
    with ih r True show ?thesis by (intro exI [of _ "r # rts"]) simp
  qed
qed simp

lemma partitions_single:
  assumes "length rts = length keys" and "rts \<noteq> []" and "\<forall>r \<in> set rts. routeIdentity lower r = identity"
  shows "partitions lower rts keys [(identity, \<lparr>grRoute = hd rts, grKeys = keys, grPositions = [0..<length keys]\<rparr>)]"
proof -
  have "routeIdentity lower (rts ! i) = identity" if "i < length keys" for i using assms that by simp
  then have "filter (\<lambda>i. routeIdentity lower (rts ! i) = identity) [0..<length keys] = [0..<length keys]"
    by (intro filter_True) simp
  moreover have "routeIdentity lower ` set rts = {identity}" using assms(2,3) by (cases rts) auto
  moreover have "map ((!) keys) [0..<length keys] = keys" by (rule map_nth)
  ultimately show ?thesis using assms by (simp add: partitions_def)
qed

lemma checkedRoute_Inr:
  "checkedRoute lower e t key = Inr r \<longleftrightarrow> stringRoute t key = Inr r \<and> validateEndpoint lower e (rtEndpoint r)"
  by (auto simp: checkedRoute_def ebind_Inr_iff split: if_splits)

lemma plan_single:
  assumes "planStringKeyRoutesInTopology lower e t keys inc = Inr (first, None)" and "keys \<noteq> []"
  shows "\<exists>rts. map (stringRoute t) keys = map Inr rts \<and> hd rts = first \<and>
    (\<forall>r \<in> set rts. routeIdentity lower r = routeIdentity lower first) \<and> validateEndpoint lower e (rtEndpoint first)"
proof -
  from assms(1) have c: "checkedRoute lower e t (hd keys) = Inr first"
    and f: "firstDivergence lower t (routeIdentity lower first) 1 (tl keys) = Inr None"
    by (auto simp: planStringKeyRoutesInTopology_def singleRouteInTopology_def ebind_Inr_iff Let_def split: option.splits)
  from firstDivergence_None [OF f] obtain rts where "map (stringRoute t) (tl keys) = map Inr rts"
    "\<forall>r \<in> set rts. routeIdentity lower r = routeIdentity lower first" by blast
  with c assms(2) show ?thesis by (intro exI [of _ "first # rts"]) (cases keys, auto simp: checkedRoute_Inr)
qed

lemma plan_groups:
  assumes "planStringKeyRoutesInTopology lower e t keys True = Inr (first, Some groups)" and "keys \<noteq> []"
  shows "\<exists>rts. map (stringRoute t) keys = map Inr rts \<and> partitions lower rts keys groups \<and> validated lower e groups \<and>
    1 < length groups"
proof -
  from assms(1) obtain d divergent where c: "checkedRoute lower e t (hd keys) = Inr first"
    and f: "firstDivergence lower t (routeIdentity lower first) 1 (tl keys) = Inr (Some d)"
    and c': "checkedRoute lower e t (keys ! d) = Inr divergent"
    and run: "for_each (joinGroup lower e t True) (List.enumerate (d + 1) (drop (d + 1) keys))
        [(routeIdentity lower first, \<lparr>grRoute = first, grKeys = take d keys, grPositions = [0..<d]\<rparr>),
         (routeIdentity lower divergent, \<lparr>grRoute = divergent, grKeys = [keys ! d], grPositions = [d]\<rparr>)] = Inr groups"
    by (auto simp: planStringKeyRoutesInTopology_def singleRouteInTopology_def ebind_Inr_iff Let_def split: option.splits)
  from firstDivergence_Some [OF f] obtain rts where d: "1 \<le> d" "d - 1 < length (tl keys)"
    and rts: "map (stringRoute t) (take (d - 1) (tl keys)) = map Inr rts"
      "\<forall>r \<in> set rts. routeIdentity lower r = routeIdentity lower first"
    and div: "\<forall>r. stringRoute t (tl keys ! (d - 1)) = Inr r \<longrightarrow> routeIdentity lower r \<noteq> routeIdentity lower first" by blast
  have nth: "tl keys ! (d - 1) = keys ! d" and dk: "d < length keys" using d assms(2) by (auto simp: nth_tl)
  have other: "routeIdentity lower divergent \<noteq> routeIdentity lower first" using div c' unfolding nth by (simp add: checkedRoute_Inr)
  have take: "take d keys = hd keys # take (d - 1) (tl keys)" using d assms(2) by (cases keys; cases d) auto
  let ?g = "[(routeIdentity lower first, \<lparr>grRoute = first, grKeys = take d keys, grPositions = [0..<d]\<rparr>)]"
  let ?rts = "first # rts"
  have routes: "map (stringRoute t) (take d keys) = map Inr ?rts" using rts(1) c unfolding take by (simp add: checkedRoute_Inr)
  then have "length ?rts = length (take d keys)" by (metis length_map)
  with rts(2) dk have p1: "partitions lower ?rts (take d keys) ?g"
    using partitions_single [of ?rts "take d keys" lower "routeIdentity lower first"] by auto
  have "addToGroup lower True divergent (keys ! d) d ?g = ?g @
      [(routeIdentity lower divergent, \<lparr>grRoute = divergent, grKeys = [keys ! d], grPositions = [d]\<rparr>)]" (is "_ = ?g2")
    using other by (simp add: addToGroup_def Let_def)
  with partitions_add [OF p1, of divergent "keys ! d"] dk
  have p2: "partitions lower (?rts @ [divergent]) (take (d + 1) keys) ?g2"
    by (simp add: take_Suc_conv_app_nth)
  have "validated lower e ?g2" using c c' by (simp add: validated_def checkedRoute_Inr)
  with joinGroups_partitions [of lower e t "take (d + 1) keys" "drop (d + 1) keys" ?g2 groups, OF _ p2] run dk
  obtain rts' where r: "map (stringRoute t) (drop (d + 1) keys) = map Inr rts'"
    and p: "partitions lower ((?rts @ [divergent]) @ rts') (take (d + 1) keys @ drop (d + 1) keys) groups"
    and v: "validated lower e groups" by auto
  have "map (stringRoute t) (take (d + 1) keys @ drop (d + 1) keys) = map Inr ((?rts @ [divergent]) @ rts')"
    using routes c' r dk by (simp add: take_Suc_conv_app_nth checkedRoute_Inr)
  moreover have "1 < length groups"
  proof -
    have "{routeIdentity lower first, routeIdentity lower divergent} \<subseteq> fst ` set groups"
      using p by (auto simp: partitions_def)
    then have "card {routeIdentity lower first, routeIdentity lower divergent} \<le> card (fst ` set groups)"
      by (intro card_mono) auto
    also have "\<dots> \<le> length groups" using card_length [of "map fst groups"] by simp
    finally show ?thesis using other by simp
  qed
  ultimately show ?thesis using p v by (simp only: append_take_drop_id) blast
qed

subsection \<open>The loops\<close>

lemma planLoop_Inr:
  "planLoop plan obs refreshed = Inr (snap, p) \<Longrightarrow>
     \<exists>captured seen refresh. (captured, seen, refresh) \<in> set obs \<and> captureRoutingTopology captured = Inr snap \<and>
       routingSnapshotCurrent seen snap \<and> plan captured snap = Inr p"
proof (induction obs arbitrary: refreshed)
  case (Cons ob obs)
  obtain captured seen refresh where ob: "ob = (captured, seen, refresh)" by (cases ob)
  from Cons.prems obtain snap' where c: "captureRoutingTopology captured = Inr snap'"
    by (auto simp: ob ebind_Inr_iff)
  have "(routingSnapshotCurrent seen snap' \<and> plan captured snap' = Inr p \<and> snap' = snap) \<or>
      (\<exists>refreshed. planLoop plan obs refreshed = Inr (snap, p))"
    using Cons.prems c by (cases "plan captured snap'") (auto simp: ob split: if_splits option.splits)
  then show ?case
  proof
    assume "routingSnapshotCurrent seen snap' \<and> plan captured snap' = Inr p \<and> snap' = snap"
    with c have "(captured, seen, refresh) \<in> set (ob # obs) \<and> captureRoutingTopology captured = Inr snap \<and>
        routingSnapshotCurrent seen snap \<and> plan captured snap = Inr p" by (auto simp: ob)
    then show ?thesis by blast
  next
    assume "\<exists>refreshed. planLoop plan obs refreshed = Inr (snap, p)"
    with Cons.IH show ?thesis by (meson list.set_intros(2))
  qed
qed simp

lemma planLoop_takes: "planLoop plan (take n obs) r = Inr (snap, p) \<Longrightarrow>
     \<exists>captured seen refresh. (captured, seen, refresh) \<in> set obs \<and> captureRoutingTopology captured = Inr snap \<and>
       routingSnapshotCurrent seen snap \<and> plan captured snap = Inr p"
  by (drule planLoop_Inr) (meson in_set_takeD)

text \<open>
  C26. A plan for string keys is right for a topology that was current: it was made from a snapshot
  captured in one attempt and still current when checked; every key has a route; and either all keys share
  the route returned, or the groups partition the positions by route, each group with its keys in order
  and an endpoint the policy allows.
\<close>

theorem plan_partitions_keys:
  assumes "planStringKeyRoutesSnapshot lower obs keys True = Inr (snap, first, plan)" and "keys \<noteq> []"
  shows "\<exists>captured seen refresh rts. (captured, seen, refresh) \<in> set obs \<and>
    captureRoutingTopology captured = Inr snap \<and> routingSnapshotCurrent seen snap \<and>
    map (\<lambda>k. routeStringKeyInTopology (Some (snd (fst snap))) k) keys = map Inr rts \<and>
    (case plan of
       None \<Rightarrow> hd rts = first \<and> (\<forall>r \<in> set rts. routeIdentity lower r = routeIdentity lower first) \<and>
         validateEndpoint lower captured (rtEndpoint first)
     | Some groups \<Rightarrow> partitions lower rts keys groups \<and> validated lower captured groups \<and> 1 < length groups)"
proof -
  from planLoop_takes [OF assms(1) [unfolded planStringKeyRoutesSnapshot_def]]
  obtain captured seen refresh where o: "(captured, seen, refresh) \<in> set obs" "captureRoutingTopology captured = Inr snap"
    "routingSnapshotCurrent seen snap"
    and p: "planStringKeyRoutesInTopology lower captured (snd (fst snap)) keys True = Inr (first, plan)" by auto
  have strip: "map (\<lambda>k. routeStringKeyInTopology (Some t) k) ks = map Inr rts"
    if "map (stringRoute t) ks = map Inr rts" for t ks rts
  proof -
    have "stringRoute t k = Inr r \<Longrightarrow> routeStringKeyInTopology (Some t) k = Inr r" for k r
      by (cases "routeStringKeyInTopology (Some t) k") simp_all
    with that show ?thesis by (auto simp: list_eq_iff_nth_eq)
  qed
  show ?thesis
  proof (cases plan)
    case None
    with plan_single [of lower captured "snd (fst snap)" keys True first] p assms(2) o strip show ?thesis by fastforce
  next
    case (Some groups)
    with plan_groups [of lower captured "snd (fst snap)" keys first groups] p assms(2) o strip show ?thesis by fastforce
  qed
qed

definition sampleOtherRoute :: routing_route where
  "sampleOtherRoute = sampleRoute\<lparr>rtShard := 1, rtLaneID := 2\<rparr>"

definition sampleTwoShards :: routing_topology where
  "sampleTwoShards = sampleTopology\<lparr>tpShardCount := 2,
     tpSlots := (\<lambda>slot. if slot = routeSlotForString ''a'' then Some (sampleOtherRoute\<lparr>rtSlot := slot\<rparr>)
                        else if slot < 1024 then Some (sampleRoute\<lparr>rtSlot := slot\<rparr>) else None)\<rparr>"

definition samplePlanner :: topology_executor where
  "samplePlanner = sampleExecutor\<lparr>txTopology := (1, sampleTwoShards)\<rparr>"

lemma crcShift_eight:
  "(crcShift ^^ 8) x = crcShift (crcShift (crcShift (crcShift (crcShift (crcShift (crcShift (crcShift x)))))))"
  by (simp add: eval_nat_numeral)

lemma sample_slots: "routeSlotForString ''a'' = 579" "routeSlotForString ''b'' = 1017"
proof -
  have b: "bytes_of ''a'' = [97]" "bytes_of ''b'' = [98]" by code_simp+
  have "slotOf ''a'' = 579" "slotOf ''b'' = 1017"
    by (simp_all add: slotOf_def routeCRC32_def crcByte_bitwise b crcShift_eight crcShift_def bit_0 routeSlotMask_def)
  then show "routeSlotForString ''a'' = 579" "routeSlotForString ''b'' = 1017"
    by (simp_all add: routeSlotForString_def hashTagOrKey_def indexByte_def)
qed

lemma sample_routes:
  "routeStringKeyInTopology (Some sampleTwoShards) ''a'' = Inr (sampleOtherRoute\<lparr>rtSlot := 579\<rparr>)"
  "routeStringKeyInTopology (Some sampleTwoShards) ''b'' = Inr (sampleRoute\<lparr>rtSlot := 1017\<rparr>)"
  by (simp_all add: routeStringKeyInTopology_def sampleTwoShards_def sample_slots)

lemma sample_identity:
  "routeIdentity lower (sampleRoute\<lparr>rtSlot := n\<rparr>) = (''db:6388'', 1)"
  "routeIdentity lower (sampleOtherRoute\<lparr>rtSlot := n\<rparr>) = (''db:6388'', 2)"
  by (simp_all add: routeIdentity_def sampleRoute_def sampleOtherRoute_def)

lemma sample_route_endpoint:
  "rtEndpoint (sampleRoute\<lparr>rtSlot := n\<rparr>) = sampleEndpoint"
  "rtEndpoint (sampleOtherRoute\<lparr>rtSlot := n\<rparr>) = sampleEndpoint"
  by (simp_all add: sampleRoute_def sampleOtherRoute_def)

lemma sample_route_endpoint_ok: "validateEndpoint lowerAscii samplePlanner sampleEndpoint"
proof -
  have "lowerAscii ''db'' = ''db''" by code_simp
  then show ?thesis by (simp add: validateEndpoint_def samplePlanner_def sampleExecutor_def sampleEndpoint_def)
qed

definition samplePlan :: "string route_groups" where
  "samplePlan =
     [((''db:6388'', 1), \<lparr>grRoute = sampleRoute\<lparr>rtSlot := 1017\<rparr>, grKeys = [''b'', ''b''], grPositions = [0, 2]\<rparr>),
      ((''db:6388'', 2), \<lparr>grRoute = sampleOtherRoute\<lparr>rtSlot := 579\<rparr>, grKeys = [''a''], grPositions = [1]\<rparr>)]"

theorem plan_partitions_keys_witness:
  "planStringKeyRoutesSnapshot lowerAscii [(samplePlanner, samplePlanner, None)] [''b'', ''a'', ''b''] True =
     Inr (((1, sampleTwoShards), 0), sampleRoute\<lparr>rtSlot := 1017\<rparr>, Some samplePlan) \<and>
   (\<exists>rts. partitions lowerAscii rts [''b'', ''a'', ''b''] samplePlan)"
proof -
  have "planStringKeyRoutesInTopology lowerAscii samplePlanner sampleTwoShards [''b'', ''a'', ''b''] True =
      Inr (sampleRoute\<lparr>rtSlot := 1017\<rparr>, Some samplePlan)"
    by (simp add: planStringKeyRoutesInTopology_def singleRouteInTopology_def checkedRoute_def sample_routes sample_identity
        sample_route_endpoint sample_route_endpoint_ok joinGroup_def addToGroup_def samplePlan_def)
  then have plan: "planStringKeyRoutesSnapshot lowerAscii [(samplePlanner, samplePlanner, None)] [''b'', ''a'', ''b''] True =
     Inr (((1, sampleTwoShards), 0), sampleRoute\<lparr>rtSlot := 1017\<rparr>, Some samplePlan)"
    by (simp add: planStringKeyRoutesSnapshot_def maxTopologyPlanningAttempts_def captureRoutingTopology_def
        routingSnapshotCurrent_def samplePlanner_def sampleExecutor_def)
  from plan_partitions_keys [OF plan] plan show ?thesis by auto
qed

end
