(* ===== verification/Integers.thy ===== *)
theory Integers
  imports ResponseMap
begin

section \<open>Integer replies\<close>

text \<open>
  \<open>responseInt64\<close> and \<open>boundedCountResponse\<close> of \<open>src/response.go\<close> and the overflow-checked decimal parser
  of \<open>src/response_scalar_helpers.go\<close>, which works on unsigned 64-bit arithmetic.
\<close>

datatype integer_error = ErrNilReply | ErrExpectedInteger | ErrCountRange int nat

text \<open>The loop over the digits: \<open>result\<close> is the value so far, \<open>limit\<close> the largest magnitude allowed.\<close>

fun intDigits :: "64 word \<Rightarrow> bytes \<Rightarrow> 64 word \<Rightarrow> 64 word option" where
  "intDigits limit [] result = Some result"
| "intDigits limit (d # rest) result =
     (if d < 48 \<or> d > 57 then None
      else
        let v = ucast (d - 48) in
        if result > (limit - v) div 10 then None
        else intDigits limit rest (result * 10 + v))"

definition parseResponseIntBytes :: "bytes \<Rightarrow> int option" where
  "parseResponseIntBytes value =
     (case bytes_of (trimSpace (string_of value)) of
        [] \<Rightarrow> None
      | c # rest \<Rightarrow>
          let signed = (c = 43 \<or> c = 45);
              negative = (c = 45);
              digits = (if signed then rest else c # rest);
              limit = (if negative then 2 ^ 63 else 2 ^ 63 - 1) in
          if digits = [] then None
          else
            (case intDigits limit digits 0 of
               None \<Rightarrow> None
             | Some result \<Rightarrow>
                 if \<not> negative then Some (sint result)
                 else if result = 2 ^ 63 then Some minInt64
                 else Some (- sint result)))"

fun responseInt64 :: "goval \<Rightarrow> integer_error + int" where
  "responseInt64 VNil = Inl ErrNilReply"
| "responseInt64 (VInt n) = Inr (sint n)"
| "responseInt64 (VInt8 n) = Inr (sint n)"
| "responseInt64 (VInt16 n) = Inr (sint n)"
| "responseInt64 (VInt32 n) = Inr (sint n)"
| "responseInt64 (VUint n) = (if uint n \<le> maxInt64 then Inr (uint n) else Inl ErrExpectedInteger)"
| "responseInt64 (VUint8 n) = Inr (uint n)"
| "responseInt64 (VUint16 n) = Inr (uint n)"
| "responseInt64 (VUint32 n) = Inr (uint n)"
| "responseInt64 (VString s) = (case parseInt64 (trimSpace s) of None \<Rightarrow> Inl ErrExpectedInteger | Some n \<Rightarrow> Inr n)"
| "responseInt64 (VBytes b) = (case parseResponseIntBytes b of None \<Rightarrow> Inl ErrExpectedInteger | Some n \<Rightarrow> Inr n)"
| "responseInt64 _ = Inl ErrExpectedInteger"

definition boundedCountResponse :: "nat \<Rightarrow> goval \<Rightarrow> integer_error + int" where
  "boundedCountResponse maximum v =
     ebind (responseInt64 v) (\<lambda>cnt. if cnt < 0 \<or> cnt > int maximum then Inl (ErrCountRange cnt maximum) else Inr cnt)"

subsection \<open>The parser does not overflow\<close>

lemma digitsValue_mono: "digitsValue acc s = Some n \<Longrightarrow> acc \<le> n"
  by (induction s arbitrary: acc) (fastforce simp: bind_eq_Some_conv)+

lemma digit_step:
  fixes result limit v :: "64 word"
  assumes "v \<le> limit"
  shows "result > (limit - v) div 10 \<longleftrightarrow> 10 * unat result + unat v > unat limit"
proof -
  have "unat ((limit - v) div 10) = (unat limit - unat v) div 10"
    using assms by (simp add: unat_div unat_sub)
  moreover have "unat v \<le> unat limit" using assms by (simp add: word_le_nat_alt)
  ultimately show ?thesis by (simp add: word_less_nat_alt) linarith
qed

lemma intDigits_digitsValue:
  assumes "10 \<le> limit" and "result \<le> limit"
  shows "intDigits limit (bytes_of s) result =
    (case digitsValue (unat result) s of
       None \<Rightarrow> None | Some n \<Rightarrow> if n \<le> unat limit then Some (word_of_nat n) else None)"
  using assms(2)
proof (induction s arbitrary: result)
  case Nil
  then show ?case by (simp add: bytes_of_def word_le_nat_alt)
next
  case (Cons c s)
  define d :: byte where "d = word_of_nat (of_char c)"
  have b: "bytes_of (c # s) = d # bytes_of s" by (simp add: bytes_of_def d_def)
  have d: "unat d = of_char c" by (simp add: d_def unat_of_nat)
  have range: "\<not> (d < 48 \<or> d > 57) \<longleftrightarrow> 48 \<le> (of_char c :: nat) \<and> (of_char c :: nat) \<le> 57"
    by (auto simp: word_less_nat_alt d)
  show ?case
  proof (cases "d < 48 \<or> d > 57")
    case True
    with range have "digitValue c = None" by (simp add: digitValue_def Let_def)
    with True show ?thesis unfolding b by simp
  next
    case False
    define v :: "64 word" where "v = ucast (d - 48)"
    have "48 \<le> d" using False by (simp add: not_less)
    moreover have "of_char c - 48 < (2 :: nat) ^ 64" using range False by auto
    ultimately have v: "unat v = of_char c - 48"
      using d by (simp add: v_def unsigned_ucast_eq unat_sub take_bit_nat_eq_self)
    then have small: "unat v < 10" using False range by auto
    then have vl: "v \<le> limit" using assms(1) by (simp add: word_le_nat_alt)
    have val: "digitValue c = Some (unat v)" using False range v by (simp add: digitValue_def Let_def)
    show ?thesis
    proof (cases "result > (limit - v) div 10")
      case True
      then have big: "10 * unat result + unat v > unat limit" using digit_step [OF vl] by blast
      then have "\<not> n \<le> unat limit" if "digitsValue (10 * unat result + unat v) s = Some n" for n
        using digitsValue_mono [OF that] by simp
      with True False val show ?thesis unfolding b by (simp add: v_def [symmetric] Let_def split: option.split)
    next
      case fits: False
      then have le: "10 * unat result + unat v \<le> unat limit" using digit_step [OF vl, of result] by auto
      moreover have "unat limit < 2 ^ 64" using unsigned_less [of limit] by simp
      ultimately have "unat (result * 10 + v) = 10 * unat result + unat v"
        by (simp add: unat_word_ariths)
      moreover from this le have "result * 10 + v \<le> limit" by (simp add: word_le_nat_alt)
      ultimately show ?thesis
        using fits False val Cons.IH [of "result * 10 + v"] unfolding b by (simp add: v_def [symmetric] Let_def)
    qed
  qed
qed

lemma sint_of_small_nat: "n < 2 ^ 63 \<Longrightarrow> sint (word_of_nat n :: 64 word) = int n"
  by (simp add: sint_uint unsigned_of_nat take_bit_nat_eq_self signed_take_bit_int_eq_self)

lemma sign_bytes:
  "word_of_nat (of_char c) = (43 :: byte) \<longleftrightarrow> c = CHR ''+''" "word_of_nat (of_char c) = (45 :: byte) \<longleftrightarrow> c = CHR ''-''"
proof -
  have s: "bytes_of ''+'' = [43]" "bytes_of ''-'' = [45]" by code_simp+
  show "word_of_nat (of_char c) = (43 :: byte) \<longleftrightarrow> c = CHR ''+''" "word_of_nat (of_char c) = (45 :: byte) \<longleftrightarrow> c = CHR ''-''"
    using bytes_of_inject [of "[c]" "''+''"] bytes_of_inject [of "[c]" "''-''"] unfolding s by (simp_all add: bytes_of_def)
qed

lemma magnitude_plus:
  "(case intDigits (2 ^ 63 - 1) (bytes_of ds) 0 of None \<Rightarrow> None | Some result \<Rightarrow> Some (sint result)) =
   (case digitsValue 0 ds of None \<Rightarrow> None | Some n \<Rightarrow> if int n \<le> maxInt64 then Some (int n) else None)"
proof -
  have "intDigits (2 ^ 63 - 1) (bytes_of ds) 0 =
      (case digitsValue 0 ds of None \<Rightarrow> None | Some n \<Rightarrow> if n \<le> 2 ^ 63 - 1 then Some (word_of_nat n) else None)"
  proof -
    have u: "unat (2 ^ 63 - 1 :: 64 word) = 2 ^ 63 - 1" "(10 :: 64 word) \<le> 2 ^ 63 - 1" by simp_all
    show ?thesis using intDigits_digitsValue [OF u(2), of 0 ds] unfolding u by simp
  qed
  then show ?thesis by (auto simp: maxInt64_def sint_of_small_nat split: option.split)
qed

lemma magnitude_minus:
  "(case intDigits (2 ^ 63) (bytes_of ds) 0 of
      None \<Rightarrow> None | Some result \<Rightarrow> if result = 2 ^ 63 then Some minInt64 else Some (- sint result)) =
   (case digitsValue 0 ds of None \<Rightarrow> None | Some n \<Rightarrow> if minInt64 \<le> - int n then Some (- int n) else None)"
proof -
  have run: "intDigits (2 ^ 63) (bytes_of ds) 0 =
      (case digitsValue 0 ds of None \<Rightarrow> None | Some n \<Rightarrow> if n \<le> 2 ^ 63 then Some (word_of_nat n) else None)"
  proof -
    have u: "unat (2 ^ 63 :: 64 word) = 2 ^ 63" "(10 :: 64 word) \<le> 2 ^ 63" by simp_all
    show ?thesis using intDigits_digitsValue [OF u(2), of 0 ds] unfolding u by simp
  qed
  have top: "word_of_nat n = (2 ^ 63 :: 64 word) \<longleftrightarrow> n = 2 ^ 63" if "n \<le> 2 ^ 63" for n
  proof -
    have "word_of_nat n = (2 ^ 63 :: 64 word) \<longleftrightarrow> unat (word_of_nat n :: 64 word) = unat (2 ^ 63 :: 64 word)"
      by (simp only: word_unat_eq_iff)
    also have "unat (word_of_nat n :: 64 word) = n" using that by (simp add: unsigned_of_nat take_bit_nat_eq_self)
    finally show ?thesis by simp
  qed
  have small: "- sint (word_of_nat n :: 64 word) = - int n" if "n \<le> 2 ^ 63" "n \<noteq> 2 ^ 63" for n
    using that by (simp add: sint_of_small_nat)
  show ?thesis unfolding run using top small by (auto simp: minInt64_def split: option.split)
qed

text \<open>
  The hand-written overflow checks of the integer parser are exact: on any bytes it returns what
  parsing the trimmed text as an unbounded decimal and checking the 64-bit range returns, the smallest
  integer included.
\<close>

theorem int_parser_exact: "parseResponseIntBytes value = parseInt64 (trimSpace (string_of value))"
proof (cases "trimSpace (string_of value)")
  case Nil
  then show ?thesis by (simp add: parseResponseIntBytes_def parseInt64_def parseDecimal_def bytes_of_def)
next
  case (Cons c cs)
  have b: "bytes_of (trimSpace (string_of value)) = word_of_nat (of_char c) # bytes_of cs"
    unfolding Cons by (simp add: bytes_of_def)
  have m: "bytes_of (c # cs) = word_of_nat (of_char c) # bytes_of cs" by (simp add: bytes_of_def)
  have low: "minInt64 \<le> int n" "- int n \<le> maxInt64" for n by (simp_all add: minInt64_def maxInt64_def)
  consider "c = CHR ''-''" | "c = CHR ''+''" | "c \<noteq> CHR ''+''" "c \<noteq> CHR ''-''" by blast
  then show ?thesis
  proof cases
    case 1
    then show ?thesis
      unfolding parseResponseIntBytes_def b unfolding parseInt64_def parseDecimal_def Cons using magnitude_minus [of cs] low
      by (auto simp: sign_bytes Let_def split: option.splits if_splits)
  next
    case 2
    then show ?thesis
      unfolding parseResponseIntBytes_def b unfolding parseInt64_def parseDecimal_def Cons using magnitude_plus [of cs] low
      by (auto simp: sign_bytes Let_def split: option.splits if_splits)
  next
    case 3
    then show ?thesis
      unfolding parseResponseIntBytes_def b unfolding parseInt64_def parseDecimal_def Cons using magnitude_plus [of "c # cs"] low
      unfolding m by (auto simp: sign_bytes Let_def split: option.splits if_splits)
  qed
qed

end
