(* ===== verification/Scatter.thy ===== *)
theory Scatter
  imports PlanningCorrect Integers
begin

section \<open>Scattered commands\<close>

text \<open>
  The generic scatter of \<open>src/topology_scatter_command.go\<close> and \<open>src/topology_scatter_retry.go\<close>, with the
  errors of \<open>src/topology_errors.go\<close>: a multi-key command is sent to the route of each group of keys, a
  refused group is planned and sent once more, and the replies are put together. The typed batches of the
  client, which send payloads of their own, are not modelled here.

  The groups run concurrently, but each writes its own positions and reports once, so their order only
  decides which error comes first. What the servers answer is the environment; an error of building the
  command of a group (\<open>scatterCommandArgs\<close>, \<open>buildNativeCommand\<close>) is one that keeps the group from its
  adapter, as a failed connection does.
\<close>

subsection \<open>Errors\<close>

datatype scatter_error =
    ScExec exec_error
  | ScPlan exec_error
  | ScCrossShard string
  | ScItems nat
  | ScInteger integer_error
  | ScCountRange int nat
  | ScWriteFailure routing_route "string list" scatter_error
  | ScPartialWrite string int "scatter_error list"

definition topologyKeyWriteFailure :: "bool \<Rightarrow> routing_route \<Rightarrow> arg list \<Rightarrow> scatter_error \<Rightarrow> scatter_error" where
  "topologyKeyWriteFailure attributed route keys err =
     (if \<not> attributed then err else ScWriteFailure route (map keyText keys) err)"

text \<open>
  The order in which the failures of a partial write are reported: attributed ones first, by endpoint,
  shard, lane, keys and message. \<open>lessStrings\<close> compares strings by their bytes. \<open>message\<close> is the text of an
  error.
\<close>

fun lessString :: "string \<Rightarrow> string \<Rightarrow> bool" where
  "lessString [] [] = False"
| "lessString [] (_ # _) = True"
| "lessString (_ # _) [] = False"
| "lessString (a # s) (b # t) =
     (if (of_char a :: nat) < of_char b then True else if (of_char b :: nat) < of_char a then False else lessString s t)"

fun compareTopologyFailureKeys :: "string list \<Rightarrow> string list \<Rightarrow> int" where
  "compareTopologyFailureKeys [] [] = 0"
| "compareTopologyFailureKeys [] (_ # _) = -1"
| "compareTopologyFailureKeys (_ # _) [] = 1"
| "compareTopologyFailureKeys (a # s) (b # t) =
     (if lessString a b then -1 else if lessString b a then 1 else compareTopologyFailureKeys s t)"

fun failureOf :: "scatter_error \<Rightarrow> (routing_route \<times> string list \<times> scatter_error) option" where
  "failureOf (ScWriteFailure route keys err) = Some (route, keys, err)"
| "failureOf _ = None"

definition topologyFailureLess ::
  "(string \<Rightarrow> string) \<Rightarrow> (scatter_error \<Rightarrow> string) \<Rightarrow> scatter_error \<Rightarrow> scatter_error \<Rightarrow> bool"
where
  "topologyFailureLess lower message left right =
     (case (failureOf left, failureOf right) of
        (None, None) \<Rightarrow> lessString (message left) (message right)
      | (Some _, None) \<Rightarrow> True
      | (None, Some _) \<Rightarrow> False
      | (Some (l, lkeys, lerr), Some (r, rkeys, rerr)) \<Rightarrow>
          let le = fst (routeIdentity lower l); re = fst (routeIdentity lower r) in
          if le \<noteq> re then lessString le re
          else if rtShard l \<noteq> rtShard r then rtShard l < rtShard r
          else if rtLaneID l \<noteq> rtLaneID r then rtLaneID l < rtLaneID r
          else if compareTopologyFailureKeys lkeys rkeys \<noteq> 0 then compareTopologyFailureKeys lkeys rkeys < 0
          else lessString (message lerr) (message rerr))"

text \<open>A stable sort by insertion: an element goes before the first one it is less than.\<close>

fun insertFailure :: "('a \<Rightarrow> 'a \<Rightarrow> bool) \<Rightarrow> 'a \<Rightarrow> 'a list \<Rightarrow> 'a list" where
  "insertFailure lt x [] = [x]"
| "insertFailure lt x (y # ys) = (if lt y x then y # insertFailure lt x ys else x # y # ys)"

definition stableSort :: "('a \<Rightarrow> 'a \<Rightarrow> bool) \<Rightarrow> 'a list \<Rightarrow> 'a list" where
  "stableSort lt xs = foldr (insertFailure lt) xs []"

definition newTopologyPartialWriteError ::
  "(string \<Rightarrow> string) \<Rightarrow> (scatter_error \<Rightarrow> string) \<Rightarrow> string \<Rightarrow> int \<Rightarrow> scatter_error list \<Rightarrow> scatter_error"
where
  "newTopologyPartialWriteError lower message command succeeded failures =
     ScPartialWrite command succeeded (stableSort (topologyFailureLess lower message) failures)"

subsection \<open>One group\<close>

text \<open>
  What a group's task meets: whether an adapter and a command can be made, the reply of the route's
  server, and what the refresh after a failure meets. The flag tells the second attempt from the first.
\<close>

record scatter_world =
  swPlan :: "bool \<Rightarrow> arg list \<Rightarrow> plan_obs list"
  swAdapter :: "bool \<Rightarrow> routing_route \<Rightarrow> exec_error option"
  swReply :: "bool \<Rightarrow> routing_route \<Rightarrow> string \<Rightarrow> arg list \<Rightarrow> exec_error + goval"
  swRefresh :: "arg list \<Rightarrow> refresh_obs"

record group_result =
  gsValues :: "goval list"
  gsCount :: int
  gsFailures :: "scatter_error list"

definition failedScatterGroup :: "bool \<Rightarrow> arg route_group \<Rightarrow> scatter_error \<Rightarrow> group_result" where
  "failedScatterGroup attributed g err =
     \<lparr>gsValues = [], gsCount = 0, gsFailures = [topologyKeyWriteFailure attributed (grRoute g) (grKeys g) err]\<rparr>"

fun arrayItems :: "goval \<Rightarrow> goval list option" where
  "arrayItems (VArray _ vs) = Some vs"
| "arrayItems _ = None"

definition decodedScatterGroup :: "string \<Rightarrow> arg route_group \<Rightarrow> goval \<Rightarrow> bool \<Rightarrow> group_result" where
  "decodedScatterGroup name g v attributed =
     (if name = ''MGET'' then
        (case arrayItems v of
           None \<Rightarrow> failedScatterGroup attributed g (ScItems (length (grPositions g)))
         | Some vs \<Rightarrow>
             if length vs \<noteq> length (grPositions g)
             then failedScatterGroup attributed g (ScItems (length (grPositions g)))
             else \<lparr>gsValues = vs, gsCount = 0, gsFailures = []\<rparr>)
      else
        (case responseInt64 v of
           Inl err \<Rightarrow> failedScatterGroup attributed g (ScInteger err)
         | Inr cnt \<Rightarrow>
             if cnt < 0 \<or> cnt > int (length (grKeys g))
             then failedScatterGroup attributed g (ScCountRange cnt (length (grKeys g)))
             else \<lparr>gsValues = [], gsCount = cnt, gsFailures = []\<rparr>))"

text \<open>
  \<open>executeScatterCommandGroup\<close>; \<open>onError\<close> is what it does with a failed reply: with \<open>allowSafeReroute\<close> a
  refresh and perhaps a retry, without it the failure.
\<close>

definition executeScatterCommandGroup ::
  "scatter_world \<Rightarrow> bool \<Rightarrow> (arg route_group \<Rightarrow> exec_error \<Rightarrow> group_result) \<Rightarrow> string \<Rightarrow> arg route_group \<Rightarrow> group_result"
where
  "executeScatterCommandGroup w second onError name g =
     (case swAdapter w second (grRoute g) of
        Some err \<Rightarrow> failedScatterGroup (destructiveScatterCommand name) g (ScExec err)
      | None \<Rightarrow>
          (case swReply w second (grRoute g) name (grKeys g) of
             Inl err \<Rightarrow> onError g err
           | Inr v \<Rightarrow> decodedScatterGroup name g v (destructiveScatterCommand name)))"

subsection \<open>All groups\<close>

text \<open>A group without values leaves its slots nil.\<close>

definition placeValues :: "nat list \<Rightarrow> goval list \<Rightarrow> goval list \<Rightarrow> goval list" where
  "placeValues positions vs slots =
     (if vs = [] then slots else foldl (\<lambda>slots (position, item). slots[position := item]) slots (zip positions vs))"

definition scatterAttempt ::
  "(string \<Rightarrow> string) \<Rightarrow> (scatter_error \<Rightarrow> string) \<Rightarrow> scatter_world \<Rightarrow> bool \<Rightarrow> bool \<Rightarrow>
   (arg route_group \<Rightarrow> exec_error \<Rightarrow> group_result) \<Rightarrow> string \<Rightarrow> arg list \<Rightarrow> scatter_error + goval"
where
  "scatterAttempt lower message w perShard second onError name keys =
     (case planScatterRoutes lower (swPlan w second keys) keys of
        Inl err \<Rightarrow> Inl (ScPlan err)
      | Inr (snap, groups) \<Rightarrow>
          if 1 < length groups \<and> destructiveScatterCommand name \<and> \<not> perShard then Inl (ScCrossShard name)
          else
            let results = map (\<lambda>(_, g). (g, executeScatterCommandGroup w second onError name g)) groups;
                slots = foldl (\<lambda>slots (g, r). placeValues (grPositions g) (gsValues r) slots)
                          (replicate (length keys) VNil) results;
                total = sum_list (map (gsCount \<circ> snd) results);
                failures = concat (map (gsFailures \<circ> snd) results) in
            if failures \<noteq> [] then
              (if destructiveScatterCommand name then Inl (newTopologyPartialWriteError lower message name total failures)
               else Inl (hd failures))
            else if name = ''MGET'' then Inr (VArray None slots)
            else Inr (VInt (word_of_int total)))"

text \<open>The second attempt of a group plans its keys again and does not try a third time.\<close>

definition retryScatterCommandGroup ::
  "(string \<Rightarrow> string) \<Rightarrow> (scatter_error \<Rightarrow> string) \<Rightarrow> scatter_world \<Rightarrow> bool \<Rightarrow> string \<Rightarrow> arg route_group \<Rightarrow> group_result"
where
  "retryScatterCommandGroup lower message w perShard name g =
     (case scatterAttempt lower message w perShard True
             (\<lambda>g err. failedScatterGroup (destructiveScatterCommand name) g (ScExec err)) name (grKeys g) of
        Inl (ScPartialWrite _ succeeded failures) \<Rightarrow> \<lparr>gsValues = [], gsCount = succeeded, gsFailures = failures\<rparr>
      | Inl err \<Rightarrow> \<lparr>gsValues = [], gsCount = 0, gsFailures = [err]\<rparr>
      | Inr v \<Rightarrow>
          if name = ''MGET'' then
            (case arrayItems v of
               None \<Rightarrow> failedScatterGroup False g (ScItems (length (grKeys g)))
             | Some vs \<Rightarrow>
                 if length vs \<noteq> length (grKeys g) then failedScatterGroup False g (ScItems (length (grKeys g)))
                 else \<lparr>gsValues = vs, gsCount = 0, gsFailures = []\<rparr>)
          else
            (case responseInt64 v of
               Inl err \<Rightarrow> failedScatterGroup (destructiveScatterCommand name) g (ScInteger err)
             | Inr cnt \<Rightarrow>
                 if cnt < 0 \<or> cnt > int (length (grKeys g))
                 then failedScatterGroup (destructiveScatterCommand name) g (ScCountRange cnt (length (grKeys g)))
                 else \<lparr>gsValues = [], gsCount = cnt, gsFailures = []\<rparr>))"

definition rerouteGroup ::
  "(string \<Rightarrow> string) \<Rightarrow> (scatter_error \<Rightarrow> string) \<Rightarrow> scatter_world \<Rightarrow> bool \<Rightarrow> string \<Rightarrow> arg route_group \<Rightarrow> exec_error \<Rightarrow>
   group_result"
where
  "rerouteGroup lower message w perShard name g err =
     (case refreshAndCanRetrySafeReroute (swRefresh w (grKeys g)) err 0 of
        Inl retryErr \<Rightarrow> failedScatterGroup (destructiveScatterCommand name) g (ScExec retryErr)
      | Inr True \<Rightarrow> retryScatterCommandGroup lower message w perShard name g
      | Inr False \<Rightarrow> failedScatterGroup (destructiveScatterCommand name) g (ScExec err))"

definition scatterCommandWithContext ::
  "(string \<Rightarrow> string) \<Rightarrow> (scatter_error \<Rightarrow> string) \<Rightarrow> scatter_world \<Rightarrow> bool \<Rightarrow> string \<Rightarrow> arg list \<Rightarrow> scatter_error + goval"
where
  "scatterCommandWithContext lower message w perShard name keys =
     scatterAttempt lower message w perShard False (rerouteGroup lower message w perShard name) name keys"

subsection \<open>Putting values in their places\<close>

lemma place_zip:
  assumes "\<forall>p \<in> set ps. p < length slots"
  shows "foldl (\<lambda>slots (position, item). slots[position := item]) slots (zip ps (map f ps)) =
    map (\<lambda>i. if i \<in> set ps then f i else slots ! i) [0..<length slots]"
  using assms
proof (induction ps arbitrary: slots)
  case Nil
  then show ?case by (simp add: map_nth)
next
  case (Cons p ps)
  then show ?case by (auto simp: nth_list_update intro!: nth_equalityI)
qed

lemma placeValues_map:
  assumes "\<forall>p \<in> set ps. p < length slots"
  shows "placeValues ps (map f ps) slots = map (\<lambda>i. if i \<in> set ps then f i else slots ! i) [0..<length slots]"
  using place_zip [OF assms] by (auto simp: placeValues_def map_nth)

lemma place_groups:
  assumes "\<forall>(g, r) \<in> set rs. gsValues r = map f (grPositions g) \<and> (\<forall>p \<in> set (grPositions g). p < length slots)"
  shows "foldl (\<lambda>slots (g, r). placeValues (grPositions g) (gsValues r) slots) slots rs =
    map (\<lambda>i. if \<exists>(g, r) \<in> set rs. i \<in> set (grPositions g) then f i else slots ! i) [0..<length slots]"
  using assms
proof (induction rs arbitrary: slots)
  case Nil
  then show ?case by (simp add: map_nth)
next
  case (Cons gr rs)
  obtain g r where gr: "gr = (g, r)" by (cases gr)
  define mid where "mid = placeValues (grPositions g) (gsValues r) slots"
  have mid: "mid = map (\<lambda>i. if i \<in> set (grPositions g) then f i else slots ! i) [0..<length slots]"
    using Cons.prems placeValues_map [of "grPositions g" slots f] by (simp add: mid_def gr)
  then have len: "length mid = length slots" by simp
  have "foldl (\<lambda>slots (g, r). placeValues (grPositions g) (gsValues r) slots) mid rs =
      map (\<lambda>i. if \<exists>(g, r) \<in> set rs. i \<in> set (grPositions g) then f i else mid ! i) [0..<length mid]"
    using Cons.prems len by (intro Cons.IH) auto
  then show ?case by (auto simp: gr mid_def [symmetric] len) (auto simp: mid)
qed

lemma partitions_positions:
  assumes "partitions lower rts keys groups"
  shows "(identity, g) \<in> set groups \<Longrightarrow> grKeys g = map ((!) keys) (grPositions g) \<and> (\<forall>p \<in> set (grPositions g). p < length keys)"
    and "i < length keys \<Longrightarrow> \<exists>(identity, g) \<in> set groups. i \<in> set (grPositions g)"
proof -
  show "grKeys g = map ((!) keys) (grPositions g) \<and> (\<forall>p \<in> set (grPositions g). p < length keys)"
    if "(identity, g) \<in> set groups" using assms that unfolding partitions_def by fastforce
  assume i: "i < length keys"
  then have "routeIdentity lower (rts ! i) \<in> fst ` set groups" using assms by (auto simp: partitions_def)
  then obtain g where g: "(routeIdentity lower (rts ! i), g) \<in> set groups" by force
  then have "grPositions g = filter (\<lambda>j. routeIdentity lower (rts ! j) = routeIdentity lower (rts ! i)) [0..<length keys]"
    using assms unfolding partitions_def by fastforce
  then have "i \<in> set (grPositions g)" using i by simp
  with g show "\<exists>(identity, g) \<in> set groups. i \<in> set (grPositions g)" by blast
qed

lemma gather:
  assumes p: "partitions lower rts keys groups"
    and r: "\<forall>(identity, g) \<in> set groups. gsValues (result g) = map store (grKeys g)"
  shows "foldl (\<lambda>slots (g, r). placeValues (grPositions g) (gsValues r) slots) (replicate (length keys) VNil)
      (map (\<lambda>(_, g). (g, result g)) groups) = map store keys"
proof -
  have vals: "gsValues (result g) = map (\<lambda>i. store (keys ! i)) (grPositions g)"
    "\<forall>p \<in> set (grPositions g). p < length keys" if "(identity, g) \<in> set groups" for identity g
    using partitions_positions(1) [OF p that] r that by (auto simp: o_def)
  have "foldl (\<lambda>slots (g, r). placeValues (grPositions g) (gsValues r) slots) (replicate (length keys) VNil)
      (map (\<lambda>(_, g). (g, result g)) groups) =
    map (\<lambda>i. if \<exists>(g, r) \<in> set (map (\<lambda>(_, g). (g, result g)) groups). i \<in> set (grPositions g)
       then store (keys ! i) else replicate (length keys) VNil ! i) [0..<length (replicate (length keys) VNil)]"
    using vals by (intro place_groups) auto
  also have "\<dots> = map (\<lambda>i. store (keys ! i)) [0..<length keys]"
    using partitions_positions(2) [OF p] by (fastforce intro!: map_cong)
  finally show ?thesis by (simp add: map_nth flip: map_map [of store "(!) keys", unfolded o_def])
qed

subsection \<open>A successful attempt\<close>

lemma planScatter_partitions:
  "planScatterRoutes lower obs keys = Inr (snap, groups) \<Longrightarrow> \<exists>rts. partitions lower rts keys groups"
  by (auto simp: planScatterRoutes_def split: if_splits dest!: planLoop_takes groupKeys_partitions)

lemma scatterAttempt_Inr:
  assumes "scatterAttempt lower message w perShard second onError name keys = Inr v"
  shows "\<exists>rts groups. partitions lower rts keys groups \<and>
    \<not> (1 < length groups \<and> destructiveScatterCommand name \<and> \<not> perShard) \<and>
    (\<forall>(identity, g) \<in> set groups. gsFailures (executeScatterCommandGroup w second onError name g) = []) \<and>
    v = (if name = ''MGET'' then
           VArray None (foldl (\<lambda>slots (g, r). placeValues (grPositions g) (gsValues r) slots) (replicate (length keys) VNil)
             (map (\<lambda>(_, g). (g, executeScatterCommandGroup w second onError name g)) groups))
         else VInt (word_of_int (\<Sum>(identity, g) \<leftarrow> groups. gsCount (executeScatterCommandGroup w second onError name g))))"
proof -
  from assms obtain snap groups where p: "planScatterRoutes lower (swPlan w second keys) keys = Inr (snap, groups)"
    by (auto simp: scatterAttempt_def split: sum.splits)
  from planScatter_partitions [OF p] obtain rts where "partitions lower rts keys groups" by blast
  then show ?thesis
    using assms unfolding scatterAttempt_def p sum.case prod.case Let_def
    by (intro exI [of _ rts] exI [of _ groups])
      (auto simp: case_prod_unfold o_def map_map split: if_splits)
qed

lemma group_values:
  assumes answer: "\<forall>second route ks v. swReply w second route ''MGET'' ks = Inr v \<longrightarrow> arrayItems v = Some (map store ks)"
    and error: "\<forall>g err. gsFailures (onError g err) = [] \<longrightarrow> gsValues (onError g err) = map store (grKeys g)"
    and ok: "gsFailures (executeScatterCommandGroup w second onError ''MGET'' g) = []"
  shows "gsValues (executeScatterCommandGroup w second onError ''MGET'' g) = map store (grKeys g)"
proof (cases "swReply w second (grRoute g) ''MGET'' (grKeys g)")
  case (Inl err)
  with error ok show ?thesis
    by (auto simp: executeScatterCommandGroup_def failedScatterGroup_def split: option.splits)
next
  case (Inr v)
  with answer have "arrayItems v = Some (map store (grKeys g))" by blast
  with Inr ok show ?thesis
    by (auto simp: executeScatterCommandGroup_def decodedScatterGroup_def failedScatterGroup_def split: option.splits if_splits)
qed

lemma attempt_values:
  assumes "\<forall>second route ks v. swReply w second route ''MGET'' ks = Inr v \<longrightarrow> arrayItems v = Some (map store ks)"
    and "\<forall>g err. gsFailures (onError g err) = [] \<longrightarrow> gsValues (onError g err) = map store (grKeys g)"
    and "scatterAttempt lower message w perShard second onError ''MGET'' keys = Inr v"
  shows "v = VArray None (map store keys)"
proof -
  from scatterAttempt_Inr [OF assms(3)] obtain rts groups where p: "partitions lower rts keys groups"
    and ok: "\<forall>(identity, g) \<in> set groups. gsFailures (executeScatterCommandGroup w second onError ''MGET'' g) = []"
    and v: "v = VArray None (foldl (\<lambda>slots (g, r). placeValues (grPositions g) (gsValues r) slots)
      (replicate (length keys) VNil)
      (map (\<lambda>(_, g). (g, executeScatterCommandGroup w second onError ''MGET'' g)) groups))" by auto
  have "\<forall>(identity, g) \<in> set groups.
      gsValues (executeScatterCommandGroup w second onError ''MGET'' g) = map store (grKeys g)"
    using ok group_values [OF assms(1,2)] by blast
  from gather [OF p this] show ?thesis by (simp add: v)
qed

lemma failure_nonempty [simp]: "gsFailures (failedScatterGroup a g err) \<noteq> []"
  by (simp add: failedScatterGroup_def)

fun isPartialWrite :: "scatter_error \<Rightarrow> bool" where
  "isPartialWrite (ScPartialWrite _ _ _) = True"
| "isPartialWrite _ = False"

lemma not_destructive [simp]: "\<not> destructiveScatterCommand ''MGET''" "\<not> destructiveScatterCommand ''EXISTS''"
  by (simp_all add: destructiveScatterCommand_def topologyCommandPolicies_def specialCommandPolicies_def)

lemma group_failures_plain:
  assumes "f \<in> set (gsFailures (executeScatterCommandGroup w second
      (\<lambda>g err. failedScatterGroup (destructiveScatterCommand name) g (ScExec err)) name g))"
  shows "\<not> isPartialWrite f"
  using assms
  by (auto simp: executeScatterCommandGroup_def decodedScatterGroup_def failedScatterGroup_def topologyKeyWriteFailure_def
      split: option.splits sum.splits if_splits)

lemma second_attempt_plain:
  assumes "scatterAttempt lower message w perShard second
      (\<lambda>g err. failedScatterGroup (destructiveScatterCommand name) g (ScExec err)) name keys = Inl err"
    and "\<not> destructiveScatterCommand name"
  shows "\<not> isPartialWrite err"
proof (cases "planScatterRoutes lower (swPlan w second keys) keys")
  case (Inl e)
  with assms show ?thesis by (auto simp: scatterAttempt_def)
next
  case (Inr sg)
  obtain snap groups where sg: "sg = (snap, groups)" by (cases sg)
  define fs where "fs = concat (map (gsFailures \<circ> snd) (map (\<lambda>(_, g). (g, executeScatterCommandGroup w second
    (\<lambda>g err. failedScatterGroup (destructiveScatterCommand name) g (ScExec err)) name g)) groups))"
  have "fs \<noteq> [] \<and> err = hd fs"
    using assms Inr by (auto simp: scatterAttempt_def sg Let_def fs_def split: if_splits)
  then have "err \<in> set fs" by simp
  then show ?thesis unfolding fs_def by (auto dest!: group_failures_plain)
qed

text \<open>
  C27. A scattered MGET gathers by key: if every server answers an MGET of some keys with their values, in
  order, then whatever the topology, the refusals and the retries, a successful MGET returns the value
  of each key in the place of that key.
\<close>

theorem scatter_gathers_by_key:
  assumes "\<forall>second route ks v. swReply w second route ''MGET'' ks = Inr v \<longrightarrow> arrayItems v = Some (map store ks)"
    and "scatterCommandWithContext lower message w perShard ''MGET'' keys = Inr v"
  shows "v = VArray None (map store keys)"
proof (rule attempt_values [OF assms(1) _ assms(2) [unfolded scatterCommandWithContext_def]], intro allI impI)
  fix g err assume ok: "gsFailures (rerouteGroup lower message w perShard ''MGET'' g err) = []"
  then have retry: "rerouteGroup lower message w perShard ''MGET'' g err =
      retryScatterCommandGroup lower message w perShard ''MGET'' g"
    by (auto simp: rerouteGroup_def split: sum.splits bool.splits)
  let ?second = "scatterAttempt lower message w perShard True
    (\<lambda>g err. failedScatterGroup (destructiveScatterCommand ''MGET'') g (ScExec err)) ''MGET'' (grKeys g)"
  show "gsValues (rerouteGroup lower message w perShard ''MGET'' g err) = map store (grKeys g)"
  proof (cases ?second)
    case (Inr v)
    then have "v = VArray None (map store (grKeys g))" by (intro attempt_values [OF assms(1) _ Inr]) simp
    with Inr show ?thesis unfolding retry by (simp add: retryScatterCommandGroup_def)
  next
    case (Inl err)
    then have "\<not> isPartialWrite err" by (rule second_attempt_plain) simp
    with Inl ok show ?thesis unfolding retry by (cases err) (simp_all add: retryScatterCommandGroup_def)
  qed
qed

subsection \<open>Counting\<close>

lemma filter_partition:
  assumes "distinct ids" and "\<forall>x \<in> set xs. c x \<in> set ids"
  shows "(\<Sum>i \<leftarrow> ids. length (filter (\<lambda>x. c x = i \<and> P x) xs)) = length (filter P xs)"
  using assms(2)
proof (induction xs)
  case Nil
  then show ?case by simp
next
  case (Cons x xs)
  have "(\<Sum>i \<leftarrow> ids. length (filter (\<lambda>x. c x = i \<and> P x) (x # xs))) =
      (\<Sum>i \<leftarrow> ids. (if c x = i \<and> P x then 1 else 0) + length (filter (\<lambda>x. c x = i \<and> P x) xs))"
    by (intro arg_cong [where f = sum_list] map_cong) auto
  also have "\<dots> = (\<Sum>i \<leftarrow> ids. if c x = i \<and> P x then 1 else 0) + length (filter P xs)"
    using Cons by (simp add: sum_list_addf)
  also have "(\<Sum>i \<leftarrow> ids. if c x = i \<and> P x then 1 else 0) = (if P x then 1 else (0 :: nat))"
    using assms(1) Cons.prems by (auto simp: sum_list_distinct_conv_sum_set)
  finally show ?case by simp
qed

lemma partition_counts:
  assumes "partitions lower rts keys groups"
  shows "(\<Sum>(identity, g) \<leftarrow> groups. length (filter P (grKeys g))) = length (filter P keys)"
proof -
  have "(\<Sum>(identity, g) \<leftarrow> groups. length (filter P (grKeys g))) =
      (\<Sum>i \<leftarrow> map fst groups. length (filter (\<lambda>j. routeIdentity lower (rts ! j) = i \<and> P (keys ! j)) [0..<length keys]))"
    unfolding map_map
  proof (intro arg_cong [where f = sum_list] map_cong refl)
    fix ig assume ig: "ig \<in> set groups"
    obtain i g where [simp]: "ig = (i, g)" by (cases ig)
    from assms ig have "grKeys g = map ((!) keys) (filter (\<lambda>j. routeIdentity lower (rts ! j) = i) [0..<length keys])"
      unfolding partitions_def by fastforce
    then show "(case ig of (identity, g) \<Rightarrow> length (filter P (grKeys g))) =
        ((\<lambda>i. length (filter (\<lambda>j. routeIdentity lower (rts ! j) = i \<and> P (keys ! j)) [0..<length keys])) \<circ> fst) ig"
      by (simp add: filter_map o_def conj_commute)
  qed
  also have "\<dots> = length (filter (\<lambda>j. P (keys ! j)) [0..<length keys])"
    using assms by (intro filter_partition) (auto simp: partitions_def)
  also have "\<dots> = length (filter P keys)"
    by (metis (no_types, lifting) filter_map length_map map_nth comp_apply filter_cong)
  finally show ?thesis .
qed

lemma executed_group_count:
  assumes "\<forall>second route ks v. swReply w second route name ks = Inr v \<longrightarrow> responseInt64 v = Inr (int (length (filter P ks)))"
    and "\<And>err. gsFailures (onError g err) = [] \<longrightarrow> gsCount (onError g err) = int (length (filter P (grKeys g)))"
    and "gsFailures (executeScatterCommandGroup w second onError name g) = []" and "name \<noteq> ''MGET''"
  shows "gsCount (executeScatterCommandGroup w second onError name g) = int (length (filter P (grKeys g)))"
proof (cases "swReply w second (grRoute g) name (grKeys g)")
  case (Inl err)
  with assms show ?thesis by (auto simp: executeScatterCommandGroup_def split: option.splits)
next
  case (Inr v)
  with assms(1) have "responseInt64 v = Inr (int (length (filter P (grKeys g))))" by blast
  with Inr assms(3,4) show ?thesis
    by (auto simp: executeScatterCommandGroup_def decodedScatterGroup_def split: option.splits if_splits)
qed

lemma partition_group_length:
  assumes "partitions lower rts keys groups" and "(identity, g) \<in> set groups"
  shows "length (grKeys g) \<le> length keys"
proof -
  have "grKeys g = map ((!) keys) (filter (\<lambda>j. routeIdentity lower (rts ! j) = identity) [0..<length keys])"
    using assms unfolding partitions_def by fastforce
  then show ?thesis using length_filter_le [of _ "[0..<length keys]"] by simp
qed

lemma attempt_count:
  assumes "\<forall>second route ks v. swReply w second route name ks = Inr v \<longrightarrow> responseInt64 v = Inr (int (length (filter P ks)))"
    and "\<forall>g err. length (grKeys g) \<le> length keys \<longrightarrow> gsFailures (onError g err) = [] \<longrightarrow>
      gsCount (onError g err) = int (length (filter P (grKeys g)))"
    and "scatterAttempt lower message w perShard second onError name keys = Inr v" and "name \<noteq> ''MGET''"
  shows "v = VInt (of_nat (length (filter P keys)))"
proof -
  from scatterAttempt_Inr [OF assms(3)] assms(4) obtain rts groups where p: "partitions lower rts keys groups"
    and ok: "\<forall>(identity, g) \<in> set groups. gsFailures (executeScatterCommandGroup w second onError name g) = []"
    and v: "v = VInt (word_of_int (\<Sum>(identity, g) \<leftarrow> groups. gsCount (executeScatterCommandGroup w second onError name g)))"
    by auto
  have "(\<Sum>(identity, g) \<leftarrow> groups. gsCount (executeScatterCommandGroup w second onError name g)) =
      (\<Sum>(identity, g) \<leftarrow> groups. int (length (filter P (grKeys g))))"
    using ok partition_group_length [OF p]
    by (intro arg_cong [where f = sum_list] map_cong refl)
      (auto intro!: executed_group_count [OF assms(1) _ _ assms(4)] simp: assms(2))
  also have "\<dots> = int (\<Sum>(identity, g) \<leftarrow> groups. length (filter P (grKeys g)))"
    by (induction groups) auto
  finally show ?thesis by (simp add: v partition_counts [OF p])
qed

lemma length_insertFailure [simp]: "length (insertFailure lt x ys) = Suc (length ys)"
  by (induction ys) auto

lemma length_stableSort [simp]: "length (stableSort lt xs) = length xs"
  by (induction xs) (simp_all add: stableSort_def)

lemma second_attempt_reports:
  assumes "scatterAttempt lower message w perShard second
      (\<lambda>g err. failedScatterGroup (destructiveScatterCommand name) g (ScExec err)) name keys = Inl (ScPartialWrite c s fs)"
  shows "fs \<noteq> []"
proof (cases "destructiveScatterCommand name")
  case True
  have nonempty: "stableSort lt xs \<noteq> []" if "xs \<noteq> []" for lt and xs :: "scatter_error list"
    using that by (metis length_stableSort length_0_conv)
  from True assms show ?thesis
    by (auto simp: scatterAttempt_def newTopologyPartialWriteError_def Let_def nonempty split: sum.splits if_splits)
next
  case False
  from second_attempt_plain [OF assms False] show ?thesis by simp
qed

lemma small_count: "length ks < 2 ^ 63 \<Longrightarrow> sint (of_nat (length (filter P ks)) :: 64 word) = int (length (filter P ks))"
proof -
  assume "length ks < 2 ^ 63"
  with length_filter_le [of P ks] have "length (filter P ks) < 2 ^ 63" by linarith
  then show ?thesis by (simp add: signed_of_nat signed_take_bit_int_eq_self)
qed

definition sampleWorld :: scatter_world where
  "sampleWorld =
     \<lparr>swPlan = (\<lambda>_ _. [(samplePlanner, samplePlanner, None)]), swAdapter = (\<lambda>_ _. None),
      swReply = (\<lambda>_ _ _ ks. Inr (VArray None (map (\<lambda>k. VString (keyText k)) ks))),
      swRefresh = (\<lambda>_. \<lparr>roContext = None, roWait = None, roContextAfter = None, roRefresh = None,
                          roContextFailed = None\<rparr>)\<rparr>"

definition sampleGroups :: "arg route_groups" where
  "sampleGroups =
     [((''db:6388'', 1), \<lparr>grRoute = sampleRoute\<lparr>rtSlot := 1017\<rparr>, grKeys = [Val (VString ''b''), Val (VString ''b'')],
         grPositions = [0, 2]\<rparr>),
      ((''db:6388'', 2), \<lparr>grRoute = sampleOtherRoute\<lparr>rtSlot := 579\<rparr>, grKeys = [Val (VString ''a'')], grPositions = [1]\<rparr>)]"

lemma sample_scatter_plan:
  "planScatterRoutes lowerAscii [(samplePlanner, samplePlanner, None)]
     [Val (VString ''b''), Val (VString ''a''), Val (VString ''b'')] = Inr (((1, sampleTwoShards), 0), sampleGroups)"
proof -
  have snap: "captureRoutingTopology samplePlanner = Inr ((1, sampleTwoShards), 0)"
    "routingSnapshotCurrent samplePlanner ((1, sampleTwoShards), 0)"
    by (simp_all add: captureRoutingTopology_def routingSnapshotCurrent_def samplePlanner_def sampleExecutor_def)
  have internal: "\<not> reservedInternalKeyString ''a''" "\<not> reservedInternalKeyString ''b''" by code_simp+
  have "routeInSnapshot lowerAscii samplePlanner ((Suc 0, sampleTwoShards), 0) (Val (VString ''a'')) =
      Inr (sampleOtherRoute\<lparr>rtSlot := 579\<rparr>)"
    "routeInSnapshot lowerAscii samplePlanner ((Suc 0, sampleTwoShards), 0) (Val (VString ''b'')) =
      Inr (sampleRoute\<lparr>rtSlot := 1017\<rparr>)"
    by (simp_all add: routeInSnapshot_def RouteKey_def routeSlot_def keyText_def sample_slots internal sample_route_endpoint
        sample_route_endpoint_ok)
      (simp_all add: sampleTwoShards_def routeSlotCount_def sample_slots sample_route_endpoint sample_route_endpoint_ok)
  then have "groupKeys lowerAscii (routeInSnapshot lowerAscii samplePlanner ((Suc 0, sampleTwoShards), 0))
      [Val (VString ''b''), Val (VString ''a''), Val (VString ''b'')] = Inr sampleGroups"
    by (simp add: groupKeys_def addToGroup_def sample_identity sampleGroups_def)
  with snap show ?thesis by (simp add: planScatterRoutes_def maxTopologyPlanningAttempts_def)
qed

theorem scatter_gathers_by_key_witness:
  "scatterCommandWithContext lowerAscii (\<lambda>_. ''failed'') sampleWorld False ''MGET''
     [Val (VString ''b''), Val (VString ''a''), Val (VString ''b'')] =
   Inr (VArray None [VString ''b'', VString ''a'', VString ''b''])"
proof -
  let ?r = "scatterCommandWithContext lowerAscii (\<lambda>_. ''failed'') sampleWorld False ''MGET''
     [Val (VString ''b''), Val (VString ''a''), Val (VString ''b'')]"
  have "\<exists>v. ?r = Inr v"
    by (simp add: scatterCommandWithContext_def scatterAttempt_def sampleWorld_def sample_scatter_plan sampleGroups_def
        executeScatterCommandGroup_def decodedScatterGroup_def)
  then obtain v where v: "?r = Inr v" ..
  have "v = VArray None [VString ''b'', VString ''a'', VString ''b'']"
    using scatter_gathers_by_key [where store = "\<lambda>k. VString (keyText k)", OF _ v]
    by (simp add: sampleWorld_def keyText_def)
  with v show ?thesis by simp
qed

text \<open>
  C28. A scattered EXISTS counts every key once: if every server that answers says how many of the keys it
  is asked about satisfy \<open>P\<close>, a successful command returns how many of all the keys do, repeated keys
  counted as often as they occur, whatever the topology and the retries. The sum does not wrap below
  2^63 keys.
\<close>

theorem scatter_counts_every_key:
  assumes "\<forall>second route ks v. swReply w second route name ks = Inr v \<longrightarrow> responseInt64 v = Inr (int (length (filter P ks)))"
    and "scatterCommandWithContext lower message w perShard name keys = Inr v"
    and "name \<noteq> ''MGET''" and "length keys < 2 ^ 63"
  shows "responseInt64 v = Inr (int (length (filter P keys)))"
proof -
  have "v = VInt (of_nat (length (filter P keys)))"
  proof (rule attempt_count [OF assms(1) _ assms(2) [unfolded scatterCommandWithContext_def] assms(3)], intro allI impI)
    fix g err assume len: "length (grKeys g) \<le> length keys"
      and ok: "gsFailures (rerouteGroup lower message w perShard name g err) = []"
    from ok have retry: "rerouteGroup lower message w perShard name g err = retryScatterCommandGroup lower message w perShard name g"
      by (auto simp: rerouteGroup_def split: sum.splits bool.splits)
    let ?second = "scatterAttempt lower message w perShard True
      (\<lambda>g err. failedScatterGroup (destructiveScatterCommand name) g (ScExec err)) name (grKeys g)"
    show "gsCount (rerouteGroup lower message w perShard name g err) = int (length (filter P (grKeys g)))"
    proof (cases ?second)
      case (Inr v)
      then have "v = VInt (of_nat (length (filter P (grKeys g))))"
        by (intro attempt_count [OF assms(1) _ Inr assms(3)]) simp
      with Inr ok assms(3,4) len show ?thesis
        unfolding retry by (simp add: retryScatterCommandGroup_def small_count length_filter_le leD)
    next
      case (Inl err)
      with ok show ?thesis
        unfolding retry by (cases err) (auto simp: retryScatterCommandGroup_def dest: second_attempt_reports)
    qed
  qed
  then show ?thesis using assms(4) by (simp add: small_count)
qed

definition sampleCounts :: scatter_world where
  "sampleCounts = sampleWorld\<lparr>swReply :=
     (\<lambda>_ _ _ ks. if length ks < 1000 then Inr (VInt (of_nat (length (filter (\<lambda>k. keyText k = ''b'') ks))))
                 else Inl ErrStaleRoute)\<rparr>"

theorem scatter_counts_every_key_witness:
  "\<exists>v. scatterCommandWithContext lowerAscii (\<lambda>_. ''failed'') sampleCounts False ''EXISTS''
     [Val (VString ''b''), Val (VString ''a''), Val (VString ''b'')] = Inr v \<and> responseInt64 v = Inr 2"
proof -
  let ?r = "scatterCommandWithContext lowerAscii (\<lambda>_. ''failed'') sampleCounts False ''EXISTS''
     [Val (VString ''b''), Val (VString ''a''), Val (VString ''b'')]"
  have "\<exists>v. ?r = Inr v"
    by (simp add: scatterCommandWithContext_def scatterAttempt_def sampleCounts_def sampleWorld_def sample_scatter_plan
        sampleGroups_def executeScatterCommandGroup_def decodedScatterGroup_def keyText_def)
  then obtain v where v: "?r = Inr v" ..
  have "responseInt64 v = Inr 2"
    using scatter_counts_every_key [where P = "\<lambda>k. keyText k = ''b''", OF _ v]
    by (simp add: sampleCounts_def keyText_def small_count)
  with v show ?thesis by blast
qed

end
