(* ===== verification/Gate.thy ===== *)
theory Gate
  imports Interfaces
begin

section \<open>The session gate\<close>

text \<open>
  \<open>sessionGate\<close> of \<open>src/session.go\<close>: a reader/writer gate that prefers writers and whose waits can be
  cancelled. Requests hold its reader side, a transaction its writer side.

  A wait is a channel that \<open>signalLocked\<close> closes and replaces. Channels are numbered: channel \<open>c\<close> is open
  while it is the current one. Each section under the gate's mutex is one step.
\<close>

record gate =
  gtReaders :: nat
  gtWriter :: bool
  gtWaiting :: nat
  gtChanged :: "nat option"

definition newGate :: gate where
  "newGate = \<lparr>gtReaders = 0, gtWriter = False, gtWaiting = 0, gtChanged = None\<rparr>"

subsection \<open>Operations\<close>

definition changedLocked :: "gate \<Rightarrow> gate \<times> nat" where
  "changedLocked g = (case gtChanged g of None \<Rightarrow> (g\<lparr>gtChanged := Some 0\<rparr>, 0) | Some c \<Rightarrow> (g, c))"

definition signalLocked :: "gate \<Rightarrow> gate" where
  "signalLocked g = (case gtChanged g of None \<Rightarrow> g | Some c \<Rightarrow> g\<lparr>gtChanged := Some (c + 1)\<rparr>)"

text \<open>
  An iteration of the loop of \<open>readLock\<close>, after its check of the context: the gate is taken, or there is
  a channel to wait on.
\<close>

definition readLockIter :: "gate \<Rightarrow> gate \<times> nat option" where
  "readLockIter g =
     (if \<not> gtWriter g \<and> gtWaiting g = 0 then (g\<lparr>gtReaders := gtReaders g + 1\<rparr>, None)
      else case changedLocked g of (g, c) \<Rightarrow> (g, Some c))"

definition tryReadLock :: "gate \<Rightarrow> gate \<times> bool" where
  "tryReadLock g =
     (if gtWriter g \<or> gtWaiting g \<noteq> 0 then (g, False) else (g\<lparr>gtReaders := gtReaders g + 1\<rparr>, True))"

definition readUnlock :: "gate \<Rightarrow> gate" where
  "readUnlock g =
     (let g = (if gtReaders g > 0 then g\<lparr>gtReaders := gtReaders g - 1\<rparr> else g) in
      if gtReaders g = 0 then signalLocked g else g)"

definition lockRegister :: "gate \<Rightarrow> gate" where
  "lockRegister g = g\<lparr>gtWaiting := gtWaiting g + 1\<rparr>"

definition lockIter :: "gate \<Rightarrow> gate \<times> nat option" where
  "lockIter g =
     (if \<not> gtWriter g \<and> gtReaders g = 0 then (g\<lparr>gtWaiting := gtWaiting g - 1, gtWriter := True\<rparr>, None)
      else case changedLocked g of (g, c) \<Rightarrow> (g, Some c))"

text \<open>The deferred function of \<open>lock\<close> when the context ends first.\<close>

definition lockCancel :: "gate \<Rightarrow> gate" where
  "lockCancel g = signalLocked (g\<lparr>gtWaiting := gtWaiting g - 1\<rparr>)"

definition unlockGate :: "gate \<Rightarrow> gate" where
  "unlockGate g = (if gtWriter g then signalLocked (g\<lparr>gtWriter := False\<rparr>) else g)"

subsection \<open>Runs\<close>

text \<open>
  What each goroutine is doing with the gate. A goroutine that sleeps on a channel runs again when the
  channel is closed; it unlocks what it holds.
\<close>

datatype gate_status = GIdle | GReadSleep nat | GReading | GWriteReady | GWriteSleep nat | GWriting

record gate_run =
  grGate :: gate
  grStatus :: "nat \<Rightarrow> gate_status"

datatype gate_event = GRead nat | GTryRead nat | GReadUnlock nat | GRegister nat | GWrite nat | GCancel nat | GUnlock nat

definition setStatus :: "nat \<Rightarrow> gate_status \<Rightarrow> gate \<Rightarrow> gate_run \<Rightarrow> gate_run" where
  "setStatus p st g s = s\<lparr>grGate := g, grStatus := (grStatus s)(p := st)\<rparr>"

fun mayRead :: "gate \<Rightarrow> gate_status \<Rightarrow> bool" where
  "mayRead g GIdle = True"
| "mayRead g (GReadSleep c) = (gtChanged g \<noteq> Some c)"
| "mayRead g _ = False"

fun mayWrite :: "gate \<Rightarrow> gate_status \<Rightarrow> bool" where
  "mayWrite g GWriteReady = True"
| "mayWrite g (GWriteSleep c) = (gtChanged g \<noteq> Some c)"
| "mayWrite g _ = False"

fun gate_step :: "gate_event \<Rightarrow> gate_run \<Rightarrow> gate_run" where
  "gate_step (GRead p) s =
     (if mayRead (grGate s) (grStatus s p)
      then (case readLockIter (grGate s) of
              (g, None) \<Rightarrow> setStatus p GReading g s
            | (g, Some c) \<Rightarrow> setStatus p (GReadSleep c) g s)
      else s)"
| "gate_step (GTryRead p) s =
     (if grStatus s p = GIdle
      then (case tryReadLock (grGate s) of (g, ok) \<Rightarrow> setStatus p (if ok then GReading else GIdle) g s)
      else s)"
| "gate_step (GReadUnlock p) s =
     (if grStatus s p = GReading then setStatus p GIdle (readUnlock (grGate s)) s else s)"
| "gate_step (GRegister p) s =
     (if grStatus s p = GIdle then setStatus p GWriteReady (lockRegister (grGate s)) s else s)"
| "gate_step (GWrite p) s =
     (if mayWrite (grGate s) (grStatus s p)
      then (case lockIter (grGate s) of
              (g, None) \<Rightarrow> setStatus p GWriting g s
            | (g, Some c) \<Rightarrow> setStatus p (GWriteSleep c) g s)
      else s)"
| "gate_step (GCancel p) s =
     (case grStatus s p of
        GReadSleep _ \<Rightarrow> setStatus p GIdle (grGate s) s
      | GWriteReady \<Rightarrow> setStatus p GIdle (lockCancel (grGate s)) s
      | GWriteSleep _ \<Rightarrow> setStatus p GIdle (lockCancel (grGate s)) s
      | _ \<Rightarrow> s)"
| "gate_step (GUnlock p) s =
     (if grStatus s p = GWriting then setStatus p GIdle (unlockGate (grGate s)) s else s)"

subsection \<open>The invariant\<close>

fun waits :: "gate_status \<Rightarrow> bool" where
  "waits GWriteReady = True"
| "waits (GWriteSleep _) = True"
| "waits _ = False"

fun sleeps_on :: "nat \<Rightarrow> gate_status \<Rightarrow> bool" where
  "sleeps_on c (GReadSleep d) = (c = d)"
| "sleeps_on c (GWriteSleep d) = (c = d)"
| "sleeps_on c _ = False"

text \<open>A goroutine whose channel is still open has a reason to sleep.\<close>

fun blocked :: "gate \<Rightarrow> gate_status \<Rightarrow> bool" where
  "blocked g (GReadSleep c) = (gtChanged g = Some c \<longrightarrow> gtWriter g \<or> gtWaiting g > 0)"
| "blocked g (GWriteSleep c) = (gtChanged g = Some c \<longrightarrow> gtWriter g \<or> gtReaders g > 0)"
| "blocked g _ = True"

definition settled :: "gate \<Rightarrow> gate_status \<Rightarrow> bool" where
  "settled g st \<longleftrightarrow> blocked g st \<and> (\<forall>c. sleeps_on c st \<longrightarrow> (\<exists>d. gtChanged g = Some d \<and> c \<le> d))"

definition gate_inv :: "gate_run \<Rightarrow> bool" where
  "gate_inv s \<longleftrightarrow>
     (let g = grGate s; st = grStatus s in
      finite {p. st p \<noteq> GIdle} \<and>
      gtReaders g = card {p. st p = GReading} \<and>
      gtWaiting g = card {p. waits (st p)} \<and>
      (gtWriter g \<longleftrightarrow> (\<exists>p. st p = GWriting)) \<and>
      (\<forall>p q. st p = GWriting \<longrightarrow> st q = GWriting \<longrightarrow> p = q) \<and>
      (gtWriter g \<longrightarrow> gtReaders g = 0) \<and>
      (\<forall>p. settled g (st p)))"

lemma card_update:
  assumes "finite {q. P (f q)}"
  shows "card {q. P ((f(p := x)) q)} = card {q. P (f q)} - (if P (f p) then 1 else 0) + (if P x then 1 else 0)"
proof -
  have eq: "{q. P ((f(p := x)) q)} = (if P x then insert p ({q. P (f q)} - {p}) else {q. P (f q)} - {p})" by auto
  have "P (f p) \<Longrightarrow> card {q. P (f q)} > 0" using assms by (auto simp: card_gt_0_iff)
  with assms show ?thesis unfolding eq by (auto simp: card_insert_if card_Diff_singleton_if)
qed

lemma finite_update:
  "finite {q. st q \<noteq> GIdle} \<Longrightarrow> finite {q. (st(p := x)) q \<noteq> GIdle}"
  by (rule finite_subset [of _ "insert p {q. st q \<noteq> GIdle}"]) auto

lemma finite_kinds:
  assumes "finite {p. st p \<noteq> GIdle}"
  shows "finite {p. st p = GReading}" and "finite {p. waits (st p)}"
  by (rule finite_subset [OF _ assms]; auto)+

text \<open>What a step of one goroutine has to show.\<close>

lemma setStatus_inv:
  assumes inv: "gate_inv s" and old: "grStatus s p = y"
    and readers: "gtReaders g = gtReaders (grGate s) - (if y = GReading then 1 else 0) + (if x = GReading then 1 else 0)"
    and waiting: "gtWaiting g = gtWaiting (grGate s) - (if waits y then 1 else 0) + (if waits x then 1 else 0)"
    and writer: "gtWriter g \<longleftrightarrow> x = GWriting \<or> (gtWriter (grGate s) \<and> y \<noteq> GWriting)"
    and alone: "x = GWriting \<Longrightarrow> \<not> gtWriter (grGate s)"
    and exclusive: "gtWriter g \<Longrightarrow> gtReaders g = 0"
    and others: "\<And>z. settled (grGate s) z \<Longrightarrow> settled g z"
    and kept: "settled g x"
  shows "gate_inv (setStatus p x g s)"
proof -
  let ?st = "grStatus s"
  from inv have fin: "finite {p. ?st p \<noteq> GIdle}"
    and r: "gtReaders (grGate s) = card {p. ?st p = GReading}"
    and w: "gtWaiting (grGate s) = card {p. waits (?st p)}"
    and held: "gtWriter (grGate s) \<longleftrightarrow> (\<exists>p. ?st p = GWriting)"
    and one: "\<And>p q. ?st p = GWriting \<Longrightarrow> ?st q = GWriting \<Longrightarrow> p = q"
    and all: "\<And>q. settled (grGate s) (?st q)"
    by (simp_all add: gate_inv_def Let_def)
  have "gtReaders g = card {q. (?st(p := x)) q = GReading}"
    unfolding card_update [where f = ?st and P = "\<lambda>y. y = GReading", OF finite_kinds(1) [OF fin]]
    using readers old r by simp
  moreover have "gtWaiting g = card {q. waits ((?st(p := x)) q)}"
    unfolding card_update [where f = ?st and P = waits, OF finite_kinds(2) [OF fin]]
    using waiting old w by simp
  moreover have "gtWriter g \<longleftrightarrow> (\<exists>q. (?st(p := x)) q = GWriting)"
  proof -
    have "(\<exists>q. (?st(p := x)) q = GWriting) \<longleftrightarrow> x = GWriting \<or> (\<exists>q. q \<noteq> p \<and> ?st q = GWriting)" by auto
    moreover have "(\<exists>q. q \<noteq> p \<and> ?st q = GWriting) \<longleftrightarrow> gtWriter (grGate s) \<and> y \<noteq> GWriting"
      using held one old by metis
    ultimately show ?thesis using writer by simp
  qed
  moreover have "\<forall>q r. (?st(p := x)) q = GWriting \<longrightarrow> (?st(p := x)) r = GWriting \<longrightarrow> q = r"
    using one alone held by auto
  moreover have "\<forall>q. settled g ((?st(p := x)) q)"
    using all others kept by simp
  ultimately show ?thesis
    using finite_update [OF fin, of p x] exclusive unfolding gate_inv_def setStatus_def Let_def
    by (simp del: fun_upd_apply)
qed

subsection \<open>Each step keeps it\<close>

lemma signal_sel [simp]:
  "gtReaders (signalLocked g) = gtReaders g" "gtWriter (signalLocked g) = gtWriter g"
  "gtWaiting (signalLocked g) = gtWaiting g"
  by (simp_all add: signalLocked_def split: option.split)

lemma signal_settled:
  "settled g z \<Longrightarrow> gtChanged h = gtChanged g \<Longrightarrow> settled (signalLocked h) z"
  by (cases z) (auto simp: settled_def signalLocked_def)

lemma changed_settled:
  assumes "changedLocked g = (h, c)"
  shows "gtChanged h = Some c" and "gtReaders h = gtReaders g" and "gtWriter h = gtWriter g"
    and "gtWaiting h = gtWaiting g" and "settled g z \<Longrightarrow> settled h z"
proof -
  show "gtChanged h = Some c" "gtReaders h = gtReaders g" "gtWriter h = gtWriter g" "gtWaiting h = gtWaiting g"
    using assms by (auto simp: changedLocked_def split: option.splits)
  show "settled g z \<Longrightarrow> settled h z"
    using assms by (cases z) (auto simp: changedLocked_def settled_def split: option.splits)
qed

lemma reading_counted:
  assumes "gate_inv s" and "grStatus s p = GReading"
  shows "0 < gtReaders (grGate s)"
  using assms finite_kinds(1) [of "grStatus s"] by (auto simp: gate_inv_def Let_def card_gt_0_iff)

lemma waiting_counted:
  assumes "gate_inv s" and "waits (grStatus s p)"
  shows "0 < gtWaiting (grGate s)"
  using assms finite_kinds(2) [of "grStatus s"] by (auto simp: gate_inv_def Let_def card_gt_0_iff)

lemma inv_exclusive: "gate_inv s \<Longrightarrow> gtWriter (grGate s) \<Longrightarrow> gtReaders (grGate s) = 0"
  by (simp add: gate_inv_def Let_def)

lemma writing_holds: "gate_inv s \<Longrightarrow> grStatus s p = GWriting \<Longrightarrow> gtWriter (grGate s)"
  by (auto simp: gate_inv_def Let_def)

lemma settled_idle [simp]: "settled g GIdle" "settled g GReading" "settled g GWriteReady" "settled g GWriting"
  by (simp_all add: settled_def)

lemma settled_more_readers:
  "settled g z \<Longrightarrow> gtChanged h = gtChanged g \<Longrightarrow> gtWriter h = gtWriter g \<Longrightarrow> gtWaiting h = gtWaiting g \<Longrightarrow>
   gtReaders g \<le> gtReaders h \<Longrightarrow> settled h z"
  by (cases z) (auto simp: settled_def)

lemma settled_more_waiting:
  "settled g z \<Longrightarrow> gtChanged h = gtChanged g \<Longrightarrow> gtWriter h = gtWriter g \<Longrightarrow> gtReaders h = gtReaders g \<Longrightarrow>
   gtWaiting g \<le> gtWaiting h \<Longrightarrow> settled h z"
  by (cases z) (auto simp: settled_def)

lemma settled_writer: "settled g z \<Longrightarrow> gtChanged h = gtChanged g \<Longrightarrow> gtWriter h \<Longrightarrow> settled h z"
  by (cases z) (auto simp: settled_def)

lemma settled_same_readers:
  "settled g z \<Longrightarrow> gtChanged h = gtChanged g \<Longrightarrow> gtWriter h = gtWriter g \<Longrightarrow> gtWaiting h = gtWaiting g \<Longrightarrow>
   0 < gtReaders h \<Longrightarrow> settled h z"
  by (cases z) (auto simp: settled_def)

lemma read_inv:
  assumes "gate_inv s"
  shows "gate_inv (gate_step (GRead p) s)"
proof (cases "mayRead (grGate s) (grStatus s p)")
  case False
  with assms show ?thesis by simp
next
  case may: True
  then have y: "grStatus s p \<noteq> GReading" "\<not> waits (grStatus s p)" "grStatus s p \<noteq> GWriting"
    by (cases "grStatus s p"; simp)+
  show ?thesis
  proof (cases "\<not> gtWriter (grGate s) \<and> gtWaiting (grGate s) = 0")
    case True
    then have "gate_inv (setStatus p GReading (grGate s\<lparr>gtReaders := gtReaders (grGate s) + 1\<rparr>) s)"
      using y by (intro setStatus_inv [OF assms refl]) (auto elim: settled_more_readers)
    with True may show ?thesis by (simp add: readLockIter_def)
  next
    case False
    obtain h c where hc: "changedLocked (grGate s) = (h, c)" by (cases "changedLocked (grGate s)")
    have "gate_inv (setStatus p (GReadSleep c) h s)"
      using y changed_settled [OF hc] inv_exclusive [OF assms] False
      by (intro setStatus_inv [OF assms refl]) (auto simp: settled_def)
    with False may hc show ?thesis by (auto simp: readLockIter_def)
  qed
qed

lemma try_read_inv:
  assumes "gate_inv s"
  shows "gate_inv (gate_step (GTryRead p) s)"
proof -
  have idle: "gate_inv (setStatus p GIdle (grGate s) s)" if "grStatus s p = GIdle"
    using that by (intro setStatus_inv [OF assms refl]) (auto dest: inv_exclusive [OF assms])
  have take: "gate_inv (setStatus p GReading (grGate s\<lparr>gtReaders := gtReaders (grGate s) + 1\<rparr>) s)"
    if "grStatus s p = GIdle" "\<not> gtWriter (grGate s)"
    using that by (intro setStatus_inv [OF assms refl]) (auto elim: settled_more_readers)
  show ?thesis using idle take assms by (auto simp: tryReadLock_def)
qed

lemma readUnlock_sel:
  "gtReaders (readUnlock g) = gtReaders g - 1" "gtWriter (readUnlock g) = gtWriter g" "gtWaiting (readUnlock g) = gtWaiting g"
  by (simp_all add: readUnlock_def Let_def)

lemma readUnlock_settled: "settled g z \<Longrightarrow> settled (readUnlock g) z"
  by (auto simp: readUnlock_def Let_def intro: signal_settled elim: settled_same_readers)

lemma read_unlock_inv:
  assumes "gate_inv s"
  shows "gate_inv (gate_step (GReadUnlock p) s)"
proof (cases "grStatus s p = GReading")
  case True
  note pos = reading_counted [OF assms True]
  have writer: "\<not> gtWriter (grGate s)" using inv_exclusive [OF assms] pos by auto
  have "gate_inv (setStatus p GIdle (readUnlock (grGate s)) s)"
    using True pos writer
    by (intro setStatus_inv [OF assms refl]) (auto simp: readUnlock_sel intro: readUnlock_settled)
  with True show ?thesis by simp
qed (use assms in simp)

lemma register_inv:
  assumes "gate_inv s"
  shows "gate_inv (gate_step (GRegister p) s)"
  using assms inv_exclusive [OF assms]
  by (auto simp: lockRegister_def intro!: setStatus_inv [OF assms refl] elim: settled_more_waiting)

lemma write_inv:
  assumes "gate_inv s"
  shows "gate_inv (gate_step (GWrite p) s)"
proof (cases "mayWrite (grGate s) (grStatus s p)")
  case False
  with assms show ?thesis by simp
next
  case may: True
  then have y: "grStatus s p \<noteq> GReading" "waits (grStatus s p)" "grStatus s p \<noteq> GWriting"
    by (cases "grStatus s p"; simp)+
  note pos = waiting_counted [OF assms y(2)]
  show ?thesis
  proof (cases "\<not> gtWriter (grGate s) \<and> gtReaders (grGate s) = 0")
    case True
    then have "gate_inv (setStatus p GWriting (grGate s\<lparr>gtWaiting := gtWaiting (grGate s) - 1, gtWriter := True\<rparr>) s)"
      using y pos by (intro setStatus_inv [OF assms refl]) (auto elim: settled_writer)
    with True may show ?thesis by (simp add: lockIter_def)
  next
    case False
    obtain h c where hc: "changedLocked (grGate s) = (h, c)" by (cases "changedLocked (grGate s)")
    have "gate_inv (setStatus p (GWriteSleep c) h s)"
      using y pos changed_settled [OF hc] inv_exclusive [OF assms] False
      by (intro setStatus_inv [OF assms refl]) (auto simp: settled_def)
    with False may hc show ?thesis by (auto simp: lockIter_def)
  qed
qed

lemma cancel_writer_inv:
  assumes "gate_inv s" and "waits (grStatus s p)"
  shows "gate_inv (setStatus p GIdle (lockCancel (grGate s)) s)"
proof -
  have "grStatus s p \<noteq> GReading" "grStatus s p \<noteq> GWriting" using assms(2) by auto
  then show ?thesis
    using assms waiting_counted [OF assms] inv_exclusive [OF assms(1)]
    by (intro setStatus_inv [OF assms(1) refl]) (auto simp: lockCancel_def intro: signal_settled)
qed

lemma cancel_gate_inv:
  assumes "gate_inv s"
  shows "gate_inv (gate_step (GCancel p) s)"
proof (cases "grStatus s p")
  case (GReadSleep c)
  then have "gate_inv (setStatus p GIdle (grGate s) s)"
    by (intro setStatus_inv [OF assms GReadSleep]) (auto dest: inv_exclusive [OF assms])
  with GReadSleep show ?thesis by simp
qed (use assms cancel_writer_inv [OF assms, of p] in simp_all)

lemma unlock_inv:
  assumes "gate_inv s"
  shows "gate_inv (gate_step (GUnlock p) s)"
proof (cases "grStatus s p = GWriting")
  case True
  note w = writing_holds [OF assms True]
  have "gate_inv (setStatus p GIdle (signalLocked (grGate s\<lparr>gtWriter := False\<rparr>)) s)"
    using True by (intro setStatus_inv [OF assms refl]) (auto intro: signal_settled)
  with True w show ?thesis by (simp add: unlockGate_def)
qed (use assms in simp)

lemma gate_step_inv: "gate_inv s \<Longrightarrow> gate_inv (gate_step ev s)"
  by (cases ev) (auto simp only: read_inv try_read_inv read_unlock_inv register_inv write_inv cancel_gate_inv unlock_inv)

interpretation gate: event_machine gate_step gate_inv
  by unfold_locales (rule gate_step_inv)

definition gateStart :: gate_run where
  "gateStart = \<lparr>grGate = newGate, grStatus = \<lambda>_. GIdle\<rparr>"

lemma start_gate_inv: "gate_inv gateStart"
  by (simp add: gate_inv_def gateStart_def newGate_def)

subsection \<open>Properties\<close>

text \<open>
  C35. The session gate is a reader/writer lock: in every reachable state at most one goroutine holds the
  writer side, none holds the reader side with it, and the counters are the number of readers and of
  waiting writers. No wakeup is lost: a goroutine that sleeps on an open channel is kept out by the
  gate, a reader by a writer that holds it or waits for it, a writer by a holder of either side.
\<close>

theorem gate_excludes_and_wakes:
  "let s = fold gate_step evs gateStart in
    \<not> (\<exists>p q. p \<noteq> q \<and> grStatus s p = GWriting \<and> grStatus s q \<in> {GWriting, GReading}) \<and>
    gtReaders (grGate s) = card {p. grStatus s p = GReading} \<and>
    gtWaiting (grGate s) = card {p. waits (grStatus s p)} \<and>
    (\<forall>p. blocked (grGate s) (grStatus s p))"
proof -
  define s where "s = fold gate_step evs gateStart"
  have inv: "gate_inv s" unfolding s_def by (rule gate.run_inv [OF start_gate_inv])
  have "p = q" if "grStatus s p = GWriting" "grStatus s q \<in> {GWriting, GReading}" for p q
    using that writing_holds [OF inv] inv_exclusive [OF inv] reading_counted [OF inv, of q] inv
    by (auto simp: gate_inv_def Let_def)
  with inv show ?thesis unfolding s_def [symmetric] by (auto simp: gate_inv_def Let_def settled_def)
qed

text \<open>
  C36. Writers are preferred: while a writer waits for the gate or holds it, no goroutine is given the reader
  side, by \<open>readLock\<close> or \<open>tryReadLock\<close>, whatever step comes next. A reader gets in only once no writer holds
  the gate and the last waiting one has been given it and unlocked it, or has given up.
\<close>

theorem gate_prefers_writers:
  assumes "let st = grStatus (fold gate_step evs gateStart) w in waits st \<or> st = GWriting"
    and "grStatus (fold gate_step evs gateStart) p \<noteq> GReading"
  shows "grStatus (gate_step ev (fold gate_step evs gateStart)) p \<noteq> GReading"
proof -
  note inv = gate.run_inv [OF start_gate_inv, of evs]
  have "0 < gtWaiting (grGate (fold gate_step evs gateStart)) \<or> gtWriter (grGate (fold gate_step evs gateStart))"
    using assms(1) waiting_counted [OF inv] writing_holds [OF inv] by (auto simp: Let_def)
  then show ?thesis using assms(2)
    by (cases ev) (auto simp: setStatus_def readLockIter_def tryReadLock_def changedLocked_def lockIter_def
      split: option.splits prod.splits gate_status.splits if_splits)
qed

text \<open>A reader behind a waiting writer, and one that comes when the writer holds the gate.\<close>

theorem gate_prefers_writers_witness:
  "grStatus (gate_step (GRead 1) (fold gate_step [GRead 2, GRegister 3, GWrite 3, GRead 1, GReadUnlock 2] gateStart)) 1 \<noteq> GReading \<and>
   grStatus (gate_step (GTryRead 4) (fold gate_step [GRegister 3, GWrite 3] gateStart)) 4 \<noteq> GReading \<and>
   grStatus (gate_step (GRead 4) (fold gate_step [GRegister 3, GWrite 3] gateStart)) 4 \<noteq> GReading"
  by (intro conjI; rule gate_prefers_writers [where w = 3])
    (simp_all add: gateStart_def newGate_def setStatus_def readLockIter_def changedLocked_def lockRegister_def lockIter_def
      readUnlock_def signalLocked_def)

end
