(* ===== verification/Commands.thy ===== *)
theory Commands
  imports FlowRouting Topology
begin

section \<open>Commands before they are sent\<close>

text \<open>
  \<open>src/command_validation.go\<close>, \<open>src/set_command.go\<close> with \<open>src/expiry_validation.go\<close>, the command classes of
  \<open>src/transaction.go\<close> and \<open>src/transaction_policy_v080.go\<close>, and the route check of
  \<open>src/topology_transaction_session.go\<close>: which commands are accepted outside and inside transactions.
\<close>

subsection \<open>SET\<close>

text \<open>An option that is not set is \<open>None\<close>; the source keeps a flag beside the value.\<close>

record set_options =
  soTtlMS :: "int option"
  soExat :: "int option"
  soPxat :: "int option"
  soNx :: bool
  soXx :: bool
  soGet :: bool
  soKeepTTL :: bool

datatype set_error =
    SetUsage
  | SetOptionNotText
  | SetDuplicated string
  | SetOneExpiry
  | SetNeedsExpiry string
  | SetExpiryNotPositive string
  | SetExpiryRange string
  | SetUnsupported string
  | SetExclusive
  | SetKeepTTLExpiry

definition noSetOptions :: set_options where
  "noSetOptions = \<lparr>soTtlMS = None, soExat = None, soPxat = None, soNx = False, soXx = False, soGet = False, soKeepTTL = False\<rparr>"

definition maxRelativeExpiryMillisV080 :: int where
  "maxRelativeExpiryMillisV080 = maxInt64 - 281474976710655"

definition maxRelativeExpirySecsV080 :: int where
  "maxRelativeExpirySecsV080 = maxRelativeExpiryMillisV080 div 1000"

definition maxAbsoluteExpirySecsV080 :: int where
  "maxAbsoluteExpirySecsV080 = maxInt64 div 1000"

definition validateExpiryOptionBound :: "string \<Rightarrow> int option \<Rightarrow> int \<Rightarrow> set_error option" where
  "validateExpiryOptionBound option v maximum =
     (case v of None \<Rightarrow> None | Some n \<Rightarrow> if n > maximum then Some (SetExpiryRange option) else None)"

definition validateExpiryOptionBounds :: "int option \<Rightarrow> int option \<Rightarrow> int option \<Rightarrow> int option \<Rightarrow> set_error option" where
  "validateExpiryOptionBounds ex px exat pxat =
     (case validateExpiryOptionBound ''EX'' ex maxRelativeExpirySecsV080 of
        Some e \<Rightarrow> Some e
      | None \<Rightarrow>
          (case validateExpiryOptionBound ''PX'' px maxRelativeExpiryMillisV080 of
             Some e \<Rightarrow> Some e
           | None \<Rightarrow>
               (case validateExpiryOptionBound ''EXAT'' exat maxAbsoluteExpirySecsV080 of
                  Some e \<Rightarrow> Some e
                | None \<Rightarrow> validateExpiryOptionBound ''PXAT'' pxat maxInt64)))"

text \<open>A routing slot is a named integer type, which the reflective case of \<open>topologyInteger\<close> reads.\<close>

fun argInteger :: "arg \<Rightarrow> int option" where
  "argInteger (Val v) = topologyInteger v"
| "argInteger (Marker _) = None"
| "argInteger (RouteSlot n) = Some (int n)"

definition setCommandPositiveInteger :: "arg \<Rightarrow> string \<Rightarrow> set_error + int" where
  "setCommandPositiveInteger v option =
     (let integer = (case argInteger v of
            Some n \<Rightarrow> Some n
          | None \<Rightarrow> (case argText v of Some t \<Rightarrow> parseInt64 t | None \<Rightarrow> None)) in
      case integer of
        None \<Rightarrow> Inl (SetExpiryNotPositive option)
      | Some n \<Rightarrow>
          if n \<le> 0 then Inl (SetExpiryNotPositive option)
          else
            (case validateExpiryOptionBounds
                (if option = ''EX'' then Some n else None) (if option = ''PX'' then Some n else None)
                (if option = ''EXAT'' then Some n else None) (if option = ''PXAT'' then Some n else None) of
               Some e \<Rightarrow> Inl e
             | None \<Rightarrow> Inr n))"

text \<open>The value of an expiry option; seconds become milliseconds in 64-bit arithmetic.\<close>

definition setExpiry :: "string \<Rightarrow> int \<Rightarrow> set_options \<Rightarrow> set_options" where
  "setExpiry token n o' =
     (if token = ''EX'' then o'\<lparr>soTtlMS := Some (sint (word_of_int (n * 1000) :: 64 word))\<rparr>
      else if token = ''PX'' then o'\<lparr>soTtlMS := Some n\<rparr>
      else if token = ''EXAT'' then o'\<lparr>soExat := Some n\<rparr>
      else o'\<lparr>soPxat := Some n\<rparr>)"

fun setOptionLoop :: "arg list \<Rightarrow> set_options \<Rightarrow> string \<Rightarrow> set_error + set_options" where
  "setOptionLoop [] opts expiryMode = Inr opts"
| "setOptionLoop (a # rest) opts expiryMode =
     (let token = commandPart a in
      if token = '''' then Inl SetOptionNotText
      else if token = ''NX'' then (if soNx opts then Inl (SetDuplicated token) else setOptionLoop rest (opts\<lparr>soNx := True\<rparr>) expiryMode)
      else if token = ''XX'' then (if soXx opts then Inl (SetDuplicated token) else setOptionLoop rest (opts\<lparr>soXx := True\<rparr>) expiryMode)
      else if token = ''GET'' then (if soGet opts then Inl (SetDuplicated token) else setOptionLoop rest (opts\<lparr>soGet := True\<rparr>) expiryMode)
      else if token = ''KEEPTTL'' then
        (if soKeepTTL opts then Inl (SetDuplicated token) else setOptionLoop rest (opts\<lparr>soKeepTTL := True\<rparr>) expiryMode)
      else if token \<in> {''EX'', ''PX'', ''EXAT'', ''PXAT''} then
        (if expiryMode \<noteq> '''' then Inl SetOneExpiry
         else case rest of
           [] \<Rightarrow> Inl (SetNeedsExpiry token)
         | v # rest' \<Rightarrow>
             (case setCommandPositiveInteger v token of
                Inl e \<Rightarrow> Inl e
              | Inr n \<Rightarrow> setOptionLoop rest' (setExpiry token n opts) token))
      else Inl (SetUnsupported token))"

definition expiryModes :: "set_options \<Rightarrow> nat" where
  "expiryModes opts = of_bool (soTtlMS opts \<noteq> None) + of_bool (soExat opts \<noteq> None) + of_bool (soPxat opts \<noteq> None)"

definition parseSETCommandOptions :: "arg list \<Rightarrow> set_error + set_options" where
  "parseSETCommandOptions args =
     ebind (setOptionLoop args noSetOptions '''') (\<lambda>opts.
       if soNx opts \<and> soXx opts then Inl SetExclusive
       else if expiryModes opts > 1 then Inl SetOneExpiry
       else if soKeepTTL opts \<and> expiryModes opts \<noteq> 0 then Inl SetKeepTTLExpiry
       else Inr opts)"

definition validateSETCommandArgs :: "arg list \<Rightarrow> set_error option" where
  "validateSETCommandArgs args =
     (let args = canonicalCommandArgs args in
      if args = [] \<or> commandName args \<noteq> ''SET'' then None
      else if length args < 3 then Some SetUsage
      else case parseSETCommandOptions (drop 3 args) of Inl e \<Rightarrow> Some e | Inr _ \<Rightarrow> None)"

definition setFlag :: "string \<Rightarrow> bool \<Rightarrow> (string \<times> arg) list" where
  "setFlag name b = (if b then [(name, Val (VBool True))] else [])"

definition setNumber :: "string \<Rightarrow> int option \<Rightarrow> (string \<times> arg) list" where
  "setNumber name v = (case v of None \<Rightarrow> [] | Some n \<Rightarrow> [(name, Val (VInt (word_of_int n)))])"

definition setPayload :: "arg \<Rightarrow> arg \<Rightarrow> set_options \<Rightarrow> (string \<times> arg) list" where
  "setPayload key v opts =
     [(''key'', key), (''value'', v)] @ setNumber ''ttl'' (soTtlMS opts) @ setNumber ''exat'' (soExat opts) @
     setNumber ''pxat'' (soPxat opts) @ setFlag ''nx'' (soNx opts) @ setFlag ''xx'' (soXx opts) @
     setFlag ''get'' (soGet opts) @ setFlag ''keepttl'' (soKeepTTL opts)"

definition buildNativeSETCommand :: "arg list \<Rightarrow> set_error + (string \<times> arg) list" where
  "buildNativeSETCommand args =
     (case args of
        key # v # rest \<Rightarrow> ebind (parseSETCommandOptions rest) (\<lambda>opts. Inr (setPayload key v opts))
      | _ \<Rightarrow> Inl SetUsage)"

subsection \<open>Command arguments\<close>

datatype args_error =
    ArgsEmpty
  | ArgsNameNotText
  | ArgsNameEmpty
  | ArgsNameSpace string
  | ArgsKeys command_error
  | ArgsSet set_error
  | ArgsCommand command_error

text \<open>
  A name contains a white-space or control character when the encoding of one occurs in it. The first byte
  of such an encoding never continues another character, so this is the test on runes of the source.
\<close>

definition controlChars :: "bytes list" where
  "controlChars = map (\<lambda>n. [of_nat n]) ([0..<32] @ [127]) @ map (\<lambda>n. [0xC2, of_nat n]) [128..<160]"

fun containsChar :: "bytes list \<Rightarrow> bytes \<Rightarrow> bool" where
  "containsChar cs [] = False"
| "containsChar cs (b # bs) = ((\<exists>c \<in> set cs. hasPrefix c (b # bs)) \<or> containsChar cs bs)"

definition validatedCommandName :: "arg \<Rightarrow> args_error + string" where
  "validatedCommandName v =
     (case argText v of
        None \<Rightarrow> Inl ArgsNameNotText
      | Some name \<Rightarrow>
          if name = '''' then Inl ArgsNameEmpty
          else if containsChar (spaceChars @ controlChars) (bytes_of name) then Inl (ArgsNameSpace name)
          else Inr name)"

definition validateCommandArgs :: "arg list \<Rightarrow> args_error option" where
  "validateCommandArgs args =
     (if args = [] then Some ArgsEmpty
      else case validatedCommandName (hd args) of
        Inl e \<Rightarrow> Some e
      | Inr _ \<Rightarrow>
          (case validatePublicCommandKeys args of
             Some e \<Rightarrow> Some (ArgsKeys e)
           | None \<Rightarrow>
               (case validateSETCommandArgs args of
                  Some e \<Rightarrow> Some (ArgsSet e)
                | None \<Rightarrow>
                    (case validateV080FlowSignalArgs args of
                       Some e \<Rightarrow> Some (ArgsCommand e)
                     | None \<Rightarrow> map_option ArgsCommand (validateAtomicMSetSlots args)))))"

fun validatePipelineCommands :: "nat \<Rightarrow> arg list list \<Rightarrow> (nat \<times> args_error) option" where
  "validatePipelineCommands index [] = None"
| "validatePipelineCommands index (command # rest) =
     (case validateCommandArgs command of
        Some e \<Rightarrow> Some (index, e)
      | None \<Rightarrow> validatePipelineCommands (index + 1) rest)"

subsection \<open>Connection state\<close>

definition stateCommandNames :: "string list" where
  "stateCommandNames = [''WATCH'', ''UNWATCH'', ''MULTI'', ''EXEC'', ''DISCARD'']"

definition innerName :: "arg list \<Rightarrow> string" where
  "innerName args =
     (if commandPart (hd args) = ''COMMAND_EXEC'' \<and> length args > 1 then commandPart (args ! 1) else commandPart (hd args))"

definition connectionStateCommand :: "arg list \<Rightarrow> string \<times> bool" where
  "connectionStateCommand args =
     (if args = [] then ('''', False) else let name = innerName args in (name, name \<in> set stateCommandNames))"

definition connectionStateMutationCommand :: "arg list \<Rightarrow> string \<times> bool" where
  "connectionStateMutationCommand args =
     (if args = [] then ('''', False)
      else
        let offset = (if commandPart (hd args) = ''COMMAND_EXEC'' \<and> length args > 1 then 1 else 0);
            name = innerName args;
            name = (if name = ''CLIENT'' \<and> length args > offset + 1 \<and> commandPart (args ! (offset + 1)) = ''SETNAME''
                    then ''CLIENT.SETNAME'' else name) in
        (name, name \<in> {''AUTH'', ''CLIENT.SETNAME'', ''HELLO'', ''QUIT'', ''RESET'', ''SANDBOX'', ''STARTUP'',
                       ''SUBSCRIBE_EVENTS'', ''UNSUBSCRIBE_EVENTS'', ''WINDOW_UPDATE''}))"

definition affineCommandArgs :: "arg list \<Rightarrow> arg list" where
  "affineCommandArgs args =
     (if args = [] \<or> commandPart (hd args) = ''COMMAND_EXEC'' then args
      else Val (VString ''COMMAND_EXEC'') # Val (VString (keyText (hd args))) # tl args)"

subsection \<open>Commands inside transactions\<close>

definition v080TransactionLocalNoKeyCommand :: "string \<Rightarrow> bool" where
  "v080TransactionLocalNoKeyCommand name \<longleftrightarrow> name \<in> {''PING'', ''ECHO'', ''CLUSTER.KEYSLOT''}"

definition v080RequestPrefixes :: "string list" where
  "v080RequestPrefixes = [''BF.'', ''CF.'', ''CMS.'', ''TOPK.'', ''TDIGEST.'', ''FLOW.'']"

definition v080RequestNames :: "string list" where
  "v080RequestNames =
     [''AUTH'', ''HELLO'', ''CLIENT'', ''QUIT'', ''RESET'', ''MULTI'', ''EXEC'', ''DISCARD'', ''WATCH'', ''UNWATCH'',
      ''SUBSCRIBE'', ''UNSUBSCRIBE'', ''PSUBSCRIBE'', ''PUNSUBSCRIBE'', ''SSUBSCRIBE'', ''SUNSUBSCRIBE'',
      ''PUBLISH'', ''SPUBLISH'', ''PUBSUB'', ''BLPOP'', ''BRPOP'', ''BLMOVE'', ''BLMPOP'',
      ''XADD'', ''XLEN'', ''XRANGE'', ''XREVRANGE'', ''XREAD'', ''XTRIM'', ''XDEL'', ''XINFO'', ''XGROUP'', ''XREADGROUP'', ''XACK'',
      ''KEY_INFO'', ''FERRICSTORE.KEY_INFO'', ''CAS'', ''LOCK'', ''UNLOCK'', ''EXTEND'', ''RATELIMIT.ADD'',
      ''FETCH_OR_COMPUTE'', ''FETCH_OR_COMPUTE_RESULT'', ''FETCH_OR_COMPUTE_ERROR'',
      ''HRANDFIELD'', ''SRANDMEMBER'', ''SPOP'', ''ZRANDMEMBER'', ''RANDOMKEY'', ''ROUTE'', ''ROUTE_BATCH'']"

definition v080TransactionRequestCommand :: "string \<Rightarrow> bool" where
  "v080TransactionRequestCommand name \<longleftrightarrow>
     (\<exists>prefix \<in> set v080RequestPrefixes. hasPrefix prefix name) \<or> name \<in> set v080RequestNames"

datatype transaction_error =
    TrEmptyCommand
  | TrUnsupported string
  | TrNoRoute string
  | TrNoPolicy string
  | TrKeyType string nat
  | TrOtherSlot string nat nat nat

definition validateV080TransactionCommand :: "arg list \<Rightarrow> transaction_error option" where
  "validateV080TransactionCommand args =
     (let args = canonicalCommandArgs args in
      if args = [] then Some TrEmptyCommand
      else let name = commandName args in
        if v080TransactionLocalNoKeyCommand name then None
        else if v080TransactionRequestCommand name then Some (TrUnsupported name)
        else if topologyCommandPolicies name \<noteq> None then None
        else Some (TrUnsupported name))"

fun validateTopologyTransactionKeys :: "string \<Rightarrow> nat \<Rightarrow> nat \<Rightarrow> arg list \<Rightarrow> transaction_error option" where
  "validateTopologyTransactionKeys name pinned index [] = None"
| "validateTopologyTransactionKeys name pinned index (k # ks) =
     (case routingTargetSlot k of
        None \<Rightarrow> Some (TrKeyType name index)
      | Some slot \<Rightarrow>
          if slot \<noteq> pinned then Some (TrOtherSlot name index slot pinned)
          else validateTopologyTransactionKeys name pinned (index + 1) ks)"

text \<open>The route check; the argument is the command as the session gets it.\<close>

definition validateTopologyTransactionRoute :: "nat \<Rightarrow> arg list \<Rightarrow> transaction_error option" where
  "validateTopologyTransactionRoute slot args =
     (if snd (connectionStateCommand args) then None
      else
        let args = canonicalCommandArgs args in
        if args = [] then Some TrEmptyCommand
        else let name = commandName args in
          if v080TransactionLocalNoKeyCommand name then None
          else if hasPrefix ''FLOW.'' name then
            (case flowRoutingKey name args of
               None \<Rightarrow> Some (TrNoRoute name)
             | Some key \<Rightarrow> validateTopologyTransactionKeys name slot 0 [key])
          else (case topologyCommandPolicies name of
              None \<Rightarrow> Some (TrNoPolicy name)
            | Some policy \<Rightarrow>
                (case topologyKeysForMode (keyMode policy) args of
                   None \<Rightarrow> Some (TrNoRoute name)
                 | Some keys \<Rightarrow>
                     if keys = [] then Some (TrNoRoute name)
                     else validateTopologyTransactionKeys name slot 0 keys)))"

subsection \<open>What an accepted SET looks like\<close>

text \<open>The options read so far are consistent with the expiry mode, and every value is in its range.\<close>

definition set_ok :: "set_options \<Rightarrow> string \<Rightarrow> bool" where
  "set_ok opts mode \<longleftrightarrow>
     (mode = [] \<longleftrightarrow> expiryModes opts = 0) \<and> expiryModes opts \<le> 1 \<and>
     (\<forall>n. soTtlMS opts = Some n \<longrightarrow> 0 < n \<and> n \<le> maxRelativeExpiryMillisV080) \<and>
     (\<forall>n. soExat opts = Some n \<longrightarrow> 0 < n \<and> n * 1000 \<le> maxInt64) \<and>
     (\<forall>n. soPxat opts = Some n \<longrightarrow> 0 < n \<and> n \<le> maxInt64)"

lemma word_of_small_int: "0 \<le> n \<Longrightarrow> n < 2 ^ 63 \<Longrightarrow> sint (word_of_int n :: 64 word) = n"
  by (simp add: signed_take_bit_int_eq_self signed_of_int)

lemma expiry_in_range:
  assumes "setCommandPositiveInteger v option = Inr n" and "option \<in> {''EX'', ''PX'', ''EXAT'', ''PXAT''}"
  shows "0 < n" and "option = ''EX'' \<Longrightarrow> n * 1000 \<le> maxRelativeExpiryMillisV080" and "option = ''PX'' \<Longrightarrow> n \<le> maxRelativeExpiryMillisV080"
    and "option = ''EXAT'' \<Longrightarrow> n * 1000 \<le> maxInt64" and "option = ''PXAT'' \<Longrightarrow> n \<le> maxInt64"
proof -
  note defs = setCommandPositiveInteger_def validateExpiryOptionBounds_def validateExpiryOptionBound_def Let_def
  show "0 < n" using assms(1) by (auto simp: defs split: option.splits if_splits)
  show "n * 1000 \<le> maxRelativeExpiryMillisV080" if "option = ''EX''"
  proof -
    have "n \<le> maxRelativeExpirySecsV080" using assms(1) that by (auto simp: defs split: option.splits if_splits)
    then show ?thesis by (simp add: maxRelativeExpirySecsV080_def maxRelativeExpiryMillisV080_def maxInt64_def)
  qed
  show "n \<le> maxRelativeExpiryMillisV080" if "option = ''PX''"
    using assms(1) that by (auto simp: defs split: option.splits if_splits)
  show "n * 1000 \<le> maxInt64" if "option = ''EXAT''"
  proof -
    have "n \<le> maxAbsoluteExpirySecsV080" using assms(1) that by (auto simp: defs split: option.splits if_splits)
    then show ?thesis by (simp add: maxAbsoluteExpirySecsV080_def maxInt64_def)
  qed
  show "n \<le> maxInt64" if "option = ''PXAT''"
    using assms(1) that by (auto simp: defs split: option.splits if_splits)
qed

lemma setExpiry_ok:
  assumes "set_ok opts []" and "setCommandPositiveInteger v token = Inr n" and "token \<in> {''EX'', ''PX'', ''EXAT'', ''PXAT''}"
  shows "set_ok (setExpiry token n opts) token"
proof -
  note r = expiry_in_range [OF assms(2,3)]
  have none: "soTtlMS opts = None" "soExat opts = None" "soPxat opts = None"
    using assms(1) by (auto simp: set_ok_def expiryModes_def)
  have "sint (word_of_int (n * 1000) :: 64 word) = n * 1000" if "token = ''EX''"
    using r(1) r(2) [OF that] by (intro word_of_small_int) (simp_all add: maxRelativeExpiryMillisV080_def maxInt64_def)
  with r none assms(3) show ?thesis by (auto simp: set_ok_def setExpiry_def expiryModes_def)
qed

lemma setOptionLoop_ok:
  "setOptionLoop args opts mode = Inr res \<Longrightarrow> set_ok opts mode \<Longrightarrow> \<exists>mode. set_ok res mode"
proof (induction args opts mode rule: setOptionLoop.induct)
  case (2 a rest opts mode)
  have flags: "set_ok (opts\<lparr>soNx := True\<rparr>) mode" "set_ok (opts\<lparr>soXx := True\<rparr>) mode" "set_ok (opts\<lparr>soGet := True\<rparr>) mode"
    "set_ok (opts\<lparr>soKeepTTL := True\<rparr>) mode"
    using "2.prems"(2) by (simp_all add: set_ok_def expiryModes_def)
  show ?case
  proof (cases "commandPart a \<in> {''EX'', ''PX'', ''EXAT'', ''PXAT''}")
    case True
    then obtain v rest' n where r: "rest = v # rest'" "setCommandPositiveInteger v (commandPart a) = Inr n" "mode = []"
      and go: "setOptionLoop rest' (setExpiry (commandPart a) n opts) (commandPart a) = Inr res"
      using "2.prems"(1) by (auto simp: Let_def split: if_splits list.splits sum.splits)
    have "set_ok (setExpiry (commandPart a) n opts) (commandPart a)"
      using setExpiry_ok [OF _ r(2) True] "2.prems"(2) r(3) by simp
    then show ?thesis using "2.IH"(5) [OF refl _ _ _ _ _ True _ r(1,2) go] True r(3) by auto
  next
    case False
    with "2.prems" "2.IH" flags show ?thesis by (auto simp: Let_def split: if_splits)
  qed
qed auto

text \<open>
  C37. An accepted SET is consistent and in range: NX and XX are not both set, there is at most one expiry and
  none beside KEEPTTL, and the expiry is positive and within the server's integer range, so that turning
  seconds into milliseconds has not wrapped.
\<close>

theorem set_options_sane:
  assumes "parseSETCommandOptions args = Inr opts"
  shows "\<not> (soNx opts \<and> soXx opts) \<and> expiryModes opts \<le> 1 \<and> \<not> (soKeepTTL opts \<and> expiryModes opts \<noteq> 0) \<and>
    pred_option (\<lambda>ttl. 0 < ttl \<and> ttl \<le> maxRelativeExpiryMillisV080) (soTtlMS opts) \<and>
    pred_option (\<lambda>exat. 0 < exat \<and> exat * 1000 \<le> maxInt64) (soExat opts) \<and>
    pred_option (\<lambda>pxat. 0 < pxat \<and> pxat \<le> maxInt64) (soPxat opts)"
proof -
  have loop: "setOptionLoop args noSetOptions [] = Inr opts"
    and flags: "\<not> (soNx opts \<and> soXx opts)" "\<not> (soKeepTTL opts \<and> expiryModes opts \<noteq> 0)"
    using assms by (auto simp: parseSETCommandOptions_def ebind_Inr_iff split: if_splits)
  have "set_ok noSetOptions []" by (simp add: set_ok_def noSetOptions_def expiryModes_def)
  from setOptionLoop_ok [OF loop this] flags show ?thesis by (auto simp: set_ok_def pred_option_def)
qed

theorem set_options_sane_witness:
  "\<exists>opts. parseSETCommandOptions [Val (VString ''ex''), Val (VInt 60), Val (VString ''NX'')] = Inr opts \<and> soTtlMS opts = Some 60000 \<and>
     \<not> (soNx opts \<and> soXx opts) \<and> expiryModes opts \<le> 1"
proof -
  have parts: "commandPart (Val (VString ''ex'')) = ''EX''" "commandPart (Val (VString ''NX'')) = ''NX''" by code_simp+
  have "\<exists>opts. parseSETCommandOptions [Val (VString ''ex''), Val (VInt 60), Val (VString ''NX'')] = Inr opts \<and> soTtlMS opts = Some 60000"
    by (simp add: parseSETCommandOptions_def parts setCommandPositiveInteger_def validateExpiryOptionBounds_def
        validateExpiryOptionBound_def maxRelativeExpirySecsV080_def maxRelativeExpiryMillisV080_def maxInt64_def
        setExpiry_def noSetOptions_def expiryModes_def)
  then show ?thesis using set_options_sane by blast
qed

end
