(* ===== verification/Sessions.thy ===== *)
theory Sessions
  imports Commands Retry PlanningCorrect
begin

section \<open>Sessions and transactions\<close>

text \<open>
  \<open>src/transaction.go\<close>, \<open>src/topology_transaction_session.go\<close>, the command sessions of
  \<open>src/native_request.go\<close> and \<open>src/topology_adapter.go\<close>, and the session branch of \<open>src/client.go\<close> and
  \<open>src/client_pipeline.go\<close>: a transaction borrows a connection, and gives it back.

  A session is known by its number. Its log, which the code does not keep, is what the session was asked
  to do: the commands handed to the connection with what came of each, and how it ended. The answers are
  the environment's: the command could not be built, and then nothing is handed over, or it was handed over
  and failed or was replied to.
  Operations on the client's own session run under its \<open>legacyGate\<close>, one at a time; a context that ends
  in the middle of an operation of a transaction aborts it there.
\<close>

subsection \<open>Replies\<close>

datatype session_reply = RPlain goval | ROKCount nat

definition responseOK :: "session_reply \<Rightarrow> bool" where
  "responseOK r =
     (case r of
        ROKCount n \<Rightarrow> n = 1
      | RPlain v \<Rightarrow> (case responseString v of None \<Rightarrow> False | Some t \<Rightarrow> equalFoldAscii t ''OK''))"

definition responseQueued :: "session_reply \<Rightarrow> bool" where
  "responseQueued r =
     (case r of
        ROKCount _ \<Rightarrow> False
      | RPlain v \<Rightarrow> (case responseString v of None \<Rightarrow> False | Some t \<Rightarrow> equalFoldAscii t ''QUEUED''))"

fun transactionArray :: "session_reply \<Rightarrow> goval list option" where
  "transactionArray (RPlain VNil) = Some []"
| "transactionArray (RPlain (VArray _ vs)) = Some vs"
| "transactionArray _ = None"

datatype tx_error =
    TxUsage
  | TxKeys key_error
  | TxNeedsKey
  | TxKeyType
  | TxSlots
  | TxSessionActive
  | TxNoSession
  | TxDuringMulti
  | TxNoMulti
  | TxArgs args_error
  | TxStateful string
  | TxConnectionLocal string
  | TxPolicy transaction_error
  | TxRoute transaction_error
  | TxExec exec_error
  | TxLost
  | TxReply
  | TxTypedReply
  | TxNotExecuted
  | TxClosed
  | TxContext

subsection \<open>One session\<close>

datatype session_answer = Unbuilt exec_error | Answered "exec_error + session_reply"

datatype session_act = Sent "arg list" "exec_error + session_reply" | Aborted | Released

record session =
  ssPin :: "nat option"
  ssClosed :: bool
  ssLog :: "session_act list"

text \<open>
  \<open>topologyCommandSession.Do\<close> checks the route of the command, then \<open>nativeCommandSession.Do\<close> builds it and
  sends it.
\<close>

definition sessionDo :: "arg list \<Rightarrow> session_answer \<Rightarrow> session \<Rightarrow> session \<times> (tx_error + session_reply)" where
  "sessionDo args answer s =
     (case (case ssPin s of None \<Rightarrow> None | Some slot \<Rightarrow> validateTopologyTransactionRoute slot args) of
        Some e \<Rightarrow> (s, Inl (TxRoute e))
      | None \<Rightarrow>
          if ssClosed s then (s, Inl TxLost)
          else
            (case answer of
               Unbuilt e \<Rightarrow> (s, Inl (TxExec e))
             | Answered r \<Rightarrow> (s\<lparr>ssLog := ssLog s @ [Sent args r]\<rparr>, map_err TxExec r)))"

definition sessionEnd :: "session_act \<Rightarrow> session \<Rightarrow> session" where
  "sessionEnd act s = (if ssClosed s then s else s\<lparr>ssClosed := True, ssLog := ssLog s @ [act]\<rparr>)"

subsection \<open>The client's sessions\<close>

record transaction =
  trSession :: nat
  trClosed :: bool
  trCloseErr :: "tx_error option"

record client_sessions =
  csSessions :: "session list"
  csLegacy :: "nat option"
  csMulti :: bool
  csActive :: bool
  csTransactions :: "transaction list"

definition setLegacySessionLocked :: "nat option \<Rightarrow> client_sessions \<Rightarrow> client_sessions" where
  "setLegacySessionLocked s c = c\<lparr>csLegacy := s, csMulti := False, csActive := s \<noteq> None\<rparr>"

definition onSession :: "nat \<Rightarrow> (session \<Rightarrow> session) \<Rightarrow> client_sessions \<Rightarrow> client_sessions" where
  "onSession n f c = c\<lparr>csSessions := (csSessions c)[n := f (csSessions c ! n)]\<rparr>"

definition doOn :: "nat \<Rightarrow> arg list \<Rightarrow> session_answer \<Rightarrow> client_sessions \<Rightarrow> client_sessions \<times> (tx_error + session_reply)" where
  "doOn n args reply c =
     (onSession n (\<lambda>s. fst (sessionDo args reply s)) c, snd (sessionDo args reply (csSessions c ! n)))"

definition abortOn :: "nat \<Rightarrow> client_sessions \<Rightarrow> client_sessions" where
  "abortOn n = onSession n (sessionEnd Aborted)"

definition releaseOn :: "nat \<Rightarrow> client_sessions \<Rightarrow> client_sessions" where
  "releaseOn n = onSession n (sessionEnd Released)"

definition finishCommandSession :: "nat \<Rightarrow> bool \<Rightarrow> client_sessions \<Rightarrow> client_sessions" where
  "finishCommandSession n failed = (if failed then abortOn n else releaseOn n)"

text \<open>
  A topology executor wants the keys of one slot, finds the route of one of them, and pins the session to
  the slot of that route; a plain executor does neither. \<open>topology\<close> is \<open>strings.ToLower\<close> for a topology
  executor. \<open>found\<close> is what finding the route observes of the executor, and how taking the connection
  fails, if it does.
\<close>

type_synonym finding = "plan_obs list \<times> exec_error option"

definition acquireCommandSession ::
  "(string \<Rightarrow> string) option \<Rightarrow> arg list \<Rightarrow> finding \<Rightarrow> client_sessions \<Rightarrow> tx_error + (nat \<times> client_sessions)"
where
  "acquireCommandSession topology keys found c =
     (let take = (\<lambda>pin. case snd found of
            Some e \<Rightarrow> Inl (TxExec e)
          | None \<Rightarrow> Inr (length (csSessions c),
              c\<lparr>csSessions := csSessions c @ [\<lparr>ssPin = pin, ssClosed = False, ssLog = []\<rparr>]\<rparr>)) in
      case topology of
        None \<Rightarrow> take None
      | Some lower \<Rightarrow>
          if keys = [] then Inl TxNeedsKey
          else if \<not> list_all isRouteKey keys then Inl TxKeyType
          else
            (case singleShardKey keys of
               None \<Rightarrow> Inl TxSlots
             | Some key \<Rightarrow>
                 (case routeWithRefreshSnapshot lower (fst found) key of
                    Inl e \<Rightarrow> Inl (TxExec e)
                  | Inr (snapshot, route) \<Rightarrow> take (Some (rtSlot route)))))"

abbreviation textArg :: "string \<Rightarrow> arg" where "textArg s \<equiv> Val (VString s)"

text \<open>The first command of a session; a refused one ends it.\<close>

definition openWith ::
  "nat \<Rightarrow> arg list \<Rightarrow> session_answer \<Rightarrow> client_sessions \<Rightarrow> client_sessions \<times> (tx_error + unit)"
where
  "openWith n args reply c =
     (case doOn n args reply c of
        (c, Inl e) \<Rightarrow> (abortOn n c, Inl e)
      | (c, Inr r) \<Rightarrow> if responseOK r then (c, Inr ()) else (abortOn n c, Inl TxReply))"

definition Watch ::
  "(string \<Rightarrow> string) option \<Rightarrow> string list \<Rightarrow> finding \<Rightarrow> session_answer \<Rightarrow> client_sessions \<Rightarrow>
   client_sessions \<times> (tx_error + unit)"
where
  "Watch topology keys found reply c =
     (if keys = [] then (c, Inl TxUsage)
      else case validatePublicStringKeys keys of
        Some e \<Rightarrow> (c, Inl (TxKeys e))
      | None \<Rightarrow>
          if csLegacy c \<noteq> None then (c, Inl TxSessionActive)
          else
            (case acquireCommandSession topology (map textArg keys) found c of
               Inl e \<Rightarrow> (c, Inl e)
             | Inr (n, c) \<Rightarrow>
                 (case openWith n (textArg ''WATCH'' # map textArg keys) reply c of
                    (c, Inl e) \<Rightarrow> (c, Inl e)
                  | (c, Inr u) \<Rightarrow> (setLegacySessionLocked (Some n) c, Inr u))))"

definition Unwatch :: "session_answer \<Rightarrow> client_sessions \<Rightarrow> client_sessions \<times> (tx_error + unit)" where
  "Unwatch reply c =
     (case csLegacy c of
        None \<Rightarrow> (c, Inl TxNoSession)
      | Some n \<Rightarrow>
          if csMulti c then (c, Inl TxDuringMulti)
          else
            (case doOn n [textArg ''UNWATCH''] reply (setLegacySessionLocked None c) of
               (c, r) \<Rightarrow>
                 let res = ebind r (\<lambda>r. if responseOK r then Inr () else Inl TxReply) in
                 (finishCommandSession n (res \<noteq> Inr ()) c, res)))"

text \<open>\<open>MULTI\<close> goes to the watching session, or to a new one.\<close>

definition Multi ::
  "(string \<Rightarrow> string) option \<Rightarrow> finding \<Rightarrow> session_answer \<Rightarrow> client_sessions \<Rightarrow> client_sessions \<times> (tx_error + unit)"
where
  "Multi topology found reply c =
     (if csLegacy c \<noteq> None \<and> csMulti c then (c, Inl TxSessionActive)
      else
        (case (case csLegacy c of
                 Some n \<Rightarrow> Inr (n, c)
               | None \<Rightarrow> ebind (acquireCommandSession topology [] found c) (\<lambda>(n, c). Inr (n, setLegacySessionLocked (Some n) c))) of
           Inl e \<Rightarrow> (c, Inl e)
         | Inr (n, c) \<Rightarrow>
             (case openWith n [textArg ''MULTI''] reply c of
                (c, Inl e) \<Rightarrow> (setLegacySessionLocked None c, Inl e)
              | (c, Inr u) \<Rightarrow> (c\<lparr>csMulti := True\<rparr>, Inr u))))"

definition Exec :: "session_answer \<Rightarrow> client_sessions \<Rightarrow> client_sessions \<times> (tx_error + goval list)" where
  "Exec reply c =
     (case csLegacy c of
        None \<Rightarrow> (c, Inl TxNoSession)
      | Some n \<Rightarrow>
          if \<not> csMulti c then (c, Inl TxNoMulti)
          else
            (case doOn n [textArg ''EXEC''] reply (setLegacySessionLocked None c) of
               (c, Inl e) \<Rightarrow> (abortOn n c, Inl e)
             | (c, Inr r) \<Rightarrow>
                 (case transactionArray r of
                    None \<Rightarrow> (finishCommandSession n True c, Inl TxReply)
                  | Some vs \<Rightarrow> (finishCommandSession n False c, Inr vs))))"

definition Discard :: "session_answer \<Rightarrow> client_sessions \<Rightarrow> client_sessions \<times> (tx_error + unit)" where
  "Discard reply c =
     (case csLegacy c of
        None \<Rightarrow> (c, Inl TxNoSession)
      | Some n \<Rightarrow>
          if \<not> csMulti c then (c, Inl TxNoMulti)
          else
            (case doOn n [textArg ''DISCARD''] reply (setLegacySessionLocked None c) of
               (c, r) \<Rightarrow>
                 let res = ebind r (\<lambda>r. if responseOK r then Inr () else Inl TxReply) in
                 (finishCommandSession n (res \<noteq> Inr ()) c, res)))"

definition closeClient :: "client_sessions \<Rightarrow> client_sessions" where
  "closeClient c =
     (case csLegacy c of
        None \<Rightarrow> setLegacySessionLocked None c
      | Some n \<Rightarrow> abortOn n (setLegacySessionLocked None c))"

subsection \<open>Commands of the client while a session is active\<close>

text \<open>\<open>Inr None\<close>: there is no session, the command takes the ordinary way.\<close>

definition sessionCommand ::
  "arg list \<Rightarrow> session_answer \<Rightarrow> client_sessions \<Rightarrow> client_sessions \<times> (tx_error + session_reply option)"
where
  "sessionCommand args reply c =
     (case validateCommandArgs args of
        Some e \<Rightarrow> (c, Inl (TxArgs e))
      | None \<Rightarrow>
          if snd (connectionStateCommand args) then (c, Inl (TxStateful (fst (connectionStateCommand args))))
          else case csLegacy c of
            None \<Rightarrow> (c, Inr None)
          | Some n \<Rightarrow>
              let payload = affineCommandArgs args in
              (case (if csMulti c then validateV080TransactionCommand payload else None) of
                 Some e \<Rightarrow> (c, Inl (TxPolicy e))
               | None \<Rightarrow> (case doOn n payload reply c of (c, r) \<Rightarrow> (c, map_sum id Some r))))"

text \<open>
  A pipeline on the session: each command with whether its reply may be a queue marker, and its reply. The
  first failure ends it.
\<close>

fun pipelineOn ::
  "bool \<Rightarrow> nat \<Rightarrow> (arg list \<times> bool \<times> (session_answer)) list \<Rightarrow> client_sessions \<Rightarrow>
   client_sessions \<times> (tx_error + session_reply) list"
where
  "pipelineOn multi n [] c = (c, [])"
| "pipelineOn multi n ((command, allowQueued, reply) # rest) c =
     (if multi \<and> \<not> allowQueued then
        (case pipelineOn multi n rest c of (c, results) \<Rightarrow> (c, Inl TxTypedReply # results))
      else
        (case doOn n (affineCommandArgs command) reply c of
           (c, Inl e) \<Rightarrow> (c, Inl e # replicate (length rest) (Inl TxNotExecuted))
         | (c, Inr r) \<Rightarrow> (case pipelineOn multi n rest c of (c, results) \<Rightarrow> (c, Inr r # results))))"

definition sessionPipeline ::
  "(arg list \<times> bool \<times> (session_answer)) list \<Rightarrow> client_sessions \<Rightarrow>
   client_sessions \<times> (tx_error + (tx_error + session_reply) list option)"
where
  "sessionPipeline batch c =
     (case validatePipelineCommands 0 (map fst batch) of
        Some (_, e) \<Rightarrow> (c, Inl (TxArgs e))
      | None \<Rightarrow>
          (case List.find (\<lambda>command. snd (connectionStateCommand command)) (map fst batch) of
             Some command \<Rightarrow> (c, Inl (TxStateful (fst (connectionStateCommand command))))
           | None \<Rightarrow>
               (case csLegacy c of
                  None \<Rightarrow> (c, Inr None)
                | Some n \<Rightarrow> (case pipelineOn (csMulti c) n batch c of (c, results) \<Rightarrow> (c, Inr (Some results))))))"

subsection \<open>Explicit transactions\<close>

definition closedStateError :: "transaction \<Rightarrow> tx_error option" where
  "closedStateError t =
     (if \<not> trClosed t then None else case trCloseErr t of Some e \<Rightarrow> Some e | None \<Rightarrow> Some TxClosed)"

text \<open>\<open>abort\<close> and \<open>release\<close>: the first one to mark the transaction closed ends its session.\<close>

definition finishTransaction :: "nat \<Rightarrow> session_act \<Rightarrow> tx_error option \<Rightarrow> client_sessions \<Rightarrow> client_sessions" where
  "finishTransaction k act err c =
     (let t = csTransactions c ! k in
      if trClosed t then c
      else onSession (trSession t) (sessionEnd act)
        (c\<lparr>csTransactions := (csTransactions c)[k := t\<lparr>trClosed := True, trCloseErr := err\<rparr>]\<rparr>))"

definition abortTransaction :: "nat \<Rightarrow> tx_error \<Rightarrow> client_sessions \<Rightarrow> client_sessions" where
  "abortTransaction k err = finishTransaction k Aborted (Some err)"

definition releaseTransaction :: "nat \<Rightarrow> client_sessions \<Rightarrow> client_sessions" where
  "releaseTransaction k = finishTransaction k Released None"

definition transactionForKeys ::
  "(string \<Rightarrow> string) option \<Rightarrow> string list \<Rightarrow> finding \<Rightarrow> session_answer \<Rightarrow> client_sessions \<Rightarrow>
   client_sessions \<times> (tx_error + nat)"
where
  "transactionForKeys topology keys found reply c =
     (if csLegacy c \<noteq> None \<and> csMulti c then (c, Inl TxDuringMulti)
      else if csLegacy c \<noteq> None \<and> keys \<noteq> [] then (c, Inl TxSessionActive)
      else
        (case (case csLegacy c of
                 Some n \<Rightarrow> Inr (n, setLegacySessionLocked None c)
               | None \<Rightarrow> acquireCommandSession topology (map textArg keys) found (setLegacySessionLocked None c)) of
           Inl e \<Rightarrow> (setLegacySessionLocked None c, Inl e)
         | Inr (n, c) \<Rightarrow>
             (case openWith n [textArg ''MULTI''] reply c of
                (c, Inl e) \<Rightarrow> (c, Inl e)
              | (c, Inr u) \<Rightarrow>
                  (c\<lparr>csTransactions := csTransactions c @ [\<lparr>trSession = n, trClosed = False, trCloseErr = None\<rparr>]\<rparr>,
                   Inr (length (csTransactions c))))))"

definition TransactionForKeys ::
  "(string \<Rightarrow> string) option \<Rightarrow> string list \<Rightarrow> finding \<Rightarrow> session_answer \<Rightarrow> client_sessions \<Rightarrow>
   client_sessions \<times> (tx_error + nat)"
where
  "TransactionForKeys topology keys found reply c =
     (if keys = [] then (c, Inl TxUsage)
      else case validatePublicStringKeys keys of
        Some e \<Rightarrow> (c, Inl (TxKeys e))
      | None \<Rightarrow> transactionForKeys topology keys found reply c)"

text \<open>
  The part of \<open>Command\<close>, \<open>Exec\<close> and \<open>Discard\<close> around the request. \<open>early\<close> and \<open>late\<close> say whether the
  transaction's context ends before the request is handed over, or before its reply is looked at.
\<close>

definition cutShort :: "bool \<Rightarrow> nat \<Rightarrow> client_sessions \<Rightarrow> client_sessions" where
  "cutShort ends k c = (if ends then abortTransaction k TxContext c else c)"

definition transactionDo ::
  "nat \<Rightarrow> arg list \<Rightarrow> bool \<Rightarrow> session_answer \<Rightarrow> bool \<Rightarrow> client_sessions \<Rightarrow>
   client_sessions \<times> (tx_error + session_reply)"
where
  "transactionDo k args early reply late c =
     (case doOn (trSession (csTransactions c ! k)) args reply (cutShort early k c) of
        (c, r) \<Rightarrow> (cutShort late k c, r))"

definition refuseQueued :: "arg list \<Rightarrow> tx_error option" where
  "refuseQueued args =
     (case validateCommandArgs args of
        Some e \<Rightarrow> Some (TxArgs e)
      | None \<Rightarrow>
          if snd (connectionStateCommand args) then Some (TxStateful (fst (connectionStateCommand args)))
          else if snd (connectionStateMutationCommand args)
          then Some (TxConnectionLocal (fst (connectionStateMutationCommand args)))
          else map_option TxPolicy (validateV080TransactionCommand args))"

fun isRouteError :: "tx_error \<Rightarrow> bool" where
  "isRouteError (TxRoute _) = True"
| "isRouteError _ = False"

definition transactionCommand ::
  "nat \<Rightarrow> arg list \<Rightarrow> bool \<Rightarrow> session_answer \<Rightarrow> bool \<Rightarrow> client_sessions \<Rightarrow>
   client_sessions \<times> (tx_error + session_reply)"
where
  "transactionCommand k args early reply late c =
     (case refuseQueued args of
        Some e \<Rightarrow> (c, Inl e)
      | None \<Rightarrow>
          (case closedStateError (csTransactions c ! k) of
             Some e \<Rightarrow> (c, Inl e)
           | None \<Rightarrow>
               (case transactionDo k (affineCommandArgs args) early reply late c of
                  (c, Inl e) \<Rightarrow> if isRouteError e then (c, Inl e) else (abortTransaction k e c, Inl e)
                | (c, Inr r) \<Rightarrow>
                    if \<not> responseQueued r then (abortTransaction k TxReply c, Inl TxReply)
                    else (case closedStateError (csTransactions c ! k) of Some e \<Rightarrow> (c, Inl e) | None \<Rightarrow> (c, Inr r)))))"

definition transactionExec ::
  "nat \<Rightarrow> bool \<Rightarrow> session_answer \<Rightarrow> bool \<Rightarrow> client_sessions \<Rightarrow> client_sessions \<times> (tx_error + goval list)"
where
  "transactionExec k early reply late c =
     (case closedStateError (csTransactions c ! k) of
        Some e \<Rightarrow> (c, Inl e)
      | None \<Rightarrow>
          (case transactionDo k [textArg ''EXEC''] early reply late c of
             (c, Inl e) \<Rightarrow> (abortTransaction k e c, Inl e)
           | (c, Inr r) \<Rightarrow>
               (case transactionArray r of
                  None \<Rightarrow> (abortTransaction k TxReply c, Inl TxReply)
                | Some vs \<Rightarrow> (releaseTransaction k c, Inr vs))))"

definition transactionDiscard ::
  "nat \<Rightarrow> bool \<Rightarrow> session_answer \<Rightarrow> bool \<Rightarrow> client_sessions \<Rightarrow> client_sessions \<times> (tx_error + unit)"
where
  "transactionDiscard k early reply late c =
     (case closedStateError (csTransactions c ! k) of
        Some e \<Rightarrow> (c, Inl e)
      | None \<Rightarrow>
          (case transactionDo k [textArg ''DISCARD''] early reply late c of
             (c, Inl e) \<Rightarrow> (abortTransaction k e c, Inl e)
           | (c, Inr r) \<Rightarrow>
               if responseOK r then (releaseTransaction k c, Inr ()) else (abortTransaction k TxReply c, Inl TxReply)))"

subsection \<open>Runs\<close>

datatype session_event =
    SeWatch "string list" finding "session_answer"
  | SeUnwatch "session_answer"
  | SeMulti finding "session_answer"
  | SeExec "session_answer"
  | SeDiscard "session_answer"
  | SeCommand "arg list" "session_answer"
  | SePipeline "(arg list \<times> bool \<times> (session_answer)) list"
  | SeClose
  | SeTransaction finding "session_answer"
  | SeTransactionForKeys "string list" finding "session_answer"
  | SeQueue nat "arg list" bool "session_answer" bool
  | SeTransactionExec nat bool "session_answer" bool
  | SeTransactionDiscard nat bool "session_answer" bool
  | SeContextEnds nat

text \<open>Events on a transaction that does not exist do nothing.\<close>

definition onTransaction :: "nat \<Rightarrow> (client_sessions \<Rightarrow> client_sessions) \<Rightarrow> client_sessions \<Rightarrow> client_sessions" where
  "onTransaction k f c = (if k < length (csTransactions c) then f c else c)"

fun session_step :: "(string \<Rightarrow> string) option \<Rightarrow> session_event \<Rightarrow> client_sessions \<Rightarrow> client_sessions" where
  "session_step topology (SeWatch keys found reply) c = fst (Watch topology keys found reply c)"
| "session_step topology (SeUnwatch reply) c = fst (Unwatch reply c)"
| "session_step topology (SeMulti found reply) c = fst (Multi topology found reply c)"
| "session_step topology (SeExec reply) c = fst (Exec reply c)"
| "session_step topology (SeDiscard reply) c = fst (Discard reply c)"
| "session_step topology (SeCommand args reply) c = fst (sessionCommand args reply c)"
| "session_step topology (SePipeline commands) c = fst (sessionPipeline commands c)"
| "session_step topology SeClose c = closeClient c"
| "session_step topology (SeTransaction found reply) c = fst (transactionForKeys topology [] found reply c)"
| "session_step topology (SeTransactionForKeys keys found reply) c = fst (TransactionForKeys topology keys found reply c)"
| "session_step topology (SeQueue k args early reply late) c =
     onTransaction k (\<lambda>c. fst (transactionCommand k args early reply late c)) c"
| "session_step topology (SeTransactionExec k early reply late) c =
     onTransaction k (\<lambda>c. fst (transactionExec k early reply late c)) c"
| "session_step topology (SeTransactionDiscard k early reply late) c =
     onTransaction k (\<lambda>c. fst (transactionDiscard k early reply late c)) c"
| "session_step topology (SeContextEnds k) c = onTransaction k (abortTransaction k TxContext) c"

definition noSessions :: client_sessions where
  "noSessions = \<lparr>csSessions = [], csLegacy = None, csMulti = False, csActive = False, csTransactions = []\<rparr>"

subsection \<open>The protocol of a session\<close>

text \<open>
  What a session may be asked in which phase. A session that has been given back or aborted is asked
  nothing more; after a watch, or a command that starts or ends one, that was not accepted it is only
  aborted; and it is given back only after the command that ends its watch or its transaction was accepted.
\<close>

datatype phase = PFresh | PWatched | PQueued | PEnded | PFailed | PDone

definition accepted :: "string \<Rightarrow> 'e + session_reply \<Rightarrow> bool" where
  "accepted name r =
     (case r of Inl _ \<Rightarrow> False | Inr r \<Rightarrow> if name = ''EXEC'' then transactionArray r \<noteq> None else responseOK r)"

fun advance :: "phase \<Rightarrow> session_act \<Rightarrow> phase option" where
  "advance PDone act = None"
| "advance p Aborted = Some PDone"
| "advance p Released = (if p = PEnded then Some PDone else None)"
| "advance p (Sent args r) =
     (let (name, stateful) = connectionStateCommand args;
          next = (\<lambda>froms to. if p \<in> froms then Some (if accepted name r then to else PFailed) else None) in
      if \<not> stateful then (if p = PWatched \<or> p = PQueued then Some p else None)
      else if name = ''WATCH'' then next {PFresh} PWatched
      else if name = ''UNWATCH'' then next {PWatched} PEnded
      else if name = ''MULTI'' then next {PFresh, PWatched} PQueued
      else next {PQueued} PEnded)"

definition phaseOf :: "session_act list \<Rightarrow> phase option" where
  "phaseOf acts = foldl (\<lambda>p act. Option.bind p (\<lambda>p. advance p act)) (Some PFresh) acts"

lemma phaseOf_snoc [simp]: "phaseOf (acts @ [act]) = Option.bind (phaseOf acts) (\<lambda>p. advance p act)"
  by (simp add: phaseOf_def)

lemma phaseOf_Nil [simp]: "phaseOf [] = Some PFresh"
  by (simp add: phaseOf_def)

text \<open>
  A command that keeps to a slot: a \<open>WATCH\<close> names keys of the slot, and the other commands of the protocol
  no key; any other command is one that touches no key, or its keys are in the slot. For a Flow command
  that is its routing key.
\<close>

definition inSlot :: "nat \<Rightarrow> arg list \<Rightarrow> bool" where
  "inSlot slot args \<longleftrightarrow>
     (if snd (connectionStateCommand args) then list_all (\<lambda>key. routingTargetSlot key = Some slot) (tl args)
      else
        let args = canonicalCommandArgs args; name = commandName args in
        v080TransactionLocalNoKeyCommand name \<or>
        (\<exists>keys. keys \<noteq> [] \<and> list_all (\<lambda>key. routingTargetSlot key = Some slot) keys \<and>
           (if hasPrefix ''FLOW.'' name then map_option (\<lambda>key. [key]) (flowRoutingKey name args) = Some keys
            else Option.bind (topologyCommandPolicies name) (\<lambda>policy. topologyKeysForMode (keyMode policy) args) = Some keys)))"

definition keepsSlot :: "arg list \<Rightarrow> session \<Rightarrow> bool" where
  "keepsSlot args s \<longleftrightarrow> (case ssPin s of None \<Rightarrow> True | Some slot \<Rightarrow> inSlot slot args)"

lemma transaction_keys_slot:
  "validateTopologyTransactionKeys name slot i keys = None \<longleftrightarrow> (\<forall>key \<in> set keys. routingTargetSlot key = Some slot)"
  by (induction keys arbitrary: i) (auto split: option.splits)

lemma route_keeps_slot:
  "validateTopologyTransactionRoute slot args = None \<Longrightarrow> \<not> snd (connectionStateCommand args) \<Longrightarrow> inSlot slot args"
  by (auto simp: validateTopologyTransactionRoute_def inSlot_def Let_def transaction_keys_slot list_all_iff
      split: if_splits option.splits)

fun keptBy :: "session \<Rightarrow> session_act \<Rightarrow> bool" where
  "keptBy s (Sent args r) = keepsSlot args s"
| "keptBy s act = True"

definition sessionAt :: "phase \<Rightarrow> session \<Rightarrow> bool" where
  "sessionAt p s \<longleftrightarrow> phaseOf (ssLog s) = Some p \<and> (ssClosed s \<longleftrightarrow> p = PDone) \<and>
     list_all (keptBy s) (ssLog s)"

lemma kept_log [simp]:
  "keptBy (s\<lparr>ssLog := l\<rparr>) = keptBy s" "keptBy (s\<lparr>ssClosed := b\<rparr>) = keptBy s"
proof -
  have "keptBy (s\<lparr>ssLog := l\<rparr>) act = keptBy s act" "keptBy (s\<lparr>ssClosed := b\<rparr>) act = keptBy s act" for act
    by (cases act; simp add: keepsSlot_def)+
  then show "keptBy (s\<lparr>ssLog := l\<rparr>) = keptBy s" "keptBy (s\<lparr>ssClosed := b\<rparr>) = keptBy s" by blast+
qed

lemma end_aborted: "sessionAt p s \<Longrightarrow> sessionAt PDone (sessionEnd Aborted s)"
  by (cases p) (auto simp: sessionAt_def sessionEnd_def)

lemma end_released: "sessionAt p s \<Longrightarrow> p = PEnded \<or> p = PDone \<Longrightarrow> sessionAt PDone (sessionEnd Released s)"
  by (auto simp: sessionAt_def sessionEnd_def)

text \<open>In phase \<open>p\<close> the command of the protocol \<open>args\<close> may be sent, and leads to \<open>q\<close> if it is accepted.\<close>

definition leads :: "phase \<Rightarrow> arg list \<Rightarrow> phase \<Rightarrow> bool" where
  "leads p args q \<longleftrightarrow> snd (connectionStateCommand args) \<and> p \<noteq> PDone \<and>
     (\<forall>r. advance p (Sent args r) = Some (if accepted (fst (connectionStateCommand args)) r then q else PFailed))"

lemma do_stateful:
  assumes "sessionAt p s" and "leads p args q" and "q \<noteq> PDone" and "keepsSlot args s"
    and "sessionDo args answer s = (s', r)"
  shows "\<exists>p'. sessionAt p' s' \<and> (accepted (fst (connectionStateCommand args)) r \<longrightarrow> p' = q)"
proof -
  have "validateTopologyTransactionRoute slot args = None" for slot
    using assms(2) by (simp add: validateTopologyTransactionRoute_def leads_def)
  then have d: "sessionDo args answer s = (case answer of Unbuilt e \<Rightarrow> (s, Inl (TxExec e))
      | Answered r \<Rightarrow> (s\<lparr>ssLog := ssLog s @ [Sent args r]\<rparr>, map_err TxExec r))"
    using assms(1,2) by (auto simp: sessionDo_def sessionAt_def leads_def split: option.split)
  show ?thesis
  proof (cases answer)
    case (Unbuilt e)
    with d assms(1,5) show ?thesis by (auto simp: accepted_def)
  next
    case (Answered r')
    let ?p = "if accepted (fst (connectionStateCommand args)) r' then q else PFailed"
    have "sessionAt ?p s'"
      using d Answered assms unfolding sessionAt_def leads_def by auto
    moreover have "accepted (fst (connectionStateCommand args)) r = accepted (fst (connectionStateCommand args)) r'"
      using d Answered assms(5) by (cases r') (auto simp: accepted_def)
    ultimately show ?thesis by (intro exI [of _ ?p]) simp
  qed
qed

lemma do_plain:
  assumes "sessionAt p s" and "p \<in> {PWatched, PQueued, PDone}" and "\<not> snd (connectionStateCommand args)"
    and "sessionDo args answer s = (s', r)"
  shows "sessionAt p s'"
proof -
  have "p \<noteq> PDone \<Longrightarrow> advance p (Sent args r) = Some p" for r using assms(2,3) by (auto split: prod.splits)
  moreover have "keepsSlot args s" if "(case ssPin s of None \<Rightarrow> None | Some slot \<Rightarrow> validateTopologyTransactionRoute slot args) = None"
    using that assms(3) by (auto simp: keepsSlot_def split: option.splits intro: route_keeps_slot)
  ultimately show ?thesis using assms
    by (auto simp: sessionDo_def sessionAt_def split: option.splits if_splits session_answer.splits)
qed

lemma do_closed:
  assumes "sessionAt PDone s" and "sessionDo args answer s = (s', r)"
  shows "s' = s" and "\<exists>e. r = Inl e"
  using assms by (auto simp: sessionDo_def sessionAt_def split: option.splits if_splits)

subsection \<open>Who owns a session\<close>

definition openSessions :: "transaction list \<Rightarrow> nat list" where
  "openSessions ts = map trSession (filter (\<lambda>t. \<not> trClosed t) ts)"

definition live :: "client_sessions \<Rightarrow> nat list" where
  "live c = (case csLegacy c of None \<Rightarrow> [] | Some n \<Rightarrow> [n]) @ openSessions (csTransactions c)"

definition expected :: "client_sessions \<Rightarrow> nat \<Rightarrow> phase" where
  "expected c n =
     (if csLegacy c = Some n \<and> \<not> csMulti c then PWatched else if n \<in> set (live c) then PQueued else PDone)"

definition owners_ok :: "client_sessions \<Rightarrow> bool" where
  "owners_ok c \<longleftrightarrow> distinct (live c) \<and> (\<forall>n \<in> set (live c). n < length (csSessions c)) \<and>
     (csMulti c \<longrightarrow> csLegacy c \<noteq> None) \<and> (csActive c \<longleftrightarrow> csLegacy c \<noteq> None)"

definition phases :: "(nat \<Rightarrow> phase) \<Rightarrow> client_sessions \<Rightarrow> bool" where
  "phases P c \<longleftrightarrow> (\<forall>n < length (csSessions c). sessionAt (P n) (csSessions c ! n))"

definition session_inv :: "client_sessions \<Rightarrow> bool" where
  "session_inv c \<longleftrightarrow> owners_ok c \<and> phases (expected c) c"

lemma onSession_sel [simp]:
  "length (csSessions (onSession n f c)) = length (csSessions c)" "csLegacy (onSession n f c) = csLegacy c"
  "csMulti (onSession n f c) = csMulti c" "csActive (onSession n f c) = csActive c"
  "csTransactions (onSession n f c) = csTransactions c" "live (onSession n f c) = live c"
  "expected (onSession n f c) = expected c" "owners_ok (onSession n f c) = owners_ok c"
  by (auto simp: onSession_def live_def expected_def owners_ok_def)

lemma setLegacy_sel [simp]:
  "csSessions (setLegacySessionLocked x c) = csSessions c" "csLegacy (setLegacySessionLocked x c) = x"
  "csMulti (setLegacySessionLocked x c) = False" "csActive (setLegacySessionLocked x c) = (x \<noteq> None)"
  "csTransactions (setLegacySessionLocked x c) = csTransactions c"
  by (simp_all add: setLegacySessionLocked_def)

lemma phases_on:
  "phases P c \<Longrightarrow> (n < length (csSessions c) \<Longrightarrow> sessionAt (P n) (csSessions c ! n) \<Longrightarrow> sessionAt q (f (csSessions c ! n))) \<Longrightarrow>
   phases (P(n := q)) (onSession n f c)"
  by (auto simp: phases_def onSession_def nth_list_update)

lemma phases_cong:
  "phases P c \<Longrightarrow> csSessions c' = csSessions c \<Longrightarrow> (\<And>n. n < length (csSessions c) \<Longrightarrow> P n = Q n) \<Longrightarrow> phases Q c'"
  by (simp add: phases_def)

lemma open_close:
  assumes "k < length ts" and "\<not> trClosed (ts ! k)" and "trClosed t" and "distinct (xs @ openSessions ts)"
  shows "distinct (xs @ openSessions (ts[k := t]))"
    and "set (openSessions (ts[k := t])) = set (openSessions ts) - {trSession (ts ! k)}"
    and "trSession (ts ! k) \<in> set (openSessions ts)"
proof -
  obtain us vs where ts: "ts = us @ ts ! k # vs" and len: "length us = k"
    using id_take_nth_drop [OF assms(1)] assms(1) by (metis length_take min.absorb4)
  have upd: "ts[k := t] = us @ t # vs" using ts len by (metis list_update_length)
  have o1: "openSessions ts = openSessions us @ trSession (ts ! k) # openSessions vs"
    using assms(2) by (subst ts) (simp add: openSessions_def)
  have o2: "openSessions (ts[k := t]) = openSessions us @ openSessions vs"
    unfolding upd using assms(3) by (simp add: openSessions_def)
  from assms(4) show "distinct (xs @ openSessions (ts[k := t]))" unfolding o1 o2 by auto
  from assms(4) show "set (openSessions (ts[k := t])) = set (openSessions ts) - {trSession (ts ! k)}"
    unfolding o1 o2 by auto
  show "trSession (ts ! k) \<in> set (openSessions ts)" unfolding o1 by simp
qed

subsection \<open>Every operation keeps the discipline\<close>

lemma session_invI:
  "owners_ok c \<Longrightarrow> phases P c \<Longrightarrow> (\<And>n. n < length (csSessions c) \<Longrightarrow> P n = expected c n) \<Longrightarrow> session_inv c"
  by (auto simp: session_inv_def elim: phases_cong)

lemma onSession_twice: "n < length (csSessions c) \<Longrightarrow> onSession n f (onSession n g c) = onSession n (f \<circ> g) c"
  by (simp add: onSession_def)

lemma doOn_stateful:
  assumes "phases P c" and "n < length (csSessions c)" and "leads (P n) args q" and "q \<noteq> PDone"
    and "keepsSlot args (csSessions c ! n)" and "doOn n args reply c = (c', r)"
  shows "\<exists>f. c' = onSession n f c"
    and "\<exists>p. phases (P(n := p)) c' \<and> (accepted (fst (connectionStateCommand args)) r \<longrightarrow> p = q)"
proof -
  from assms(6) have c': "c' = onSession n (\<lambda>s. fst (sessionDo args reply s)) c"
    and r: "r = snd (sessionDo args reply (csSessions c ! n))" by (auto simp: doOn_def)
  then show "\<exists>f. c' = onSession n f c" by blast
  have at: "sessionAt (P n) (csSessions c ! n)" using assms(1,2) by (simp add: phases_def)
  obtain s' r' where d: "sessionDo args reply (csSessions c ! n) = (s', r')" by (cases "sessionDo args reply (csSessions c ! n)")
  from do_stateful [OF at assms(3-5) d] obtain p where p: "sessionAt p s'"
    "accepted (fst (connectionStateCommand args)) r' \<longrightarrow> p = q" by blast
  have "phases (P(n := p)) c'" unfolding c' by (rule phases_on [OF assms(1)]) (simp add: d p(1))
  with p(2) d r show "\<exists>p. phases (P(n := p)) c' \<and> (accepted (fst (connectionStateCommand args)) r \<longrightarrow> p = q)" by auto
qed

lemma doOn_plain:
  assumes "phases P c" and "P n \<in> {PWatched, PQueued, PDone}" and "\<not> snd (connectionStateCommand args)"
    and "doOn n args reply c = (c', r)"
  shows "\<exists>f. c' = onSession n f c" and "phases P c'"
proof -
  from assms(4) have c': "c' = onSession n (\<lambda>s. fst (sessionDo args reply s)) c" by (auto simp: doOn_def)
  then show "\<exists>f. c' = onSession n f c" by blast
  have "phases (P(n := P n)) c'"
    unfolding c' by (rule phases_on [OF assms(1)]) (metis do_plain [OF _ assms(2,3)] surjective_pairing)
  then show "phases P c'" by simp
qed

lemma abortOn_phases: "phases P c \<Longrightarrow> phases (P(n := PDone)) (abortOn n c)"
  unfolding abortOn_def by (rule phases_on) (auto intro: end_aborted)

lemma finish_phases:
  "phases P c \<Longrightarrow> failed \<or> P n = PEnded \<or> P n = PDone \<Longrightarrow> phases (P(n := PDone)) (finishCommandSession n failed c)"
  by (cases failed) (auto simp: finishCommandSession_def releaseOn_def abortOn_phases intro!: phases_on end_released)

lemma finish_sel [simp]:
  "\<exists>f. abortOn n c = onSession n f c" "\<exists>f. finishCommandSession n failed c = onSession n f c"
  by (auto simp: abortOn_def finishCommandSession_def releaseOn_def)

lemma openWith_phases:
  assumes "phases P c" and "n < length (csSessions c)" and "leads (P n) args q" and "q \<noteq> PDone"
    and "keepsSlot args (csSessions c ! n)" and "fst (connectionStateCommand args) \<noteq> ''EXEC''"
    and "openWith n args reply c = (c', res)"
  shows "\<exists>f. c' = onSession n f c" and "phases (P(n := if res = Inr () then q else PDone)) c'"
proof -
  obtain c1 r where d: "doOn n args reply c = (c1, r)" by (cases "doOn n args reply c")
  note st = doOn_stateful [OF assms(1-5) d]
  from st(1) obtain f where c1: "c1 = onSession n f c" by blast
  from st(2) obtain p where p: "phases (P(n := p)) c1" "accepted (fst (connectionStateCommand args)) r \<longrightarrow> p = q" by blast
  have ab: "phases (P(n := PDone)) (abortOn n c1)" using abortOn_phases [OF p(1), of n] by simp
  have "(c' = c1 \<and> res = Inr () \<and> p = q) \<or> (c' = abortOn n c1 \<and> (\<exists>e. res = Inl e))"
    using assms(6,7) d p(2) by (auto simp: openWith_def accepted_def split: sum.splits if_splits)
  moreover have "\<exists>f. abortOn n c1 = onSession n f c"
    unfolding c1 abortOn_def onSession_twice [OF assms(2)] by blast
  ultimately show "\<exists>f. c' = onSession n f c" "phases (P(n := if res = Inr () then q else PDone)) c'"
    using p(1) ab c1 by auto
qed

text \<open>The route of a key has the slot of the key, so a new session is pinned to the slot of its keys.\<close>

lemma single_shard_slot:
  "singleShardKey keys = Some key \<Longrightarrow> \<exists>slot. list_all (\<lambda>k. routingTargetSlot k = Some slot) keys \<and> key \<in> set keys"
  by (auto simp: singleShardKey_iff list_all_iff)

lemma route_key_slot:
  assumes "RouteKey t key = Inr route"
  shows "routingTargetSlot key = Some (rtSlot route)"
proof -
  have "isRouteKey key" "rtSlot route = routeSlotForString (keyText key)"
    using assms by (auto simp: RouteKey_def routeSlot_def split: option.splits if_splits)
  then show ?thesis by (cases key rule: routingTargetSlot.cases) auto
qed

lemma route_loop_slot:
  assumes "routeLoop (\<lambda>e snap. routeInSnapshot lower e snap key) obs refreshed = Inr (snap, route)" and "isRouteKey key"
  shows "routingTargetSlot key = Some (rtSlot route)"
  using assms(1)
proof (induction obs arbitrary: refreshed)
  case (Cons ob obs)
  obtain captured seen refresh where ob: "ob = (captured, seen, refresh)" by (cases ob)
  have one: "routingTargetSlot key = Some (rtSlot route)" if "routeInSnapshot lower e snap' key = Inr route" for e snap'
  proof -
    have "routeOfKey (snd (fst snap')) key = RouteKey (Some (snd (fst snap'))) key"
      using assms(2) by (cases key rule: routingTargetSlot.cases) auto
    with that show ?thesis
      by (auto simp: routeInSnapshot_def ebind_Inr_iff split: if_splits intro: route_key_slot)
  qed
  from Cons.prems obtain snap' where "captureRoutingTopology captured = Inr snap'" by (auto simp: ob ebind_Inr_iff)
  with Cons one [of captured snap'] show ?case
    by (cases "routeInSnapshot lower captured snap' key") (auto simp: ob split: if_splits option.splits)
qed simp

lemma acquired_pin:
  assumes "acquireCommandSession topology keys found c = Inr (n, c1)"
  shows "\<exists>pin. n = length (csSessions c) \<and>
    c1 = c\<lparr>csSessions := csSessions c @ [\<lparr>ssPin = pin, ssClosed = False, ssLog = []\<rparr>]\<rparr> \<and> (topology = None \<longleftrightarrow> pin = None) \<and>
    (case pin of None \<Rightarrow> True | Some slot \<Rightarrow> list_all (\<lambda>key. routingTargetSlot key = Some slot) keys)"
proof (cases topology)
  case None
  with assms show ?thesis by (auto simp: acquireCommandSession_def Let_def split: option.splits)
next
  case (Some lower)
  with assms obtain key snapshot route where k: "singleShardKey keys = Some key" "list_all isRouteKey keys"
    and r: "routeWithRefreshSnapshot lower (fst found) key = Inr (snapshot, route)"
    and c1: "n = length (csSessions c)" "c1 = c\<lparr>csSessions := csSessions c @ [\<lparr>ssPin = Some (rtSlot route), ssClosed = False, ssLog = []\<rparr>]\<rparr>"
    by (auto simp: acquireCommandSession_def Let_def split: option.splits if_splits sum.splits)
  from single_shard_slot [OF k(1)] obtain slot where slot: "list_all (\<lambda>k. routingTargetSlot k = Some slot) keys" "key \<in> set keys"
    by blast
  have "routingTargetSlot key = Some (rtSlot route)"
    by (rule route_loop_slot [OF r [unfolded routeWithRefreshSnapshot_def]]) (use k(2) slot(2) in \<open>auto simp: list_all_iff\<close>)
  with slot have "slot = rtSlot route" by (simp add: list_all_iff)
  with slot c1 Some show ?thesis by auto
qed

lemma acquire_phases:
  assumes "session_inv c" and "acquireCommandSession topology keys found c = Inr (n, c1)"
  shows "n = length (csSessions c)" and "length (csSessions c1) = Suc n" and "csLegacy c1 = csLegacy c"
    and "csMulti c1 = csMulti c" and "csActive c1 = csActive c" and "csTransactions c1 = csTransactions c"
    and "phases ((expected c)(n := PFresh)) c1"
proof -
  from acquired_pin [OF assms(2)] obtain pin where n: "n = length (csSessions c)"
    and c1: "c1 = c\<lparr>csSessions := csSessions c @ [\<lparr>ssPin = pin, ssClosed = False, ssLog = []\<rparr>]\<rparr>" by blast
  from n c1 show "n = length (csSessions c)" "length (csSessions c1) = Suc n" "csLegacy c1 = csLegacy c"
    "csMulti c1 = csMulti c" "csActive c1 = csActive c" "csTransactions c1 = csTransactions c" by simp_all
  show "phases ((expected c)(n := PFresh)) c1"
    using assms(1) n by (auto simp: session_inv_def phases_def c1 nth_append sessionAt_def less_Suc_eq)
qed

text \<open>A session that an operation has in hand: nobody owns it, and its phase is known.\<close>

definition in_hand :: "nat \<Rightarrow> phase \<Rightarrow> client_sessions \<Rightarrow> bool" where
  "in_hand n p c \<longleftrightarrow>
     owners_ok c \<and> n < length (csSessions c) \<and> n \<notin> set (live c) \<and> phases ((expected c)(n := p)) c"

lemma in_hand_done: "in_hand n PDone c \<Longrightarrow> session_inv c"
  unfolding in_hand_def
  by (rule session_invI [of c "(expected c)(n := PDone)"]) (auto simp: expected_def live_def)

lemma in_hand_on:
  assumes "in_hand n p c" and "phases ((expected c)(n := q)) (onSession n f c)"
  shows "in_hand n q (onSession n f c)"
  using assms by (simp add: in_hand_def)

lemma in_hand_do:
  assumes "in_hand n p c" and "leads p args q" and "q \<noteq> PDone" and "keepsSlot args (csSessions c ! n)"
    and "doOn n args reply c = (c', r)"
  shows "\<exists>p'. in_hand n p' c' \<and> (accepted (fst (connectionStateCommand args)) r \<longrightarrow> p' = q)"
proof -
  have ph: "phases ((expected c)(n := p)) c" "n < length (csSessions c)" using assms(1) by (auto simp: in_hand_def)
  have "leads (((expected c)(n := p)) n) args q" using assms(2) by simp
  note st = doOn_stateful [OF ph this assms(3-5)]
  from st(1) obtain f where c': "c' = onSession n f c" by blast
  from st(2) obtain p' where p': "phases ((expected c)(n := p')) (onSession n f c)"
    "accepted (fst (connectionStateCommand args)) r \<longrightarrow> p' = q" unfolding c' fun_upd_upd by blast
  with in_hand_on [OF assms(1)] c' show ?thesis by blast
qed

lemma in_hand_finish:
  assumes "in_hand n p c" and "failed \<or> p = PEnded"
  shows "session_inv (finishCommandSession n failed c)"
proof -
  obtain f where f: "finishCommandSession n failed c = onSession n f c" using finish_sel(2) by blast
  have "phases ((expected c)(n := PDone)) (finishCommandSession n failed c)"
    using finish_phases [of "(expected c)(n := p)" c failed n] assms by (auto simp: in_hand_def)
  then have "in_hand n PDone (finishCommandSession n failed c)"
    unfolding f by (rule in_hand_on [OF assms(1)])
  then show ?thesis by (rule in_hand_done)
qed

lemma in_hand_abort: "in_hand n p c \<Longrightarrow> session_inv (abortOn n c)"
  using in_hand_finish [of n p c True] by (simp add: finishCommandSession_def)

lemma in_hand_open:
  assumes "in_hand n p c" and "leads p args q" and "q \<noteq> PDone" and "keepsSlot args (csSessions c ! n)"
    and "fst (connectionStateCommand args) \<noteq> ''EXEC''" and "openWith n args reply c = (c', res)"
  shows "in_hand n (if res = Inr () then q else PDone) c'" and "csLegacy c' = csLegacy c" and "csTransactions c' = csTransactions c"
proof -
  have ph: "phases ((expected c)(n := p)) c" "n < length (csSessions c)" using assms(1) by (auto simp: in_hand_def)
  have "leads (((expected c)(n := p)) n) args q" using assms(2) by simp
  note st = openWith_phases [OF ph this assms(3-6)]
  from st(1) obtain f where c': "c' = onSession n f c" by blast
  from st(2) have "phases ((expected c)(n := if res = Inr () then q else PDone)) (onSession n f c)"
    unfolding c' fun_upd_upd .
  from in_hand_on [OF assms(1) this] show "in_hand n (if res = Inr () then q else PDone) c'" unfolding c' .
  from c' show "csLegacy c' = csLegacy c" "csTransactions c' = csTransactions c" by simp_all
qed

lemma in_hand_acquired:
  assumes "session_inv c" and "acquireCommandSession topology keys found c = Inr (n, c1)"
  shows "in_hand n PFresh c1"
proof -
  note a = acquire_phases [OF assms]
  have "live c1 = live c" "expected c1 = expected c" using a by (auto simp: live_def expected_def)
  then show ?thesis using a assms(1) by (auto simp: in_hand_def session_inv_def owners_ok_def)
qed

lemma in_hand_taken:
  assumes "session_inv c" and "csLegacy c = Some n"
  shows "in_hand n (if csMulti c then PQueued else PWatched) (setLegacySessionLocked None c)"
proof -
  have own: "distinct (n # openSessions (csTransactions c))" "\<forall>m \<in> set (n # openSessions (csTransactions c)). m < length (csSessions c)"
    and ph: "phases (expected c) c"
    using assms by (simp_all add: session_inv_def owners_ok_def live_def)
  have "phases ((expected (setLegacySessionLocked None c))(n := if csMulti c then PQueued else PWatched)) (setLegacySessionLocked None c)"
    using assms(2) by (intro phases_cong [OF ph]) (auto simp: expected_def live_def)
  with own show ?thesis by (auto simp: in_hand_def owners_ok_def live_def)
qed

lemma give_legacy:
  assumes "in_hand n (if multi then PQueued else PWatched) c" and "csLegacy c = None"
  shows "session_inv ((setLegacySessionLocked (Some n) c)\<lparr>csMulti := multi\<rparr>)"
proof -
  let ?c = "(setLegacySessionLocked (Some n) c)\<lparr>csMulti := multi\<rparr>"
  have "phases (expected ?c) ?c"
    by (rule phases_cong [where P = "(expected c)(n := if multi then PQueued else PWatched)" and c = c])
      (use assms in \<open>auto simp: in_hand_def expected_def live_def\<close>)
  moreover have "owners_ok ?c" using assms by (auto simp: in_hand_def owners_ok_def live_def)
  ultimately show ?thesis by (simp add: session_inv_def)
qed

lemma legacy_live: "csLegacy c = Some n \<Longrightarrow> n \<in> set (live c)"
  by (simp add: live_def)

lemma give_transaction:
  assumes "in_hand n PQueued c"
  shows "session_inv (c\<lparr>csTransactions := csTransactions c @ [\<lparr>trSession = n, trClosed = False, trCloseErr = None\<rparr>]\<rparr>)"
proof -
  let ?c = "c\<lparr>csTransactions := csTransactions c @ [\<lparr>trSession = n, trClosed = False, trCloseErr = None\<rparr>]\<rparr>"
  have live: "live ?c = live c @ [n]" by (simp add: live_def openSessions_def split: option.split)
  have "phases (expected ?c) ?c"
    by (rule phases_cong [where P = "(expected c)(n := PQueued)" and c = c])
      (use assms in \<open>auto simp: in_hand_def expected_def live dest: legacy_live\<close>)
  moreover have "owners_ok ?c" using assms by (auto simp: in_hand_def owners_ok_def live)
  ultimately show ?thesis by (simp add: session_inv_def)
qed

lemma openWith_setLegacy:
  "openWith n args reply (setLegacySessionLocked x c) = map_prod (setLegacySessionLocked x) id (openWith n args reply c)"
  by (simp add: openWith_def doOn_def abortOn_def onSession_def setLegacySessionLocked_def split: sum.split)

lemma setLegacy_twice [simp]: "setLegacySessionLocked x (setLegacySessionLocked y c) = setLegacySessionLocked x c"
  by (simp add: setLegacySessionLocked_def)

lemma setLegacy_same:
  "session_inv c \<Longrightarrow> \<not> csMulti c \<Longrightarrow> setLegacySessionLocked (csLegacy c) c = c"
  by (simp add: session_inv_def owners_ok_def setLegacySessionLocked_def)

lemma setLegacy_keep [simp]: "(setLegacySessionLocked x c)\<lparr>csMulti := False\<rparr> = setLegacySessionLocked x c"
  by (simp add: setLegacySessionLocked_def)

lemma stateful_names [simp]:
  "connectionStateCommand [textArg ''UNWATCH''] = (''UNWATCH'', True)"
  "connectionStateCommand [textArg ''MULTI''] = (''MULTI'', True)"
  "connectionStateCommand [textArg ''EXEC''] = (''EXEC'', True)"
  "connectionStateCommand [textArg ''DISCARD''] = (''DISCARD'', True)"
  by code_simp+

lemma stateful_watch [simp]: "connectionStateCommand (textArg ''WATCH'' # args) = (''WATCH'', True)"
proof -
  have "commandPart (textArg ''WATCH'') = ''WATCH''" by code_simp
  then show ?thesis by (simp add: connectionStateCommand_def innerName_def stateCommandNames_def)
qed

text \<open>The commands of the protocol, and the phases they lead to.\<close>

lemma protocol [simp]:
  "leads PFresh (textArg ''WATCH'' # args) PWatched" "leads PWatched [textArg ''UNWATCH''] PEnded"
  "leads PQueued [textArg ''EXEC''] PEnded" "leads PQueued [textArg ''DISCARD''] PEnded"
  by (simp_all add: leads_def)

lemma protocol_multi [simp]: "p = PFresh \<or> p = PWatched \<Longrightarrow> leads p [textArg ''MULTI''] PQueued"
  by (auto simp: leads_def)

lemma no_key_slot [simp]:
  "keepsSlot [textArg ''UNWATCH''] s" "keepsSlot [textArg ''MULTI''] s" "keepsSlot [textArg ''EXEC''] s"
  "keepsSlot [textArg ''DISCARD''] s"
  by (simp_all add: keepsSlot_def inSlot_def split: option.split)

lemma watch_keeps_slot:
  assumes "acquireCommandSession topology keys found c = Inr (n, c1)"
  shows "keepsSlot (textArg ''WATCH'' # keys) (csSessions c1 ! n)"
  using acquired_pin [OF assms] by (auto simp: keepsSlot_def inSlot_def split: option.splits)

lemma watch_inv:
  assumes inv: "session_inv c"
  shows "session_inv (fst (Watch topology keys found reply c))"
proof (cases "keys \<noteq> [] \<and> validatePublicStringKeys keys = None \<and> csLegacy c = None \<and>
    (\<exists>a. acquireCommandSession topology (map textArg keys) found c = Inr a)")
  case False
  with assms show ?thesis by (auto simp: Watch_def split: option.splits sum.splits)
next
  case True
  then obtain n c1 where acq: "acquireCommandSession topology (map textArg keys) found c = Inr (n, c1)" by auto
  obtain c2 res where op: "openWith n (textArg ''WATCH'' # map textArg keys) reply c1 = (c2, res)"
    by (cases "openWith n (textArg ''WATCH'' # map textArg keys) reply c1")
  note h = in_hand_open [OF in_hand_acquired [OF inv acq] protocol(1) _ watch_keeps_slot [OF acq] _ op, simplified]
  have none: "csLegacy c2 = None" using h(2) acquire_phases(3) [OF inv acq] True by simp
  show ?thesis
  proof (cases res)
    case (Inl e)
    with h(1) True acq op show ?thesis by (simp add: Watch_def in_hand_done)
  next
    case (Inr u)
    with h(1) give_legacy [of n False c2] none have "session_inv (setLegacySessionLocked (Some n) c2)" by simp
    with True acq op Inr show ?thesis by (simp add: Watch_def)
  qed
qed

lemma unwatch_inv:
  assumes inv: "session_inv c"
  shows "session_inv (fst (Unwatch reply c))"
proof (cases "\<exists>n. csLegacy c = Some n \<and> \<not> csMulti c")
  case False
  with inv show ?thesis by (auto simp: Unwatch_def split: option.splits)
next
  case True
  then obtain n where n: "csLegacy c = Some n" "\<not> csMulti c" by blast
  obtain c1 r where d: "doOn n [textArg ''UNWATCH''] reply (setLegacySessionLocked None c) = (c1, r)"
    by (cases "doOn n [textArg ''UNWATCH''] reply (setLegacySessionLocked None c)")
  from in_hand_do [OF in_hand_taken [OF inv n(1)] _ _ _ d, of PEnded] n obtain p where p: "in_hand n p c1"
    "accepted ''UNWATCH'' r \<longrightarrow> p = PEnded" by auto
  have "session_inv (finishCommandSession n (ebind r (\<lambda>r. if responseOK r then Inr () else Inl TxReply) \<noteq> Inr ()) c1)"
    by (rule in_hand_finish [OF p(1)]) (use p(2) in \<open>auto simp: accepted_def ebind_Inr_iff split: sum.splits if_splits\<close>)
  with d n show ?thesis by (simp add: Unwatch_def Let_def)
qed

lemma discard_inv:
  assumes inv: "session_inv c"
  shows "session_inv (fst (Discard reply c))"
proof (cases "\<exists>n. csLegacy c = Some n \<and> csMulti c")
  case False
  with inv show ?thesis by (auto simp: Discard_def split: option.splits)
next
  case True
  then obtain n where n: "csLegacy c = Some n" "csMulti c" by blast
  obtain c1 r where d: "doOn n [textArg ''DISCARD''] reply (setLegacySessionLocked None c) = (c1, r)"
    by (cases "doOn n [textArg ''DISCARD''] reply (setLegacySessionLocked None c)")
  from in_hand_do [OF in_hand_taken [OF inv n(1)] _ _ _ d, of PEnded] n obtain p where p: "in_hand n p c1"
    "accepted ''DISCARD'' r \<longrightarrow> p = PEnded" by auto
  have "session_inv (finishCommandSession n (ebind r (\<lambda>r. if responseOK r then Inr () else Inl TxReply) \<noteq> Inr ()) c1)"
    by (rule in_hand_finish [OF p(1)]) (use p(2) in \<open>auto simp: accepted_def ebind_Inr_iff split: sum.splits if_splits\<close>)
  with d n show ?thesis by (simp add: Discard_def Let_def)
qed

lemma exec_inv:
  assumes inv: "session_inv c"
  shows "session_inv (fst (Exec reply c))"
proof (cases "\<exists>n. csLegacy c = Some n \<and> csMulti c")
  case False
  with inv show ?thesis by (auto simp: Exec_def split: option.splits)
next
  case True
  then obtain n where n: "csLegacy c = Some n" "csMulti c" by blast
  obtain c1 r where d: "doOn n [textArg ''EXEC''] reply (setLegacySessionLocked None c) = (c1, r)"
    by (cases "doOn n [textArg ''EXEC''] reply (setLegacySessionLocked None c)")
  from in_hand_do [OF in_hand_taken [OF inv n(1)] _ _ _ d, of PEnded] n obtain p where p: "in_hand n p c1"
    "accepted ''EXEC'' r \<longrightarrow> p = PEnded" by auto
  with in_hand_finish [OF p(1)] d n show ?thesis
    by (auto simp: Exec_def accepted_def in_hand_abort split: sum.split option.split)
qed

lemma multi_inv:
  assumes inv: "session_inv c"
  shows "session_inv (fst (Multi topology found reply c))"
proof -
  have go: "session_inv (fst (case openWith n [textArg ''MULTI''] reply (setLegacySessionLocked (Some n) c1) of
        (c, Inl e) \<Rightarrow> (setLegacySessionLocked None c, Inl e) | (c, Inr u) \<Rightarrow> (c\<lparr>csMulti := True\<rparr>, Inr u)))"
    if h: "in_hand n p c1" "p = PFresh \<or> p = PWatched" "csLegacy c1 = None" for n p c1
  proof -
    obtain c2 res where op: "openWith n [textArg ''MULTI''] reply c1 = (c2, res)"
      by (cases "openWith n [textArg ''MULTI''] reply c1")
    note o = in_hand_open [OF h(1) protocol_multi [OF h(2)] _ no_key_slot(2) _ op, simplified]
    have none: "csLegacy c2 = None" using o(2) h(3) by simp
    show ?thesis
    proof (cases res)
      case (Inl e)
      have "in_hand n PDone c2" using o(1) Inl by simp
      then have "session_inv c2" by (rule in_hand_done)
      then have "setLegacySessionLocked None c2 = c2" using setLegacy_same [of c2] none
        by (auto simp: session_inv_def owners_ok_def)
      with \<open>session_inv c2\<close> op Inl show ?thesis by (simp add: openWith_setLegacy)
    next
      case (Inr u)
      with o(1) give_legacy [of n True c2] none op show ?thesis by (simp add: openWith_setLegacy)
    qed
  qed
  show ?thesis
  proof (cases "csLegacy c")
    case None
    then show ?thesis
    proof (cases "acquireCommandSession topology [] found c")
      case (Inl e)
      with None inv show ?thesis by (simp add: Multi_def)
    next
      case (Inr nc)
      obtain n c1 where nc: "nc = (n, c1)" by (cases nc)
      have acq: "acquireCommandSession topology [] found c = Inr (n, c1)" using Inr nc by simp
      from go [OF in_hand_acquired [OF inv acq]] acquire_phases(3) [OF inv acq] None acq
      show ?thesis by (simp add: Multi_def)
    qed
  next
    case (Some n)
    show ?thesis
    proof (cases "csMulti c")
      case True
      with Some inv show ?thesis by (simp add: Multi_def)
    next
      case False
      have same: "setLegacySessionLocked (Some n) c = c" using setLegacy_same [OF inv False] Some by simp
      have "in_hand n PWatched (setLegacySessionLocked None c)" using in_hand_taken [OF inv Some] False by simp
      from go [OF this] Some False same show ?thesis by (simp add: Multi_def)
    qed
  qed
qed

lemma close_client_inv:
  assumes inv: "session_inv c"
  shows "session_inv (closeClient c)"
proof (cases "csLegacy c")
  case None
  then have "\<not> csMulti c" using inv by (auto simp: session_inv_def owners_ok_def)
  from setLegacy_same [OF inv this] None inv show ?thesis by (simp add: closeClient_def)
next
  case (Some n)
  from in_hand_abort [OF in_hand_taken [OF inv Some]] Some show ?thesis by (simp add: closeClient_def)
qed

lemma affine_part: "commandPart (Val (VString (keyText a))) = commandPart a"
proof -
  have "toUpper [] = []" by code_simp
  then show ?thesis by (simp add: commandPart_def keyText_def split: option.split)
qed

lemma affine_stateful: "snd (connectionStateCommand (affineCommandArgs args)) = snd (connectionStateCommand args)"
proof -
  have "commandPart (textArg ''COMMAND_EXEC'') = ''COMMAND_EXEC''" by code_simp
  then show ?thesis by (auto simp: affineCommandArgs_def connectionStateCommand_def innerName_def Let_def affine_part)
qed

lemma plain_inv:
  assumes "session_inv c" and "expected c n \<noteq> PFresh" and "expected c n \<noteq> PEnded"
    and "expected c n \<noteq> PFailed" and "\<not> snd (connectionStateCommand args)" and "doOn n args reply c = (c', r)"
  shows "session_inv c'" and "\<exists>f. c' = onSession n f c"
proof -
  have "expected c n \<in> {PWatched, PQueued, PDone}" using assms(2-4) by (cases "expected c n") auto
  from doOn_plain [where P = "expected c", OF _ this assms(5,6)] assms(1) obtain f where c': "c' = onSession n f c"
    and ph: "phases (expected c) c'" by (auto simp: session_inv_def)
  from c' show "\<exists>f. c' = onSession n f c" by blast
  from ph assms(1) show "session_inv c'" by (simp add: session_inv_def c')
qed

lemma expected_cases: "expected c n \<noteq> PFresh" "expected c n \<noteq> PEnded" "expected c n \<noteq> PFailed"
  by (simp_all add: expected_def)

lemma command_inv:
  assumes inv: "session_inv c"
  shows "session_inv (fst (sessionCommand args reply c))"
proof -
  have step: "session_inv (fst (doOn n (affineCommandArgs args) reply c))" if "\<not> snd (connectionStateCommand args)" for n
    using plain_inv(1) [OF inv expected_cases, of "affineCommandArgs args"] that affine_stateful [of args]
    by (metis fst_conv surj_pair)
  show ?thesis
  proof (cases "validateCommandArgs args = None \<and> \<not> snd (connectionStateCommand args)")
    case False
    with inv show ?thesis by (auto simp: sessionCommand_def split: option.split)
  next
    case True
    then show ?thesis using step inv
      by (auto simp: sessionCommand_def Let_def split_beta split: option.split)
  qed
qed

lemma pipelineOn_inv:
  assumes "session_inv c" and "\<forall>(command, a, r) \<in> set batch. \<not> snd (connectionStateCommand command)"
  shows "session_inv (fst (pipelineOn multi n batch c))"
  using assms
proof (induction batch arbitrary: c)
  case Nil
  then show ?case by simp
next
  case (Cons item batch)
  obtain command allowed reply where item: "item = (command, allowed, reply)" by (cases item)
  have "\<not> snd (connectionStateCommand (affineCommandArgs command))" using Cons.prems(2) by (simp add: item affine_stateful)
  from plain_inv(1) [OF Cons.prems(1) expected_cases this]
  have sent: "session_inv (fst (doOn n (affineCommandArgs command) reply c))" by (metis prod.collapse)
  have rest: "session_inv (fst (pipelineOn multi n batch d))" if "session_inv d" for d
    using Cons.IH [OF that] Cons.prems(2) by simp
  show ?case
    using rest [OF sent] rest [OF Cons.prems(1)] sent
    by (auto simp: item split_beta split: sum.split)
qed

lemma pipeline_inv:
  assumes inv: "session_inv c"
  shows "session_inv (fst (sessionPipeline batch c))"
proof (cases "List.find (\<lambda>command. snd (connectionStateCommand command)) (map fst batch)")
  case (Some command)
  with inv show ?thesis by (auto simp: sessionPipeline_def split: option.split)
next
  case None
  then have "\<forall>command \<in> set (map fst batch). \<not> snd (connectionStateCommand command)" by (simp add: find_None_iff)
  then have "\<forall>(command, a, r) \<in> set batch. \<not> snd (connectionStateCommand command)" by force
  from pipelineOn_inv [OF inv this] inv None show ?thesis
    by (auto simp: sessionPipeline_def split_beta split: option.split)
qed

lemma transaction_start_inv:
  assumes inv: "session_inv c"
  shows "session_inv (fst (transactionForKeys topology keys found reply c))"
proof -
  have go: "session_inv (fst (case openWith n [textArg ''MULTI''] reply c1 of
        (c, Inl e) \<Rightarrow> (c, Inl e)
      | (c, Inr u) \<Rightarrow> (c\<lparr>csTransactions := csTransactions c @ [\<lparr>trSession = n, trClosed = False, trCloseErr = None\<rparr>]\<rparr>,
                       (Inr (length (csTransactions c)) :: tx_error + nat))))"
    if h: "in_hand n p c1" "p = PFresh \<or> p = PWatched" for n p c1
  proof -
    obtain c2 res where op: "openWith n [textArg ''MULTI''] reply c1 = (c2, res)"
      by (cases "openWith n [textArg ''MULTI''] reply c1")
    from in_hand_open(1) [OF h(1) protocol_multi [OF h(2)] _ no_key_slot(2) _ op] op show ?thesis
      by (cases res) (auto intro: in_hand_done give_transaction)
  qed
  show ?thesis
  proof (cases "csLegacy c")
    case None
    then have "\<not> csMulti c" using inv by (auto simp: session_inv_def owners_ok_def)
    with setLegacy_same [OF inv this] None have same: "setLegacySessionLocked None c = c" by simp
    show ?thesis
    proof (cases "acquireCommandSession topology (map textArg keys) found c")
      case (Inl e)
      with None inv same show ?thesis by (simp add: transactionForKeys_def)
    next
      case (Inr nc)
      obtain n c1 where nc: "nc = (n, c1)" by (cases nc)
      have acq: "acquireCommandSession topology (map textArg keys) found c = Inr (n, c1)" using Inr nc by simp
      from go [OF in_hand_acquired [OF inv acq]] None acq same show ?thesis by (simp add: transactionForKeys_def)
    qed
  next
    case (Some n)
    show ?thesis
    proof (cases "csMulti c \<or> keys \<noteq> []")
      case True
      with Some inv show ?thesis by (auto simp: transactionForKeys_def)
    next
      case False
      then have "in_hand n PWatched (setLegacySessionLocked None c)" using in_hand_taken [OF inv Some] by simp
      from go [OF this] Some False show ?thesis by (simp add: transactionForKeys_def)
    qed
  qed
qed

subsection \<open>Transactions keep it\<close>

lemma transaction_live:
  assumes "k < length (csTransactions c)" and "\<not> trClosed (csTransactions c ! k)" and "session_inv c"
  shows "expected c (trSession (csTransactions c ! k)) = PQueued" and "trSession (csTransactions c ! k) < length (csSessions c)"
proof -
  have mem: "trSession (csTransactions c ! k) \<in> set (openSessions (csTransactions c))"
    using assms(1,2) by (auto simp: openSessions_def)
  then show "trSession (csTransactions c ! k) < length (csSessions c)"
    using assms(3) by (simp add: session_inv_def owners_ok_def live_def)
  from mem assms(3) show "expected c (trSession (csTransactions c ! k)) = PQueued"
    by (auto simp: session_inv_def owners_ok_def live_def expected_def split: option.splits)
qed

text \<open>Closing a transaction leaves its session in hand.\<close>

lemma in_hand_closed:
  assumes inv: "owners_ok c" and k: "k < length (csTransactions c)" "\<not> trClosed (csTransactions c ! k)" and t: "trClosed t"
    and ph: "phases ((expected c)(trSession (csTransactions c ! k) := p)) c"
  shows "in_hand (trSession (csTransactions c ! k)) p (c\<lparr>csTransactions := (csTransactions c)[k := t]\<rparr>)"
proof -
  let ?c = "c\<lparr>csTransactions := (csTransactions c)[k := t]\<rparr>" and ?n = "trSession (csTransactions c ! k)"
  let ?l = "case csLegacy c of None \<Rightarrow> [] | Some n \<Rightarrow> [n]"
  have dist: "distinct (?l @ openSessions (csTransactions c))" and bound: "\<forall>n \<in> set (live c). n < length (csSessions c)"
    using inv by (simp_all add: owners_ok_def live_def)
  note oc = open_close [OF k t dist]
  have "?n \<notin> set ?l" using dist oc(3) by (auto split: option.splits)
  then have live: "set (live ?c) = set (live c) - {?n}" using oc(2) by (auto simp: live_def)
  have "phases ((expected ?c)(?n := p)) ?c"
    by (rule phases_cong [OF ph]) (use live in \<open>auto simp: expected_def\<close>)
  moreover have "owners_ok ?c" using inv oc(1) live bound by (auto simp: owners_ok_def live_def)
  moreover have "?n < length (csSessions ?c)" using bound oc(3) by (simp add: live_def)
  ultimately show ?thesis using live by (simp add: in_hand_def)
qed

lemma finish_open:
  assumes inv: "owners_ok c" and k: "k < length (csTransactions c)" "\<not> trClosed (csTransactions c ! k)"
    and ph: "phases ((expected c)(trSession (csTransactions c ! k) := p)) c"
    and act: "act = Aborted \<or> (act = Released \<and> p = PEnded)"
  shows "session_inv (finishTransaction k act err c)"
proof -
  let ?t = "(csTransactions c ! k)\<lparr>trClosed := True, trCloseErr := err\<rparr>"
  have "in_hand (trSession (csTransactions c ! k)) p (c\<lparr>csTransactions := (csTransactions c)[k := ?t]\<rparr>)"
    by (rule in_hand_closed [OF inv k _ ph]) simp
  from in_hand_finish [OF this, of "act = Aborted"] act k(2) show ?thesis
    by (auto simp: finishTransaction_def Let_def finishCommandSession_def abortOn_def releaseOn_def)
qed

lemma finish_closed: "trClosed (csTransactions c ! k) \<Longrightarrow> finishTransaction k act err c = c"
  by (simp add: finishTransaction_def)

lemma abort_transaction_inv:
  assumes "session_inv c" and "k < length (csTransactions c)"
  shows "session_inv (abortTransaction k e c)"
proof (cases "trClosed (csTransactions c ! k)")
  case True
  with assms show ?thesis by (simp add: abortTransaction_def finish_closed)
next
  case False
  let ?n = "trSession (csTransactions c ! k)"
  have "(expected c)(?n := PQueued) = expected c" using transaction_live(1) [OF assms(2) False assms(1)] by auto
  then have "phases ((expected c)(?n := PQueued)) c" using assms(1) by (simp add: session_inv_def)
  from finish_open [OF _ assms(2) False this] assms(1) show ?thesis by (simp add: abortTransaction_def session_inv_def)
qed

lemma finish_count [simp]: "length (csTransactions (finishTransaction k act err c)) = length (csTransactions c)"
  by (simp add: finishTransaction_def Let_def)

lemma cut_inv:
  "session_inv c \<Longrightarrow> k < length (csTransactions c) \<Longrightarrow> session_inv (cutShort ends k c)"
  by (simp add: cutShort_def abort_transaction_inv)

lemma cut_count [simp]: "length (csTransactions (cutShort ends k c)) = length (csTransactions c)"
  by (simp add: cutShort_def abortTransaction_def)

lemma plain_do_inv:
  assumes "session_inv c" and "k < length (csTransactions c)" and "\<not> snd (connectionStateCommand args)"
    and "transactionDo k args early reply late c = (c', r)"
  shows "session_inv c'" and "k < length (csTransactions c')"
proof -
  let ?n = "trSession (csTransactions c ! k)"
  obtain c1 r1 where d: "doOn ?n args reply (cutShort early k c) = (c1, r1)"
    by (cases "doOn ?n args reply (cutShort early k c)")
  note p = plain_inv [OF cut_inv [OF assms(1,2)] expected_cases assms(3) d]
  have len: "k < length (csTransactions c1)" using p(2) assms(2) by auto
  from assms(4) d have "c' = cutShort late k c1" by (simp add: transactionDo_def)
  with cut_inv [OF p(1) len] len show "session_inv c'" "k < length (csTransactions c')" by simp_all
qed

lemma transaction_command_inv:
  assumes "session_inv c" and "k < length (csTransactions c)"
  shows "session_inv (fst (transactionCommand k args early reply late c))"
proof (cases "refuseQueued args = None \<and> closedStateError (csTransactions c ! k) = None")
  case False
  with assms show ?thesis by (auto simp: transactionCommand_def split: option.split)
next
  case True
  then have plain: "\<not> snd (connectionStateCommand (affineCommandArgs args))"
    by (auto simp: refuseQueued_def affine_stateful split: option.splits if_splits)
  obtain c1 r where d: "transactionDo k (affineCommandArgs args) early reply late c = (c1, r)"
    by (cases "transactionDo k (affineCommandArgs args) early reply late c")
  note p = plain_do_inv [OF assms plain d]
  from True d p abort_transaction_inv [OF p] show ?thesis
    by (auto simp: transactionCommand_def split: sum.split option.split)
qed

lemma do_lost: "ssClosed s \<Longrightarrow> \<exists>e. sessionDo args reply s = (s, Inl e)"
  by (simp add: sessionDo_def split: option.split)

lemma transaction_cut:
  assumes "k < length (csTransactions c)" and "\<not> trClosed (csTransactions c ! k)"
    and "trSession (csTransactions c ! k) < length (csSessions c)"
    and "transactionDo k args True reply late c = (c', r)"
  shows "c' = abortTransaction k TxContext c" and "trClosed (csTransactions c' ! k)" and "\<exists>e. r = Inl e"
proof -
  let ?n = "trSession (csTransactions c ! k)" and ?c = "abortTransaction k TxContext c"
  have closed: "ssClosed (csSessions ?c ! ?n)" "trClosed (csTransactions ?c ! k)"
    using assms(1-3) by (simp_all add: abortTransaction_def finishTransaction_def onSession_def sessionEnd_def Let_def)
  obtain e where e: "sessionDo args reply (csSessions ?c ! ?n) = (csSessions ?c ! ?n, Inl e)"
    using do_lost [OF closed(1)] by blast
  then have "doOn ?n args reply ?c = (?c, Inl e)" by (simp add: doOn_def onSession_def)
  with assms(4) closed(2) have "c' = ?c \<and> r = Inl e"
    by (simp add: transactionDo_def cutShort_def abortTransaction_def finish_closed split: if_splits)
  with closed(2) show "c' = ?c" "trClosed (csTransactions c' ! k)" "\<exists>e. r = Inl e" by simp_all
qed

text \<open>After \<open>EXEC\<close> or \<open>DISCARD\<close> the session may be given back, or aborted, whatever the context does.\<close>

lemma transaction_end:
  assumes inv: "session_inv c" and k: "k < length (csTransactions c)" and op: "\<not> trClosed (csTransactions c ! k)"
    and st: "leads PQueued args PEnded" "tl args = []"
    and d: "transactionDo k args early reply late c = (c', r)"
    and act: "act = Aborted \<or> (act = Released \<and> accepted (fst (connectionStateCommand args)) r)"
  shows "session_inv (finishTransaction k act err c')"
proof -
  let ?n = "trSession (csTransactions c ! k)"
  note live = transaction_live [OF k op inv]
  show ?thesis
  proof (cases early)
    case True
    with d have "transactionDo k args True reply late c = (c', r)" by simp
    from transaction_cut(1,2) [OF k op live(2) this] abort_transaction_inv [OF inv k]
    show ?thesis by (simp add: finish_closed)
  next
    case False
    obtain c1 r1 where d1: "doOn ?n args reply c = (c1, r1)" by (cases "doOn ?n args reply c")
    have ph: "phases (expected c) c" and own: "owners_ok c" using inv by (simp_all add: session_inv_def)
    have slot: "keepsSlot args (csSessions c ! ?n)"
      using st by (simp add: keepsSlot_def inSlot_def leads_def split: option.split)
    note s = doOn_stateful [OF ph live(2) _ _ slot d1, of PEnded]
    from s(1) st(1) live(1) obtain f where c1: "c1 = onSession ?n f c" by auto
    from s(2) st(1) live(1) obtain p where p: "phases ((expected c1)(?n := p)) c1"
      "accepted (fst (connectionStateCommand args)) r1 \<longrightarrow> p = PEnded" by (auto simp: c1)
    have k1: "k < length (csTransactions c1)" "\<not> trClosed (csTransactions c1 ! k)" "csTransactions c1 ! k = csTransactions c ! k"
      using k op by (simp_all add: c1)
    have fin: "session_inv (finishTransaction k act err c1)" if "act = Aborted \<or> (act = Released \<and> p = PEnded)" for act err
      by (rule finish_open [OF _ k1(1,2), where p = p]) (use own p that k1(3) c1 in auto)
    have r: "r = r1" using d d1 False by (simp add: transactionDo_def cutShort_def)
    have c': "c' = cutShort late k c1" using d d1 False by (simp add: transactionDo_def cutShort_def)
    show ?thesis
    proof (cases late)
      case True
      have "trClosed (csTransactions (abortTransaction k TxContext c1) ! k)"
        using k1 by (simp add: abortTransaction_def finishTransaction_def Let_def)
      with fin [of Aborted "Some TxContext"] True show ?thesis
        by (simp add: c' cutShort_def finish_closed) (simp add: abortTransaction_def)
    next
      case False
      with fin [of act err] act p(2) r show ?thesis by (auto simp: c' cutShort_def)
    qed
  qed
qed

lemma closedStateError_None [simp]: "closedStateError t = None \<longleftrightarrow> \<not> trClosed t"
  by (auto simp: closedStateError_def split: option.split)

lemma transaction_exec_inv:
  assumes "session_inv c" and "k < length (csTransactions c)"
  shows "session_inv (fst (transactionExec k early reply late c))"
proof (cases "trClosed (csTransactions c ! k)")
  case True
  with assms show ?thesis by (auto simp: transactionExec_def split: option.split dest: closedStateError_None [THEN iffD1])
next
  case False
  obtain c1 r where d: "transactionDo k [textArg ''EXEC''] early reply late c = (c1, r)"
    by (cases "transactionDo k [textArg ''EXEC''] early reply late c")
  have none: "closedStateError (csTransactions c ! k) = None" using False by simp
  note e = transaction_end [OF assms False _ _ d]
  show ?thesis
    unfolding transactionExec_def none option.case d prod.case
    by (auto simp: abortTransaction_def releaseTransaction_def accepted_def intro!: e split: sum.split option.split)
qed

lemma transaction_discard_inv:
  assumes "session_inv c" and "k < length (csTransactions c)"
  shows "session_inv (fst (transactionDiscard k early reply late c))"
proof (cases "trClosed (csTransactions c ! k)")
  case True
  with assms show ?thesis by (auto simp: transactionDiscard_def split: option.split dest: closedStateError_None [THEN iffD1])
next
  case False
  obtain c1 r where d: "transactionDo k [textArg ''DISCARD''] early reply late c = (c1, r)"
    by (cases "transactionDo k [textArg ''DISCARD''] early reply late c")
  have none: "closedStateError (csTransactions c ! k) = None" using False by simp
  note e = transaction_end [OF assms False _ _ d]
  show ?thesis
    unfolding transactionDiscard_def none option.case d prod.case
    by (auto simp: abortTransaction_def releaseTransaction_def accepted_def intro!: e split: sum.split)
qed

lemma session_step_inv: "session_inv c \<Longrightarrow> session_inv (session_step topology ev c)"
  by (cases ev)
    (auto simp: watch_inv unwatch_inv multi_inv exec_inv discard_inv command_inv pipeline_inv close_client_inv
      transaction_start_inv TransactionForKeys_def onTransaction_def transaction_command_inv transaction_exec_inv
      transaction_discard_inv abort_transaction_inv split: option.split)

interpretation sessions: event_machine "session_step topology" session_inv
  by unfold_locales (rule session_step_inv)

lemma no_sessions_inv: "session_inv noSessions"
  by (simp add: session_inv_def owners_ok_def phases_def noSessions_def live_def openSessions_def)

subsection \<open>Properties\<close>

text \<open>
  C31. No session leaks and none is shared: in every reachable state of a client, each session it ever took
  has been asked only what its phase allows; the sessions that are not over are exactly the one of the
  active watch or MULTI and those of the open transactions, each owned once; and a session that is over
  was given back or aborted exactly once, as its last act.
\<close>

theorem sessions_owned_once:
  "let c = fold (session_step topology) evs noSessions in
     distinct (live c) \<and>
     list_all (\<lambda>(n, s). \<exists>p. phaseOf (ssLog s) = Some p \<and> (n \<in> set (live c) \<longleftrightarrow> p \<noteq> PDone) \<and>
       (ssClosed s \<longleftrightarrow> p = PDone)) (List.enumerate 0 (csSessions c))"
proof -
  define c where "c = fold (session_step topology) evs noSessions"
  have inv: "session_inv c" unfolding c_def by (rule sessions.run_inv [OF no_sessions_inv])
  have "phaseOf (ssLog (csSessions c ! n)) = Some (expected c n) \<and> (n \<in> set (live c) \<longleftrightarrow> expected c n \<noteq> PDone) \<and>
      (ssClosed (csSessions c ! n) \<longleftrightarrow> expected c n = PDone)" if "n < length (csSessions c)" for n
    using inv that by (auto simp: session_inv_def phases_def sessionAt_def expected_def dest: legacy_live)
  then have "list_all (\<lambda>(n, s). \<exists>p. phaseOf (ssLog s) = Some p \<and> (n \<in> set (live c) \<longleftrightarrow> p \<noteq> PDone) \<and>
       (ssClosed s \<longleftrightarrow> p = PDone)) (List.enumerate 0 (csSessions c))"
    by (auto simp: list_all_iff in_set_enumerate_eq)
  then show ?thesis using inv by (simp add: c_def [symmetric] session_inv_def owners_ok_def)
qed

lemma phaseOf_released:
  "phaseOf (acts @ [Released]) = Some p \<Longrightarrow>
   \<exists>before args r. acts = before @ [Sent args r] \<and> accepted (fst (connectionStateCommand args)) r \<and>
     fst (connectionStateCommand args) \<in> {''UNWATCH'', ''EXEC'', ''DISCARD''}"
proof -
  assume p: "phaseOf (acts @ [Released]) = Some p"
  then have ended: "phaseOf acts = Some PEnded"
    by (cases "phaseOf acts") (auto elim: advance.elims split: if_splits)
  then obtain before act where acts: "acts = before @ [act]" by (cases acts rule: rev_cases) auto
  with ended obtain q where q: "advance q act = Some PEnded" by (auto simp: bind_eq_Some_conv)
  then obtain args r where act: "act = Sent args r" by (cases q; cases act) (auto split: if_splits)
  have "snd (connectionStateCommand args)" "accepted (fst (connectionStateCommand args)) r"
    using q by (cases q; auto simp: act split: prod.splits if_splits)+
  moreover from this have "fst (connectionStateCommand args) \<in> set stateCommandNames"
    by (auto simp: connectionStateCommand_def Let_def split: if_splits)
  moreover have "fst (connectionStateCommand args) \<noteq> ''WATCH''" "fst (connectionStateCommand args) \<noteq> ''MULTI''"
    using q by (cases q; auto simp: act split: prod.splits if_splits)+
  ultimately show ?thesis using acts act by (auto simp: stateCommandNames_def)
qed

text \<open>
  C32. A connection goes back to general use clean: when a session is given back, the last thing it was asked
  is an UNWATCH or a DISCARD that the server answered with OK, or an EXEC that it answered with an array. A
  session with a watch or a queue, or whose last command failed, was refused or had a malformed reply, is
  never released, only aborted.
\<close>

theorem released_clean:
  assumes "s \<in> set (csSessions (fold (session_step topology) evs noSessions))" and "ssLog s = acts @ [Released]"
  shows "\<exists>before args r. acts = before @ [Sent args (Inr r)] \<and>
    (let name = fst (connectionStateCommand args) in
      (name \<in> {''UNWATCH'', ''DISCARD''} \<and> responseOK r) \<or> (name = ''EXEC'' \<and> transactionArray r \<noteq> None))"
proof -
  have "session_inv (fold (session_step topology) evs noSessions)" by (rule sessions.run_inv [OF no_sessions_inv])
  with assms(1) obtain p where "sessionAt p s" by (auto simp: session_inv_def phases_def in_set_conv_nth)
  then have "phaseOf (acts @ [Released]) = Some p" using assms(2) by (simp add: sessionAt_def)
  from phaseOf_released [OF this] obtain before args r where r: "acts = before @ [Sent args r]"
    "accepted (fst (connectionStateCommand args)) r" "fst (connectionStateCommand args) \<in> {''UNWATCH'', ''EXEC'', ''DISCARD''}"
    by blast
  then show ?thesis by (cases r) (auto simp: accepted_def Let_def split: if_splits)
qed

text \<open>Every session of a topology client is pinned: nothing unpins one.\<close>

definition pins :: "client_sessions \<Rightarrow> nat option list" where "pins c = map ssPin (csSessions c)"

lemma pins_on [simp]:
  assumes "\<And>s. ssPin (f s) = ssPin s"
  shows "pins (onSession n f c) = pins c"
proof -
  have "map ssPin ((csSessions c)[n := f (csSessions c ! n)]) = map ssPin (csSessions c)"
    by (cases "n < length (csSessions c)") (auto intro: nth_equalityI simp: nth_list_update assms)
  then show ?thesis by (simp add: pins_def onSession_def)
qed

lemma pin_kept [simp]: "ssPin (fst (sessionDo args reply s)) = ssPin s" "ssPin (sessionEnd act s) = ssPin s"
  by (auto simp: sessionDo_def sessionEnd_def split: option.split session_answer.split)

lemma pins_basic [simp]:
  "pins (fst (doOn n args reply c)) = pins c" "pins (abortOn n c) = pins c" "pins (releaseOn n c) = pins c"
  "pins (setLegacySessionLocked x c) = pins c" "pins (finishCommandSession n failed c) = pins c"
  "pins (c\<lparr>csMulti := b\<rparr>) = pins c" "pins (c\<lparr>csTransactions := ts\<rparr>) = pins c"
  by (simp_all add: doOn_def abortOn_def releaseOn_def finishCommandSession_def) (simp_all add: pins_def)

lemma pins_open [simp]: "pins (fst (openWith n args reply c)) = pins c"
  by (auto simp: openWith_def split_beta split: sum.split)

lemma pins_finish [simp]:
  "pins (finishTransaction k act err c) = pins c" "pins (abortTransaction k e c) = pins c"
  "pins (releaseTransaction k c) = pins c" "pins (cutShort ends k c) = pins c"
  by (simp_all add: finishTransaction_def abortTransaction_def releaseTransaction_def cutShort_def Let_def)

lemma pins_transaction [simp]: "pins (fst (transactionDo k args early reply late c)) = pins c"
  by (simp add: transactionDo_def split_beta)

lemma pins_pipeline [simp]: "pins (fst (pipelineOn multi n batch c)) = pins c"
proof (induction batch arbitrary: c)
  case (Cons item batch)
  then show ?case by (cases item) (auto simp: split_beta split: sum.split)
qed simp

definition pinned :: "(string \<Rightarrow> string) option \<Rightarrow> client_sessions \<Rightarrow> bool" where
  "pinned topology c \<longleftrightarrow> (topology = None \<or> None \<notin> set (pins c))"

lemma pinned_cong: "pins c' = pins c \<Longrightarrow> pinned topology c' = pinned topology c"
  by (simp add: pinned_def)

lemma pinned_acquire: "acquireCommandSession topology keys found c = Inr (n, c1) \<Longrightarrow> pinned topology c \<Longrightarrow> pinned topology c1"
  by (drule acquired_pin) (auto simp: pinned_def pins_def)

text \<open>What an operation does with the session it acquires keeps the pins.\<close>

lemma pinned_watch:
  assumes "pinned topology c"
  shows "pinned topology (fst (Watch topology keys found reply c))"
proof (cases "keys = [] \<or> validatePublicStringKeys keys \<noteq> None \<or> csLegacy c \<noteq> None")
  case True
  with assms show ?thesis by (auto simp: Watch_def split: option.split)
next
  case False
  show ?thesis
  proof (cases "acquireCommandSession topology (map textArg keys) found c")
    case (Inl e)
    with False assms show ?thesis by (simp add: Watch_def)
  next
    case (Inr a)
    obtain n c1 where a: "a = (n, c1)" by (cases a)
    have "pins (fst (Watch topology keys found reply c)) = pins c1"
      using False Inr a pins_open [of n "textArg ''WATCH'' # map textArg keys" reply c1]
      by (cases "openWith n (textArg ''WATCH'' # map textArg keys) reply c1") (auto simp: Watch_def split: sum.split)
    with pinned_acquire [OF Inr [unfolded a] assms] show ?thesis by (simp add: pinned_def)
  qed
qed

lemma pins_started:
  "pins (fst (case openWith n [textArg ''MULTI''] reply c of
     (c, Inl e) \<Rightarrow> (f c, Inl e) | (c, Inr u) \<Rightarrow> (g c, h c))) = pins c"
  if "\<And>c. pins (f c) = pins c" and "\<And>c. pins (g c) = pins c" for h :: "client_sessions \<Rightarrow> tx_error + 'a"
  using that pins_open [of n "[textArg ''MULTI'']" reply c]
  by (cases "openWith n [textArg ''MULTI''] reply c") (auto split: sum.split)

lemma pinned_multi:
  assumes "pinned topology c"
  shows "pinned topology (fst (Multi topology found reply c))"
proof (cases "csLegacy c")
  case (Some n)
  then have "pins (fst (Multi topology found reply c)) = pins c" by (simp add: Multi_def pins_started)
  with assms show ?thesis by (simp add: pinned_def)
next
  case None
  show ?thesis
  proof (cases "acquireCommandSession topology [] found c")
    case (Inl e)
    with None assms show ?thesis by (simp add: Multi_def)
  next
    case (Inr a)
    obtain n c1 where a: "a = (n, c1)" by (cases a)
    have "pins (fst (Multi topology found reply c)) = pins c1" using None Inr a by (simp add: Multi_def pins_started)
    with pinned_acquire [OF Inr [unfolded a] assms] show ?thesis by (simp add: pinned_def)
  qed
qed

lemma pinned_transaction:
  assumes "pinned topology c"
  shows "pinned topology (fst (transactionForKeys topology keys found reply c))"
proof (cases "csLegacy c")
  case (Some n)
  then have "pins (fst (transactionForKeys topology keys found reply c)) = pins c"
    by (simp add: transactionForKeys_def pins_started)
  with assms show ?thesis by (simp add: pinned_def)
next
  case None
  have c0: "pinned topology (setLegacySessionLocked None c)" using assms by (simp add: pinned_def)
  show ?thesis
  proof (cases "acquireCommandSession topology (map textArg keys) found (setLegacySessionLocked None c)")
    case (Inl e)
    with None c0 show ?thesis by (simp add: transactionForKeys_def)
  next
    case (Inr a)
    obtain n c1 where a: "a = (n, c1)" by (cases a)
    have "pins (fst (transactionForKeys topology keys found reply c)) = pins c1"
      using None Inr a by (simp add: transactionForKeys_def pins_started)
    with pinned_acquire [OF Inr [unfolded a] c0] show ?thesis by (simp add: pinned_def)
  qed
qed

lemma pins_kept:
  "pins (fst (Unwatch reply c)) = pins c" "pins (fst (Exec reply c)) = pins c" "pins (fst (Discard reply c)) = pins c"
  "pins (closeClient c) = pins c" "pins (fst (sessionCommand args reply c)) = pins c"
  "pins (fst (sessionPipeline batch c)) = pins c"
  by (auto simp: Unwatch_def Exec_def Discard_def closeClient_def sessionCommand_def sessionPipeline_def Let_def split_beta
      split: sum.split option.split)

lemma pins_kept_transaction:
  "pins (fst (transactionCommand k args early reply late c)) = pins c"
  "pins (fst (transactionExec k early reply late c)) = pins c"
  "pins (fst (transactionDiscard k early reply late c)) = pins c"
proof -
  note rules = split_beta transactionCommand_def transactionExec_def transactionDiscard_def
  show "pins (fst (transactionCommand k args early reply late c)) = pins c"
    by (cases "transactionDo k (affineCommandArgs args) early reply late c")
      (use pins_transaction [of k "affineCommandArgs args" early reply late c] in
        \<open>auto simp: rules split: sum.split option.split\<close>)
  show "pins (fst (transactionExec k early reply late c)) = pins c"
    by (cases "transactionDo k [textArg ''EXEC''] early reply late c")
      (use pins_transaction [of k "[textArg ''EXEC'']" early reply late c] in
        \<open>auto simp: rules split: sum.split option.split\<close>)
  show "pins (fst (transactionDiscard k early reply late c)) = pins c"
    by (cases "transactionDo k [textArg ''DISCARD''] early reply late c")
      (use pins_transaction [of k "[textArg ''DISCARD'']" early reply late c] in
        \<open>auto simp: rules split: sum.split option.split\<close>)
qed

lemma pinned_step: "pinned topology c \<Longrightarrow> pinned topology (session_step topology ev c)"
  by (cases ev)
    (auto simp: pinned_watch pinned_multi pinned_transaction pinned_cong [OF pins_kept(1)] pinned_cong [OF pins_kept(2)]
      pinned_cong [OF pins_kept(3)] pinned_cong [OF pins_kept(4)] pinned_cong [OF pins_kept(5)] pinned_cong [OF pins_kept(6)]
      pinned_cong [OF pins_kept_transaction(1)] pinned_cong [OF pins_kept_transaction(2)]
      pinned_cong [OF pins_kept_transaction(3)] pinned_cong [OF pins_finish(2)] TransactionForKeys_def onTransaction_def
      split: option.split)

interpretation pinning: event_machine "session_step topology" "pinned topology" for topology
  by unfold_locales (rule pinned_step)

text \<open>
  C33. A transaction of a topology client stays in its slot: each of its sessions is pinned to a slot, and
  every command it hands to the connection is a \<open>WATCH\<close> of keys of that slot, one of the commands without
  keys that start or end a transaction, one that touches no key, or one whose keys (the routing key only, for
  a Flow command) are all in that slot.
\<close>

theorem pinned_session_single_slot:
  assumes "s \<in> set (csSessions (fold (session_step (Some lower)) evs noSessions))"
  shows "\<exists>slot. ssPin s = Some slot \<and>
    list_all (\<lambda>act. case act of Sent args _ \<Rightarrow> inSlot slot args | _ \<Rightarrow> True) (ssLog s)"
proof -
  let ?c = "fold (session_step (Some lower)) evs noSessions"
  have "pinned (Some lower) noSessions" by (simp add: pinned_def pins_def noSessions_def)
  from pinning.run_inv [OF this] have "pinned (Some lower) ?c" .
  then obtain slot where slot: "ssPin s = Some slot" using assms by (cases "ssPin s") (auto simp: pinned_def pins_def image_iff)
  have "session_inv ?c" by (rule sessions.run_inv [OF no_sessions_inv])
  with assms obtain p where "sessionAt p s" by (auto simp: session_inv_def phases_def in_set_conv_nth)
  then have "list_all (keptBy s) (ssLog s)" by (simp add: sessionAt_def)
  with slot show ?thesis by (auto simp: list_all_iff keepsSlot_def split: session_act.split)
qed

text \<open>The keys that \<open>TransactionForKeys\<close> is given are in the slot its session is pinned to.\<close>

lemma transaction_keys_pinned:
  assumes "TransactionForKeys (Some lower) keys found reply c = (c', Inr k)"
  shows "\<exists>slot. pins c' = pins c @ [Some slot] \<and>
    list_all (\<lambda>key. routingTargetSlot (textArg key) = Some slot) keys"
proof -
  have none: "csLegacy c = None" and ne: "keys \<noteq> []"
    using assms by (auto simp: TransactionForKeys_def transactionForKeys_def split: if_splits option.splits)
  with assms obtain n c1 where acq: "acquireCommandSession (Some lower) (map textArg keys) found (setLegacySessionLocked None c) = Inr (n, c1)"
    and c': "pins c' = pins c1"
    by (auto simp: TransactionForKeys_def transactionForKeys_def split_beta split: if_splits option.splits sum.splits)
  from acquired_pin [OF acq] obtain slot where "pins c1 = pins c @ [Some slot]"
    "list_all (\<lambda>key. routingTargetSlot key = Some slot) (map textArg keys)"
    by (auto simp: pins_def)
  with c' show ?thesis by (auto simp: list_all_iff)
qed

abbreviation okGiven :: "exec_error + session_reply" where "okGiven \<equiv> Inr (RPlain (VString ''OK''))"
abbreviation queuedGiven :: "exec_error + session_reply" where "queuedGiven \<equiv> Inr (RPlain (VString ''QUEUED''))"
abbreviation emptyGiven :: "exec_error + session_reply" where "emptyGiven \<equiv> Inr (RPlain (VArray None []))"

definition okReply :: session_answer where "okReply = Answered okGiven"
definition queuedReply :: session_answer where "queuedReply = Answered queuedGiven"
definition emptyReply :: session_answer where "emptyReply = Answered emptyGiven"

lemma sample_replies [simp]:
  "responseOK (RPlain (VString ''OK''))" "responseQueued (RPlain (VString ''QUEUED''))"
  by code_simp+

definition sampleFinding :: finding where "sampleFinding = ([(samplePlanner, samplePlanner, None)], None)"

lemma sample_finding:
  "routeWithRefreshSnapshot lowerAscii (fst sampleFinding) (textArg ''a'') =
     Inr (((1, sampleTwoShards), 0), sampleOtherRoute\<lparr>rtSlot := 579\<rparr>)"
proof -
  have snap: "captureRoutingTopology samplePlanner = Inr ((1, sampleTwoShards), 0)"
    "routingSnapshotCurrent samplePlanner ((1, sampleTwoShards), 0)"
    by (simp_all add: captureRoutingTopology_def routingSnapshotCurrent_def samplePlanner_def sampleExecutor_def)
  have internal: "\<not> reservedInternalKeyString ''a''" by code_simp
  have "routeInSnapshot lowerAscii samplePlanner ((Suc 0, sampleTwoShards), 0) (textArg ''a'') =
      Inr (sampleOtherRoute\<lparr>rtSlot := 579\<rparr>)"
    by (simp_all add: routeInSnapshot_def RouteKey_def routeSlot_def keyText_def sample_slots internal sample_route_endpoint
        sample_route_endpoint_ok)
      (simp_all add: sampleTwoShards_def routeSlotCount_def sample_slots sample_route_endpoint sample_route_endpoint_ok)
  with snap show ?thesis
    by (simp add: routeWithRefreshSnapshot_def sampleFinding_def maxTopologyPlanningAttempts_def)
qed

lemma sample_acquire:
  "acquireCommandSession (Some lowerAscii) [textArg ''a''] sampleFinding c =
     Inr (length (csSessions c), c\<lparr>csSessions := csSessions c @ [\<lparr>ssPin = Some 579, ssClosed = False, ssLog = []\<rparr>]\<rparr>)"
  by (simp add: acquireCommandSession_def sample_finding) (simp add: sampleFinding_def)

definition incrA :: "arg list" where "incrA = [textArg ''INCR'', textArg ''a'']"

lemma sample_keys [simp]: "validatePublicStringKeys [''a''] = None"
proof -
  have "\<not> reservedInternalKeyString ''a''" by code_simp
  then show ?thesis
    by (simp add: validatePublicStringKeys_def validatePublicStringKey_def validateStringKeyV080_def maxStringKeyBytesV080_def)
qed

lemma sample_refuse [simp]: "refuseQueued incrA = None"
proof -
  have "bytes_of ''INCR'' = [73, 78, 67, 82]" by code_simp
  then have name: "validatedCommandName (textArg ''INCR'') = Inr ''INCR''"
    by (simp add: validatedCommandName_def spaceChars_def controlChars_def upt_rec hasPrefix_def)
  have "validatePublicCommandKeys incrA = None" "validateSETCommandArgs incrA = None" "validateV080FlowSignalArgs incrA = None"
    "validateAtomicMSetSlots incrA = None" by code_simp+
  with name have "validateCommandArgs incrA = None" by (simp add: validateCommandArgs_def incrA_def)
  moreover have "snd (connectionStateCommand incrA) = False" "snd (connectionStateMutationCommand incrA) = False"
    "validateV080TransactionCommand incrA = None" by code_simp+
  ultimately show ?thesis by (simp add: refuseQueued_def)
qed

lemma sample_affine [simp]:
  "snd (connectionStateCommand (affineCommandArgs incrA)) = False"
  "affineCommandArgs incrA = [textArg ''COMMAND_EXEC'', textArg ''INCR'', textArg ''a'']"
  by code_simp+

lemma sample_policy:
  "canonicalCommandArgs [textArg ''COMMAND_EXEC'', textArg ''INCR'', textArg ''a''] = incrA"
  "commandName incrA = ''INCR''" "\<not> v080TransactionLocalNoKeyCommand ''INCR''" "\<not> hasPrefix ''FLOW.'' ''INCR''"
  "Option.bind (topologyCommandPolicies ''INCR'') (\<lambda>policy. topologyKeysForMode (keyMode policy) incrA) = Some [textArg ''a'']"
  by code_simp+

lemma sample_route_check:
  "validateTopologyTransactionRoute 579 [textArg ''COMMAND_EXEC'', textArg ''INCR'', textArg ''a''] = None"
proof -
  have st: "snd (connectionStateCommand [textArg ''COMMAND_EXEC'', textArg ''INCR'', textArg ''a'']) = False" by code_simp
  obtain policy where p: "topologyCommandPolicies ''INCR'' = Some policy"
    "topologyKeysForMode (keyMode policy) incrA = Some [textArg ''a'']"
    using sample_policy(5) by (auto simp: bind_eq_Some_conv)
  have ne: "incrA \<noteq> []" by (simp add: incrA_def)
  show ?thesis
    by (simp add: validateTopologyTransactionRoute_def st sample_policy p ne keyText_def sample_slots)
qed

text \<open>A watch of \<open>a\<close>, and a transaction on the watching session with one command queued.\<close>

definition sampleRun :: "session_event list" where
  "sampleRun = [SeWatch [''a''] sampleFinding okReply, SeTransaction sampleFinding okReply,
     SeQueue 0 incrA False queuedReply False, SeTransactionExec 0 False emptyReply False]"

definition sampleLog :: "session_act list" where
  "sampleLog = [Sent [textArg ''WATCH'', textArg ''a''] okGiven, Sent [textArg ''MULTI''] okGiven,
     Sent [textArg ''COMMAND_EXEC'', textArg ''INCR'', textArg ''a''] queuedGiven, Sent [textArg ''EXEC''] emptyGiven]"

lemma sample_run:
  "csSessions (fold (session_step (Some lowerAscii)) sampleRun noSessions) =
     [\<lparr>ssPin = Some 579, ssClosed = True, ssLog = sampleLog @ [Released]\<rparr>]"
  using sample_route_check
  by (simp add: sampleRun_def sampleLog_def noSessions_def Watch_def transactionForKeys_def sample_acquire openWith_def doOn_def
      sessionDo_def onSession_def okReply_def queuedReply_def emptyReply_def setLegacySessionLocked_def
      validateTopologyTransactionRoute_def onTransaction_def transactionCommand_def transactionDo_def cutShort_def
      transactionExec_def releaseTransaction_def finishTransaction_def sessionEnd_def closedStateError_def)

theorem released_clean_witness:
  "\<exists>before args r. sampleLog = before @ [Sent args (Inr r)] \<and>
    (let name = fst (connectionStateCommand args) in
      (name \<in> {''UNWATCH'', ''DISCARD''} \<and> responseOK r) \<or> (name = ''EXEC'' \<and> transactionArray r \<noteq> None))"
  by (rule released_clean [of "csSessions (fold (session_step (Some lowerAscii)) sampleRun noSessions) ! 0" "Some lowerAscii" sampleRun])
    (simp_all add: sample_run)

theorem pinned_session_single_slot_witness:
  "inSlot 579 [textArg ''WATCH'', textArg ''a''] \<and> inSlot 579 [textArg ''COMMAND_EXEC'', textArg ''INCR'', textArg ''a'']"
  using pinned_session_single_slot [of "csSessions (fold (session_step (Some lowerAscii)) sampleRun noSessions) ! 0" lowerAscii sampleRun]
  by (simp add: sample_run) (simp add: sampleLog_def)

text \<open>
  C34. A queued command of an explicit transaction: if \<open>Command\<close> succeeds, the command was one the server
  accepts in a transaction, it was sent once on the transaction's session, as \<open>COMMAND_EXEC\<close>, the server
  answered QUEUED, and the transaction is still open.
\<close>

theorem transaction_command_queued:
  assumes "transactionCommand k args early reply late c = (c', Inr r)"
    and "k < length (csTransactions c)" and "session_inv c"
  shows "refuseQueued args = None \<and> responseQueued r \<and> \<not> trClosed (csTransactions c' ! k) \<and>
    (let n = trSession (csTransactions c ! k) in
      csSessions c' = (csSessions c)[n := (csSessions c ! n)\<lparr>ssLog := ssLog (csSessions c ! n) @ [Sent (affineCommandArgs args) (Inr r)]\<rparr>])"
proof -
  let ?n = "trSession (csTransactions c ! k)"
  have ref: "refuseQueued args = None" and op: "\<not> trClosed (csTransactions c ! k)"
    using assms(1) by (auto simp: transactionCommand_def split: option.splits)
  obtain c1 r1 where d: "transactionDo k (affineCommandArgs args) early reply late c = (c1, r1)"
    by (cases "transactionDo k (affineCommandArgs args) early reply late c")
  have r1: "r1 = Inr r \<and> c' = c1 \<and> responseQueued r \<and> \<not> trClosed (csTransactions c1 ! k)"
    using assms(1) ref op d
    by (auto simp: transactionCommand_def split: sum.splits if_splits option.splits)
  note live = transaction_live [OF assms(2) op assms(3)]
  have "\<not> early" using transaction_cut(3) [OF assms(2) op live(2), of "affineCommandArgs args" reply late c1 r1] d r1 by auto
  moreover have "\<not> late"
  proof
    assume late
    then have c1: "c1 = abortTransaction k TxContext (fst (doOn ?n (affineCommandArgs args) reply c))"
      using d \<open>\<not> early\<close> by (auto simp: transactionDo_def cutShort_def split: prod.splits)
    have "csTransactions (fst (doOn ?n (affineCommandArgs args) reply c)) = csTransactions c" by (simp add: doOn_def)
    then have "trClosed (csTransactions c1 ! k)"
      unfolding c1 using assms(2) op by (simp add: abortTransaction_def finishTransaction_def Let_def)
    with r1 show False by simp
  qed
  ultimately have "doOn ?n (affineCommandArgs args) reply c = (c1, Inr r)"
    using d r1 by (auto simp: transactionDo_def cutShort_def split: prod.splits)
  then have "csSessions c1 = (csSessions c)[?n := (csSessions c ! ?n)\<lparr>ssLog := ssLog (csSessions c ! ?n) @ [Sent (affineCommandArgs args) (Inr r)]\<rparr>]"
    by (auto simp: doOn_def onSession_def sessionDo_def map_err_def split: option.splits if_splits session_answer.splits sum.splits)
  with ref r1 show ?thesis by (simp add: Let_def)
qed

definition sampleOpen :: client_sessions where
  "sampleOpen = \<lparr>csSessions = [\<lparr>ssPin = None, ssClosed = False, ssLog = [Sent [textArg ''MULTI''] okGiven]\<rparr>],
     csLegacy = None, csMulti = False, csActive = False,
     csTransactions = [\<lparr>trSession = 0, trClosed = False, trCloseErr = None\<rparr>]\<rparr>"

lemma sample_open: "sampleOpen = fold (session_step None) [SeTransaction ([], None) okReply] noSessions"
  by (simp add: sampleOpen_def noSessions_def transactionForKeys_def acquireCommandSession_def openWith_def doOn_def
      sessionDo_def onSession_def okReply_def setLegacySessionLocked_def)

theorem transaction_command_queued_witness:
  "\<exists>c'. transactionCommand 0 incrA False queuedReply False sampleOpen = (c', Inr (RPlain (VString ''QUEUED''))) \<and>
     csSessions c' = [\<lparr>ssPin = None, ssClosed = False, ssLog = [Sent [textArg ''MULTI''] okGiven, Sent (affineCommandArgs incrA) queuedGiven]\<rparr>]"
proof -
  have inv: "session_inv sampleOpen" unfolding sample_open by (rule sessions.run_inv [OF no_sessions_inv])
  have "\<exists>c'. transactionCommand 0 incrA False queuedReply False sampleOpen = (c', Inr (RPlain (VString ''QUEUED'')))"
    by (simp add: transactionCommand_def transactionDo_def cutShort_def doOn_def sessionDo_def onSession_def queuedReply_def
        sampleOpen_def closedStateError_def del: sample_affine(2))
  then obtain c' where c': "transactionCommand 0 incrA False queuedReply False sampleOpen = (c', Inr (RPlain (VString ''QUEUED'')))"
    by blast
  from transaction_command_queued [OF c' _ inv] c' show ?thesis
    by (simp add: sampleOpen_def Let_def del: sample_affine(2))
qed

text \<open>
  A pipeline on a MULTI session does not check its commands against the transaction policy, which a single
  command does: \<open>BLPOP\<close>, which the server refuses in a transaction, is sent.
\<close>

lemma pipeline_skips_policy:
  assumes "csLegacy c = Some n" and "csMulti c" and "\<not> ssClosed (csSessions c ! n)" and "ssPin (csSessions c ! n) = None"
    and "n < length (csSessions c)"
  defines "blpop \<equiv> [textArg ''BLPOP'', textArg ''a'', Val (VInt 0)]"
  shows "sessionCommand blpop reply c = (c, Inl (TxPolicy (TrUnsupported ''BLPOP'')))"
    and "ssLog (csSessions (fst (sessionPipeline [(blpop, True, Answered r)] c)) ! n) =
      ssLog (csSessions c ! n) @ [Sent (affineCommandArgs blpop) r]"
proof -
  have "bytes_of ''BLPOP'' = [66, 76, 80, 79, 80]" by code_simp
  then have name: "validatedCommandName (textArg ''BLPOP'') = Inr ''BLPOP''"
    by (simp add: validatedCommandName_def spaceChars_def controlChars_def upt_rec hasPrefix_def)
  have "validatePublicCommandKeys [textArg ''BLPOP'', textArg ''a'', Val (VInt 0)] = None"
    "validateSETCommandArgs [textArg ''BLPOP'', textArg ''a'', Val (VInt 0)] = None"
    "validateV080FlowSignalArgs [textArg ''BLPOP'', textArg ''a'', Val (VInt 0)] = None"
    "validateAtomicMSetSlots [textArg ''BLPOP'', textArg ''a'', Val (VInt 0)] = None" by code_simp+
  with name have valid: "validateCommandArgs blpop = None" by (simp add: validateCommandArgs_def blpop_def)
  have st: "snd (connectionStateCommand blpop) = False"
    "validateV080TransactionCommand (affineCommandArgs blpop) = Some (TrUnsupported ''BLPOP'')"
    unfolding blpop_def by code_simp+
  show "sessionCommand blpop reply c = (c, Inl (TxPolicy (TrUnsupported ''BLPOP'')))"
    using assms(1,2) by (simp add: sessionCommand_def valid st Let_def)
  show "ssLog (csSessions (fst (sessionPipeline [(blpop, True, Answered r)] c)) ! n) =
      ssLog (csSessions c ! n) @ [Sent (affineCommandArgs blpop) r]"
    using assms(1,3,4,5) by (cases r) (simp_all add: sessionPipeline_def valid st doOn_def sessionDo_def onSession_def)
qed

end
