(* ===== verification/CompactPlan.thy ===== *)
theory CompactPlan
  imports CommandKeys CompactFormats
begin

section \<open>Compact pipeline requests\<close>

text \<open>
  The compact payload of \<open>src/native_pipeline.go\<close>: a pipeline of plain SET, GET, XADD or PUBLISH commands
  is measured against the frame limit (the plan) and then written without building its commands. The
  format is read back with the readers the decoders of \<open>src/native_compact.go\<close> use.
\<close>

subsection \<open>The plan\<close>

text \<open>\<open>None\<close>: the commands have no compact form. \<open>Some (Inl limit)\<close>: their form exceeds the limit.\<close>

type_synonym plan_size = "(int + int) option"

record compact_plan =
  cpKind :: nat
  cpCommands :: "arg list list"
  cpSize :: int

definition nativeCompactPipelineHeaderBytes :: int where "nativeCompactPipelineHeaderBytes = 6"
definition nativeCompactPipelineRequest :: byte where "nativeCompactPipelineRequest = 0x94"
definition nativeCompactSetPipelineValuesOnly :: nat where "nativeCompactSetPipelineValuesOnly = 0x81"
definition nativeCompactGetPipelineValuesOnly :: nat where "nativeCompactGetPipelineValuesOnly = 0x82"
definition nativeCompactStreamXAddValuesOnly :: nat where "nativeCompactStreamXAddValuesOnly = 0xA2"
definition nativeCompactPubSubPublishValuesOnly :: nat where "nativeCompactPubSubPublishValuesOnly = 0xA3"
definition nativeCompactStreamXAddMaxFieldPairs :: nat where "nativeCompactStreamXAddMaxFieldPairs = 65535"

fun compactBytes :: "arg \<Rightarrow> bytes option" where
  "compactBytes (Val (VBytes b)) = Some b"
| "compactBytes (Val (VString s)) = Some (bytes_of s)"
| "compactBytes _ = None"

text \<open>The loop over commands with two values, which SET and PUBLISH have in common.\<close>

fun pairPlanLoop :: "string \<Rightarrow> int \<Rightarrow> arg list list \<Rightarrow> int \<Rightarrow> plan_size" where
  "pairPlanLoop name limit [] size' = Some (Inr size')"
| "pairPlanLoop name limit (command # rest) size' =
     (if length command \<noteq> 3 \<or> commandPart (hd command) \<noteq> name then None
      else case (compactBytes (command ! 1), compactBytes (command ! 2)) of
        (Some key, Some v) \<Rightarrow>
          let remaining = limit - size' in
          if remaining < 8 \<or> int (length key) > remaining - 8 then Some (Inl limit)
          else
            let remaining = remaining - (8 + int (length key)) in
            if int (length v) > remaining then Some (Inl limit)
            else pairPlanLoop name limit rest (limit - (remaining - int (length v)))
      | _ \<Rightarrow> None)"

fun getPlanLoop :: "int \<Rightarrow> arg list list \<Rightarrow> int \<Rightarrow> plan_size" where
  "getPlanLoop limit [] size' = Some (Inr size')"
| "getPlanLoop limit (command # rest) size' =
     (if length command \<noteq> 2 \<or> commandPart (hd command) \<noteq> ''GET'' then None
      else case compactBytes (command ! 1) of
        None \<Rightarrow> None
      | Some key \<Rightarrow>
          let remaining = limit - size' in
          if remaining < 4 \<or> int (length key) > remaining - 4 then Some (Inl limit)
          else getPlanLoop limit rest (size' + (4 + int (length key))))"

definition compactStreamXAddPairCount :: "arg list \<Rightarrow> nat option" where
  "compactStreamXAddPairCount command =
     (if length command < 5 \<or> (length command - 3) mod 2 \<noteq> 0 \<or>
         commandPart (hd command) \<noteq> ''XADD'' \<or> commandPart (command ! 2) \<noteq> ''*'' then None
      else
        let pairCount = (length command - 3) div 2 in
        if pairCount \<le> nativeCompactStreamXAddMaxFieldPairs then Some pairCount else None)"

fun xaddValueLoop :: "int \<Rightarrow> arg list \<Rightarrow> int \<Rightarrow> plan_size" where
  "xaddValueLoop limit [] remaining = Some (Inr remaining)"
| "xaddValueLoop limit (rawValue # rest) remaining =
     (case compactBytes rawValue of
        None \<Rightarrow> None
      | Some v \<Rightarrow>
          if remaining < 4 \<or> int (length v) > remaining - 4 then Some (Inl limit)
          else xaddValueLoop limit rest (remaining - (4 + int (length v))))"

fun xaddPlanLoop :: "int \<Rightarrow> arg list list \<Rightarrow> int \<Rightarrow> plan_size" where
  "xaddPlanLoop limit [] size' = Some (Inr size')"
| "xaddPlanLoop limit (command # rest) size' =
     (if compactStreamXAddPairCount command = None then None
      else case compactBytes (command ! 1) of
        None \<Rightarrow> None
      | Some key \<Rightarrow>
          let remaining = limit - size' in
          if remaining < 6 \<or> int (length key) > remaining - 6 then Some (Inl limit)
          else
            (case xaddValueLoop limit (drop 3 command) (remaining - (6 + int (length key))) of
               None \<Rightarrow> None
             | Some (Inl e) \<Rightarrow> Some (Inl e)
             | Some (Inr remaining) \<Rightarrow> xaddPlanLoop limit rest (limit - remaining)))"

text \<open>A plan function: the header must fit, then the loop adds up the commands.\<close>

definition planWith :: "nat \<Rightarrow> (arg list list \<Rightarrow> int \<Rightarrow> plan_size) \<Rightarrow> arg list list \<Rightarrow> int \<Rightarrow> (int + compact_plan) option" where
  "planWith kind loop commands limit =
     (if limit < nativeCompactPipelineHeaderBytes then Some (Inl limit)
      else map_option (map_sum id (\<lambda>filled. \<lparr>cpKind = kind, cpCommands = commands, cpSize = filled\<rparr>))
        (loop commands nativeCompactPipelineHeaderBytes))"

definition compactSetPipelinePlanWithLimit :: "arg list list \<Rightarrow> int \<Rightarrow> (int + compact_plan) option" where
  "compactSetPipelinePlanWithLimit commands limit =
     planWith nativeCompactSetPipelineValuesOnly (pairPlanLoop ''SET'' limit) commands limit"

definition compactPubSubPublishPipelinePlanWithLimit :: "arg list list \<Rightarrow> int \<Rightarrow> (int + compact_plan) option" where
  "compactPubSubPublishPipelinePlanWithLimit commands limit =
     planWith nativeCompactPubSubPublishValuesOnly (pairPlanLoop ''PUBLISH'' limit) commands limit"

definition compactGetPipelinePlanWithLimit :: "arg list list \<Rightarrow> int \<Rightarrow> (int + compact_plan) option" where
  "compactGetPipelinePlanWithLimit commands limit =
     planWith nativeCompactGetPipelineValuesOnly (getPlanLoop limit) commands limit"

definition compactStreamXAddPipelinePlanWithLimit :: "arg list list \<Rightarrow> int \<Rightarrow> (int + compact_plan) option" where
  "compactStreamXAddPipelinePlanWithLimit commands limit =
     planWith nativeCompactStreamXAddValuesOnly (xaddPlanLoop limit) commands limit"

definition compactPipelinePlanWithLimit :: "arg list list \<Rightarrow> int \<Rightarrow> (int + compact_plan) option" where
  "compactPipelinePlanWithLimit commands limit =
     (if commands = [] \<or> hd commands = [] then None
      else
        let first = commandPart (hd (hd commands)) in
        if first = ''SET'' then compactSetPipelinePlanWithLimit commands limit
        else if first = ''GET'' then compactGetPipelinePlanWithLimit commands limit
        else if first = ''XADD'' then compactStreamXAddPipelinePlanWithLimit commands limit
        else if first = ''PUBLISH'' then compactPubSubPublishPipelinePlanWithLimit commands limit
        else None)"

subsection \<open>The payload\<close>

text \<open>\<open>value, _ := compactBytes(...)\<close>: the bytes, or none at all.\<close>

definition argBytes :: "arg \<Rightarrow> bytes" where
  "argBytes a = (case compactBytes a of None \<Rightarrow> [] | Some b \<Rightarrow> b)"

definition appendCompactBinary :: "bytes \<Rightarrow> bytes \<Rightarrow> bytes" where
  "appendCompactBinary payload v = payload @ be_bytes 4 (length v) @ v"

definition encodeCommandInto :: "nat \<Rightarrow> bytes \<Rightarrow> arg list \<Rightarrow> bytes" where
  "encodeCommandInto kind payload command =
     (let payload = appendCompactBinary payload (argBytes (command ! 1)) in
      if kind = nativeCompactSetPipelineValuesOnly \<or> kind = nativeCompactPubSubPublishValuesOnly
      then appendCompactBinary payload (argBytes (command ! 2))
      else if kind = nativeCompactStreamXAddValuesOnly
      then foldl (\<lambda>payload rawValue. appendCompactBinary payload (argBytes rawValue))
             (payload @ be_bytes 2 (case compactStreamXAddPairCount command of None \<Rightarrow> 0 | Some n \<Rightarrow> n))
             (drop 3 command)
      else payload)"

definition encodePlan :: "compact_plan \<Rightarrow> bytes" where
  "encodePlan p =
     foldl (encodeCommandInto (cpKind p))
       ([nativeCompactPipelineRequest, of_nat (cpKind p)] @ be_bytes 4 (length (cpCommands p))) (cpCommands p)"

definition compactPipelinePayloadWithLimit :: "arg list list \<Rightarrow> int \<Rightarrow> (int + bytes) option" where
  "compactPipelinePayloadWithLimit commands limit =
     map_option (map_sum id encodePlan) (compactPipelinePlanWithLimit commands limit)"

definition encodeNativeCustomPayload :: "compact_plan \<Rightarrow> int \<Rightarrow> int + bytes" where
  "encodeNativeCustomPayload p limit = (if cpSize p > limit then Inl limit else Inr (encodePlan p))"

subsection \<open>The format of a command\<close>

text \<open>
  What the payload says of a command: one value, a pair of values, or a key with the fields of an XADD.
  \<open>readCompactCommand\<close> reads it with the binary reader of the compact responses.
\<close>

definition fieldsOf :: "nat \<Rightarrow> arg list \<Rightarrow> bytes list" where
  "fieldsOf kind command =
     argBytes (command ! 1) #
     (if kind = nativeCompactSetPipelineValuesOnly \<or> kind = nativeCompactPubSubPublishValuesOnly
      then [argBytes (command ! 2)]
      else if kind = nativeCompactStreamXAddValuesOnly then map argBytes (drop 3 command) else [])"

definition pr_fields :: "nat \<Rightarrow> bytes list \<Rightarrow> bytes" where
  "pr_fields kind fs =
     pr_bin (hd fs) @ (if kind = nativeCompactStreamXAddValuesOnly then be_bytes 2 (length (tl fs) div 2) else []) @
     concat (map pr_bin (tl fs))"

definition fields_shape :: "nat \<Rightarrow> bytes list \<Rightarrow> bool" where
  "fields_shape kind fs \<longleftrightarrow>
     (if kind = nativeCompactStreamXAddValuesOnly
      then \<exists>n \<le> nativeCompactStreamXAddMaxFieldPairs. length fs = 1 + 2 * n
      else if kind = nativeCompactSetPipelineValuesOnly \<or> kind = nativeCompactPubSubPublishValuesOnly then length fs = 2
      else length fs = 1)"

definition fields_ok :: "nat \<Rightarrow> bytes list \<Rightarrow> bool" where
  "fields_ok kind fs \<longleftrightarrow> list_all (\<lambda>b. length b \<le> maxUint32) fs \<and> fields_shape kind fs"

definition pay_fields :: "nat \<Rightarrow> bytes list \<Rightarrow> unit \<Rightarrow> unit option" where
  "pay_fields kind fs s = (if fields_ok kind fs then Some s else None)"

definition fieldCount :: "nat \<Rightarrow> bytes \<Rightarrow> compact_error + (nat \<times> bytes)" where
  "fieldCount kind data =
     (if kind = nativeCompactStreamXAddValuesOnly
      then if length data < 2 then Inl (CTruncated ''pair count'') else Inr (2 * be_val (take 2 data), drop 2 data)
      else if kind = nativeCompactSetPipelineValuesOnly \<or> kind = nativeCompactPubSubPublishValuesOnly then Inr (1, data)
      else Inr (0, data))"

definition readCompactCommand :: "nat \<Rightarrow> bytes \<Rightarrow> unit \<Rightarrow> compact_error + (bytes list \<times> bytes \<times> unit)" where
  "readCompactCommand kind data s =
     ebind (readNativeCompactBinary data s) (\<lambda>(key, rest, s).
       ebind (fieldCount kind rest) (\<lambda>(n, rest).
         ebind (read_items readNativeCompactBinary n rest s) (\<lambda>(fs, rest, s). Inr (key # fs, rest, s))))"


lemmas kind_defs = nativeCompactSetPipelineValuesOnly_def nativeCompactGetPipelineValuesOnly_def
  nativeCompactStreamXAddValuesOnly_def nativeCompactPubSubPublishValuesOnly_def

lemma pay_all_bin_list: "compact_binary.pay_all fs s = Some s' \<longleftrightarrow> list_all (\<lambda>b. length b \<le> maxUint32) fs \<and> s' = s"
  by (induction fs arbitrary: s) (auto simp: bind_eq_Some_conv pay_bin_def)

lemma bins_iff:
  "read_items readNativeCompactBinary n data s = Inr (fs, rest, s') \<longleftrightarrow>
   data = concat (map pr_bin fs) @ rest \<and> length fs = n \<and> list_all (\<lambda>b. length b \<le> maxUint32) fs \<and> s' = s"
  by (auto simp: compact_binary.items_iff pay_all_bin_list)

lemma prefix2: "2 \<le> length data \<Longrightarrow> data = be_bytes 2 (be_val (take 2 data)) @ drop 2 data"
  by simp

lemma take2_val: "be_val (be_bytes 2 n) = n mod 65536" by (simp add: be_val_be_bytes)

lemma command_read_iff:
  "readCompactCommand kind data s = Inr (fs, rest, s') \<longleftrightarrow>
   data = pr_fields kind fs @ rest \<and> fields_ok kind fs \<and> s' = s"
proof
  assume "readCompactCommand kind data s = Inr (fs, rest, s')"
  then obtain key r1 s1 n r2 gs where 1: "readNativeCompactBinary data s = Inr (key, r1, s1)"
    and 2: "fieldCount kind r1 = Inr (n, r2)" and 3: "read_items readNativeCompactBinary n r2 s1 = Inr (gs, rest, s')"
    and fs: "fs = key # gs"
    by (fastforce simp: readCompactCommand_def ebind_Inr_iff)
  have n2: "be_val (take 2 r1) < 65536" if "2 \<le> length r1"
    using be_val_bound [of "take 2 r1"] that by simp
  from 1 have d: "data = pr_bin key @ r1" "length key \<le> maxUint32" "s1 = s" by (auto simp: binary_iff)
  from 3 have g: "r2 = concat (map pr_bin gs) @ rest" "length gs = n" "list_all (\<lambda>b. length b \<le> maxUint32) gs" "s' = s1"
    by (auto simp: bins_iff)
  show "data = pr_fields kind fs @ rest \<and> fields_ok kind fs \<and> s' = s"
  proof (cases "kind = nativeCompactStreamXAddValuesOnly")
    case True
    with 2 have r: "2 \<le> length r1" "n = 2 * be_val (take 2 r1)" "r2 = drop 2 r1"
      by (auto simp: fieldCount_def split: if_splits)
    define m where "m = be_val (take 2 r1)"
    from r have m: "n = 2 * m" "m < 65536" "r1 = be_bytes 2 m @ r2" using n2 prefix2 [of r1] by (auto simp: m_def)
    have "data = pr_fields kind fs @ rest" using True d g fs m(1) m(3) by (simp add: pr_fields_def)
    moreover have "\<exists>k\<le>65535. length fs = 1 + 2 * k" using g fs m by (intro exI [of _ m]) simp
    ultimately show ?thesis using True d g fs by (simp add: fields_ok_def fields_shape_def nativeCompactStreamXAddMaxFieldPairs_def)
  next
    case False
    with 2 have "r2 = r1" "n = (if kind = nativeCompactSetPipelineValuesOnly \<or> kind = nativeCompactPubSubPublishValuesOnly then 1 else 0)"
      by (auto simp: fieldCount_def split: if_splits)
    with False d g fs show ?thesis by (auto simp: pr_fields_def fields_ok_def fields_shape_def)
  qed
next
  assume r: "data = pr_fields kind fs @ rest \<and> fields_ok kind fs \<and> s' = s"
  then obtain key gs where fs: "fs = key # gs" by (cases fs) (auto simp: fields_ok_def fields_shape_def split: if_splits)
  with r have ok: "length key \<le> maxUint32" "list_all (\<lambda>b. length b \<le> maxUint32) gs" by (auto simp: fields_ok_def fields_shape_def)
  show "readCompactCommand kind data s = Inr (fs, rest, s')"
  proof (cases "kind = nativeCompactStreamXAddValuesOnly")
    case True
    with r fs obtain n where n: "length gs = 2 * n" "n < 65536"
      by (auto simp: fields_ok_def fields_shape_def nativeCompactStreamXAddMaxFieldPairs_def)
    have "fieldCount kind (be_bytes 2 n @ concat (map pr_bin gs) @ rest) = Inr (length gs, concat (map pr_bin gs) @ rest)"
      using n True by (simp add: fieldCount_def take2_val)
    moreover have "read_items readNativeCompactBinary (length gs) (concat (map pr_bin gs) @ rest) s = Inr (gs, rest, s)"
      using ok by (simp add: bins_iff)
    ultimately show ?thesis using r fs ok True n by (simp add: readCompactCommand_def pr_fields_def)
  next
    case False
    have "fieldCount kind (concat (map pr_bin gs) @ rest) = Inr (length gs, concat (map pr_bin gs) @ rest)"
      using r fs False by (auto simp: fieldCount_def fields_ok_def fields_shape_def split: if_splits)
    moreover have "read_items readNativeCompactBinary (length gs) (concat (map pr_bin gs) @ rest) s = Inr (gs, rest, s)"
      using ok by (simp add: bins_iff)
    ultimately show ?thesis using r fs ok False by (simp add: readCompactCommand_def pr_fields_def)
  qed
qed

interpretation compact_command: format "readCompactCommand kind" "pr_fields kind" "pay_fields kind" for kind
  by unfold_locales (auto simp: command_read_iff pay_fields_def split: if_splits)

lemma pay_all_fields:
  "compact_command.pay_all kind fss s = Some s' \<longleftrightarrow> list_all (fields_ok kind) fss \<and> s' = s"
  by (induction fss arbitrary: s) (auto simp: bind_eq_Some_conv pay_fields_def)


subsection \<open>What an accepted plan writes\<close>

definition kindName :: "nat \<Rightarrow> string" where
  "kindName kind =
     (if kind = nativeCompactSetPipelineValuesOnly then ''SET''
      else if kind = nativeCompactPubSubPublishValuesOnly then ''PUBLISH''
      else if kind = nativeCompactStreamXAddValuesOnly then ''XADD'' else ''GET'')"

definition carries :: "nat \<Rightarrow> arg list \<Rightarrow> bytes list \<Rightarrow> bool" where
  "carries kind command fs \<longleftrightarrow>
     commandPart (hd command) = kindName kind \<and>
     (if kind = nativeCompactStreamXAddValuesOnly
      then commandPart (command ! 2) = ''*'' \<and> map compactBytes (command ! 1 # drop 3 command) = map Some fs
      else map compactBytes (tl command) = map Some fs)"

definition measured :: "nat \<Rightarrow> arg list list \<Rightarrow> int \<Rightarrow> int \<Rightarrow> int \<Rightarrow> bool" where
  "measured kind commands limit size' filled \<longleftrightarrow>
     filled \<le> limit \<and> filled = size' + int (length (concat (map (\<lambda>c. pr_fields kind (fieldsOf kind c)) commands))) \<and>
     list_all (\<lambda>c. carries kind c (fieldsOf kind c) \<and> fields_shape kind (fieldsOf kind c)) commands"

lemma measured_Nil [simp]: "measured kind [] limit size' filled \<longleftrightarrow> filled \<le> limit \<and> filled = size'"
  by (auto simp: measured_def)

lemma measured_Cons:
  "measured kind (c # cs) limit size' filled \<longleftrightarrow>
   carries kind c (fieldsOf kind c) \<and> fields_shape kind (fieldsOf kind c) \<and>
   measured kind cs limit (size' + int (length (pr_fields kind (fieldsOf kind c)))) filled"
  by (auto simp: measured_def)

lemma three_args: "length c = 3 \<longleftrightarrow> (\<exists>x y z. c = [x, y, z])"
  by (auto simp: numeral_3_eq_3 length_Suc_conv)

lemma two_args: "length c = 2 \<longleftrightarrow> (\<exists>x y. c = [x, y])"
  by (auto simp: numeral_2_eq_2 length_Suc_conv)

lemma pairPlanLoop_measured:
  assumes "kind = nativeCompactSetPipelineValuesOnly \<or> kind = nativeCompactPubSubPublishValuesOnly" and "name = kindName kind"
  shows "pairPlanLoop name limit cs size' = Some (Inr filled) \<Longrightarrow> size' \<le> limit \<Longrightarrow> measured kind cs limit size' filled"
proof (induction cs arbitrary: size')
  case Nil
  then show ?case by simp
next
  case (Cons c cs)
  then obtain x y z where c: "c = [x, y, z]" by (auto simp: three_args split: if_splits)
  have x: "commandPart x = kindName kind" using Cons.prems(1) c assms(2) by (simp split: if_splits)
  obtain key v where kv: "compactBytes y = Some key" "compactBytes z = Some v"
    using Cons.prems(1) c by (auto split: if_splits option.splits)
  from Cons.prems(1) have fit: "8 + int (length key) + int (length v) \<le> limit - size'"
    and loop: "pairPlanLoop name limit cs (size' + (8 + int (length key) + int (length v))) = Some (Inr filled)"
    using c kv by (auto simp: Let_def algebra_simps split: if_splits)
  have f: "fieldsOf kind c = [key, v]" using assms(1) c kv by (auto simp: fieldsOf_def argBytes_def)
  have ks: "kind \<noteq> nativeCompactStreamXAddValuesOnly" using assms(1) by (auto simp: kind_defs)
  have l: "int (length (pr_fields kind [key, v])) = 8 + int (length key) + int (length v)"
    using ks by (simp add: pr_fields_def)
  have "carries kind c [key, v]" "fields_shape kind [key, v]"
    using assms(1) ks c x kv by (auto simp: carries_def fields_shape_def)
  with Cons.IH [OF loop] fit show ?case by (simp add: measured_Cons f l algebra_simps)
qed

lemma getPlanLoop_measured:
  "getPlanLoop limit cs size' = Some (Inr filled) \<Longrightarrow> size' \<le> limit \<Longrightarrow>
   measured nativeCompactGetPipelineValuesOnly cs limit size' filled"
proof (induction cs arbitrary: size')
  case Nil
  then show ?case by simp
next
  case (Cons c cs)
  then obtain x y where c: "c = [x, y]" by (auto simp: two_args split: if_splits)
  obtain key where k: "compactBytes y = Some key" using Cons.prems(1) c by (auto split: if_splits option.splits)
  from Cons.prems(1) have fit: "4 + int (length key) \<le> limit - size'"
    and loop: "getPlanLoop limit cs (size' + (4 + int (length key))) = Some (Inr filled)"
    and x: "commandPart x = ''GET''"
    using c k by (auto simp: Let_def split: if_splits)
  have f: "fieldsOf nativeCompactGetPipelineValuesOnly c = [key]" using c k by (simp add: fieldsOf_def argBytes_def kind_defs)
  have "carries nativeCompactGetPipelineValuesOnly c [key]" "fields_shape nativeCompactGetPipelineValuesOnly [key]"
    using c x k by (simp_all add: carries_def fields_shape_def kind_defs kindName_def)
  moreover have "int (length (pr_fields nativeCompactGetPipelineValuesOnly [key])) = 4 + int (length key)"
    by (simp add: pr_fields_def kind_defs)
  ultimately show ?case using Cons.IH [OF loop] fit by (simp add: measured_Cons f)
qed

lemma xaddValueLoop_ok:
  "xaddValueLoop limit vs remaining = Some (Inr left) \<Longrightarrow> 0 \<le> remaining \<Longrightarrow>
   0 \<le> left \<and> map compactBytes vs = map (Some \<circ> argBytes) vs \<and>
   left = remaining - int (length (concat (map (pr_bin \<circ> argBytes) vs)))"
proof (induction vs arbitrary: remaining)
  case Nil
  then show ?case by simp
next
  case (Cons a vs)
  then obtain v where v: "compactBytes a = Some v" by (auto split: option.splits)
  from Cons.prems(1) v have fit: "0 \<le> remaining - (4 + int (length v))"
    and loop: "xaddValueLoop limit vs (remaining - (4 + int (length v))) = Some (Inr left)"
    by (auto split: if_splits)
  from Cons.IH [OF loop fit] v show ?case by (simp add: argBytes_def)
qed

lemma xaddPlanLoop_measured:
  "xaddPlanLoop limit cs size' = Some (Inr filled) \<Longrightarrow> size' \<le> limit \<Longrightarrow>
   measured nativeCompactStreamXAddValuesOnly cs limit size' filled"
proof (induction cs arbitrary: size')
  case Nil
  then show ?case by simp
next
  case (Cons c cs)
  obtain n where n: "compactStreamXAddPairCount c = Some n" using Cons.prems(1) by (auto split: if_splits)
  then have shape: "length c = 3 + 2 * n" "n \<le> nativeCompactStreamXAddMaxFieldPairs" "commandPart (hd c) = ''XADD''"
      "commandPart (c ! 2) = ''*''"
    by (auto simp: compactStreamXAddPairCount_def Let_def split: if_splits)
  obtain key where k: "compactBytes (c ! 1) = Some key" using Cons.prems(1) n by (auto split: option.splits if_splits)
  from Cons.prems(1) n k obtain left where fit: "0 \<le> limit - size' - (6 + int (length key))"
    and vals: "xaddValueLoop limit (drop 3 c) (limit - size' - (6 + int (length key))) = Some (Inr left)"
    and loop: "xaddPlanLoop limit cs (limit - left) = Some (Inr filled)"
    by (auto simp: Let_def split: if_splits option.splits sum.splits)
  note v = xaddValueLoop_ok [OF vals fit]
  let ?k = nativeCompactStreamXAddValuesOnly
  have f: "fieldsOf ?k c = key # map argBytes (drop 3 c)" using k by (simp add: fieldsOf_def argBytes_def kind_defs)
  have "carries ?k c (fieldsOf ?k c)" using v k shape unfolding f by (simp add: carries_def kindName_def kind_defs)
  moreover have "fields_shape ?k (fieldsOf ?k c)" using shape by (auto simp: fields_shape_def f)
  moreover have "size' + int (length (pr_fields ?k (fieldsOf ?k c))) = limit - left"
    using v by (simp add: f pr_fields_def comp_def)
  ultimately show ?case using Cons.IH [OF loop] v by (simp add: measured_Cons)
qed


lemma appendCompactBinary_eq: "appendCompactBinary payload v = payload @ pr_bin v"
  by (simp add: appendCompactBinary_def pr_bin_def)

lemma foldl_append_bins:
  "foldl (\<lambda>payload a. payload @ pr_bin (argBytes a)) payload vs = payload @ concat (map pr_bin (map argBytes vs))"
  by (induction vs arbitrary: payload) simp_all

text \<open>Writing a command appends its fields.\<close>

lemma encodeCommandInto_eq:
  assumes "kind = nativeCompactStreamXAddValuesOnly \<Longrightarrow> compactStreamXAddPairCount c \<noteq> None"
  shows "encodeCommandInto kind payload c = payload @ pr_fields kind (fieldsOf kind c)"
proof (cases "kind = nativeCompactStreamXAddValuesOnly")
  case True
  with assms obtain n where n: "compactStreamXAddPairCount c = Some n" by auto
  then have "length (drop 3 c) div 2 = n"
    by (auto simp: compactStreamXAddPairCount_def Let_def split: if_splits)
  with n True show ?thesis
    by (simp add: encodeCommandInto_def pr_fields_def fieldsOf_def appendCompactBinary_eq foldl_append_bins kind_defs)
next
  case False
  then show ?thesis
    by (auto simp: encodeCommandInto_def pr_fields_def fieldsOf_def appendCompactBinary_eq Let_def)
qed

lemma foldl_encode:
  assumes "kind = nativeCompactStreamXAddValuesOnly \<Longrightarrow> list_all (\<lambda>c. compactStreamXAddPairCount c \<noteq> None) cs"
  shows "foldl (encodeCommandInto kind) payload cs = payload @ concat (map (\<lambda>c. pr_fields kind (fieldsOf kind c)) cs)"
  using assms
proof (induction cs arbitrary: payload)
  case Nil
  then show ?case by simp
next
  case (Cons c cs)
  then have "encodeCommandInto kind payload c = payload @ pr_fields kind (fieldsOf kind c)"
    by (intro encodeCommandInto_eq) simp
  with Cons show ?case by simp
qed

lemma xaddPlanLoop_pairs:
  "xaddPlanLoop limit cs size' = Some (Inr filled) \<Longrightarrow> list_all (\<lambda>c. compactStreamXAddPairCount c \<noteq> None) cs"
  by (induction limit cs size' rule: xaddPlanLoop.induct)
    (auto simp: Let_def split: if_splits option.splits sum.splits)

lemma plan_measured:
  assumes "compactPipelinePlanWithLimit commands limit = Some (Inr plan)"
  shows "cpCommands plan = commands" and "commands \<noteq> []" and "cpKind plan \<in> {0x81, 0x82, 0xA2, 0xA3}"
    and "measured (cpKind plan) commands limit 6 (cpSize plan)"
    and "cpKind plan = nativeCompactStreamXAddValuesOnly \<Longrightarrow> list_all (\<lambda>c. compactStreamXAddPairCount c \<noteq> None) commands"
proof -
  note defs = compactSetPipelinePlanWithLimit_def compactGetPipelinePlanWithLimit_def
    compactStreamXAddPipelinePlanWithLimit_def compactPubSubPublishPipelinePlanWithLimit_def
  show "commands \<noteq> []" using assms by (auto simp: compactPipelinePlanWithLimit_def)
  from assms obtain kind loop where kl: "planWith kind loop commands limit = Some (Inr plan)"
    and cases': "(kind, loop) \<in> {(nativeCompactSetPipelineValuesOnly, pairPlanLoop ''SET'' limit),
      (nativeCompactGetPipelineValuesOnly, getPlanLoop limit), (nativeCompactStreamXAddValuesOnly, xaddPlanLoop limit),
      (nativeCompactPubSubPublishValuesOnly, pairPlanLoop ''PUBLISH'' limit)}"
    by (auto simp: compactPipelinePlanWithLimit_def Let_def defs split: if_splits)
  from kl have lim: "6 \<le> limit" and lp: "loop commands 6 = Some (Inr (cpSize plan))"
    and pk: "cpKind plan = kind" and pc: "cpCommands plan = commands"
    by (cases "loop commands 6", simp add: planWith_def nativeCompactPipelineHeaderBytes_def split: if_splits,
        rename_tac z, case_tac z; auto simp: planWith_def nativeCompactPipelineHeaderBytes_def split: if_splits)+
  from pc show "cpCommands plan = commands" .
  from cases' pk show "cpKind plan \<in> {0x81, 0x82, 0xA2, 0xA3}" by (auto simp: kind_defs)
  from cases' lp lim pk show "measured (cpKind plan) commands limit 6 (cpSize plan)"
    using getPlanLoop_measured [of limit commands 6 "cpSize plan"] xaddPlanLoop_measured [of limit commands 6 "cpSize plan"]
      pairPlanLoop_measured [of kind "kindName kind" limit commands 6 "cpSize plan"]
    by (auto simp: kindName_def kind_defs)
  from cases' lp pk show "list_all (\<lambda>c. compactStreamXAddPairCount c \<noteq> None) commands"
    if "cpKind plan = nativeCompactStreamXAddValuesOnly"
    using that by (auto simp: kind_defs dest: xaddPlanLoop_pairs)
qed


lemma field_fits:
  assumes "fields_shape kind fs" and "b \<in> set fs"
  shows "4 + length b \<le> length (pr_fields kind fs)"
proof -
  from assms(1) obtain key gs where fs: "fs = key # gs" by (cases fs) (auto simp: fields_shape_def split: if_splits)
  have "length (pr_bin b) \<le> length (concat (map pr_bin fs))"
    using assms(2) by (auto simp: length_concat intro: member_le_sum_list)
  with fs show ?thesis by (simp add: pr_fields_def)
qed

text \<open>
  C40. The compact pipeline payload: when a pipeline has a plan within a frame limit, the payload has the
  planned size, which is within the limit; its header names the kind and the exact number of commands; and
  reading that many commands from the rest gives, in order, exactly the bytes of the arguments of every
  command, with nothing left over.
\<close>

theorem compact_pipeline_roundtrip:
  assumes "compactPipelinePlanWithLimit commands limit = Some (Inr plan)" and "limit \<le> int nativeMaxFrameBytes"
  shows "int (length (encodePlan plan)) = cpSize plan \<and> cpSize plan \<le> limit \<and>
    take 2 (encodePlan plan) = [nativeCompactPipelineRequest, of_nat (cpKind plan)] \<and>
    be_val (take 4 (drop 2 (encodePlan plan))) = length commands \<and>
    (\<exists>fss. list_all2 (carries (cpKind plan)) commands fss \<and>
      read_items (readCompactCommand (cpKind plan)) (length commands) (drop 6 (encodePlan plan)) () = Inr (fss, [], ()))"
proof -
  note p = plan_measured [OF assms(1)]
  let ?k = "cpKind plan" and ?fss = "map (fieldsOf (cpKind plan)) commands"
  let ?body = "concat (map (pr_fields ?k) ?fss)"
  have enc: "encodePlan plan = [nativeCompactPipelineRequest, of_nat ?k] @ be_bytes 4 (length commands) @ ?body"
    using foldl_encode [OF p(5)] by (simp add: encodePlan_def p(1) comp_def)
  from p(4) have sz: "cpSize plan \<le> limit" "cpSize plan = 6 + int (length ?body)"
    and all: "list_all (\<lambda>c. carries ?k c (fieldsOf ?k c) \<and> fields_shape ?k (fieldsOf ?k c)) commands"
    by (simp_all add: measured_def comp_def)
  have frame: "int (length ?body) < int maxUint32"
    using sz assms(2) by (simp add: nativeMaxFrameBytes_def maxUint32_def)
  have fit: "4 + length b \<le> length ?body" if "fs \<in> set ?fss" and "b \<in> set fs" for fs b
  proof -
    from that all have "4 + length b \<le> length (pr_fields ?k fs)" by (auto simp: list_all_iff intro: field_fits)
    also have "\<dots> \<le> length ?body" using that(1) by (auto simp: length_concat intro: member_le_sum_list)
    finally show ?thesis .
  qed
  have "fields_ok ?k fs" if "fs \<in> set ?fss" for fs
    using all that fit [OF that] frame by (fastforce simp: fields_ok_def fields_shape_def list_all_iff)
  then have "list_all (fields_ok ?k) ?fss" by (simp add: list_all_iff)
  then have "read_items (readCompactCommand ?k) (length ?fss) (?body @ []) () = Inr (?fss, [], ())"
    by (simp only: compact_command.items_iff pay_all_fields append_Nil2 length_map simp_thms)
  moreover have "list_all2 (carries ?k) commands ?fss"
    using all by (simp add: list_all2_conv_all_nth list_all_length)
  moreover have "length commands < 256 ^ 4"
  proof -
    have "length ?fss * 1 \<le> length ?body"
    proof (rule concat_min_length)
      fix fs assume fs: "fs \<in> set ?fss"
      then have "hd fs \<in> set fs" by (auto simp: fieldsOf_def)
      with fs all show "1 \<le> length (pr_fields ?k fs)" by (fastforce simp: list_all_iff dest: field_fits)
    qed
    with frame show ?thesis by (simp add: maxUint32_def)
  qed
  ultimately show ?thesis using sz
    by (intro conjI exI [of _ ?fss]) (simp_all add: enc be_val_be_bytes)
qed


definition samplePublishes :: "arg list list" where
  "samplePublishes =
     [[Val (VString ''publish''), Val (VString ''news''), Val (VBytes [1, 2])],
      [Val (VString ''PUBLISH''), Val (VBytes []), Val (VString ''x'')]]"

lemma samplePublishes_plan:
  "compactPipelinePlanWithLimit samplePublishes 100 = Some (Inr \<lparr>cpKind = 0xA3, cpCommands = samplePublishes, cpSize = 29\<rparr>)"
  by code_simp

theorem compact_pipeline_roundtrip_witness:
  "int (length (encodePlan \<lparr>cpKind = 0xA3, cpCommands = samplePublishes, cpSize = 29\<rparr>)) = 29 \<and>
   (\<exists>fss. list_all2 (carries 0xA3) samplePublishes fss \<and>
      read_items (readCompactCommand 0xA3) (length samplePublishes)
        (drop 6 (encodePlan \<lparr>cpKind = 0xA3, cpCommands = samplePublishes, cpSize = 29\<rparr>)) () = Inr (fss, [], ()))"
  using compact_pipeline_roundtrip [OF samplePublishes_plan] by (simp add: nativeMaxFrameBytes_def)

end
