(* ===== verification/Pipelines.thy ===== *)
theory Pipelines
  imports CompactPlan Commands Retry
begin

section \<open>Pipelines on one connection\<close>

text \<open>
  The pipeline of \<open>src/native.go\<close> and \<open>src/native_pipeline.go\<close>: commands go out in chunks of at most the
  negotiated number; a chunk whose payload exceeds the frame limit is halved; a chunk the server is too busy
  for is sent once more when the server allows it; a command that cannot be built splits its chunk; and the
  first failure of a chunk ends the pipeline, the commands after it being reported as not executed.

  Building a single command, the network and the clock are the environment. The log of what was handed to
  the connection is added by the model: one entry per request, with the errors of the first reply when the
  request was repeated.
\<close>

subsection \<open>Replies\<close>

text \<open>
  Any reply value is a \<open>cvalue\<close>, with \<open>CAny\<close> for what the generic decoder returns. \<open>asGo\<close> is the value of an
  error as far as the retry policy looks into it: anything that is not a map has no fields.
\<close>

fun asGo :: "cvalue \<Rightarrow> goval" where
  "asGo (CAny v) = v"
| "asGo (CMap es) = VMap None (map (\<lambda>(k, v). (k, asGo v)) es)"
| "asGo (CBin (Some b)) = VBytes b"
| "asGo (CText s) = VString s"
| "asGo (CBool b) = VBool b"
| "asGo (CInt n) = VInt n"
| "asGo _ = VNil"

fun anyList :: "cvalue \<Rightarrow> cvalue list option" where
  "anyList (CList vs) = Some vs"
| "anyList (CAny (VArray _ vs)) = Some (map CAny vs)"
| "anyList _ = None"

fun anyMap :: "cvalue \<Rightarrow> (string \<times> cvalue) list option" where
  "anyMap (CMap es) = Some es"
| "anyMap (CAny (VMap _ es)) = Some (map (\<lambda>(k, v). (k, CAny v)) es)"
| "anyMap _ = None"

text \<open>
  \<open>asString\<close>; \<open>sprint\<close> is the text of any other value. \<open>strings.ToLower\<close>: besides the ASCII letters, the
  Kelvin sign and the dotted capital I have a small letter in ASCII.
\<close>

fun asString :: "(cvalue \<Rightarrow> string) \<Rightarrow> cvalue \<Rightarrow> string" where
  "asString sprint CNil = ''''"
| "asString sprint (CText s) = s"
| "asString sprint (CBin (Some b)) = string_of b"
| "asString sprint (CBin None) = ''''"
| "asString sprint (COKCount n) = ''OK''"
| "asString sprint (CAny VNil) = ''''"
| "asString sprint (CAny (VString s)) = s"
| "asString sprint (CAny (VBytes b)) = string_of b"
| "asString sprint v = sprint v"

fun lowerBytes :: "bytes \<Rightarrow> bytes" where
  "lowerBytes (a # b # c # rest) =
     (if a = 0xE2 \<and> b = 0x84 \<and> c = 0xAA then 107 # lowerBytes rest
      else if a = 0xC4 \<and> b = 0xB0 then 105 # lowerBytes (c # rest)
      else lowerByte a # lowerBytes (b # c # rest))"
| "lowerBytes [a, b] = (if a = 0xC4 \<and> b = 0xB0 then [105] else [lowerByte a, lowerByte b])"
| "lowerBytes [a] = [lowerByte a]"
| "lowerBytes [] = []"

definition toLower :: "string \<Rightarrow> string" where
  "toLower s = string_of (lowerBytes (bytes_of s))"

text \<open>An item: a pair of kind and value, a map with a status, or the value itself.\<close>

definition itemOutcome :: "(cvalue \<Rightarrow> string) \<Rightarrow> cvalue \<Rightarrow> cvalue \<Rightarrow> exec_error + cvalue" where
  "itemOutcome sprint kind v =
     (let kind = toLower (asString sprint kind) in if kind = ''ok'' then Inr v else Inl (ErrNative 1 kind (asGo v)))"

definition pipelineItemValue :: "(cvalue \<Rightarrow> string) \<Rightarrow> cvalue \<Rightarrow> exec_error + cvalue" where
  "pipelineItemValue sprint item =
     (case (anyList item, anyMap item) of
        (Some [kind, v], _) \<Rightarrow> itemOutcome sprint kind v
      | (_, Some es) \<Rightarrow>
          (case map_of es ''status'' of
             None \<Rightarrow> Inr item
           | Some status \<Rightarrow> itemOutcome sprint status (case map_of es ''value'' of None \<Rightarrow> CNil | Some v \<Rightarrow> v))
      | _ \<Rightarrow> Inr item)"

definition claimValue :: "claimed_item \<Rightarrow> cvalue" where "claimValue item = CClaims [item]"

text \<open>\<open>None\<close>: the reply has another shape, or another number of results.\<close>

definition compactPipelineItemResults :: "cvalue \<Rightarrow> nat \<Rightarrow> (exec_error + cvalue) list option" where
  "compactPipelineItemResults v expected =
     (case (anyList v, v) of
        (Some vs, _) \<Rightarrow> if length vs \<noteq> expected then None else Some (map Inr vs)
      | (None, CClaims claims) \<Rightarrow> if length claims \<noteq> expected then None else Some (map (Inr \<circ> claimValue) claims)
      | _ \<Rightarrow> if expected \<noteq> 1 then None else Some [Inr v])"

definition pipelineItemResults :: "(cvalue \<Rightarrow> string) \<Rightarrow> cvalue \<Rightarrow> nat \<Rightarrow> (exec_error + cvalue) list option" where
  "pipelineItemResults sprint v expected =
     (case v of
        CPipelineValues inner \<Rightarrow> compactPipelineItemResults inner expected
      | COKCount n \<Rightarrow> if n \<noteq> expected then None else Some (replicate n (Inr (bin (bytes_of ''OK''))))
      | _ \<Rightarrow>
          (case anyList v of
             None \<Rightarrow> None
           | Some values \<Rightarrow> if length values \<noteq> expected then None else Some (map (pipelineItemValue sprint) values)))"

subsection \<open>The environment\<close>

record native_command =
  ncOpcode :: "16 word"
  ncPayload :: goval
  ncFlags :: byte
  ncReplay :: replay_policy
  ncBody :: "(exec_error + goval) option"

record pipeline_item =
  piOpcode :: "16 word"
  piLane :: nat
  piRequestID :: nat
  piBody :: goval

datatype pipeline_payload = CompactPayload compact_plan | TypedPayload "pipeline_item list"

record sent =
  sdCommands :: "arg list list"
  sdPolicy :: replay_policy
  sdRepeated :: "exec_error option list option"

text \<open>What a request comes to: refused before it was written because of its size, failed, or answered.\<close>

datatype request_outcome = TooLarge | Failed exec_error | Replied cvalue

record pipe_env =
  peBuild :: "arg list \<Rightarrow> exec_error + native_command"
  peCommandExec :: "string \<Rightarrow> arg list \<Rightarrow> exec_error + native_command"
  peStreamXAdd :: bool
  pePubSubPublish :: bool
  peSprint :: "cvalue \<Rightarrow> string"
  peRequest :: "sent list \<Rightarrow> pipeline_payload \<Rightarrow> request_outcome"
  peWait :: "sent list \<Rightarrow> exec_error option"
  peSingle :: "nat \<Rightarrow> native_command \<Rightarrow> (exec_error + cvalue) \<times> exec_error option"

datatype pipe_error =
    PeTooLarge
  | PeBuild nat exec_error
  | PeRequest exec_error
  | PeChunk pipe_error nat
  | PeOversized int
  | PeReply
  | PeItem exec_error
  | PeWaitFailed exec_error
  | PeCommand exec_error
  | PeConnectionLocal string
  | PeNotReady exec_error
  | PeContext exec_error
  | PeInvalidIndex nat nat
  | PePartial nat nat
  | PeNotExecuted pipe_error

type_synonym pipe_result = "pipe_error + cvalue"

subsection \<open>The payload of a chunk\<close>

definition addPolicy :: "replay_policy \<Rightarrow> native_command \<Rightarrow> replay_policy" where
  "addPolicy policy command = (if ncReplay command = nativeReplayNever then nativeReplayNever else policy)"

text \<open>A command whose payload is not a map is taken apart, or built again as \<open>COMMAND_EXEC\<close>.\<close>

definition typedBody :: "pipe_env \<Rightarrow> arg list \<Rightarrow> native_command \<Rightarrow> exec_error + native_command" where
  "typedBody env args command =
     (if ncFlags command = 0 then Inr command
      else case ncBody command of
        Some body \<Rightarrow> map_sum id (\<lambda>b. command\<lparr>ncPayload := b, ncFlags := 0\<rparr>) body
      | None \<Rightarrow> peCommandExec env (commandPart (hd args)) (tl args))"

fun typedItems ::
  "pipe_env \<Rightarrow> nat \<Rightarrow> nat \<Rightarrow> replay_policy \<Rightarrow> arg list list \<Rightarrow> pipe_error + (pipeline_item list \<times> replay_policy)"
where
  "typedItems env lane idx policy [] = Inr ([], policy)"
| "typedItems env lane idx policy (args # rest) =
     (case peBuild env args of
        Inl e \<Rightarrow> Inl (PeBuild idx e)
      | Inr command \<Rightarrow>
          (case typedBody env args command of
             Inl e \<Rightarrow> Inl (PeBuild idx e)
           | Inr command' \<Rightarrow>
               ebind (typedItems env lane (idx + 1) (addPolicy policy command) rest) (\<lambda>(values, policy).
                 Inr (\<lparr>piOpcode = ncOpcode command', piLane = lane, piRequestID = idx + 1, piBody = ncPayload command'\<rparr> # values,
                      policy))))"

definition allowCompact :: "pipe_env \<Rightarrow> arg list list \<Rightarrow> bool" where
  "allowCompact env commands =
     (let first = (if commands \<noteq> [] \<and> hd commands \<noteq> [] then commandPart (hd (hd commands)) else '''') in
      (first \<noteq> ''XADD'' \<or> peStreamXAdd env) \<and> (first \<noteq> ''PUBLISH'' \<or> pePubSubPublish env))"

definition nativePipelinePayloadWithCapabilities ::
  "pipe_env \<Rightarrow> arg list list \<Rightarrow> nat \<Rightarrow> int \<Rightarrow> pipe_error + (pipeline_payload \<times> replay_policy)"
where
  "nativePipelinePayloadWithCapabilities env commands lane limit =
     (let typed = map_sum id (\<lambda>(values, policy). (TypedPayload values, policy)) (typedItems env lane 0 nativeReplayDefault commands) in
      if \<not> allowCompact env commands then typed
      else case compactPipelinePlanWithLimit commands limit of
        None \<Rightarrow> typed
      | Some (Inl _) \<Rightarrow> Inl PeTooLarge
      | Some (Inr plan) \<Rightarrow> Inr (CompactPayload plan, nativeReplayDefault))"

subsection \<open>A chunk\<close>

datatype chunk_outcome = Split | Done "pipe_result list" "pipe_error option"

definition liftItems :: "(exec_error + cvalue) list option \<Rightarrow> chunk_outcome" where
  "liftItems r = (case r of None \<Rightarrow> Done [] (Some PeReply) | Some values \<Rightarrow> Done (map (map_sum PeItem id) values) None)"

definition itemErrors :: "(exec_error + cvalue) list \<Rightarrow> exec_error option list" where
  "itemErrors values = map (\<lambda>r. case r of Inl e \<Rightarrow> Some e | Inr _ \<Rightarrow> None) values"

definition chunkRequest ::
  "pipe_env \<Rightarrow> arg list list \<Rightarrow> nat \<Rightarrow> int \<Rightarrow> sent list \<Rightarrow> chunk_outcome \<times> sent list"
where
  "chunkRequest env commands lane limit log =
     (case nativePipelinePayloadWithCapabilities env commands lane limit of
        Inl e \<Rightarrow> (if e = PeTooLarge then Split else Done [] (Some e), log)
      | Inr (payload, policy) \<Rightarrow>
          (case peRequest env log payload of
             TooLarge \<Rightarrow> (Split, log)
           | Failed e \<Rightarrow>
               (Done [] (Some (PeChunk (PeRequest e) (length commands))),
                log @ [\<lparr>sdCommands = commands, sdPolicy = policy, sdRepeated = None\<rparr>])
           | Replied v \<Rightarrow>
               let log' = log @ [\<lparr>sdCommands = commands, sdPolicy = policy, sdRepeated = None\<rparr>] in
               (case pipelineItemResults (peSprint env) v (length commands) of
                  None \<Rightarrow> (Done [] (Some PeReply), log')
                | Some values \<Rightarrow>
                    if retryableBusyPipeline (itemErrors values) = None \<or> policy = nativeReplayNever
                    then (liftItems (Some values), log')
                    else
                      (case peWait env log' of
                         Some e \<Rightarrow> (Done [] (Some (PeWaitFailed e)), log')
                       | None \<Rightarrow>
                           let again = log @ [\<lparr>sdCommands = commands, sdPolicy = policy, sdRepeated = Some (itemErrors values)\<rparr>] in
                           (case peRequest env log' payload of
                              TooLarge \<Rightarrow> (Done [] (Some (PeChunk PeTooLarge (length commands))), log')
                            | Failed e \<Rightarrow> (Done [] (Some (PeChunk (PeRequest e) (length commands))), again)
                            | Replied v \<Rightarrow> (liftItems (pipelineItemResults (peSprint env) v (length commands)), again))))))"

text \<open>
  \<open>splitOversizedPipelineChunk\<close> is the second case; chunks are never empty. The code splits on any encoding
  limit error in the chain; one inside the failure of building a single command, which no builder returns,
  is a build failure here.
\<close>

function pipelineChunkWithoutGate ::
  "pipe_env \<Rightarrow> arg list list \<Rightarrow> nat \<Rightarrow> int \<Rightarrow> sent list \<Rightarrow> (pipe_result list \<times> pipe_error option) \<times> sent list"
where
  "pipelineChunkWithoutGate env commands lane limit log =
     (case chunkRequest env commands lane limit log of
        (Done results err, log) \<Rightarrow> ((results, err), log)
      | (Split, log) \<Rightarrow>
          if length commands \<le> 1 then (([], Some (PeChunk (PeOversized limit) 1)), log)
          else
            let middle = length commands div 2 in
            (case pipelineChunkWithoutGate env (take middle commands) lane limit log of
               ((left, Some err), log) \<Rightarrow> ((left, Some err), log)
             | ((left, None), log) \<Rightarrow>
                 (case pipelineChunkWithoutGate env (drop middle commands) lane limit log of
                    ((right, err), log) \<Rightarrow> ((left @ right, err), log))))"
  by pat_completeness auto

termination
  by (relation "measure (\<lambda>(_, commands, _). length commands)") auto

subsection \<open>The pipeline\<close>

fun pipelineChunkAffectedCommands :: "pipe_error \<Rightarrow> nat \<Rightarrow> nat" where
  "pipelineChunkAffectedCommands (PeChunk _ affected) fallback = (if affected > 0 then min affected fallback else fallback)"
| "pipelineChunkAffectedCommands _ fallback = fallback"

fun buildFailure :: "pipe_error \<Rightarrow> (nat \<times> exec_error) option" where
  "buildFailure (PeBuild index cause) = Some (index, cause)"
| "buildFailure _ = None"

text \<open>
  \<open>copy(results[start:end], rs)\<close> into fresh results, and the results when a chunk of \<open>n\<close> commands fails with
  \<open>remaining\<close> commands left.
\<close>

definition copyResults :: "nat \<Rightarrow> pipe_result list \<Rightarrow> pipe_result list" where
  "copyResults n rs = take n rs @ replicate (n - length rs) (Inr CNil)"

definition markPipelineNotExecuted :: "nat \<Rightarrow> pipe_error \<Rightarrow> pipe_result list" where
  [simp]: "markPipelineNotExecuted n cause = replicate n (Inl (PeNotExecuted cause))"

definition failedResults :: "pipe_result list \<Rightarrow> pipe_error \<Rightarrow> nat \<Rightarrow> nat \<Rightarrow> pipe_result list" where
  "failedResults rs err n remaining =
     (let affected = min (n - length rs) (pipelineChunkAffectedCommands err (n - length rs)) in
      rs @ replicate affected (Inl err) @ markPipelineNotExecuted (remaining - (length rs + affected)) err)"

definition before :: "pipe_result list \<Rightarrow> (pipe_error + pipe_result list) \<times> sent list \<Rightarrow> (pipe_error + pipe_result list) \<times> sent list" where
  "before rs r = map_prod (map_sum id (\<lambda>rest. rs @ rest)) id r"

function pipelineLoop ::
  "pipe_env \<Rightarrow> nat \<Rightarrow> int \<Rightarrow> nat \<Rightarrow> arg list list \<Rightarrow> sent list \<Rightarrow> (pipe_error + pipe_result list) \<times> sent list"
where
  "pipelineLoop env lane limit maxCommands commands log =
     (if commands = [] \<or> maxCommands = 0 then (Inr [], log)
      else
        let n = min maxCommands (length commands) in
        (case pipelineChunkWithoutGate env (take n commands) lane limit log of
           ((results, None), log) \<Rightarrow> before (copyResults n results) (pipelineLoop env lane limit maxCommands (drop n commands) log)
         | ((results, Some err), log) \<Rightarrow>
             (case buildFailure err of
                Some (index, cause) \<Rightarrow>
                  if index \<ge> n then (Inl (PeInvalidIndex index n), log)
                  else if index > 0 then
                    (case pipelineChunkWithoutGate env (take index commands) lane limit log of
                       ((prefix, Some prefixErr), log) \<Rightarrow>
                         if length prefix > index then (Inl (PePartial (length prefix) index), log)
                         else (Inr (failedResults prefix prefixErr index (length commands)), log)
                     | ((prefix, None), log) \<Rightarrow>
                         before (copyResults index prefix @ [Inl (PeCommand cause)])
                           (pipelineLoop env lane limit maxCommands (drop (index + 1) commands) log))
                  else before [Inl (PeCommand cause)] (pipelineLoop env lane limit maxCommands (drop (index + 1) commands) log)
              | None \<Rightarrow>
                  if length results > n then (Inl (PePartial (length results) n), log)
                  else (Inr (failedResults results err n (length commands)), log))))"
  by pat_completeness auto

termination
  by (relation "measure (\<lambda>(_, _, _, _, commands, _). length commands)") (auto simp: min_def)

text \<open>A connection that negotiated no pipelines: one request per command.\<close>

fun pipelineSequentialWithoutGate :: "pipe_env \<Rightarrow> nat \<Rightarrow> arg list list \<Rightarrow> pipe_result list" where
  "pipelineSequentialWithoutGate env index [] = []"
| "pipelineSequentialWithoutGate env index (args # rest) =
     (case peBuild env args of
        Inl e \<Rightarrow> Inl (PeCommand e) # pipelineSequentialWithoutGate env (index + 1) rest
      | Inr command \<Rightarrow>
          (case peSingle env index command of
             (r, None) \<Rightarrow> map_sum PeRequest id r # pipelineSequentialWithoutGate env (index + 1) rest
           | (r, Some e) \<Rightarrow> map_sum PeRequest id r # markPipelineNotExecuted (length rest) (PeContext e)))"

text \<open>\<open>ready\<close> is the outcome of taking the session gate and of connecting.\<close>

definition pipelineDetailedOnLane ::
  "pipe_env \<Rightarrow> exec_error option \<Rightarrow> nat \<Rightarrow> int \<Rightarrow> nat \<Rightarrow> arg list list \<Rightarrow> (pipe_error + pipe_result list) \<times> sent list"
where
  "pipelineDetailedOnLane env ready lane limit maxCommands commands =
     (if commands = [] then (Inr [], [])
      else case List.find (\<lambda>command. snd (connectionStateMutationCommand command)) commands of
        Some command \<Rightarrow> (Inl (PeConnectionLocal (fst (connectionStateMutationCommand command))), [])
      | None \<Rightarrow>
          (case ready of
             Some e \<Rightarrow> (Inl (PeNotReady e), [])
           | None \<Rightarrow>
               if maxCommands = 0 then (Inr (pipelineSequentialWithoutGate env 0 commands), [])
               else pipelineLoop env lane limit maxCommands commands []))"

declare pipelineChunkWithoutGate.simps [simp del] pipelineLoop.simps [simp del]


subsection \<open>Every command has a result\<close>

lemma compact_results_length: "compactPipelineItemResults v expected = Some rs \<Longrightarrow> length rs = expected"
  by (auto simp: compactPipelineItemResults_def split: option.splits if_splits cvalue.splits)

lemma results_length: "pipelineItemResults sprint v expected = Some rs \<Longrightarrow> length rs = expected"
  by (auto simp: pipelineItemResults_def compact_results_length split: option.splits if_splits cvalue.splits)

lemma typedItems_build:
  "typedItems env lane idx policy cs = Inl (PeBuild i e) \<Longrightarrow> idx \<le> i \<and> i < idx + length cs"
  by (induction cs arbitrary: idx policy) (fastforce simp: ebind_Inl_iff split: sum.splits)+

lemma typedItems_only_build: "typedItems env lane idx policy cs = Inl err \<Longrightarrow> \<exists>i e. err = PeBuild i e"
  by (induction cs arbitrary: idx policy) (auto simp: ebind_Inl_iff split: sum.splits)

lemma payload_error:
  assumes "nativePipelinePayloadWithCapabilities env cs lane limit = Inl err"
  shows "err = PeTooLarge \<or> (\<exists>i e. err = PeBuild i e \<and> i < length cs)"
proof -
  from assms have "err = PeTooLarge \<or> typedItems env lane 0 nativeReplayDefault cs = Inl err"
    by (cases "typedItems env lane 0 nativeReplayDefault cs")
      (auto simp: nativePipelinePayloadWithCapabilities_def Let_def split: if_splits option.splits sum.splits)
  then show ?thesis
  proof
    assume t: "typedItems env lane 0 nativeReplayDefault cs = Inl err"
    then obtain i e where e: "err = PeBuild i e" using typedItems_only_build by blast
    with typedItems_build [of env lane 0 nativeReplayDefault cs i e] t show ?thesis by simp
  qed simp
qed

definition chunk_shape :: "arg list list \<Rightarrow> pipe_result list \<Rightarrow> pipe_error option \<Rightarrow> bool" where
  "chunk_shape cs rs err \<longleftrightarrow>
     length rs \<le> length cs \<and> (err = None \<longrightarrow> length rs = length cs) \<and>
     (\<forall>i e. err = Some (PeBuild i e) \<longrightarrow> i < length cs)"

lemma lift_shape:
  "liftItems (pipelineItemResults sprint v (length cs)) = Done rs err \<Longrightarrow> chunk_shape cs rs err"
  by (auto simp: liftItems_def chunk_shape_def results_length split: option.splits)

lemma chunkRequest_shape:
  assumes "chunkRequest env cs lane limit log = (Done rs err, log')"
  shows "chunk_shape cs rs err"
proof (cases "nativePipelinePayloadWithCapabilities env cs lane limit")
  case (Inl e)
  with assms payload_error [OF Inl] show ?thesis by (auto simp: chunkRequest_def chunk_shape_def split: if_splits)
next
  case (Inr p)
  then show ?thesis using assms
    by (cases p) (auto simp: chunkRequest_def Let_def lift_shape chunk_shape_def results_length liftItems_def
        split: request_outcome.splits option.splits if_splits)
qed

lemma chunk_shape_split:
  assumes "chunk_shape (take k cs) left None" and "chunk_shape (drop k cs) right err" and "k \<le> length cs"
  shows "length left = k" and "length (left @ right) \<le> length cs" and "err = None \<Longrightarrow> length (left @ right) = length cs"
  using assms by (auto simp: chunk_shape_def)

lemma chunk_shapes:
  "pipelineChunkWithoutGate env cs lane limit log = ((rs, err), log') \<Longrightarrow> chunk_shape cs rs err"
proof (induction env cs lane limit log arbitrary: rs err log' rule: pipelineChunkWithoutGate.induct)
  case (1 env cs lane limit log)
  obtain o' log1 where r: "chunkRequest env cs lane limit log = (o', log1)" by force
  show ?case
  proof (cases o')
    case (Done rs1 err1)
    with 1(3) r have "rs1 = rs" "err1 = err" by (simp_all add: pipelineChunkWithoutGate.simps [of env cs])
    with chunkRequest_shape r Done show ?thesis by blast
  next
    case Split
    show ?thesis
    proof (cases "length cs \<le> 1")
      case True
      with 1(3) r Split show ?thesis by (auto simp: pipelineChunkWithoutGate.simps [of env cs] chunk_shape_def)
    next
      case False
      let ?m = "length cs div 2"
      obtain left err1 log2 where l: "pipelineChunkWithoutGate env (take ?m cs) lane limit log1 = ((left, err1), log2)"
        by (metis prod.exhaust)
      note L = 1(1) [OF r [symmetric] Split False refl l]
      show ?thesis
      proof (cases err1)
        case (Some e)
        with 1(3) r Split False l have "rs = left" "err = Some e"
          by (simp_all add: pipelineChunkWithoutGate.simps [of env cs] Let_def)
        with L Some show ?thesis by (auto simp: chunk_shape_def)
      next
        case None
        obtain right err2 log3 where rr: "pipelineChunkWithoutGate env (drop ?m cs) lane limit log2 = ((right, err2), log3)"
          by (metis prod.exhaust)
        with 1(3) r Split False l None have e: "rs = left @ right" "err = err2"
          by (simp_all add: pipelineChunkWithoutGate.simps [of env cs] Let_def)
        have "chunk_shape (drop ?m cs) right err2"
          using 1(2) [OF r [symmetric] Split False refl l [symmetric] refl None rr] .
        with L None e show ?thesis by (auto simp: chunk_shape_def)
      qed
    qed
  qed
qed


lemma buildFailure_iff: "buildFailure e = Some (i, c) \<longleftrightarrow> e = PeBuild i c"
  by (cases e) auto

lemma failedResults_length: "length rs \<le> n \<Longrightarrow> n \<le> remaining \<Longrightarrow> length (failedResults rs err n remaining) = remaining"
  by (auto simp: failedResults_def Let_def)

lemma copyResults_full [simp]: "length rs = n \<Longrightarrow> copyResults n rs = rs"
  by (simp add: copyResults_def)

lemma before_Inr:
  "before rs r = (Inr out, log) \<longleftrightarrow> (\<exists>rest. r = (Inr rest, log) \<and> out = rs @ rest)"
  by (cases r; cases "fst r") (auto simp: before_def)

text \<open>One pass of the loop, the chunks it asks for being well shaped.\<close>

lemma pipelineLoop_pass:
  assumes "cs \<noteq> []" and "0 < maxCommands" and "n = min maxCommands (length cs)"
    and "pipelineChunkWithoutGate env (take n cs) lane limit log = ((rs, err), log1)"
  shows "pipelineLoop env lane limit maxCommands cs log =
    (case err of
       None \<Rightarrow> before rs (pipelineLoop env lane limit maxCommands (drop n cs) log1)
     | Some e \<Rightarrow>
         (case buildFailure e of
            None \<Rightarrow> (Inr (failedResults rs e n (length cs)), log1)
          | Some (index, cause) \<Rightarrow>
              if index = 0 then before [Inl (PeCommand cause)] (pipelineLoop env lane limit maxCommands (drop 1 cs) log1)
              else
                (case pipelineChunkWithoutGate env (take index cs) lane limit log1 of
                   ((prefix, Some prefixErr), log) \<Rightarrow> (Inr (failedResults prefix prefixErr index (length cs)), log)
                 | ((prefix, None), log) \<Rightarrow>
                     before (prefix @ [Inl (PeCommand cause)])
                       (pipelineLoop env lane limit maxCommands (drop (index + 1) cs) log))))"
proof -
  have n: "length (take n cs) = n" using assms(3) by simp
  note c = chunk_shapes [OF assms(4), unfolded chunk_shape_def n]
  have unfold: "pipelineLoop env lane limit maxCommands cs log =
      (let n = min maxCommands (length cs) in
        (case ((rs, err), log1) of
           ((results, None), log) \<Rightarrow> before (copyResults n results) (pipelineLoop env lane limit maxCommands (drop n cs) log)
         | ((results, Some err), log) \<Rightarrow>
             (case buildFailure err of
                Some (index, cause) \<Rightarrow>
                  if index \<ge> n then (Inl (PeInvalidIndex index n), log)
                  else if index > 0 then
                    (case pipelineChunkWithoutGate env (take index cs) lane limit log of
                       ((prefix, Some prefixErr), log) \<Rightarrow>
                         if length prefix > index then (Inl (PePartial (length prefix) index), log)
                         else (Inr (failedResults prefix prefixErr index (length cs)), log)
                     | ((prefix, None), log) \<Rightarrow>
                         before (copyResults index prefix @ [Inl (PeCommand cause)])
                           (pipelineLoop env lane limit maxCommands (drop (index + 1) cs) log))
                  else before [Inl (PeCommand cause)] (pipelineLoop env lane limit maxCommands (drop (index + 1) cs) log)
              | None \<Rightarrow>
                  if length results > n then (Inl (PePartial (length results) n), log)
                  else (Inr (failedResults results err n (length cs)), log))))"
    using assms by (subst pipelineLoop.simps) (simp add: Let_def)
  show ?thesis
  proof (cases err)
    case None
    with c show ?thesis by (simp add: unfold Let_def assms(3))
  next
    case (Some e)
    show ?thesis
    proof (cases "buildFailure e")
      case None
      with Some c show ?thesis by (simp add: unfold Let_def flip: assms(3))
    next
      case (Some p)
      obtain i cause where p: "p = (i, cause)" by force
      with Some \<open>err = Some e\<close> c have i: "i < n" by (simp add: buildFailure_iff)
      obtain pre perr log2 where pr: "pipelineChunkWithoutGate env (take i cs) lane limit log1 = ((pre, perr), log2)"
        by (metis prod.exhaust)
      from i assms(3) have "length (take i cs) = i" by simp
      with chunk_shapes [OF pr] have "length pre \<le> i" "perr = None \<Longrightarrow> length pre = i" by (simp_all add: chunk_shape_def)
      with i Some p \<open>err = Some e\<close> pr show ?thesis
        by (cases perr) (simp_all add: unfold Let_def flip: assms(3))
    qed
  qed
qed

lemma pipelineLoop_complete:
  assumes "0 < maxCommands"
  shows "\<exists>rs. fst (pipelineLoop env lane limit maxCommands commands log) = Inr rs \<and> length rs = length commands"
proof (induction "length commands" arbitrary: commands log rule: less_induct)
  case less
  show ?case
  proof (cases "commands = []")
    case True
    then show ?thesis by (simp add: pipelineLoop.simps)
  next
    case False
    define n where n: "n = min maxCommands (length commands)"
    with False assms have npos: "0 < n" "n \<le> length commands" by auto
    obtain rs err log1 where c: "pipelineChunkWithoutGate env (take n commands) lane limit log = ((rs, err), log1)"
      by (metis prod.exhaust)
    from npos have ln: "length (take n commands) = n" by simp
    note sh = chunk_shapes [OF c, unfolded chunk_shape_def ln]
    note pass = pipelineLoop_pass [OF False assms n c]
    have rest: "\<exists>out. fst (before xs (pipelineLoop env lane limit maxCommands (drop k commands) l)) = Inr out \<and>
        length out = length commands" if "length xs = k" "0 < k" "k \<le> length commands" for xs k l
    proof -
      from less [of "drop k commands" l] that False obtain out
        where "fst (pipelineLoop env lane limit maxCommands (drop k commands) l) = Inr out" "length out = length commands - k"
        by auto
      with that show ?thesis by (cases "pipelineLoop env lane limit maxCommands (drop k commands) l") (simp add: before_def)
    qed
    show ?thesis
    proof (cases err)
      case None
      with sh npos show ?thesis by (simp add: pass rest)
    next
      case (Some e)
      show ?thesis
      proof (cases "buildFailure e")
        case None
        with Some sh npos show ?thesis by (simp add: pass failedResults_length)
      next
        case (Some p)
        obtain i cause where p: "p = (i, cause)" by force
        with Some \<open>err = Some e\<close> sh have i: "i < n" by (simp add: buildFailure_iff)
        obtain pre perr log2 where pr: "pipelineChunkWithoutGate env (take i commands) lane limit log1 = ((pre, perr), log2)"
          by (metis prod.exhaust)
        from i npos have "length (take i commands) = i" by simp
        with chunk_shapes [OF pr] have "length pre \<le> i" "perr = None \<Longrightarrow> length pre = i" by (simp_all add: chunk_shape_def)
        with i npos Some p \<open>err = Some e\<close> pr False show ?thesis
          by (cases perr) (simp_all add: pass rest failedResults_length Suc_le_eq)
      qed
    qed
  qed
qed


lemma sequential_length: "length (pipelineSequentialWithoutGate env index cs) = length cs"
  by (induction cs arbitrary: index) (auto split: sum.splits prod.splits option.splits)

text \<open>
  C39. Every command of a pipeline has exactly one result: whatever the server answers, whichever commands
  cannot be built and wherever chunks are split, a pipeline is either refused before anything is sent, or
  returns as many results as there are commands.
\<close>

theorem pipeline_results_complete:
  "case pipelineDetailedOnLane env ready lane limit maxCommands commands of
     (Inl e, log) \<Rightarrow> log = [] \<and> ((\<exists>name. e = PeConnectionLocal name) \<or> (\<exists>cause. e = PeNotReady cause))
   | (Inr rs, log) \<Rightarrow> length rs = length commands"
proof (cases "maxCommands = 0")
  case True
  then show ?thesis by (auto simp: pipelineDetailedOnLane_def sequential_length split: option.splits)
next
  case False
  with pipelineLoop_complete [of maxCommands env lane limit commands "[]"] obtain rs
    where "fst (pipelineLoop env lane limit maxCommands commands []) = Inr rs" "length rs = length commands" by auto
  with False show ?thesis
    by (cases "pipelineLoop env lane limit maxCommands commands []")
      (auto simp: pipelineDetailedOnLane_def split: option.splits)
qed

subsection \<open>Commands are sent once\<close>

definition builds :: "pipe_env \<Rightarrow> arg list \<Rightarrow> bool" where
  "builds env args \<longleftrightarrow> (case ebind (peBuild env args) (typedBody env args) of Inl _ \<Rightarrow> False | Inr _ \<Rightarrow> True)"

text \<open>
  A chunk is repeated only when its policy allows it and the server refused each of its commands as busy,
  saying that it is safe to repeat.
\<close>

definition repeat_ok :: "sent \<Rightarrow> bool" where
  "repeat_ok s \<longleftrightarrow>
     pred_option (\<lambda>errs. length errs = length (sdCommands s) \<and> sdPolicy s \<noteq> nativeReplayNever \<and>
         list_all (\<lambda>e. case e of None \<Rightarrow> False
           | Some err \<Rightarrow> rdBusy (nativeServerRetryDisposition err) \<and> server_permits err) errs)
       (sdRepeated s)"

fun notExecuted :: "pipe_result \<Rightarrow> bool" where
  "notExecuted (Inl (PeNotExecuted _)) = True"
| "notExecuted _ = False"

fun isValue :: "pipe_result \<Rightarrow> bool" where
  "isValue (Inr _) = True"
| "isValue (Inl _) = False"

lemma busyDelay_permits:
  "busyDelay errs delay = Some d \<Longrightarrow>
   list_all (\<lambda>e. case e of None \<Rightarrow> False | Some err \<Rightarrow> rdBusy (nativeServerRetryDisposition err) \<and> server_permits err) errs"
  by (induction errs arbitrary: delay) (auto simp: Let_def disposition_permits split: option.splits if_splits)

definition chunk_sent ::
  "arg list list \<Rightarrow> sent list \<Rightarrow> pipe_result list \<Rightarrow> pipe_error option \<Rightarrow> sent list \<Rightarrow> bool"
where
  "chunk_sent cs log rs err log' \<longleftrightarrow>
     (\<exists>new m. log' = log @ new \<and> concat (map sdCommands new) = take m cs \<and> list_all repeat_ok new \<and>
        length rs \<le> m \<and> m \<le> length cs \<and> list_all (\<lambda>r. \<not> notExecuted r) rs \<and>
        (err = None \<longrightarrow> m = length cs) \<and>
        (\<forall>e. err = Some e \<longrightarrow> buildFailure e = None \<and> \<not> notExecuted (Inl e) \<and>
           m \<le> length rs + pipelineChunkAffectedCommands e (length cs - length rs)))"

lemma item_not_marked [simp]: "\<not> notExecuted (map_sum PeItem id r)"
  by (cases r) simp_all

lemma lifted_not_marked: "liftItems r = Done rs err \<Longrightarrow> list_all (\<lambda>r. \<not> notExecuted r) rs \<and> err \<in> {None, Some PeReply}"
  by (cases r) (auto simp: liftItems_def list_all_iff)

lemma typedItems_builds:
  "list_all (builds env) cs \<Longrightarrow> \<exists>out. typedItems env lane idx policy cs = Inr out"
proof (induction cs arbitrary: idx policy)
  case Nil
  then show ?case by simp
next
  case (Cons c cs)
  then obtain command command' where "peBuild env c = Inr command" "typedBody env c command = Inr command'"
    by (auto simp: builds_def ebind_Inr_iff split: sum.splits)
  moreover obtain out where "typedItems env lane (idx + 1) (addPolicy policy command) cs = Inr out"
    using Cons by fastforce
  ultimately show ?case by (cases out) simp
qed

lemma payload_too_large:
  assumes "list_all (builds env) cs" and "nativePipelinePayloadWithCapabilities env cs lane limit = Inl err"
  shows "err = PeTooLarge"
proof -
  obtain out where "typedItems env lane 0 nativeReplayDefault cs = Inr out" using typedItems_builds [OF assms(1)] by blast
  with assms(2) show ?thesis
    by (auto simp: nativePipelinePayloadWithCapabilities_def Let_def split: if_splits option.splits sum.splits)
qed

lemma chunk_sent_whole:
  assumes "log' = log @ [s]" and "sdCommands s = cs" and "repeat_ok s" and "length rs \<le> length cs"
    and "list_all (\<lambda>r. \<not> notExecuted r) rs" and "err = None \<Longrightarrow> length rs = length cs"
    and "\<And>e. err = Some e \<Longrightarrow> buildFailure e = None \<and> \<not> notExecuted (Inl e) \<and>
      length cs \<le> length rs + pipelineChunkAffectedCommands e (length cs - length rs)"
  shows "chunk_sent cs log rs err log'"
  unfolding chunk_sent_def
  by (rule exI [of _ "[s]"], rule exI [of _ "length cs"]) (use assms in auto)

lemma chunkRequest_sent:
  assumes b: "list_all (builds env) cs" and r: "chunkRequest env cs lane limit log = (Done rs err, log')"
  shows "chunk_sent cs log rs err log'"
proof (cases "nativePipelinePayloadWithCapabilities env cs lane limit")
  case (Inl e)
  with payload_too_large [OF b Inl] r show ?thesis by (simp add: chunkRequest_def)
next
  case (Inr p)
  obtain payload policy where p: "p = (payload, policy)" by force
  let ?once = "\<lparr>sdCommands = cs, sdPolicy = policy, sdRepeated = None\<rparr>"
  note R = r [unfolded chunkRequest_def Inr p, simplified]
  have once: "repeat_ok ?once" by (simp add: repeat_ok_def)
  show ?thesis
  proof (cases "peRequest env log payload")
    case TooLarge
    with R show ?thesis by simp
  next
    case (Failed e)
    with R once show ?thesis by (auto intro!: chunk_sent_whole [of _ _ ?once])
  next
    case (Replied v)
    show ?thesis
    proof (cases "pipelineItemResults (peSprint env) v (length cs)")
      case None
      with R Replied once show ?thesis by (auto simp: Let_def intro!: chunk_sent_whole [of _ _ ?once])
    next
      case I: (Some results)
      note len = results_length [OF I]
      show ?thesis
      proof (cases "retryableBusyPipeline (itemErrors results) = None \<or> policy = nativeReplayNever")
        case True
        with R Replied I have "liftItems (Some results) = Done rs err" "log' = log @ [?once]" by (auto simp: Let_def)
        with once len show ?thesis
          by (intro chunk_sent_whole [of _ _ ?once]) (auto simp: liftItems_def list_all_iff)
      next
        case False
        let ?again = "?once\<lparr>sdRepeated := Some (itemErrors results)\<rparr>"
        from False obtain d where "busyDelay (itemErrors results) 0 = Some d"
          by (auto simp: retryableBusyPipeline_def split: if_splits)
        from busyDelay_permits [OF this] False len have again: "repeat_ok ?again"
          by (simp add: repeat_ok_def itemErrors_def)
        show ?thesis
        proof (cases "peWait env (log @ [?once])")
          case (Some e)
          with R Replied I False once show ?thesis
            by (auto simp: Let_def intro!: chunk_sent_whole [of _ _ ?once])
        next
          case None
          note R' = R [unfolded Replied Let_def, simplified, unfolded I, simplified]
          show ?thesis
          proof (cases "peRequest env (log @ [?once]) payload")
            case TooLarge
            with R' None False once show ?thesis by (auto intro!: chunk_sent_whole [of _ _ ?once])
          next
            case (Failed e)
            with R' None False again show ?thesis by (auto intro!: chunk_sent_whole [of _ _ ?again])
          next
            case (Replied v')
            with R' None False have l: "liftItems (pipelineItemResults (peSprint env) v' (length cs)) = Done rs err"
              and log': "log' = log @ [?again]" by auto
            from lift_shape [OF l] lifted_not_marked [OF l] again log' show ?thesis
              by (intro chunk_sent_whole [of _ _ ?again]) (auto simp: chunk_shape_def)
          qed
        qed
      qed
    qed
  qed
qed


lemma chunkRequest_split: "chunkRequest env cs lane limit log = (Split, log') \<Longrightarrow> log' = log"
  by (auto simp: chunkRequest_def Let_def liftItems_def split: sum.splits request_outcome.splits option.splits if_splits prod.splits)

lemma take_half: "m \<le> n \<Longrightarrow> take m (take n cs) = take m cs"
  by (simp add: min_absorb1)

lemma affected_mono: "n \<le> n' \<Longrightarrow> pipelineChunkAffectedCommands e n \<le> pipelineChunkAffectedCommands e n'"
  by (cases e) auto

lemma affected_bound: "pipelineChunkAffectedCommands e n \<le> n"
  by (cases e) auto

lemma chunk_sent_left:
  assumes "chunk_sent (take k cs) log rs (Some e) log'"
  shows "chunk_sent cs log rs (Some e) log'"
proof -
  from assms obtain new m where *: "log' = log @ new" "concat (map sdCommands new) = take m (take k cs)" "list_all repeat_ok new"
      "length rs \<le> m" "m \<le> length (take k cs)" "list_all (\<lambda>r. \<not> notExecuted r) rs" "buildFailure e = None"
      "\<not> notExecuted (Inl e)" "m \<le> length rs + pipelineChunkAffectedCommands e (length (take k cs) - length rs)"
    by (auto simp: chunk_sent_def)
  have "pipelineChunkAffectedCommands e (length (take k cs) - length rs) \<le> pipelineChunkAffectedCommands e (length cs - length rs)"
    by (rule affected_mono) simp
  with * show ?thesis
    by (auto simp: chunk_sent_def take_half intro!: exI [of _ new] exI [of _ m])
qed

lemma chunk_sent_both:
  assumes "chunk_sent (take k cs) log left None log1" and "length left = k" and "chunk_sent (drop k cs) log1 right err log2" and "k \<le> length cs"
  shows "chunk_sent cs log (left @ right) err log2"
proof -
  from assms(1,2,4) obtain new where 1: "log1 = log @ new" "concat (map sdCommands new) = take k cs" "list_all repeat_ok new"
      "list_all (\<lambda>r. \<not> notExecuted r) left"
    by (auto simp: chunk_sent_def)
  from assms(3) obtain new2 m where 2: "log2 = log1 @ new2" "concat (map sdCommands new2) = take m (drop k cs)" "list_all repeat_ok new2"
      "length right \<le> m" "m \<le> length cs - k" "list_all (\<lambda>r. \<not> notExecuted r) right" "err = None \<Longrightarrow> m = length cs - k"
      "\<And>e. err = Some e \<Longrightarrow> buildFailure e = None \<and> \<not> notExecuted (Inl e) \<and>
         m \<le> length right + pipelineChunkAffectedCommands e (length cs - k - length right)"
    by (auto simp: chunk_sent_def)
  have "concat (map sdCommands (new @ new2)) = take (k + m) cs" using 1 2 by (simp add: take_add)
  with 1 2 assms(2,4) show ?thesis
    by (auto simp: chunk_sent_def intro!: exI [of _ "new @ new2"] exI [of _ "k + m"])
qed

lemma chunk_sents:
  "pipelineChunkWithoutGate env cs lane limit log = ((rs, err), log') \<Longrightarrow> list_all (builds env) cs \<Longrightarrow> chunk_sent cs log rs err log'"
proof (induction env cs lane limit log arbitrary: rs err log' rule: pipelineChunkWithoutGate.induct)
  case (1 env cs lane limit log)
  obtain o' log1 where r: "chunkRequest env cs lane limit log = (o', log1)" by force
  show ?case
  proof (cases o')
    case (Done rs1 err1)
    with 1(3) r have "rs1 = rs" "err1 = err" "log1 = log'" by (simp_all add: pipelineChunkWithoutGate.simps [of env cs])
    with chunkRequest_sent [OF 1(4)] r Done show ?thesis by blast
  next
    case Split
    with r chunkRequest_split have log1: "log1 = log" by blast
    show ?thesis
    proof (cases "length cs \<le> 1")
      case True
      with 1(3) r Split log1 show ?thesis
        by (auto simp: pipelineChunkWithoutGate.simps [of env cs] chunk_sent_def intro!: exI [of _ "[]"] exI [of _ 0])
    next
      case False
      let ?m = "length cs div 2"
      obtain left err1 log2 where l: "pipelineChunkWithoutGate env (take ?m cs) lane limit log1 = ((left, err1), log2)"
        by (metis prod.exhaust)
      have bl: "list_all (builds env) (take ?m cs)" "list_all (builds env) (drop ?m cs)"
        using 1(4) by (auto simp: list_all_iff dest: in_set_takeD in_set_dropD)
      note L = 1(1) [OF r [symmetric] Split False refl l bl(1)]
      show ?thesis
      proof (cases err1)
        case (Some e)
        with 1(3) r Split False l have e: "rs = left" "err = Some e" "log' = log2"
          by (simp_all add: pipelineChunkWithoutGate.simps [of env cs] Let_def)
        from L Some log1 have "chunk_sent (take ?m cs) log left (Some e) log2" by simp
        from chunk_sent_left [OF this] e show ?thesis by simp
      next
        case None
        obtain right err2 log3 where rr: "pipelineChunkWithoutGate env (drop ?m cs) lane limit log2 = ((right, err2), log3)"
          by (metis prod.exhaust)
        with 1(3) r Split False l None have e: "rs = left @ right" "err = err2" "log' = log3"
          by (simp_all add: pipelineChunkWithoutGate.simps [of env cs] Let_def)
        have R: "chunk_sent (drop ?m cs) log2 right err2 log3"
          using 1(2) [OF r [symmetric] Split False refl l [symmetric] refl None rr bl(2)] .
        have "length left = ?m" using chunk_shapes [OF l] None by (simp add: chunk_shape_def)
        with chunk_sent_both [of ?m cs log left log2 right err2 log3] L None R log1 e show ?thesis by simp
      qed
    qed
  qed
qed

lemma failed_prefix:
  assumes "length rs \<le> m" and "m \<le> length rs + pipelineChunkAffectedCommands e (n - length rs)" and "n \<le> remaining"
    and "length rs \<le> n" and "list_all (\<lambda>r. \<not> notExecuted r) rs" and "\<not> notExecuted (Inl e)"
  shows "list_all (\<lambda>r. \<not> notExecuted r) (take m (failedResults rs e n remaining)) \<and>
    list_all (\<lambda>r. \<not> isValue r) (drop m (failedResults rs e n remaining))"
proof -
  define a where "a = min (n - length rs) (pipelineChunkAffectedCommands e (n - length rs))"
  with assms(2) affected_bound [of e "n - length rs"] have m: "m \<le> length rs + a" by simp
  have f: "failedResults rs e n remaining = rs @ replicate a (Inl e) @ replicate (remaining - (length rs + a)) (Inl (PeNotExecuted e))"
    by (simp add: failedResults_def Let_def a_def)
  from m assms show ?thesis by (auto simp: f list_all_iff)
qed

text \<open>
  C38. Every command is sent at most once: when the commands of a pipeline can all be built, the requests
  carry, in order and each once, the commands of a prefix of the pipeline. A request was repeated only when
  the server refused each of its commands as busy and said that repeating it is safe. A command beyond the
  prefix has no value as its result, and a command reported as not executed is beyond it: it was never sent.
\<close>

theorem pipeline_at_most_once:
  assumes "list_all (builds env) commands" and "0 < maxCommands"
    and "pipelineLoop env lane limit maxCommands commands [] = (Inr rs, log)"
  shows "\<exists>m. concat (map sdCommands log) = take m commands \<and> list_all repeat_ok log \<and>
    list_all (\<lambda>r. \<not> notExecuted r) (take m rs) \<and> list_all (\<lambda>r. \<not> isValue r) (drop m rs)"
proof -
  have "\<exists>m new. log' = log @ new \<and> concat (map sdCommands new) = take m cs \<and> list_all repeat_ok new \<and> m \<le> length cs \<and>
      list_all (\<lambda>r. \<not> notExecuted r) (take m out) \<and> list_all (\<lambda>r. \<not> isValue r) (drop m out)"
    if "pipelineLoop env lane limit maxCommands cs log = (Inr out, log')" and "list_all (builds env) cs" for cs log out log'
    using that
  proof (induction "length cs" arbitrary: cs log out log' rule: less_induct)
    case less
    show ?case
    proof (cases "cs = []")
      case True
      with less.prems(1) show ?thesis by (auto simp: pipelineLoop.simps)
    next
      case False
      define n where n: "n = min maxCommands (length cs)"
      with False assms(2) have npos: "0 < n" "n \<le> length cs" by auto
      obtain rs err log1 where c: "pipelineChunkWithoutGate env (take n cs) lane limit log = ((rs, err), log1)"
        by (metis prod.exhaust)
      have b: "list_all (builds env) (take n cs)" "list_all (builds env) (drop n cs)"
        using less.prems(2) by (auto simp: list_all_iff dest: in_set_takeD in_set_dropD)
      from chunk_sents [OF c b(1)] npos obtain new m where s: "log1 = log @ new" "concat (map sdCommands new) = take m cs"
          "list_all repeat_ok new" "length rs \<le> m" "m \<le> n" "list_all (\<lambda>r. \<not> notExecuted r) rs" "err = None \<Longrightarrow> m = n"
          "\<And>e. err = Some e \<Longrightarrow> buildFailure e = None \<and> \<not> notExecuted (Inl e) \<and>
             m \<le> length rs + pipelineChunkAffectedCommands e (n - length rs)"
        by (auto simp: chunk_sent_def take_half)
      note pass = pipelineLoop_pass [OF False assms(2) n c]
      show ?thesis
      proof (cases err)
        case None
        with chunk_shapes [OF c] npos have len: "length rs = n" by (simp add: chunk_shape_def)
        from less.prems(1) None pass obtain rest where
          r: "pipelineLoop env lane limit maxCommands (drop n cs) log1 = (Inr rest, log')" and out: "out = rs @ rest"
          by (auto simp: before_Inr)
        from less.hyps [OF _ r b(2)] npos False obtain m' new' where t: "log' = log1 @ new'"
            "concat (map sdCommands new') = take m' (drop n cs)" "list_all repeat_ok new'" "m' \<le> length cs - n"
            "list_all (\<lambda>r. \<not> notExecuted r) (take m' rest)" "list_all (\<lambda>r. \<not> isValue r) (drop m' rest)"
          by auto
        have "concat (map sdCommands (new @ new')) = take (n + m') cs" using s None t by (simp add: take_add)
        with s t None out len npos show ?thesis
          by (intro exI [of _ "n + m'"] exI [of _ "new @ new'"]) auto
      next
        case (Some e)
        with s less.prems(1) pass have o: "out = failedResults rs e n (length cs)" "log' = log1" by auto
        have "length rs \<le> n" using chunk_shapes [OF c] npos by (simp add: chunk_shape_def)
        with failed_prefix [of rs m e n "length cs"] s Some npos o show ?thesis
          by (intro exI [of _ m] exI [of _ new]) auto
      qed
    qed
  qed
  from this [OF assms(3,1)] show ?thesis by auto
qed

subsection \<open>Sample runs\<close>

text \<open>
  A client that builds every command except a GET without a key. \<open>answerOK\<close> is a server that answers every
  request; \<open>busyOnce\<close> refuses the first request as busy, and the connection closes under the third.
\<close>

definition sampleCommand :: native_command where
  "sampleCommand = \<lparr>ncOpcode = 0x0101, ncPayload = VNil, ncFlags = 0, ncReplay = nativeReplayDefault, ncBody = None\<rparr>"

definition answerOK :: "pipeline_payload \<Rightarrow> request_outcome" where
  "answerOK payload = Replied (COKCount (case payload of CompactPayload p \<Rightarrow> length (cpCommands p) | TypedPayload its \<Rightarrow> length its))"

definition pipeSample :: "(sent list \<Rightarrow> pipeline_payload \<Rightarrow> request_outcome) \<Rightarrow> pipe_env" where
  "pipeSample request =
     \<lparr>peBuild = (\<lambda>args. if length args < 2 then Inl (ErrOther ''GET requires a key'') else Inr sampleCommand),
      peCommandExec = (\<lambda>_ _. Inr sampleCommand), peStreamXAdd = True, pePubSubPublish = True, peSprint = (\<lambda>_. []),
      peRequest = request, peWait = (\<lambda>_. None), peSingle = (\<lambda>_ _. (Inr CNil, None))\<rparr>"

definition busyItem :: cvalue where
  "busyItem = CList [CText ''busy'', CMap [(''retryable'', CBool True), (''safe_to_retry'', CBool True)]]"

definition busyOnce :: "sent list \<Rightarrow> pipeline_payload \<Rightarrow> request_outcome" where
  "busyOnce log payload =
     (case log of
        [] \<Rightarrow> Replied (CList [busyItem, busyItem])
      | [s] \<Rightarrow> if sdRepeated s = None then answerOK payload else Failed ErrNetClosed
      | _ \<Rightarrow> answerOK payload)"

definition getCommand :: "string \<Rightarrow> arg list" where "getCommand key = [Val (VString ''GET''), Val (VString key)]"
definition publishCommand :: "string \<Rightarrow> arg list" where
  "publishCommand message = [Val (VString ''PUBLISH''), Val (VString ''c''), Val (VString message)]"

abbreviation okValue :: pipe_result where "okValue \<equiv> Inr (bin (bytes_of ''OK''))"

definition fiveGets :: "arg list list" where "fiveGets = map getCommand [''a'', ''b'', ''c'', ''d'', ''e'']"

definition closedChunk :: pipe_error where "closedChunk = PeChunk (PeRequest ErrNetClosed) 2"

definition fiveResults :: "pipe_result list" where
  "fiveResults = [okValue, okValue, Inl closedChunk, Inl closedChunk, Inl (PeNotExecuted closedChunk)]"

definition fiveLog :: "sent list" where
  "fiveLog =
     [\<lparr>sdCommands = take 2 fiveGets, sdPolicy = nativeReplayDefault,
        sdRepeated = Some (replicate 2 (Some (ErrNative 1 ''busy'' (asGo (CMap [(''retryable'', CBool True), (''safe_to_retry'', CBool True)])))))\<rparr>,
      \<lparr>sdCommands = take 2 (drop 2 fiveGets), sdPolicy = nativeReplayDefault, sdRepeated = None\<rparr>]"

lemma five_builds: "list_all (builds (pipeSample busyOnce)) fiveGets"
  by code_simp

lemma five_run: "pipelineLoop (pipeSample busyOnce) 1 1000 2 fiveGets [] = (Inr fiveResults, fiveLog)"
  by code_simp

theorem pipeline_at_most_once_witness:
  "\<exists>m. concat (map sdCommands fiveLog) = take m fiveGets \<and> list_all repeat_ok fiveLog \<and>
    list_all (\<lambda>r. \<not> notExecuted r) (take m fiveResults) \<and> list_all (\<lambda>r. \<not> isValue r) (drop m fiveResults)"
  by (rule pipeline_at_most_once [OF five_builds _ five_run]) simp

text \<open>
  An example of what the halving gets wrong: a build failure inside a halved chunk is placed wrongly. Three
  PUBLISH commands and a GET without a key exceed the frame limit together and are halved; the second half reports its second command, and the caller
  takes it for the second command of the chunk. The first message is published twice, the second one is
  published and reported as a command that could not be built.
\<close>

lemma halved_build_failure_resends:
  "case pipelineLoop (pipeSample (\<lambda>_. answerOK)) 1 30 10
      (map publishCommand [''m1'', ''m2'', ''m3''] @ [[Val (VString ''GET'')]]) [] of (rs, log) \<Rightarrow>
     map sdCommands log =
       [[publishCommand ''m1'', publishCommand ''m2''], [publishCommand ''m1''], [publishCommand ''m3'']] \<and>
     rs = Inr [okValue, Inl (PeCommand (ErrOther ''GET requires a key'')), okValue,
               Inl (PeCommand (ErrOther ''GET requires a key''))]"
  by code_simp

end
