(* ===== verification/Connection.thy ===== *)
theory Connection
  imports Responses Retry
begin

section \<open>One multiplexed connection\<close>

text \<open>
  The requests, responses and connections of a \<open>NativeExecutor\<close>: \<open>src/native_request.go\<close>,
  \<open>src/native_pending.go\<close>, \<open>src/native_reader.go\<close> and the connection attempts and writes of
  \<open>src/native_connection.go\<close>. Many goroutines share one connection: callers register a request in a table,
  write it under the write lock, and wait on a channel; the reader matches responses with the table; GOAWAY
  and cancellation drain the connection; errors, heartbeats, retirement and \<open>Close\<close> end it.

  A step is one section under the executor's mutex; where the code finds a fault in one section and ends the
  connection in the next, the step does both, and \<open>NeConnFailed\<close> is the second alone. A step goes with the
  sends and releases that follow it for the entries it took out of the table, which nobody else can reach
  any more. A connection is known by its
  number. Each request keeps a record with ghost fields: every message its channel ever got, how often its
  flow credit was released, and what its caller is doing. What was written is a log of the model.
\<close>

subsection \<open>State\<close>

record wire_response =
  wrID :: "64 word"
  wrOpcode :: "16 word"
  wrLane :: "32 word"
  wrStatus :: "16 word"
  wrValue :: goval

datatype rq_message = MResponse wire_response | MError exec_error

text \<open>What the caller does: where it is in \<open>requestOnceOnConnection\<close>, and on which connection.\<close>

datatype rq_phase =
    RqRegistered
  | RqNotSent
  | RqWriting nat
  | RqWriteFailed nat
  | RqReset nat
  | RqWaiting nat
  | RqDone

record pending_request =
  rqOpcode :: "16 word"
  rqLane :: "32 word"
  rqCredit :: bool
  rqAbandoned :: bool
  rqID :: "64 word"
  rqExpected :: nat
  rqTook :: bool
  rqReleased :: nat
  rqInbox :: "rq_message list"
  rqPhase :: rq_phase

record native_executor =
  neConn :: "nat option"
  neGeneration :: nat
  neGoAway :: bool
  neClosed :: bool
  neRetiring :: bool
  neActive :: nat
  neInFlight :: "nat option"
  neWaiters :: "nat list"
  nePending :: "(64 word \<times> nat) list"
  neNextID :: "64 word"
  neRequests :: "pending_request list"
  neWriter :: "nat option"
  neWire :: "(nat \<times> 64 word \<times> nat) list"

definition newNativeExecutor :: native_executor where
  "newNativeExecutor =
     \<lparr>neConn = None, neGeneration = 0, neGoAway = False, neClosed = False, neRetiring = False, neActive = 0,
      neInFlight = None, neWaiters = [], nePending = [], neNextID = 0, neRequests = [], neWriter = None, neWire = []\<rparr>"

definition onRequest :: "nat \<Rightarrow> (pending_request \<Rightarrow> pending_request) \<Rightarrow> native_executor \<Rightarrow> native_executor" where
  "onRequest i f s = s\<lparr>neRequests := (neRequests s)[i := f (neRequests s ! i)]\<rparr>"

subsection \<open>The table of pending requests\<close>

definition releaseNativePending :: "pending_request \<Rightarrow> pending_request" where
  "releaseNativePending r = (if rqCredit r then r\<lparr>rqCredit := False, rqReleased := rqReleased r + 1\<rparr> else r)"

definition settle :: "rq_message \<Rightarrow> pending_request \<Rightarrow> pending_request" where
  "settle m r =
     (let r = releaseNativePending r in if rqAbandoned r then r else r\<lparr>rqInbox := rqInbox r @ [m]\<rparr>)"

definition failNativePending :: "(64 word \<times> nat) list \<Rightarrow> exec_error \<Rightarrow> native_executor \<Rightarrow> native_executor" where
  "failNativePending pending err s = fold (\<lambda>(_, i). onRequest i (settle (MError err))) pending s"

definition closeConnLocked :: "native_executor \<Rightarrow> native_executor" where
  "closeConnLocked s = s\<lparr>neConn := None, neGoAway := False\<rparr>"

text \<open>\<open>takePendingLocked\<close>, \<open>closeConnLocked\<close> and \<open>failNativePending\<close>, which always go together.\<close>

definition disconnect :: "exec_error \<Rightarrow> native_executor \<Rightarrow> native_executor" where
  "disconnect err s = failNativePending (nePending s) err (closeConnLocked (s\<lparr>nePending := []\<rparr>))"

definition hasLivePendingLocked :: "native_executor \<Rightarrow> bool" where
  "hasLivePendingLocked s \<longleftrightarrow> list_ex (\<lambda>(_, i). \<not> rqAbandoned (neRequests s ! i)) (nePending s)"

definition disconnectIfDrained :: "native_executor \<Rightarrow> native_executor" where
  "disconnectIfDrained s =
     (if neGoAway s \<and> \<not> hasLivePendingLocked s then disconnect ErrConnectionUnavailable s else s)"

definition dropPending :: "64 word \<Rightarrow> native_executor \<Rightarrow> native_executor" where
  "dropPending reqID s = s\<lparr>nePending := filter (\<lambda>(k, _). k \<noteq> reqID) (nePending s)\<rparr>"

text \<open>\<open>removePending\<close> and the release of what it found.\<close>

definition removePending :: "64 word \<Rightarrow> native_executor \<Rightarrow> native_executor" where
  "removePending reqID s =
     (let found = map_of (nePending s) reqID; s = disconnectIfDrained (dropPending reqID s) in
      case found of None \<Rightarrow> s | Some i \<Rightarrow> onRequest i releaseNativePending s)"

definition closeConnAndFailPendingIfCurrent :: "nat \<Rightarrow> exec_error \<Rightarrow> native_executor \<Rightarrow> native_executor" where
  "closeConnAndFailPendingIfCurrent conn err s = (if neConn s = Some conn then disconnect err s else s)"

definition closeConnAndFailPendingUnlessRetiring :: "exec_error \<Rightarrow> native_executor \<Rightarrow> native_executor" where
  "closeConnAndFailPendingUnlessRetiring err s = (if neRetiring s \<or> neClosed s then s else disconnect err s)"

definition cancelPendingDataRequest :: "64 word \<Rightarrow> nat \<Rightarrow> native_executor \<Rightarrow> native_executor" where
  "cancelPendingDataRequest reqID conn s =
     (case map_of (nePending s) reqID of
        None \<Rightarrow> s
      | Some i \<Rightarrow>
          let s = onRequest i (\<lambda>r. r\<lparr>rqAbandoned := True\<rparr>) s in
          if neConn s \<noteq> Some conn then onRequest i releaseNativePending (dropPending reqID s)
          else
            let s = (if neGoAway s then s else s\<lparr>neGoAway := True\<rparr>) in
            if \<not> hasLivePendingLocked s then disconnect ErrConnectionUnavailable s else s)"

subsection \<open>The reader\<close>

definition handleGoAway :: "nat \<Rightarrow> native_executor \<Rightarrow> native_executor" where
  "handleGoAway conn s =
     (if neConn s \<noteq> Some conn \<or> neGoAway s then s
      else
        let s = s\<lparr>neGoAway := True\<rparr> in
        if \<not> hasLivePendingLocked s then disconnect ErrConnectionUnavailable s else s)"

definition responseMismatch :: exec_error where "responseMismatch = ErrOther ''response mismatch''"

text \<open>The check of every frame before it is put together, which may end the connection.\<close>

definition validateNativeWireFrameTuple :: "nat \<Rightarrow> 64 word \<Rightarrow> 16 word \<Rightarrow> 32 word \<Rightarrow> native_executor \<Rightarrow> native_executor" where
  "validateNativeWireFrameTuple conn reqID opcode lane s =
     (if neConn s \<noteq> Some conn \<or> reqID = 0 then s
      else case map_of (nePending s) reqID of
        None \<Rightarrow> if lane = 0 then s else closeConnAndFailPendingIfCurrent conn (ErrOther ''unknown data request'') s
      | Some i \<Rightarrow>
          if rqOpcode (neRequests s ! i) = opcode \<and> rqLane (neRequests s ! i) = lane then s
          else closeConnAndFailPendingIfCurrent conn responseMismatch s)"

text \<open>A complete response.\<close>

definition dispatchResponse :: "nat \<Rightarrow> wire_response \<Rightarrow> native_executor \<Rightarrow> native_executor" where
  "dispatchResponse conn frame s =
     (if neConn s \<noteq> Some conn then s
      else case map_of (nePending s) (wrID frame) of
        None \<Rightarrow> disconnectIfDrained s
      | Some i \<Rightarrow>
          if rqOpcode (neRequests s ! i) \<noteq> wrOpcode frame \<or> rqLane (neRequests s ! i) \<noteq> wrLane frame
          then closeConnAndFailPendingIfCurrent conn responseMismatch s
          else disconnectIfDrained (onRequest i (settle (MResponse frame)) (dropPending (wrID frame) s)))"

subsection \<open>Connecting\<close>

text \<open>The section of \<open>ensureConnectedLocked\<close> that joins or starts an attempt.\<close>

definition joinConnectAttempt :: "native_executor \<Rightarrow> native_executor" where
  "joinConnectAttempt s =
     (if neConn s \<noteq> None \<or> neClosed s \<or> neRetiring s then s
      else case neInFlight s of
        None \<Rightarrow> s\<lparr>neInFlight := Some (length (neWaiters s)), neWaiters := neWaiters s @ [1]\<rparr>
      | Some a \<Rightarrow> s\<lparr>neWaiters := (neWaiters s)[a := neWaiters s ! a + 1]\<rparr>)"

definition releaseConnectWaiter :: "nat \<Rightarrow> native_executor \<Rightarrow> native_executor" where
  "releaseConnectWaiter a s =
     (let s = s\<lparr>neWaiters := (neWaiters s)[a := neWaiters s ! a - 1]\<rparr> in
      if neWaiters s ! a = 0 \<and> neInFlight s = Some a \<and> neConn s = None then s\<lparr>neInFlight := None\<rparr> else s)"

definition installNativeConnectionLocked :: "native_executor \<Rightarrow> native_executor" where
  "installNativeConnectionLocked s = s\<lparr>neConn := Some (neGeneration s), neGeneration := neGeneration s + 1\<rparr>"

text \<open>The section of \<open>runConnectAttempt\<close> after the connection was opened, or was not.\<close>

definition finishConnectAttempt :: "nat \<Rightarrow> bool \<Rightarrow> native_executor \<Rightarrow> native_executor" where
  "finishConnectAttempt a opened s =
     (let s = (if opened \<and> \<not> (neClosed s \<or> neRetiring s \<or> neInFlight s \<noteq> Some a)
               then installNativeConnectionLocked s else s) in
      if neInFlight s = Some a then s\<lparr>neInFlight := None\<rparr> else s)"

subsection \<open>The life of the executor\<close>

definition beginRequest :: "native_executor \<Rightarrow> native_executor" where
  "beginRequest s = (if neClosed s \<or> neRetiring s then s else s\<lparr>neActive := neActive s + 1\<rparr>)"

definition endRequest :: "native_executor \<Rightarrow> native_executor" where
  "endRequest s =
     (let s = s\<lparr>neActive := neActive s - 1\<rparr> in
      if neActive s \<noteq> 0 \<or> \<not> neRetiring s \<or> neClosed s then s else disconnect ErrNetClosed (s\<lparr>neClosed := True\<rparr>))"

definition retire :: "native_executor \<Rightarrow> native_executor" where
  "retire s =
     (if neClosed s \<or> neRetiring s then s
      else
        let s = s\<lparr>neRetiring := True\<rparr> in
        if neActive s \<noteq> 0 then s else disconnect ErrNetClosed (s\<lparr>neClosed := True\<rparr>))"

definition closeExecutorConn :: "native_executor \<Rightarrow> native_executor" where
  "closeExecutorConn s = (if neClosed s then s else disconnect ErrNetClosed (s\<lparr>neClosed := True\<rparr>))"

subsection \<open>Requests\<close>

text \<open>The next number that is neither zero nor in the table; the loop has no bound of its own.\<close>

partial_function (option) nextRequestIDLocked :: "64 word list \<Rightarrow> 64 word \<Rightarrow> 64 word option" where
  "nextRequestIDLocked used n =
     (let reqID = n + 1 in
      if reqID = 0 \<or> reqID \<in> set used then nextRequestIDLocked used reqID else Some reqID)"

declare nextRequestIDLocked.simps [code]

definition withNextID :: "(64 word \<Rightarrow> native_executor \<Rightarrow> native_executor) \<Rightarrow> native_executor \<Rightarrow> native_executor" where
  "withNextID f s =
     (case nextRequestIDLocked (map fst (nePending s)) (neNextID s) of
        None \<Rightarrow> s
      | Some reqID \<Rightarrow> f reqID (s\<lparr>neNextID := reqID\<rparr>))"

definition addPendingRequest :: "16 word \<Rightarrow> 32 word \<Rightarrow> nat \<Rightarrow> bool \<Rightarrow> native_executor \<Rightarrow> native_executor" where
  "addPendingRequest opcode lane expected credit =
     withNextID (\<lambda>reqID s. s\<lparr>nePending := (reqID, length (neRequests s)) # nePending s,
       neRequests := neRequests s @
         [\<lparr>rqOpcode = opcode, rqLane = lane, rqCredit = credit, rqAbandoned = False, rqID = reqID, rqExpected = expected,
           rqTook = credit, rqReleased = 0, rqInbox = [], rqPhase = RqRegistered\<rparr>]\<rparr>)"

definition setPhase :: "nat \<Rightarrow> rq_phase \<Rightarrow> native_executor \<Rightarrow> native_executor" where
  "setPhase i p = onRequest i (\<lambda>r. r\<lparr>rqPhase := p\<rparr>)"

text \<open>
  \<open>writeRequest\<close>: with the write lock, the connection is checked and the frame goes out; the caller may also
  give up before (its context, or an encoding error).
\<close>

definition startWrite :: "nat \<Rightarrow> native_executor \<Rightarrow> native_executor" where
  "startWrite i s =
     (let r = neRequests s ! i in
      if neConn s \<noteq> Some (rqExpected r) \<or> neGoAway s then setPhase i RqNotSent s
      else (setPhase i (RqWriting (rqExpected r)) s)
        \<lparr>neWriter := Some i, neWire := neWire s @ [(rqExpected r, rqID r, i)]\<rparr>)"

fun endWrite :: "nat \<Rightarrow> bool \<Rightarrow> rq_phase \<Rightarrow> native_executor \<Rightarrow> native_executor" where
  "endWrite i written (RqWriting c) s = (setPhase i (if written then RqWaiting c else RqWriteFailed c) s)\<lparr>neWriter := None\<rparr>"
| "endWrite i written _ s = s"

text \<open>The caller takes its request out of the table after a failed write, and then resets the connection.\<close>

fun forgetRequest :: "nat \<Rightarrow> rq_phase \<Rightarrow> native_executor \<Rightarrow> native_executor" where
  "forgetRequest i RqNotSent s = setPhase i RqDone (removePending (rqID (neRequests s ! i)) s)"
| "forgetRequest i (RqWriteFailed c) s = setPhase i (RqReset c) (removePending (rqID (neRequests s ! i)) s)"
| "forgetRequest i _ s = s"

fun resetAfterWrite :: "nat \<Rightarrow> exec_error \<Rightarrow> rq_phase \<Rightarrow> native_executor \<Rightarrow> native_executor" where
  "resetAfterWrite i err (RqReset c) s = setPhase i RqDone (closeConnAndFailPendingIfCurrent c err s)"
| "resetAfterWrite i err _ s = s"

text \<open>The caller takes its message; a response for another request would end the connection.\<close>

fun receive :: "nat \<Rightarrow> rq_phase \<Rightarrow> rq_message list \<Rightarrow> native_executor \<Rightarrow> native_executor" where
  "receive i (RqWaiting c) (MResponse frame # _) s =
     setPhase i RqDone
       (if wrOpcode frame \<noteq> rqOpcode (neRequests s ! i) \<or> wrLane frame \<noteq> rqLane (neRequests s ! i)
        then closeConnAndFailPendingIfCurrent c responseMismatch s else s)"
| "receive i (RqWaiting c) (MError _ # _) s = setPhase i RqDone s"
| "receive i _ _ s = s"

definition nativeOpShards :: "16 word" where "nativeOpShards = 0x0007"
definition nativeOpCommandExec :: "16 word" where "nativeOpCommandExec = 0x0100"

definition nativeOpcodeUsesFlowCredit :: "16 word \<Rightarrow> bool" where
  "nativeOpcodeUsesFlowCredit opcode \<longleftrightarrow> opcode \<ge> nativeOpCommandExec \<or> opcode = nativeOpPipeline"

definition nativeOpcodeDrainsOnCancellation :: "16 word \<Rightarrow> bool" where
  "nativeOpcodeDrainsOnCancellation opcode \<longleftrightarrow> nativeOpcodeUsesFlowCredit opcode \<or> opcode = nativeOpShards"

text \<open>The context of a waiting caller ends; draining needs the write lock.\<close>

fun cancelRequest :: "nat \<Rightarrow> rq_phase \<Rightarrow> native_executor \<Rightarrow> native_executor" where
  "cancelRequest i (RqWaiting c) s =
     (let r = neRequests s ! i in
      if \<not> nativeOpcodeDrainsOnCancellation (rqOpcode r) then setPhase i RqDone (removePending (rqID r) s)
      else if neWriter s \<noteq> None then s
      else cancelPendingDataRequest (rqID r) c (setPhase i RqDone s))"
| "cancelRequest i _ s = s"

subsection \<open>Runs\<close>

datatype conn_event =
    NeJoin | NeLeave nat | NeOpened nat bool
  | NeBegin | NeEnd | NeRetire | NeClose
  | NeHandshake
  | NeRegister "16 word" "32 word" nat bool
  | NeGiveUp nat
  | NeStartWrite nat
  | NeEndWrite nat bool
  | NeForget nat
  | NeReset nat exec_error
  | NeReceive nat
  | NeCancel nat
  | NeFrame nat "64 word" "16 word" "32 word"
  | NeResponse nat wire_response
  | NeGoAwayFrame nat
  | NeConnFailed nat exec_error
  | NeHeartbeatFailed exec_error
  | NeRetryReset exec_error

text \<open>
  A run ends when the 64-bit counter of request numbers does: the code would start again from one, and relies
  on no caller of the \<open>2 ^ 64\<close> requests before still holding its number.
\<close>

definition phaseAt :: "nat \<Rightarrow> native_executor \<Rightarrow> rq_phase" where
  "phaseAt i s = (if i < length (neRequests s) then rqPhase (neRequests s ! i) else RqDone)"

fun conn_step :: "conn_event \<Rightarrow> native_executor \<Rightarrow> native_executor" where
  "conn_step NeJoin s = joinConnectAttempt s"
| "conn_step (NeLeave a) s = (if a < length (neWaiters s) then releaseConnectWaiter a s else s)"
| "conn_step (NeOpened a opened) s = finishConnectAttempt a opened s"
| "conn_step NeBegin s = beginRequest s"
| "conn_step NeEnd s = endRequest s"
| "conn_step NeRetire s = retire s"
| "conn_step NeClose s = closeExecutorConn s"
| "conn_step NeHandshake s = (if neNextID s = -1 then s else withNextID (\<lambda>_ s. s) s)"
| "conn_step (NeRegister opcode lane expected credit) s =
     (if neNextID s = -1 then s else addPendingRequest opcode lane expected credit s)"
| "conn_step (NeGiveUp i) s = (if phaseAt i s = RqRegistered then setPhase i RqNotSent s else s)"
| "conn_step (NeStartWrite i) s = (if phaseAt i s = RqRegistered \<and> neWriter s = None then startWrite i s else s)"
| "conn_step (NeEndWrite i written) s = endWrite i written (phaseAt i s) s"
| "conn_step (NeForget i) s = forgetRequest i (phaseAt i s) s"
| "conn_step (NeReset i err) s = resetAfterWrite i err (phaseAt i s) s"
| "conn_step (NeReceive i) s = receive i (phaseAt i s) (rqInbox (neRequests s ! i)) s"
| "conn_step (NeCancel i) s = cancelRequest i (phaseAt i s) s"
| "conn_step (NeFrame conn reqID opcode lane) s = validateNativeWireFrameTuple conn reqID opcode lane s"
| "conn_step (NeResponse conn frame) s = (if wrID frame = 0 then s else dispatchResponse conn frame s)"
| "conn_step (NeGoAwayFrame conn) s = (if neWriter s = None then handleGoAway conn s else s)"
| "conn_step (NeConnFailed conn err) s = closeConnAndFailPendingIfCurrent conn err s"
| "conn_step (NeHeartbeatFailed err) s = closeConnAndFailPendingUnlessRetiring err s"
| "conn_step (NeRetryReset err) s = disconnect err s"

subsection \<open>What a request may look like\<close>

text \<open>\<open>listed\<close>: the request is in the table.\<close>

definition answers :: "pending_request \<Rightarrow> rq_message \<Rightarrow> bool" where
  "answers r m = (case m of MError _ \<Rightarrow> True
     | MResponse frame \<Rightarrow> wrID frame = rqID r \<and> wrOpcode frame = rqOpcode r \<and> wrLane frame = rqLane r)"

fun sentOn :: "rq_phase \<Rightarrow> nat option" where
  "sentOn (RqWriting c) = Some c"
| "sentOn (RqWaiting c) = Some c"
| "sentOn _ = None"

fun mayBeListed :: "rq_phase \<Rightarrow> bool" where
  "mayBeListed (RqReset c) = False"
| "mayBeListed RqDone = False"
| "mayBeListed _ = True"

definition request_core :: "bool \<Rightarrow> pending_request \<Rightarrow> bool" where
  "request_core listed r \<longleftrightarrow>
     length (rqInbox r) \<le> 1 \<and> list_all (answers r) (rqInbox r) \<and>
     rqReleased r = (if rqTook r \<and> \<not> rqCredit r then 1 else 0) \<and>
     (rqCredit r \<longleftrightarrow> listed \<and> rqTook r) \<and>
     (listed \<longrightarrow> rqInbox r = [] \<and> (if rqAbandoned r then rqPhase r = RqDone else mayBeListed (rqPhase r))) \<and>
     (mayBeListed (rqPhase r) \<and> rqInbox r = [] \<longrightarrow> listed)"

definition request_ok :: "nat option \<Rightarrow> bool \<Rightarrow> pending_request \<Rightarrow> bool" where
  "request_ok conn listed r \<longleftrightarrow>
     request_core listed r \<and> (\<forall>c. sentOn (rqPhase r) = Some c \<and> rqInbox r = [] \<longrightarrow> conn = Some c)"

definition table_ok :: "native_executor \<Rightarrow> bool" where
  "table_ok s \<longleftrightarrow>
     distinct (map fst (nePending s)) \<and> distinct (map snd (nePending s)) \<and>
     (\<forall>(reqID, i) \<in> set (nePending s). i < length (neRequests s) \<and> rqID (neRequests s ! i) = reqID)"

definition listed :: "native_executor \<Rightarrow> nat \<Rightarrow> bool" where
  "listed s i \<longleftrightarrow> i \<in> set (map snd (nePending s))"

definition requests_ok :: "native_executor \<Rightarrow> bool" where
  "requests_ok s \<longleftrightarrow> (\<forall>i < length (neRequests s). request_ok (neConn s) (listed s i) (neRequests s ! i))"

fun writing :: "rq_phase \<Rightarrow> bool" where
  "writing (RqWriting c) = True"
| "writing _ = False"

definition writer_ok :: "native_executor \<Rightarrow> bool" where
  "writer_ok s \<longleftrightarrow>
     (\<forall>i. neWriter s = Some i \<longleftrightarrow> i < length (neRequests s) \<and> writing (rqPhase (neRequests s ! i)))"

definition drain_ok :: "native_executor \<Rightarrow> bool" where
  "drain_ok s \<longleftrightarrow> (neGoAway s \<longrightarrow> neConn s \<noteq> None \<and> hasLivePendingLocked s \<and> neWriter s = None)"

definition life_ok :: "native_executor \<Rightarrow> bool" where
  "life_ok s \<longleftrightarrow>
     (neInFlight s \<noteq> None \<longrightarrow> neConn s = None) \<and> (neClosed s \<longrightarrow> neConn s = None) \<and>
     (neRetiring s \<and> \<not> neClosed s \<longrightarrow> 0 < neActive s) \<and>
     (\<forall>c. neConn s = Some c \<longrightarrow> c < neGeneration s)"

definition ids_ok :: "native_executor \<Rightarrow> bool" where
  "ids_ok s \<longleftrightarrow> distinct (map rqID (neRequests s)) \<and> (\<forall>r \<in> set (neRequests s). rqID r \<le> neNextID s)"

definition conn_inv :: "native_executor \<Rightarrow> bool" where
  "conn_inv s \<longleftrightarrow> ids_ok s \<and> table_ok s \<and> requests_ok s \<and> writer_ok s \<and> drain_ok s \<and> life_ok s"

lemma new_executor_inv: "conn_inv newNativeExecutor"
  by (simp add: conn_inv_def newNativeExecutor_def ids_ok_def table_ok_def requests_ok_def writer_ok_def drain_ok_def life_ok_def)

subsection \<open>Ending a connection\<close>

lemma onRequest_sel [simp]:
  "neConn (onRequest i f s) = neConn s" "neGeneration (onRequest i f s) = neGeneration s"
  "neGoAway (onRequest i f s) = neGoAway s" "neClosed (onRequest i f s) = neClosed s"
  "neRetiring (onRequest i f s) = neRetiring s" "neActive (onRequest i f s) = neActive s"
  "neInFlight (onRequest i f s) = neInFlight s" "neWaiters (onRequest i f s) = neWaiters s"
  "nePending (onRequest i f s) = nePending s" "neNextID (onRequest i f s) = neNextID s"
  "neWriter (onRequest i f s) = neWriter s" "neWire (onRequest i f s) = neWire s"
  "length (neRequests (onRequest i f s)) = length (neRequests s)"
  by (simp_all add: onRequest_def)

lemma onRequest_nth:
  "j < length (neRequests s) \<Longrightarrow> neRequests (onRequest i f s) ! j = (if i = j then f (neRequests s ! j) else neRequests s ! j)"
  by (auto simp: onRequest_def nth_list_update)

lemma fail_sel:
  "neConn (failNativePending ps err s) = neConn s" "neGeneration (failNativePending ps err s) = neGeneration s"
  "neGoAway (failNativePending ps err s) = neGoAway s" "neClosed (failNativePending ps err s) = neClosed s"
  "neRetiring (failNativePending ps err s) = neRetiring s" "neActive (failNativePending ps err s) = neActive s"
  "neInFlight (failNativePending ps err s) = neInFlight s" "neWaiters (failNativePending ps err s) = neWaiters s"
  "nePending (failNativePending ps err s) = nePending s" "neNextID (failNativePending ps err s) = neNextID s"
  "neWriter (failNativePending ps err s) = neWriter s" "neWire (failNativePending ps err s) = neWire s"
  "length (neRequests (failNativePending ps err s)) = length (neRequests s)"
  unfolding failNativePending_def by (induction ps arbitrary: s) (auto split: prod.splits)

lemma fail_nth:
  "distinct (map snd ps) \<Longrightarrow> j < length (neRequests s) \<Longrightarrow>
   neRequests (failNativePending ps err s) ! j =
     (if j \<in> set (map snd ps) then settle (MError err) (neRequests s ! j) else neRequests s ! j)"
  unfolding failNativePending_def
proof (induction ps arbitrary: s)
  case Nil
  then show ?case by simp
next
  case (Cons p ps)
  then show ?case by (cases p) (auto simp: onRequest_nth rev_image_eqI)
qed

lemma disconnect_sel [simp]:
  "neConn (disconnect err s) = None" "neGoAway (disconnect err s) = False" "nePending (disconnect err s) = []"
  "neGeneration (disconnect err s) = neGeneration s" "neClosed (disconnect err s) = neClosed s"
  "neRetiring (disconnect err s) = neRetiring s" "neActive (disconnect err s) = neActive s"
  "neInFlight (disconnect err s) = neInFlight s" "neWaiters (disconnect err s) = neWaiters s"
  "neNextID (disconnect err s) = neNextID s" "neWriter (disconnect err s) = neWriter s"
  "neWire (disconnect err s) = neWire s" "length (neRequests (disconnect err s)) = length (neRequests s)"
  by (simp_all add: disconnect_def fail_sel closeConnLocked_def)

lemma disconnect_nth:
  "table_ok s \<Longrightarrow> j < length (neRequests s) \<Longrightarrow>
   neRequests (disconnect err s) ! j = (if listed s j then settle (MError err) (neRequests s ! j) else neRequests s ! j)"
  by (simp add: disconnect_def fail_nth closeConnLocked_def table_ok_def listed_def)

lemma settle_sel [simp]:
  "rqPhase (settle m r) = rqPhase r" "rqID (settle m r) = rqID r" "rqOpcode (settle m r) = rqOpcode r"
  "rqLane (settle m r) = rqLane r" "rqExpected (settle m r) = rqExpected r" "rqAbandoned (settle m r) = rqAbandoned r"
  "rqTook (settle m r) = rqTook r"
  by (simp_all add: settle_def releaseNativePending_def Let_def)

lemma release_sel [simp]:
  "rqPhase (releaseNativePending r) = rqPhase r" "rqID (releaseNativePending r) = rqID r"
  "rqOpcode (releaseNativePending r) = rqOpcode r" "rqLane (releaseNativePending r) = rqLane r"
  "rqExpected (releaseNativePending r) = rqExpected r" "rqAbandoned (releaseNativePending r) = rqAbandoned r"
  "rqTook (releaseNativePending r) = rqTook r" "rqInbox (releaseNativePending r) = rqInbox r"
  by (simp_all add: releaseNativePending_def)

lemma answers_same [simp]:
  "answers (r\<lparr>rqPhase := p\<rparr>) = answers r" "answers (r\<lparr>rqAbandoned := b\<rparr>) = answers r"
  "answers (releaseNativePending r) = answers r" "answers (r\<lparr>rqInbox := ms\<rparr>) = answers r"
  by (auto simp: answers_def split: rq_message.splits)

lemma settle_ok: "request_ok conn True r \<Longrightarrow> answers r m \<Longrightarrow> request_ok conn' False (settle m r)"
  by (auto simp: request_ok_def request_core_def settle_def releaseNativePending_def answers_def Let_def split: if_splits rq_message.splits)

lemma taken_ok:
  assumes "request_ok conn True r" and "\<not> mayBeListed p"
  shows "request_ok conn' False ((releaseNativePending r)\<lparr>rqPhase := p\<rparr>)"
proof -
  from assms(1) have "rqInbox r = []" "rqReleased r = (if rqTook r \<and> \<not> rqCredit r then 1 else 0)" "rqCredit r = rqTook r"
    by (auto simp: request_ok_def request_core_def)
  with assms(2) show ?thesis by (cases p) (simp_all add: request_ok_def request_core_def releaseNativePending_def)
qed

lemma request_ok_parts:
  assumes "request_ok conn l r"
  shows "length (rqInbox r) \<le> 1" and "list_all (answers r) (rqInbox r)"
    and "rqReleased r = (if rqTook r \<and> \<not> rqCredit r then 1 else 0)" and "rqCredit r \<longleftrightarrow> l \<and> rqTook r"
    and "mayBeListed (rqPhase r) \<Longrightarrow> rqInbox r = [] \<Longrightarrow> l"
    and "sentOn (rqPhase r) = Some c \<Longrightarrow> rqInbox r = [] \<Longrightarrow> conn = Some c"
  using assms unfolding request_ok_def request_core_def by blast+

lemma sentOn_listed: "sentOn p = Some c \<Longrightarrow> mayBeListed p"
  by (cases p) simp_all

lemma unlisted_ok: "request_ok conn False r \<Longrightarrow> request_ok conn' False r"
  using sentOn_listed [of "rqPhase r"] by (auto simp: request_ok_def request_core_def)

lemma ids_same:
  assumes "length (neRequests s') = length (neRequests s)" and "\<And>j. j < length (neRequests s) \<Longrightarrow> rqID (neRequests s' ! j) = rqID (neRequests s ! j)"
    and "neNextID s' = neNextID s" and "ids_ok s"
  shows "ids_ok s'"
proof -
  from assms(1,2) have "map rqID (neRequests s') = map rqID (neRequests s)" by (auto intro: nth_equalityI)
  then have "rqID ` set (neRequests s') = rqID ` set (neRequests s)" by (metis set_map)
  with assms(3,4) \<open>map rqID (neRequests s') = _\<close> show ?thesis by (auto simp: ids_ok_def) (metis imageE image_eqI)
qed

lemma writer_same:
  assumes "length (neRequests s') = length (neRequests s)"
    and "\<And>j. j < length (neRequests s) \<Longrightarrow> writing (rqPhase (neRequests s' ! j)) = writing (rqPhase (neRequests s ! j))"
    and "neWriter s' = neWriter s" and "writer_ok s"
  shows "writer_ok s'"
  using assms by (auto simp: writer_ok_def)

definition started :: "native_executor \<Rightarrow> bool" where
  "started s \<longleftrightarrow> ids_ok s \<and> table_ok s \<and> requests_ok s \<and> writer_ok s \<and> life_ok s \<and>
     (neGoAway s \<longrightarrow> neConn s \<noteq> None \<and> neWriter s = None)"

lemma disconnect_inv:
  assumes "ids_ok s" and "table_ok s" and "requests_ok s" and "writer_ok s" and "neRetiring s \<and> \<not> neClosed s \<longrightarrow> 0 < neActive s"
  shows "conn_inv (disconnect err s)"
proof -
  have "request_ok None False (neRequests (disconnect err s) ! j)" if "j < length (neRequests s)" for j
  proof (cases "listed s j")
    case True
    with assms(3) that have "request_ok (neConn s) True (neRequests s ! j)" by (auto simp: requests_ok_def)
    from settle_ok [OF this, of "MError err"] True that assms(2) show ?thesis by (simp add: disconnect_nth answers_def)
  next
    case False
    with assms(3) that have "request_ok (neConn s) False (neRequests s ! j)" by (auto simp: requests_ok_def)
    from unlisted_ok [OF this] False that assms(2) show ?thesis by (simp add: disconnect_nth)
  qed
  moreover have "rqPhase (neRequests (disconnect err s) ! j) = rqPhase (neRequests s ! j)" if "j < length (neRequests s)" for j
    using that assms(2) by (simp add: disconnect_nth)
  moreover have "ids_ok (disconnect err s)" by (rule ids_same [OF _ _ _ assms(1)]) (simp_all add: disconnect_nth assms(2))
  ultimately show ?thesis using assms(4,5)
    by (auto simp: conn_inv_def table_ok_def requests_ok_def listed_def writer_ok_def drain_ok_def life_ok_def)
qed

lemma started_disconnect: "started s \<Longrightarrow> conn_inv (disconnect err s)"
  by (rule disconnect_inv) (auto simp: started_def life_ok_def)

lemma conn_inv_started: "conn_inv s \<longleftrightarrow> started s \<and> (neGoAway s \<longrightarrow> hasLivePendingLocked s)"
  by (auto simp: conn_inv_def started_def drain_ok_def)

lemma drained_inv: "started s \<Longrightarrow> conn_inv (disconnectIfDrained s)"
  using started_disconnect [of s] conn_inv_started [of s] by (auto simp: disconnectIfDrained_def)

lemma close_current_inv: "conn_inv s \<Longrightarrow> conn_inv (closeConnAndFailPendingIfCurrent c err s)"
  using started_disconnect [of s err] by (simp add: closeConnAndFailPendingIfCurrent_def) (simp add: conn_inv_started)

subsection \<open>Changing one request\<close>

lemma onRequest_started:
  assumes "started s" and "i < length (neRequests s)" and "request_ok (neConn s) (listed s i) (f (neRequests s ! i))"
    and "rqID (f (neRequests s ! i)) = rqID (neRequests s ! i)"
    and "writing (rqPhase (f (neRequests s ! i))) \<longleftrightarrow> writing (rqPhase (neRequests s ! i))"
  shows "started (onRequest i f s)"
proof -
  have "ids_ok (onRequest i f s)" by (rule ids_same [of _ s]) (use assms in \<open>auto simp: onRequest_nth started_def\<close>)
  moreover have "table_ok (onRequest i f s)"
    using assms by (auto simp: started_def table_ok_def onRequest_nth)
  moreover have "requests_ok (onRequest i f s)"
    using assms by (auto simp: started_def requests_ok_def onRequest_nth listed_def)
  moreover have "writer_ok (onRequest i f s)"
    by (rule writer_same [of _ s]) (use assms in \<open>auto simp: onRequest_nth started_def\<close>)
  ultimately show ?thesis using assms(1) by (simp add: started_def life_ok_def)
qed

lemma live_other:
  assumes "\<And>j. j \<in> set (map snd (nePending s)) \<Longrightarrow> rqAbandoned (neRequests s' ! j) = rqAbandoned (neRequests s ! j)"
    and "nePending s' = nePending s"
  shows "hasLivePendingLocked s' = hasLivePendingLocked s"
  using assms by (fastforce simp: hasLivePendingLocked_def list_ex_iff)

lemma onRequest_inv:
  assumes "conn_inv s" and "i < length (neRequests s)" and "request_ok (neConn s) (listed s i) (f (neRequests s ! i))"
    and "rqID (f (neRequests s ! i)) = rqID (neRequests s ! i)"
    and "rqAbandoned (f (neRequests s ! i)) = rqAbandoned (neRequests s ! i)"
    and "writing (rqPhase (f (neRequests s ! i))) \<longleftrightarrow> writing (rqPhase (neRequests s ! i))"
  shows "conn_inv (onRequest i f s)"
proof -
  have "hasLivePendingLocked (onRequest i f s) = hasLivePendingLocked s"
  proof (rule live_other)
    fix j assume "j \<in> set (map snd (nePending s))"
    then have "j < length (neRequests s)" using assms(1) by (auto simp: conn_inv_def table_ok_def)
    then show "rqAbandoned (neRequests (onRequest i f s) ! j) = rqAbandoned (neRequests s ! j)"
      using assms(5) by (auto simp: onRequest_nth)
  qed simp
  with onRequest_started [of s i f] assms show ?thesis by (simp add: conn_inv_started)
qed

subsection \<open>Taking a request out of the table\<close>

lemma found_listed:
  assumes "table_ok s" and "map_of (nePending s) reqID = Some i"
  shows "listed s i" and "i < length (neRequests s)" and "rqID (neRequests s ! i) = reqID"
  using assms map_of_SomeD [OF assms(2)] by (auto simp: table_ok_def listed_def rev_image_eqI)

lemma listed_found:
  assumes "table_ok s" and "listed s i"
  shows "map_of (nePending s) (rqID (neRequests s ! i)) = Some i"
  using assms by (auto simp: table_ok_def listed_def map_of_eq_Some_iff)

lemma drop_sel [simp]:
  "neConn (dropPending k s) = neConn s" "neGeneration (dropPending k s) = neGeneration s"
  "neGoAway (dropPending k s) = neGoAway s" "neClosed (dropPending k s) = neClosed s"
  "neRetiring (dropPending k s) = neRetiring s" "neActive (dropPending k s) = neActive s"
  "neInFlight (dropPending k s) = neInFlight s" "neWaiters (dropPending k s) = neWaiters s"
  "neNextID (dropPending k s) = neNextID s" "neRequests (dropPending k s) = neRequests s"
  "neWriter (dropPending k s) = neWriter s" "neWire (dropPending k s) = neWire s"
  by (simp_all add: dropPending_def)

lemma drop_table: "table_ok s \<Longrightarrow> table_ok (dropPending k s)"
  by (auto simp: table_ok_def dropPending_def distinct_map_filter)

lemma drop_listed:
  assumes "table_ok s" and "map_of (nePending s) reqID = Some i"
  shows "listed (dropPending reqID s) j \<longleftrightarrow> listed s j \<and> j \<noteq> i"
proof -
  note fl = found_listed [OF assms]
  have entry: "rqID (neRequests s ! l) = k" if "(k, l) \<in> set (nePending s)" for k l
    using assms(1) that by (auto simp: table_ok_def)
  have key: "l = i" if "(reqID, l) \<in> set (nePending s)" for l
    using assms that by (simp add: table_ok_def)
  have "listed (dropPending reqID s) j \<longleftrightarrow> (\<exists>k. (k, j) \<in> set (nePending s) \<and> k \<noteq> reqID)"
    by (force simp: listed_def dropPending_def)
  also have "\<dots> \<longleftrightarrow> (\<exists>k. (k, j) \<in> set (nePending s)) \<and> j \<noteq> i"
    using entry fl(3) key by blast
  finally show ?thesis by (force simp: listed_def)
qed

lemma drop_unknown: "map_of (nePending s) reqID = None \<Longrightarrow> dropPending reqID s = s"
  by (force simp: dropPending_def map_of_eq_None_iff filter_id_conv intro!: native_executor.equality)

text \<open>The request that leaves the table is changed by \<open>f\<close> in the same step.\<close>

lemma taken_started:
  assumes "started s" and "map_of (nePending s) reqID = Some i" and "request_ok (neConn s) False (f (neRequests s ! i))"
    and "rqID (f (neRequests s ! i)) = rqID (neRequests s ! i)"
    and "writing (rqPhase (f (neRequests s ! i))) \<longleftrightarrow> writing (rqPhase (neRequests s ! i))"
  shows "started (onRequest i f (dropPending reqID s))"
proof -
  have t: "table_ok s" using assms(1) by (simp add: started_def)
  note fl = found_listed [OF t assms(2)] and dl = drop_listed [OF t assms(2)]
  let ?d = "onRequest i f (dropPending reqID s)"
  have "ids_ok ?d" by (rule ids_same [of _ s]) (use assms in \<open>auto simp: onRequest_nth started_def\<close>)
  moreover have "table_ok ?d" using drop_table [OF t, of reqID] fl assms(4)
    by (auto simp: table_ok_def onRequest_nth)
  moreover have "requests_ok ?d" using assms(1,3) fl dl
    by (auto simp: started_def requests_ok_def onRequest_nth listed_def)
  moreover have "writer_ok ?d"
    by (rule writer_same [of _ s]) (use assms in \<open>auto simp: onRequest_nth started_def\<close>)
  ultimately show ?thesis using assms(1) by (simp add: started_def life_ok_def)
qed

lemma onRequest_swap: "i \<noteq> j \<Longrightarrow> onRequest i f (onRequest j g s) = onRequest j g (onRequest i f s)"
  by (simp add: onRequest_def list_update_swap)

lemma fail_swap:
  "i \<notin> set (map snd ps) \<Longrightarrow> failNativePending ps err (onRequest i f s) = onRequest i f (failNativePending ps err s)"
  unfolding failNativePending_def by (induction ps arbitrary: s) (auto simp: onRequest_swap [of _ i])

lemma disconnect_swap: "\<not> listed s i \<Longrightarrow> disconnect err (onRequest i f s) = onRequest i f (disconnect err s)"
proof -
  have "closeConnLocked ((onRequest i f s)\<lparr>nePending := []\<rparr>) = onRequest i f (closeConnLocked (s\<lparr>nePending := []\<rparr>))"
    by (simp add: onRequest_def closeConnLocked_def)
  moreover assume "\<not> listed s i"
  ultimately show ?thesis by (simp add: disconnect_def fail_swap listed_def)
qed

lemma drained_swap: "\<not> listed s i \<Longrightarrow> disconnectIfDrained (onRequest i f s) = onRequest i f (disconnectIfDrained s)"
proof -
  assume i: "\<not> listed s i"
  have "hasLivePendingLocked (onRequest i f s) = hasLivePendingLocked s"
  proof (rule live_other)
    fix j assume "j \<in> set (map snd (nePending s))"
    with i have "i \<noteq> j" by (auto simp: listed_def)
    then show "rqAbandoned (neRequests (onRequest i f s) ! j) = rqAbandoned (neRequests s ! j)" by (simp add: onRequest_def)
  qed simp
  then show ?thesis by (simp add: disconnectIfDrained_def disconnect_swap i)
qed

lemma onRequest_twice: "onRequest i f (onRequest i g s) = onRequest i (\<lambda>r. f (g r)) s"
  by (cases "i < length (neRequests s)") (simp_all add: onRequest_def list_update_beyond)

lemma removePending_found:
  assumes "table_ok s" and "map_of (nePending s) reqID = Some i"
  shows "setPhase i p (removePending reqID s) =
    disconnectIfDrained (onRequest i (\<lambda>r. (releaseNativePending r)\<lparr>rqPhase := p\<rparr>) (dropPending reqID s))"
  using assms drop_listed [OF assms, of i]
  by (simp add: removePending_def setPhase_def onRequest_twice drained_swap)

lemma removePending_unknown:
  assumes "conn_inv s" and "map_of (nePending s) reqID = None"
  shows "removePending reqID s = s"
  using assms by (auto simp: removePending_def drop_unknown disconnectIfDrained_def conn_inv_def drain_ok_def)

text \<open>The caller of a request takes it out, whoever may have done so before.\<close>

lemma remove_inv:
  assumes "conn_inv s" and "i < length (neRequests s)" and "\<not> mayBeListed p" and "\<not> writing (rqPhase (neRequests s ! i))"
  shows "conn_inv (setPhase i p (removePending (rqID (neRequests s ! i)) s))"
proof -
  have st: "started s" and t: "table_ok s" using assms(1) conn_inv_started by (auto simp: conn_inv_def)
  have np: "\<not> writing p" "sentOn p = None" using assms(3) by (cases p; simp)+
  have ok: "request_ok (neConn s) (listed s i) (neRequests s ! i)" using assms(1,2) by (simp add: conn_inv_def requests_ok_def)
  show ?thesis
  proof (cases "map_of (nePending s) (rqID (neRequests s ! i))")
    case None
    then have nl: "\<not> listed s i" using listed_found [OF t, of i] by auto
    have "conn_inv (setPhase i p s)" unfolding setPhase_def
      by (rule onRequest_inv) (use assms ok nl np in \<open>auto simp: request_ok_def request_core_def\<close>)
    with removePending_unknown [OF assms(1) None] show ?thesis by simp
  next
    case (Some k)
    note fl = found_listed [OF t Some]
    have k: "k = i" using fl assms(1,2) by (auto simp: conn_inv_def ids_ok_def distinct_conv_nth)
    have "request_ok (neConn s) False ((releaseNativePending (neRequests s ! i))\<lparr>rqPhase := p\<rparr>)"
      by (rule taken_ok [OF _ assms(3)]) (use ok fl k in simp)
    then have "started (onRequest i (\<lambda>r. (releaseNativePending r)\<lparr>rqPhase := p\<rparr>) (dropPending (rqID (neRequests s ! i)) s))"
      using taken_started [OF st Some] k np assms(4) by auto
    then show ?thesis using removePending_found [OF t Some] k drained_inv by simp
  qed
qed


subsection \<open>Every step keeps the invariant\<close>

lemmas inv_parts = conn_inv_def ids_ok_def table_ok_def requests_ok_def writer_ok_def drain_ok_def life_ok_def
  hasLivePendingLocked_def listed_def

lemma request_of: "conn_inv s \<Longrightarrow> i < length (neRequests s) \<Longrightarrow> request_ok (neConn s) (listed s i) (neRequests s ! i)"
  by (simp add: conn_inv_def requests_ok_def)

lemma phaseAt_live: "phaseAt i s = p \<Longrightarrow> p \<noteq> RqDone \<Longrightarrow> i < length (neRequests s) \<and> rqPhase (neRequests s ! i) = p"
  by (auto simp: phaseAt_def split: if_splits)

lemma life_change:
  assumes "conn_inv s" and "neRequests s' = neRequests s" and "nePending s' = nePending s" and "neNextID s' = neNextID s"
    and "neWriter s' = neWriter s" and "neConn s' = neConn s" and "neGoAway s' = neGoAway s" and "life_ok s'"
  shows "conn_inv s'"
  using assms unfolding conn_inv_def ids_ok_def table_ok_def requests_ok_def writer_ok_def drain_ok_def
    hasLivePendingLocked_def listed_def by simp

lemma inv_life: "conn_inv s \<Longrightarrow> life_ok s"
  by (simp add: conn_inv_def)

lemma join_inv:
  assumes "conn_inv s"
  shows "conn_inv (joinConnectAttempt s)"
  by (rule life_change [OF assms]) (use inv_life [OF assms] in \<open>auto simp: joinConnectAttempt_def life_ok_def split: option.splits\<close>)

lemma leave_inv:
  assumes "conn_inv s"
  shows "conn_inv (releaseConnectWaiter a s)"
  by (rule life_change [OF assms]) (use inv_life [OF assms] in \<open>auto simp: releaseConnectWaiter_def life_ok_def Let_def\<close>)

lemma connected_ok: "request_ok None l r \<Longrightarrow> request_ok conn l r"
  by (auto simp: request_ok_def)

lemma install_conn_inv:
  assumes "conn_inv s" and "neConn s = None" and "\<not> neClosed s"
  shows "conn_inv ((installNativeConnectionLocked s)\<lparr>neInFlight := None\<rparr>)"
proof -
  have "request_ok (Some (neGeneration s)) (listed s i) (neRequests s ! i)" if "i < length (neRequests s)" for i
    using request_of [OF assms(1) that] assms(2) by (simp add: connected_ok)
  with assms show ?thesis by (auto simp: installNativeConnectionLocked_def inv_parts)
qed

lemma opened_inv:
  assumes "conn_inv s"
  shows "conn_inv (finishConnectAttempt a opened s)"
proof (cases "neInFlight s = Some a")
  case True
  with assms have "neConn s = None" by (auto simp: conn_inv_def life_ok_def)
  show ?thesis
  proof (cases "opened \<and> \<not> neClosed s \<and> \<not> neRetiring s")
    case True
    with \<open>neInFlight s = Some a\<close> have "finishConnectAttempt a opened s = (installNativeConnectionLocked s)\<lparr>neInFlight := None\<rparr>"
      by (simp add: finishConnectAttempt_def Let_def installNativeConnectionLocked_def)
    with install_conn_inv assms \<open>neConn s = None\<close> True show ?thesis by simp
  next
    case False
    with \<open>neInFlight s = Some a\<close> have "finishConnectAttempt a opened s = s\<lparr>neInFlight := None\<rparr>"
      by (auto simp: finishConnectAttempt_def Let_def)
    with life_change [OF assms, of "s\<lparr>neInFlight := None\<rparr>"] assms show ?thesis by (simp add: conn_inv_def life_ok_def)
  qed
next
  case False
  with assms show ?thesis by (simp add: finishConnectAttempt_def Let_def)
qed

lemma end_life_inv:
  assumes "conn_inv s" and "neRequests s' = neRequests s" and "nePending s' = nePending s" and "neNextID s' = neNextID s"
    and "neWriter s' = neWriter s" and "neConn s' = neConn s" and "neClosed s'"
  shows "conn_inv (disconnect err s')"
  by (rule disconnect_inv) (use assms in \<open>simp_all add: inv_parts\<close>)

lemma begin_inv:
  assumes "conn_inv s"
  shows "conn_inv (beginRequest s)"
  by (rule life_change [OF assms]) (use inv_life [OF assms] in \<open>auto simp: beginRequest_def life_ok_def\<close>)

lemma end_request_inv:
  assumes "conn_inv s"
  shows "conn_inv (endRequest s)"
proof (cases "neActive s - 1 \<noteq> 0 \<or> \<not> neRetiring s \<or> neClosed s")
  case True
  then have "endRequest s = s\<lparr>neActive := neActive s - 1\<rparr>" by (auto simp: endRequest_def Let_def)
  moreover have "conn_inv (s\<lparr>neActive := neActive s - 1\<rparr>)"
    by (rule life_change [OF assms]) (use inv_life [OF assms] True in \<open>auto simp: life_ok_def\<close>)
  ultimately show ?thesis by simp
next
  case False
  then have "endRequest s = disconnect ErrNetClosed (s\<lparr>neActive := neActive s - 1, neClosed := True\<rparr>)"
    by (auto simp: endRequest_def Let_def)
  then show ?thesis using end_life_inv [OF assms] by simp
qed

lemma retire_inv:
  assumes "conn_inv s"
  shows "conn_inv (retire s)"
proof (cases "neClosed s \<or> neRetiring s")
  case True
  with assms show ?thesis by (auto simp: retire_def)
next
  case False
  show ?thesis
  proof (cases "neActive s = 0")
    case True
    with False have "retire s = disconnect ErrNetClosed (s\<lparr>neRetiring := True, neClosed := True\<rparr>)" by (simp add: retire_def Let_def)
    then show ?thesis using end_life_inv [OF assms] by simp
  next
    case active: False
    with False have "retire s = s\<lparr>neRetiring := True\<rparr>" by (simp add: retire_def Let_def)
    moreover have "conn_inv (s\<lparr>neRetiring := True\<rparr>)"
      by (rule life_change [OF assms]) (use inv_life [OF assms] active in \<open>auto simp: life_ok_def\<close>)
    ultimately show ?thesis by simp
  qed
qed

lemma close_executor_inv: "conn_inv s \<Longrightarrow> conn_inv (closeExecutorConn s)"
  by (auto simp: closeExecutorConn_def intro: end_life_inv)

lemma disconnect_any_inv: "conn_inv s \<Longrightarrow> conn_inv (disconnect err s)"
  using conn_inv_started started_disconnect by blast

lemma unat_less_2p: "unat (n :: 64 word) < 2 ^ 64"
  using unsigned_less [of n] by simp

lemma next_id:
  assumes "conn_inv s" and "neNextID s \<noteq> -1"
  shows "nextRequestIDLocked (map fst (nePending s)) (neNextID s) = Some (neNextID s + 1)" and "neNextID s < neNextID s + 1"
proof -
  from assms(2) have "unat (neNextID s) \<noteq> unat (-1 :: 64 word)" by (simp only: word_unat_eq_iff simp_thms)
  then have "unat (neNextID s) < 2 ^ 64 - 1" using unat_less_2p [of "neNextID s"] by (simp add: unsigned_minus_1_eq_mask mask_eq_exp_minus_1)
  then show less: "neNextID s < neNextID s + 1" by (simp add: word_less_nat_alt unat_word_ariths)
  have "neNextID s + 1 \<notin> set (map fst (nePending s))"
  proof
    assume "neNextID s + 1 \<in> set (map fst (nePending s))"
    then obtain i where "(neNextID s + 1, i) \<in> set (nePending s)" by auto
    with assms(1) have "i < length (neRequests s)" "rqID (neRequests s ! i) = neNextID s + 1" by (auto simp: conn_inv_def table_ok_def)
    with assms(1) have "neNextID s + 1 \<le> neNextID s" by (metis conn_inv_def ids_ok_def nth_mem)
    with less show False by simp
  qed
  with less show "nextRequestIDLocked (map fst (nePending s)) (neNextID s) = Some (neNextID s + 1)"
    by (subst nextRequestIDLocked.simps) (auto simp: Let_def)
qed


lemma handshake_inv:
  assumes "conn_inv s" and "neNextID s \<noteq> -1"
  shows "conn_inv (withNextID (\<lambda>_ s. s) s)"
proof -
  note n = next_id [OF assms]
  have "ids_ok (s\<lparr>neNextID := neNextID s + 1\<rparr>)" using assms(1) n(2) by (fastforce simp: conn_inv_def ids_ok_def)
  with assms(1) have "conn_inv (s\<lparr>neNextID := neNextID s + 1\<rparr>)"
    unfolding conn_inv_def table_ok_def requests_ok_def writer_ok_def drain_ok_def life_ok_def hasLivePendingLocked_def listed_def
    by simp
  then show ?thesis by (simp add: withNextID_def n(1))
qed

lemma new_request_ok: "request_ok conn True \<lparr>rqOpcode = opcode, rqLane = lane, rqCredit = credit, rqAbandoned = False,
    rqID = reqID, rqExpected = expected, rqTook = credit, rqReleased = 0, rqInbox = [], rqPhase = RqRegistered\<rparr>"
  by (simp add: request_ok_def request_core_def)

lemma add_pending_inv:
  assumes "conn_inv s" and "neNextID s \<noteq> -1"
  shows "conn_inv (addPendingRequest opcode lane expected credit s)"
proof -
  note n = next_id [OF assms]
  let ?len = "length (neRequests s)" and ?id = "neNextID s + 1"
  let ?r = "\<lparr>rqOpcode = opcode, rqLane = lane, rqCredit = credit, rqAbandoned = False, rqID = ?id, rqExpected = expected,
      rqTook = credit, rqReleased = 0, rqInbox = [], rqPhase = RqRegistered\<rparr>"
  let ?s = "s\<lparr>neNextID := ?id, nePending := (?id, ?len) # nePending s, neRequests := neRequests s @ [?r]\<rparr>"
  have t: "i < ?len" if "(k, i) \<in> set (nePending s)" for k i using assms(1) that by (auto simp: conn_inv_def table_ok_def)
  have ids: "rqID r \<le> neNextID s" if "r \<in> set (neRequests s)" for r using assms(1) that by (auto simp: conn_inv_def ids_ok_def)
  then have fresh: "rqID r \<noteq> ?id" if "r \<in> set (neRequests s)" for r using that n(2) by fastforce
  have keys: "?id \<notin> fst ` set (nePending s)"
    using assms(1) fresh by (fastforce simp: conn_inv_def table_ok_def)
  have "ids_ok ?s" using assms(1) ids fresh n(2) by (fastforce simp: conn_inv_def ids_ok_def)
  moreover have "table_ok ?s" using assms(1) t keys by (force simp: conn_inv_def table_ok_def nth_append)
  moreover have "requests_ok ?s"
    unfolding requests_ok_def
  proof (intro allI impI)
    fix i assume i: "i < length (neRequests ?s)"
    show "request_ok (neConn ?s) (listed ?s i) (neRequests ?s ! i)"
    proof (cases "i = ?len")
      case True
      then show ?thesis using new_request_ok by (simp add: listed_def)
    next
      case False
      with i have "i < ?len" by simp
      with request_of [OF assms(1) this] show ?thesis by (simp add: listed_def nth_append)
    qed
  qed
  moreover have "writer_ok ?s" using assms(1) by (auto simp: conn_inv_def writer_ok_def nth_append less_Suc_eq)
  moreover have "drain_ok ?s"
    using assms(1) t by (auto simp: conn_inv_def drain_ok_def hasLivePendingLocked_def list_ex_iff nth_append)
  moreover have "life_ok ?s" using assms(1) by (simp add: conn_inv_def life_ok_def)
  ultimately show ?thesis by (simp add: conn_inv_def addPendingRequest_def withNextID_def n(1))
qed

lemma give_up_inv:
  assumes "conn_inv s" and "i < length (neRequests s)" and "rqPhase (neRequests s ! i) = RqRegistered"
  shows "conn_inv (setPhase i RqNotSent s)"
  unfolding setPhase_def
  by (rule onRequest_inv) (use assms request_of [OF assms(1,2)] in \<open>auto simp: request_ok_def request_core_def\<close>)

text \<open>A request changes its phase, and with it perhaps the write lock changes hands.\<close>

lemma rephase_inv:
  assumes "conn_inv s" and "i < length (neRequests s)" and "request_ok (neConn s) (listed s i) ((neRequests s ! i)\<lparr>rqPhase := p\<rparr>)"
    and "neRequests s' = (neRequests s)[i := (neRequests s ! i)\<lparr>rqPhase := p\<rparr>]" and "nePending s' = nePending s"
    and "neNextID s' = neNextID s" and "neConn s' = neConn s" and "neGoAway s' = neGoAway s" and "life_ok s'"
    and "writer_ok s'" and "neGoAway s \<longrightarrow> neWriter s' = None"
  shows "conn_inv s'"
proof -
  have nth: "neRequests s' ! j = (if j = i then (neRequests s ! i)\<lparr>rqPhase := p\<rparr> else neRequests s ! j)"
    if "j < length (neRequests s)" for j using that assms(4) by (auto simp: nth_list_update)
  have len: "length (neRequests s') = length (neRequests s)" using assms(4) by simp
  have "ids_ok s'" by (rule ids_same [of _ s]) (use assms(1,6) len nth in \<open>auto simp: conn_inv_def\<close>)
  moreover have "table_ok s'" using assms(1,5) len nth by (auto simp: conn_inv_def table_ok_def)
  moreover have "requests_ok s'"
    unfolding requests_ok_def
  proof (intro allI impI)
    fix j assume "j < length (neRequests s')"
    then have j: "j < length (neRequests s)" using len by simp
    have "listed s' j = listed s j" using assms(5) by (simp add: listed_def)
    with nth [OF j] request_of [OF assms(1) j] assms(3,7) show "request_ok (neConn s') (listed s' j) (neRequests s' ! j)" by simp
  qed
  moreover have "drain_ok s'"
  proof -
    have "b < length (neRequests s)" if "b \<in> set (map snd (nePending s))" for b
      using assms(1) that by (auto simp: conn_inv_def table_ok_def)
    then have "hasLivePendingLocked s' = hasLivePendingLocked s"
      by (intro live_other assms(5)) (simp add: nth)
    with assms show ?thesis by (simp add: drain_ok_def conn_inv_def)
  qed
  ultimately show ?thesis using assms(9,10) by (simp add: conn_inv_def)
qed

lemma rephase_ok:
  assumes "request_ok conn l r" and "mayBeListed (rqPhase r)" and "mayBeListed p"
    and "sentOn p \<noteq> None \<longrightarrow> sentOn p = conn \<or> sentOn p = sentOn (rqPhase r)"
  shows "request_ok conn l (r\<lparr>rqPhase := p\<rparr>)"
  using assms by (auto simp: request_ok_def request_core_def split: if_splits)

lemma start_write_inv:
  assumes "conn_inv s" and "i < length (neRequests s)" and "rqPhase (neRequests s ! i) = RqRegistered" and "neWriter s = None"
  shows "conn_inv (startWrite i s)"
proof (cases "neConn s \<noteq> Some (rqExpected (neRequests s ! i)) \<or> neGoAway s")
  case True
  then show ?thesis using give_up_inv [OF assms(1-3)] by (simp add: startWrite_def Let_def)
next
  case False
  let ?p = "RqWriting (rqExpected (neRequests s ! i))"
  have "request_ok (neConn s) (listed s i) ((neRequests s ! i)\<lparr>rqPhase := ?p\<rparr>)"
    by (rule rephase_ok [OF request_of [OF assms(1,2)]]) (use assms(3) False in auto)
  moreover have "writer_ok (startWrite i s)"
    using False assms by (auto simp: startWrite_def Let_def setPhase_def onRequest_nth conn_inv_def writer_ok_def split: if_splits)
  moreover have "life_ok (startWrite i s)"
    using False assms(1) by (simp add: startWrite_def Let_def setPhase_def conn_inv_def life_ok_def)
  ultimately show ?thesis using False
    by (intro rephase_inv [OF assms(1,2), where p = ?p]) (auto simp: startWrite_def Let_def setPhase_def onRequest_def)
qed

lemma end_write_inv:
  assumes "conn_inv s"
  shows "conn_inv (endWrite i written (phaseAt i s) s)"
proof (cases "phaseAt i s")
  case (RqWriting c)
  then have i: "i < length (neRequests s)" "rqPhase (neRequests s ! i) = RqWriting c" using phaseAt_live by auto
  define q where "q = (if written then RqWaiting c else RqWriteFailed c)"
  let ?s = "(setPhase i q s)\<lparr>neWriter := None\<rparr>"
  have "request_ok (neConn s) (listed s i) ((neRequests s ! i)\<lparr>rqPhase := q\<rparr>)"
    by (rule rephase_ok [OF request_of [OF assms i(1)]]) (use i(2) in \<open>auto simp: q_def\<close>)
  moreover have "neWriter s = Some i" using assms i by (auto simp: conn_inv_def writer_ok_def)
  then have "writer_ok ?s"
    using assms i by (auto simp: setPhase_def onRequest_nth conn_inv_def writer_ok_def q_def split: if_splits)
  moreover have "life_ok ?s" using assms by (simp add: setPhase_def conn_inv_def life_ok_def)
  ultimately have "conn_inv ?s"
    by (intro rephase_inv [OF assms i(1), where p = q]) (auto simp: setPhase_def onRequest_def)
  with RqWriting show ?thesis by (simp add: q_def)
qed (use assms in auto)

lemma forget_request_inv:
  assumes "conn_inv s"
  shows "conn_inv (forgetRequest i (phaseAt i s) s)"
  using assms by (cases "phaseAt i s") (auto intro!: remove_inv dest!: phaseAt_live)

lemma done_inv:
  assumes "conn_inv s" and "i < length (neRequests s)" and "\<not> writing (rqPhase (neRequests s ! i))" and "\<not> listed s i"
  shows "conn_inv (setPhase i RqDone s)"
  unfolding setPhase_def
  by (rule onRequest_inv) (use assms request_of [OF assms(1,2)] in \<open>auto simp: request_ok_def request_core_def\<close>)

lemma close_current_sel [simp]:
  "length (neRequests (closeConnAndFailPendingIfCurrent c err s)) = length (neRequests s)"
  by (simp add: closeConnAndFailPendingIfCurrent_def)

lemma close_current_phase:
  "table_ok s \<Longrightarrow> i < length (neRequests s) \<Longrightarrow>
   rqPhase (neRequests (closeConnAndFailPendingIfCurrent c err s) ! i) = rqPhase (neRequests s ! i)"
  by (simp add: closeConnAndFailPendingIfCurrent_def disconnect_nth)

lemma close_current_listed: "listed (closeConnAndFailPendingIfCurrent c err s) i \<Longrightarrow> listed s i"
  by (auto simp: closeConnAndFailPendingIfCurrent_def listed_def split: if_splits)

lemma close_done_inv:
  assumes "conn_inv s" and "i < length (neRequests s)" and "\<not> writing (rqPhase (neRequests s ! i))" and "\<not> listed s i"
  shows "conn_inv (setPhase i RqDone (closeConnAndFailPendingIfCurrent c err s))"
proof (rule done_inv)
  have t: "table_ok s" using assms(1) by (simp add: conn_inv_def)
  from close_current_inv [OF assms(1)] show "conn_inv (closeConnAndFailPendingIfCurrent c err s)" .
  from assms(2) show "i < length (neRequests (closeConnAndFailPendingIfCurrent c err s))" by simp
  from assms(3) close_current_phase [OF t assms(2)] show "\<not> writing (rqPhase (neRequests (closeConnAndFailPendingIfCurrent c err s) ! i))"
    by simp
  from assms(4) close_current_listed show "\<not> listed (closeConnAndFailPendingIfCurrent c err s) i" by blast
qed

lemma reset_inv:
  assumes "conn_inv s"
  shows "conn_inv (resetAfterWrite i err (phaseAt i s) s)"
proof (cases "phaseAt i s")
  case (RqReset c)
  then have i: "i < length (neRequests s)" "rqPhase (neRequests s ! i) = RqReset c" using phaseAt_live by auto
  with request_of [OF assms i(1)] have "\<not> listed s i" by (auto simp: request_ok_def request_core_def split: if_splits)
  with close_done_inv [OF assms i(1)] i RqReset show ?thesis by simp
qed (use assms in auto)

lemma receive_inv:
  assumes "conn_inv s"
  shows "conn_inv (receive i (phaseAt i s) (rqInbox (neRequests s ! i)) s)"
proof (cases "phaseAt i s")
  case (RqWaiting c)
  then have i: "i < length (neRequests s)" "rqPhase (neRequests s ! i) = RqWaiting c" using phaseAt_live by auto
  show ?thesis
  proof (cases "rqInbox (neRequests s ! i)")
    case Nil
    with RqWaiting assms show ?thesis by simp
  next
    case (Cons m ms)
    with request_of [OF assms i(1)] have nl: "\<not> listed s i" by (auto simp: request_ok_def request_core_def)
    have "conn_inv (setPhase i RqDone s)" by (rule done_inv) (use assms i nl in auto)
    moreover have "conn_inv (setPhase i RqDone (closeConnAndFailPendingIfCurrent c responseMismatch s))"
      by (rule close_done_inv) (use assms i nl in auto)
    ultimately show ?thesis using RqWaiting Cons by (cases m) auto
  qed
qed (use assms in auto)


text \<open>A draining connection ends when no live request is left.\<close>

lemma draining_inv:
  assumes "started s" and "neConn s \<noteq> None" and "neWriter s = None"
  shows "conn_inv (if \<not> hasLivePendingLocked (s\<lparr>neGoAway := True\<rparr>)
    then disconnect err (s\<lparr>neGoAway := True\<rparr>) else s\<lparr>neGoAway := True\<rparr>)"
proof -
  have "started (s\<lparr>neGoAway := True\<rparr>)"
    using assms unfolding started_def ids_ok_def table_ok_def requests_ok_def writer_ok_def life_ok_def listed_def by simp
  with started_disconnect [OF this, of err] conn_inv_started show ?thesis by auto
qed

lemma go_away_inv: "conn_inv s \<Longrightarrow> neWriter s = None \<Longrightarrow> conn_inv (handleGoAway c s)"
  using draining_inv [of s ErrConnectionUnavailable] by (simp add: handleGoAway_def Let_def conn_inv_started)

lemma cancel_data_inv:
  assumes "conn_inv s" and "i < length (neRequests s)" and "rqPhase (neRequests s ! i) = RqWaiting c" and "neWriter s = None"
  shows "conn_inv (cancelPendingDataRequest (rqID (neRequests s ! i)) c (setPhase i RqDone s))"
proof -
  have t: "table_ok s" and st: "started s" using assms(1) conn_inv_started by (auto simp: conn_inv_def)
  let ?id = "rqID (neRequests s ! i)"
  have map: "map_of (nePending (setPhase i RqDone s)) ?id = map_of (nePending s) ?id" by (simp add: setPhase_def)
  show ?thesis
  proof (cases "map_of (nePending s) ?id")
    case None
    then have "\<not> listed s i" using listed_found [OF t, of i] by auto
    with done_inv [OF assms(1,2)] assms(3) None map show ?thesis by (simp add: cancelPendingDataRequest_def)
  next
    case (Some k)
    note fl = found_listed [OF t Some]
    have k: "k = i" using fl assms(1,2) by (auto simp: conn_inv_def ids_ok_def distinct_conv_nth)
    have ok: "request_ok (neConn s) True (neRequests s ! i)" using request_of [OF assms(1,2)] fl k by simp
    with assms(3) have conn: "neConn s = Some c" by (auto simp: request_ok_def request_core_def)
    let ?s = "onRequest i (\<lambda>r. r\<lparr>rqPhase := RqDone, rqAbandoned := True\<rparr>) s"
    have "started ?s"
      by (rule onRequest_started [OF st assms(2)]) (use ok fl k assms(3) in \<open>auto simp: request_ok_def request_core_def\<close>)
    then have *: "conn_inv (if \<not> hasLivePendingLocked (?s\<lparr>neGoAway := True\<rparr>)
        then disconnect ErrConnectionUnavailable (?s\<lparr>neGoAway := True\<rparr>) else ?s\<lparr>neGoAway := True\<rparr>)"
      by (rule draining_inv) (use conn assms(4) in auto)
    have g: "?s\<lparr>neGoAway := True\<rparr> = ?s" if "neGoAway s" using that by (simp add: onRequest_def)
    then have "cancelPendingDataRequest ?id c (setPhase i RqDone s) =
        (if \<not> hasLivePendingLocked (?s\<lparr>neGoAway := True\<rparr>)
        then disconnect ErrConnectionUnavailable (?s\<lparr>neGoAway := True\<rparr>) else ?s\<lparr>neGoAway := True\<rparr>)"
      using Some k conn by (cases "neGoAway s") (simp_all add: cancelPendingDataRequest_def Let_def setPhase_def onRequest_twice g)
    with * show ?thesis by simp
  qed
qed

lemma cancel_request_inv:
  assumes "conn_inv s"
  shows "conn_inv (cancelRequest i (phaseAt i s) s)"
proof (cases "phaseAt i s")
  case (RqWaiting c)
  then have i: "i < length (neRequests s)" "rqPhase (neRequests s ! i) = RqWaiting c" using phaseAt_live by auto
  with RqWaiting remove_inv [OF assms i(1), of RqDone] cancel_data_inv [OF assms i] assms show ?thesis by (simp add: Let_def)
qed (use assms in auto)

lemma frame_inv: "conn_inv s \<Longrightarrow> conn_inv (validateNativeWireFrameTuple c reqID opcode lane s)"
  by (simp add: validateNativeWireFrameTuple_def close_current_inv split: option.splits)

lemma response_inv:
  assumes "conn_inv s"
  shows "conn_inv (dispatchResponse c frame s)"
proof (cases "neConn s = Some c")
  case conn: True
  have t: "table_ok s" and st: "started s" using assms conn_inv_started by (auto simp: conn_inv_def)
  show ?thesis
  proof (cases "map_of (nePending s) (wrID frame)")
    case None
    with st conn show ?thesis by (simp add: dispatchResponse_def drained_inv)
  next
    case (Some i)
    note fl = found_listed [OF t Some]
    show ?thesis
    proof (cases "rqOpcode (neRequests s ! i) \<noteq> wrOpcode frame \<or> rqLane (neRequests s ! i) \<noteq> wrLane frame")
      case True
      with Some conn assms show ?thesis by (auto simp: dispatchResponse_def close_current_inv)
    next
      case False
      have "request_ok (neConn s) True (neRequests s ! i)" using request_of [OF assms fl(2)] fl(1) by simp
      moreover have "answers (neRequests s ! i) (MResponse frame)" using False fl(3) by (simp add: answers_def)
      ultimately have "request_ok (neConn s) False (settle (MResponse frame) (neRequests s ! i))" by (rule settle_ok)
      then have "started (onRequest i (settle (MResponse frame)) (dropPending (wrID frame) s))"
        by (intro taken_started [OF st Some]) simp_all
      with Some conn False show ?thesis by (simp add: dispatchResponse_def drained_inv)
    qed
  qed
qed (use assms in \<open>simp add: dispatchResponse_def\<close>)

lemma conn_step_inv: "conn_inv s \<Longrightarrow> conn_inv (conn_step ev s)"
  by (cases ev)
    (auto simp: closeConnAndFailPendingUnlessRetiring_def intro: join_inv leave_inv opened_inv begin_inv end_request_inv retire_inv
      close_executor_inv handshake_inv add_pending_inv give_up_inv start_write_inv end_write_inv forget_request_inv reset_inv receive_inv
      cancel_request_inv frame_inv response_inv go_away_inv close_current_inv disconnect_any_inv dest: phaseAt_live)

interpretation connection: event_machine conn_step conn_inv
  by unfold_locales (rule conn_step_inv)

subsection \<open>What callers can rely on\<close>

definition connRun :: "conn_event list \<Rightarrow> native_executor" where
  "connRun evs = fold conn_step evs newNativeExecutor"

lemma run_conn_inv: "conn_inv (connRun evs)"
  unfolding connRun_def using new_executor_inv by (rule connection.run_inv)

text \<open>
  C1. Whatever the order of calls, writes, responses, GOAWAY, cancellations and failures: request numbers are
  pairwise different; no channel ever gets two messages, and the message a caller gets, when it is a
  response, carries the number, the opcode and the lane of its own request; a caller that still waits is in
  the table under its number, and the connection it wrote to is the live one, so that a response, or the end
  of the connection, reaches it; and a flow credit is held exactly while the request is in the table, and is
  released once.
\<close>

theorem requests_settled_once:
  "distinct (map rqID (neRequests (connRun evs))) \<and>
   list_all (\<lambda>i. let s = connRun evs; r = neRequests s ! i in
     length (rqInbox r) \<le> 1 \<and> list_all (answers r) (rqInbox r) \<and>
     (sentOn (rqPhase r) = None \<or> rqInbox r \<noteq> [] \<or>
        (map_of (nePending s) (rqID r) = Some i \<and> neConn s = sentOn (rqPhase r))) \<and>
     (rqCredit r \<longleftrightarrow> rqTook r \<and> i \<in> snd ` set (nePending s)) \<and>
     rqReleased r = (if rqTook r \<and> \<not> rqCredit r then 1 else 0))
     [0..<length (neRequests (connRun evs))]"
proof -
  let ?s = "connRun evs"
  have "length (rqInbox r) \<le> 1 \<and> list_all (answers r) (rqInbox r) \<and> (sentOn (rqPhase r) = None \<or> rqInbox r \<noteq> [] \<or>
        (map_of (nePending ?s) (rqID r) = Some i \<and> neConn ?s = sentOn (rqPhase r))) \<and>
      (rqCredit r \<longleftrightarrow> rqTook r \<and> i \<in> snd ` set (nePending ?s)) \<and>
      rqReleased r = (if rqTook r \<and> \<not> rqCredit r then 1 else 0)"
    if i: "i < length (neRequests ?s)" and r: "r = neRequests ?s ! i" for i r
  proof -
    have ok: "request_ok (neConn ?s) (listed ?s i) r" using request_of [OF run_conn_inv i] r by simp
    have "map_of (nePending ?s) (rqID r) = Some i" if "listed ?s i"
      using listed_found [OF _ that] run_conn_inv [of evs] r by (simp add: conn_inv_def)
    moreover note request_ok_parts(1-4) [OF ok]
    moreover have "sentOn (rqPhase r) = None \<or> rqInbox r \<noteq> [] \<or> (listed ?s i \<and> neConn ?s = sentOn (rqPhase r))"
      using request_ok_parts(5,6) [OF ok] sentOn_listed by (cases "sentOn (rqPhase r)") auto
    ultimately show ?thesis unfolding listed_def set_map by blast
  qed
  moreover have "distinct (map rqID (neRequests (connRun evs)))"
    using run_conn_inv [of evs] unfolding conn_inv_def ids_ok_def by blast
  ultimately show ?thesis unfolding list_all_iff Let_def set_upt by (intro conjI ballI) (simp_all only: atLeastLessThan_iff)
qed

lemma wire_sel [simp]:
  "neWire (setPhase i p s) = neWire s" "neWire (disconnectIfDrained s) = neWire s" "neWire (removePending k s) = neWire s"
  "neWire (closeConnAndFailPendingIfCurrent c err s) = neWire s" "neWire (withNextID (\<lambda>_ s. s) s) = neWire s"
  "neWire (addPendingRequest opcode lane expected credit s) = neWire s"
  by (auto simp: setPhase_def disconnectIfDrained_def removePending_def closeConnAndFailPendingIfCurrent_def withNextID_def
      addPendingRequest_def Let_def split: option.splits)

lemma start_only_writes: "neGoAway s \<Longrightarrow> neWire (startWrite i s) = neWire s"
  by (simp add: startWrite_def Let_def)

lemma draining_wire:
  assumes "neGoAway s"
  shows "neWire (conn_step ev s) = neWire s"
proof (cases ev)
  case (NeEndWrite i written)
  then show ?thesis by (cases "phaseAt i s") simp_all
next
  case (NeForget i)
  then show ?thesis by (cases "phaseAt i s") simp_all
next
  case (NeReset i err)
  then show ?thesis by (cases "phaseAt i s") simp_all
next
  case (NeReceive i)
  then show ?thesis by (cases "(i, phaseAt i s, rqInbox (neRequests s ! i), s)" rule: receive.cases) simp_all
next
  case (NeCancel i)
  then show ?thesis by (cases "phaseAt i s") (simp_all add: cancelPendingDataRequest_def Let_def split: option.splits)
qed (use assms start_only_writes in \<open>auto simp: joinConnectAttempt_def releaseConnectWaiter_def finishConnectAttempt_def
    installNativeConnectionLocked_def beginRequest_def endRequest_def retire_def closeExecutorConn_def
    validateNativeWireFrameTuple_def dispatchResponse_def handleGoAway_def closeConnAndFailPendingUnlessRetiring_def Let_def
    split: option.splits\<close>)

text \<open>
  A draining connection: after GOAWAY, or after a data request was cancelled, the connection stays only as
  long as a live request is on it, nobody is in the middle of a write when draining begins, and no step
  writes a request to it.
\<close>

theorem draining_writes_nothing:
  assumes "neGoAway (connRun evs)"
  shows "neConn (connRun evs) \<noteq> None \<and> hasLivePendingLocked (connRun evs) \<and> neWriter (connRun evs) = None \<and>
    neWire (conn_step ev (connRun evs)) = neWire (connRun evs)"
  using run_conn_inv [of evs] draining_wire [OF assms] assms by (simp add: conn_inv_def drain_ok_def)

lemma closed_stays: "neClosed s \<Longrightarrow> neClosed (conn_step ev s)"
proof (cases ev)
  case (NeEndWrite i written)
  assume "neClosed s"
  with NeEndWrite show ?thesis by (cases "phaseAt i s") (simp_all add: setPhase_def)
next
  case (NeForget i)
  assume "neClosed s"
  with NeForget show ?thesis
    by (cases "phaseAt i s") (simp_all add: setPhase_def removePending_def disconnectIfDrained_def Let_def split: option.splits)
next
  case (NeReset i err)
  assume "neClosed s"
  with NeReset show ?thesis by (cases "phaseAt i s") (simp_all add: setPhase_def closeConnAndFailPendingIfCurrent_def)
next
  case (NeReceive i)
  assume "neClosed s"
  with NeReceive show ?thesis
    by (cases "(i, phaseAt i s, rqInbox (neRequests s ! i), s)" rule: receive.cases)
      (simp_all add: setPhase_def closeConnAndFailPendingIfCurrent_def)
next
  case (NeCancel i)
  assume "neClosed s"
  with NeCancel show ?thesis
    by (cases "phaseAt i s") (simp_all add: setPhase_def removePending_def disconnectIfDrained_def cancelPendingDataRequest_def Let_def
        split: option.splits)
qed (auto simp: joinConnectAttempt_def releaseConnectWaiter_def finishConnectAttempt_def withNextID_def addPendingRequest_def
    installNativeConnectionLocked_def beginRequest_def endRequest_def retire_def closeExecutorConn_def setPhase_def startWrite_def
    validateNativeWireFrameTuple_def dispatchResponse_def handleGoAway_def closeConnAndFailPendingUnlessRetiring_def
    closeConnAndFailPendingIfCurrent_def disconnectIfDrained_def Let_def split: option.splits)

text \<open>
  A closed executor stays without a connection: whatever attempts, requests and responses were under way,
  none of them brings a connection back.
\<close>

theorem closed_never_reconnects:
  assumes "neClosed (connRun evs)"
  shows "neConn (connRun (evs @ later)) = None"
proof -
  have "neClosed (connRun (evs @ later))"
    using assms by (induction later rule: rev_induct) (simp_all add: connRun_def closed_stays)
  with run_conn_inv [of "evs @ later"] show ?thesis by (simp add: conn_inv_def life_ok_def)
qed

text \<open>
  A run: a connection is opened and a request is written to it; GOAWAY comes before its response; then the
  executor is closed.
\<close>

definition sampleConnEvents :: "conn_event list" where
  "sampleConnEvents = [NeJoin, NeOpened 0 True, NeBegin, NeRegister 0x0100 1 0 True, NeStartWrite 0, NeEndWrite 0 True,
     NeGoAwayFrame 0]"

lemma sample_next_id: "nextRequestIDLocked [] 0 = Some 1"
  by (subst nextRequestIDLocked.simps) (simp add: Let_def)

lemmas conn_steps = joinConnectAttempt_def finishConnectAttempt_def installNativeConnectionLocked_def beginRequest_def
  addPendingRequest_def withNextID_def startWrite_def setPhase_def onRequest_def phaseAt_def handleGoAway_def
  hasLivePendingLocked_def closeExecutorConn_def disconnect_def failNativePending_def closeConnLocked_def

lemma sample_conn_run:
  "neGoAway (connRun sampleConnEvents)" "neConn (connRun sampleConnEvents) = Some 0"
  "neWire (connRun sampleConnEvents) = [(0, 1, 0)]" "neClosed (connRun (sampleConnEvents @ [NeClose]))"
  by (simp_all add: connRun_def sampleConnEvents_def newNativeExecutor_def conn_steps sample_next_id Let_def)

lemma sample_conn_request:
  "rqPhase (neRequests (connRun sampleConnEvents) ! 0) = RqWaiting 0" "rqInbox (neRequests (connRun sampleConnEvents) ! 0) = []"
  "rqID (neRequests (connRun sampleConnEvents) ! 0) = 1" "length (neRequests (connRun sampleConnEvents)) = 1"
  by (simp_all add: connRun_def sampleConnEvents_def newNativeExecutor_def conn_steps sample_next_id Let_def)

theorem requests_settled_once_witness:
  "map_of (nePending (connRun sampleConnEvents)) 1 = Some 0 \<and> neConn (connRun sampleConnEvents) = Some 0"
  using requests_settled_once [of sampleConnEvents] sample_conn_request by (simp add: Let_def)

theorem draining_writes_nothing_witness:
  "neWriter (connRun sampleConnEvents) = None \<and>
   neWire (conn_step (NeStartWrite 0) (connRun sampleConnEvents)) = [(0, 1, 0)]"
  using draining_writes_nothing [OF sample_conn_run(1), of "NeStartWrite 0"] sample_conn_run(3) by (simp del: conn_step.simps)

theorem closed_never_reconnects_witness:
  "neConn (connRun ((sampleConnEvents @ [NeClose]) @ [NeJoin, NeOpened 0 True])) = None"
  by (rule closed_never_reconnects [OF sample_conn_run(4)])

subsection \<open>Request numbers\<close>

lemma next_id_skips:
  "(\<And>j. j < k \<Longrightarrow> n + of_nat j + 1 = 0 \<or> n + of_nat j + 1 \<in> set used) \<Longrightarrow>
   nextRequestIDLocked used n = nextRequestIDLocked used (n + of_nat k)"
proof (induction k)
  case 0
  then show ?case by simp
next
  case (Suc k)
  then have "nextRequestIDLocked used n = nextRequestIDLocked used (n + of_nat k)" by simp
  moreover have "n + of_nat k + 1 = 0 \<or> n + of_nat k + 1 \<in> set used" using Suc.prems by simp
  ultimately show ?case
    by (subst (asm) (2) nextRequestIDLocked.simps) (auto simp: Let_def algebra_simps)
qed

text \<open>
  The search for a request number ends: as long as fewer than \<open>2 ^ 64 - 1\<close> requests are pending it finds a
  number, which is not zero and belongs to none of them.
\<close>

theorem next_request_id_terminates:
  assumes "length used < 2 ^ 64 - 1"
  shows "\<exists>reqID. nextRequestIDLocked used n = Some reqID \<and> reqID \<noteq> 0 \<and> reqID \<notin> set used"
proof -
  have "card (insert 0 (set used)) \<le> Suc (length used)" using card_length [of used] by (simp add: card_insert_if)
  also have "\<dots> < card (UNIV :: 64 word set)" using assms by (simp add: card_word)
  finally obtain x where x: "x \<noteq> 0" "x \<notin> set used" by (metis UNIV_eq_I insertCI less_irrefl)
  define good where "good k = (n + of_nat k + 1 \<noteq> 0 \<and> n + of_nat k + 1 \<notin> set used)" for k
  have "good (unat (x - n - 1))" using x by (simp add: good_def)
  then have g: "good (LEAST k. good k)" by (rule LeastI)
  define m where "m = (LEAST k. good k)"
  have gm: "n + of_nat m + 1 \<noteq> 0" "n + of_nat m + 1 \<notin> set used" using g by (simp_all add: good_def m_def)
  have "nextRequestIDLocked used n = nextRequestIDLocked used (n + of_nat m)"
    by (rule next_id_skips) (use not_less_Least [of _ good] in \<open>auto simp: good_def m_def\<close>)
  also have "\<dots> = Some (n + of_nat m + 1)"
    using gm by (subst nextRequestIDLocked.simps) (simp add: Let_def)
  finally show ?thesis using gm by blast
qed

theorem next_request_id_terminates_witness:
  "\<exists>reqID. nextRequestIDLocked [0xFFFFFFFFFFFFFFFF, 1] 0xFFFFFFFFFFFFFFFE = Some reqID \<and> reqID \<noteq> 0 \<and>
     reqID \<notin> set [0xFFFFFFFFFFFFFFFF, 1]"
  by (rule next_request_id_terminates) simp

end
