(* ===== verification/Spec2Isabelle.thy ===== *)
theory Spec2Isabelle
  imports Assembler FlowProperties HelloProperties RoutingProperties Scatter Gate Sessions Pipelines Connection
begin

text \<open>
  \<^bold>\<open>ferricstore-go\<close>: the Go client of FerricStore, a key-value and workflow ("Flow") server. This
  development models the client's own logic: the binary protocol it speaks on a connection, the
  negotiation of that protocol, the flow control of a connection, the routing of commands to the
  shards of a cluster, and the execution of commands there with their retries.

  \<^bold>\<open>How the parts fit.\<close> A command is a list of arguments. \<open>topology_routing.go\<close> and its tables find its keys
  and the slot they live in; the topology built from the server's SHARDS reply gives the endpoint and
  lane of the slot, and the topology executor the connection for that endpoint. A command whose keys live
  on several routes is planned into groups, one per route, and the replies are put together again. A transaction
  takes a connection for itself: its session holds the gate of the connection, is pinned to the slot of its
  keys, and is given back clean. The command's payload is a Go value, written by the codec of
  \<open>native_codec_wire.go\<close>. Once the flow controller of \<open>native_limits.go\<close> grants a credit, the request gets
  a number in the table of pending requests (\<open>native_request.go\<close>) and is framed and written by
  \<open>native_connection.go\<close>. Responses come back in frames, possibly in chunks (\<open>native_frame.go\<close>); the
  assembled body is decoded by the generic decoder or, when HELLO negotiated one, by a compact codec for its
  opcode, and the reader hands it to the request with its number.

  \<^bold>\<open>Theories and sources.\<close> Names are those of the source; a part of a Go function that is a definition of
  its own (a loop body, a branch) has a name of its own.
  \<^item> \<open>Prelude\<close>: results \<open>'e + 'a\<close>, loops over lists (\<open>for_each\<close>), bytes, big-endian numbers.
    \<open>Interfaces\<close>: the locales (event machines with an invariant, readers of a byte format, ...) that the
    components instantiate.
  \<^item> \<open>WireEncode\<close>, \<open>WireDecode\<close>: \<open>native_codec_wire.go\<close>, \<open>native_codec_reflect.go\<close>, \<open>native_codec_kv_wire.go\<close>,
    \<open>native_codec_decode.go\<close>. \<open>WireCodec\<close> defines the wire format of a value by itself; \<open>WireRoundtrip\<close> and
    \<open>WireComplete\<close> prove the encoder faithful to it, \<open>WireProperties\<close> states the results.
  \<^item> \<open>CompactRead\<close>, \<open>CompactFormats\<close>, \<open>CompactFlow\<close>, \<open>CompactPipeline\<close>: the compact decoders of
    \<open>native_compact*.go\<close>. \<open>CompactPipelineCorrect\<close> and \<open>CompactProperties\<close>: soundness and completeness of
    the backtracking pipeline decoder, exactness of the others.
  \<^item> \<open>FlowQueryCodec\<close>: \<open>native_flow_query_result_codec.go\<close>, \<open>native_flow_query_typed_codec.go\<close>.
  \<^item> \<open>Frames\<close>, \<open>Responses\<close>, \<open>Assembler\<close>: \<open>native_frame.go\<close> and the decoding part of \<open>native_response.go\<close>.
  \<^item> \<open>FlowControl\<close>, \<open>FlowCorrect\<close>, \<open>FlowProperties\<close>: the controller of \<open>native_limits.go\<close> as a state
    machine whose events are the atomic sections under its mutex, its invariant, and what follows.
  \<^item> \<open>GoText\<close>, \<open>ResponseMap\<close>: text operations of the standard library, \<open>response_map.go\<close>.
  \<^item> \<open>Hello\<close>, \<open>HelloSample\<close>, \<open>HelloProperties\<close>: \<open>native_server_contract.go\<close>,
    \<open>native_flow_query_contract.go\<close>, \<open>native_policy_contract.go\<close> and the limit readers of \<open>native_limits.go\<close>.
  \<^item> \<open>Slots\<close>, \<open>CommandKeys\<close>, \<open>FlowRouting\<close>, \<open>RoutingProperties\<close>: \<open>topology_routing.go\<close>, \<open>internal_key.go\<close>,
    \<open>topology_command_policy.go\<close>, \<open>topology_flow_routing.go\<close>, parts of \<open>command_validation.go\<close>. The slot of
    a Flow command is compared with a storage layout stated by itself (\<open>keptUnder\<close>, \<open>partitionTag\<close>, ...).
  \<^item> \<open>Topology\<close>, \<open>TopologyCorrect\<close>: \<open>topology_build.go\<close>, \<open>admin_response.go\<close>, \<open>topology_equal.go\<close>.
  \<^item> \<open>Retry\<close>: \<open>native_retry.go\<close>, the request loop of \<open>native_request.go\<close>, \<open>topology_reroute.go\<close>.
  \<^item> \<open>Integers\<close>: the integer replies of \<open>response.go\<close> and \<open>response_scalar_helpers.go\<close>.
  \<^item> \<open>Connection\<close>: the requests of one multiplexed connection, \<open>native_request.go\<close>, \<open>native_pending.go\<close>, the
    reader of \<open>native_reader.go\<close> and the attempts and write lock of \<open>native_connection.go\<close>, as a state machine
    over any interleaving of callers, responses, GOAWAY, cancellations and failures. No request is answered
    twice, with another's response, or never; a draining connection is written no request; a closed executor
    stays closed; the search for a request number ends.
  \<^item> \<open>Executor\<close>: the adapters, endpoint policy and installed topology of \<open>topology.go\<close>,
    \<open>topology_adapter.go\<close> and \<open>topology_snapshot.go\<close>, as a state machine; a call that looks up or makes an
    adapter, by endpoint, seed URL or URL, is a value that is continued section by section, and others run
    in between.
  \<^item> \<open>Planning\<close>, \<open>PlanningCorrect\<close>: the planners of \<open>topology_snapshot.go\<close> and \<open>topology_kv_route.go\<close>.
  \<^item> \<open>Scatter\<close>: \<open>topology_scatter_command.go\<close>, \<open>topology_scatter_retry.go\<close>, \<open>topology_errors.go\<close>.
  \<^item> \<open>Gate\<close>: the writer-preferring gate of \<open>session.go\<close> as a state machine over any interleaving of callers.
  \<^item> \<open>Commands\<close>: \<open>command_validation.go\<close>, \<open>set_command.go\<close>, \<open>expiry_validation.go\<close>,
    \<open>transaction_policy_v080.go\<close>, and the route check of \<open>topology_transaction_session.go\<close>.
  \<^item> \<open>Sessions\<close>: the sessions and transactions of \<open>transaction.go\<close> with the sessions under them, as a state
    machine over any order of calls and replies. A topology session is opened on the route of its keys; a
    command that cannot be built is answered without being sent.
  \<^item> \<open>CompactPlan\<close>: the compact pipeline payload of \<open>native_pipeline.go\<close>. \<open>Pipelines\<close>: the pipeline of
    \<open>native.go\<close> and \<open>native_pipeline.go\<close>, its chunks, their halving and their failures, with a log of what
    was sent. A build failure inside a halved chunk is reported with the wrong index; the lemma
    \<open>halved_build_failure_resends\<close> runs an instance.

  \<^bold>\<open>Modelling choices.\<close> Go integers of a fixed width are words where they can wrap; lengths, which cannot,
  are \<open>nat\<close> or \<open>int\<close>. A string is a list of characters read as its bytes. A map is the list of its entries
  in iteration order, or a partial map. Errors are datatypes, one constructor per \<open>errors.New\<close> or
  \<open>fmt.Errorf\<close> site up to the text of the message. Sections under a mutex are single steps. What an
  operation meets outside the client (replies, timers, contexts, the state other goroutines left behind)
  is an argument: a record of observations per attempt, or a function from requests to replies, over
  which the properties quantify. Counters that only ever go up by one (the topology's version) are \<open>nat\<close>.

  \<^bold>\<open>Bounds and termination.\<close> The value codecs recurse on a depth the code bounds (64), which is their
  termination measure; the pipeline decoder terminates by the attempts budget of the code and the stack of
  decisions; the capability search goes three levels deep, as its loop does; planning makes as many attempts as the code allows; a
  command is rerouted once. The request loop of a connection has no bound of its own while the server
  answers GOAWAY, so it is a partial function, and is proved to return once such answers stop. Likewise the search for the
  next request number, which is proved to end while fewer than \<open>2 ^ 64 - 1\<close> requests are pending; a run of
  \<open>Connection\<close> ends when the 64-bit counter has gone round once. No definition uses fuel that the code does
  not have.

  \<^bold>\<open>Standard library.\<close> CRC-32, SHA-256, base64, UTF-8 validity, decimal integers and the case and
  white-space functions are modelled from their definitions. Lower-casing of host names is a parameter.

  \<^bold>\<open>Not modelled.\<close> Sockets, TLS, timers and \<open>net/http\<close>; parsing of URLs, a parameter; the refresh of the
  topology and the typed MGET, DEL and EXISTS of a topology client (the generic scattered commands are
  modelled); the request payload of FLOW.QUERY; pub/sub and client-side batching; the typed client wrappers,
  which format the arguments of one command and coerce its reply; workflow workers, which run user code;
  examples and benchmarks.
\<close>

section \<open>Properties that span components\<close>

lemma add_complete_frame:
  assumes "achunks a (frame_key f) = None" and "\<not> moreChunks f"
    and "validateNativeResponseFlags (fflags f) True = Inr ()" and "0 < amaxBytes a" and "0 < amaxFrames a"
    and "int (length (fbody f)) \<le> amaxBytes a - abufferedBytes a" and "0 \<le> abufferedBytes a"
    and "abufferedFrames a < amaxFrames a"
  shows "addWithDecodeMode f mode a =
    (a, ebind (decodeNativeResponseFrameWithCodecsAndMode f (fbody f) (fflags f) (acodecs a) mode) (\<lambda>r. Inr (Some r)))"
  using assms by (simp add: addWithDecodeMode_def)

text \<open>
  C8. End to end: a value encoded by the wire codec, framed as an unflagged response within the
  size limit, is read from the connection as that response: the same request, opcode and lane, its
  status, the value in normal form, and every following byte still unread.
\<close>

theorem response_end_to_end:
  assumes "go_wf v" and "encodeNativeValueWithLimit v limit = Inr bs"
    and "int (length bs) + 2 \<le> maxBytes" and "maxBytes \<le> int nativeMaxFrameBytes"
  shows "readNativeResponseWithPolicy maxBytes codecs
      (frame_header nativeResponseVersion
         \<lparr>fflags = 0, flaneID = lane, fopcode = opcode, frequestID = reqID,
          fbody = be_bytes 2 (unat (status :: 16 word)) @ bs\<rparr> @ be_bytes 2 (unat status) @ bs @ rest) =
    Inr (\<lparr>rflags = 0, rlaneID = lane, ropcode = opcode, rrequestID = reqID, rstatus = status,
          rvalue = RGeneric (norm v), rwireBytes = length bs + 2\<rparr>, rest)"
proof -
  let ?f = "\<lparr>fflags = 0, flaneID = lane, fopcode = opcode, frequestID = reqID,
      fbody = be_bytes 2 (unat status) @ bs\<rparr>"
  let ?a = "newNativeResponseAssembler maxBytes nativeMaxResponseChunkFrames codecs"
  note enc = encode_success [OF assms(2,1)]
  have rd: "readNativeFrameWithLimit maxBytes (response_bytes ?f @ rest) () = Inr (?f, rest, ())"
    by (rule frame.rd_complete) (use assms(3,4) in \<open>simp add: pay_frame_def frame_limit_def\<close>)
  have dec: "decodeNativeResponseFrameWithCodecsAndMode ?f (fbody ?f) 0 codecs nativeResponseDecodeGeneric =
      Inr \<lparr>rflags = 0, rlaneID = lane, ropcode = opcode, rrequestID = reqID, rstatus = status,
           rvalue = RGeneric (norm v), rwireBytes = length bs + 2\<rparr>"
    using enc decodeNativeValue_iff [of bs "norm v" "[]"]
    by (simp add: decodeNativeResponseFrameWithCodecsAndMode_def validateNativeResponseFlags_def owned_is_decode
        status_print nativeMaxEncodeDepth_def nativeMaxDecodeDepth_def)
  have "add ?f ?a = (?a, Inr (Some \<lparr>rflags = 0, rlaneID = lane, ropcode = opcode, rrequestID = reqID,
      rstatus = status, rvalue = RGeneric (norm v), rwireBytes = length bs + 2\<rparr>))"
    unfolding add_def
    by (subst add_complete_frame)
      (use assms(3) dec in \<open>simp_all add: newNativeResponseAssembler_def nativeMaxResponseChunkFrames_def
        moreChunks_def validateNativeResponseFlags_def\<close>)
  with rd show ?thesis
    by (simp add: readNativeResponseWithPolicy_def readResponseLoop.simps [of maxBytes ?a])
qed

theorem response_end_to_end_witness:
  "readNativeResponseWithPolicy 100 no_codecs
      (frame_header nativeResponseVersion
         \<lparr>fflags = 0, flaneID = 1, fopcode = 0x0101, frequestID = 7,
          fbody = be_bytes 2 (unat (0 :: 16 word)) @ wire sample_value\<rparr> @
       be_bytes 2 (unat (0 :: 16 word)) @ wire sample_value @ [1, 2, 3]) =
    Inr (\<lparr>rflags = 0, rlaneID = 1, ropcode = 0x0101, rrequestID = 7, rstatus = 0,
          rvalue = RGeneric sample_value, rwireBytes = length (wire sample_value) + 2\<rparr>, [1, 2, 3])"
  using response_end_to_end [OF sample_value_ok(4) sample_value_encodes, where maxBytes = 100 and codecs = no_codecs
      and lane = 1 and opcode = "0x0101" and reqID = 7 and status = 0 and rest = "[1, 2, 3]"]
    sample_value_ok(5)
  by (simp add: sample_value_def nativeMaxFrameBytes_def)

end
